(* ===== verification/Robot_Prelude.thy ===== *)
theory Robot_Prelude
  imports Main "HOL-Library.Word" "HOL-Library.Monad_Syntax"
begin

unbundle bit_operations_syntax

text \<open>
  Vocabulary shared by every component: bytes, C strings and fixed buffers with checked
  access, the loops that copy into them, decimal printing and \<open>atoi\<close>, little-endian
  integers.

  A value of type \<open>'a option\<close> is the outcome of C code: \<open>None\<close> stands for undefined
  behaviour (an access outside an object, a null pointer, an unterminated string, an
  unrepresentable conversion). Every buffer is a list whose length is the size of the
  C object, and no operation changes that length.
\<close>

named_theorems buf_simps "evaluation and length rules of the buffer operations"

section \<open>Bytes and literals\<close>

type_synonym byte = "8 word"

definition bytes :: "string \<Rightarrow> byte list" where
  "bytes s = map of_char s"

lemma length_bytes [simp]: "length (bytes s) = length s"
  by (simp add: bytes_def)

lemma bytes_Nil [simp]: "bytes [] = []"
  by (simp add: bytes_def)

lemma bytes_Cons: "bytes (c # s) = of_char c # bytes s"
  by (simp add: bytes_def)

section \<open>Checked buffers\<close>

definition peek :: "'a list \<Rightarrow> nat \<Rightarrow> 'a option" where
  "peek b i = (if i < length b then Some (b ! i) else None)"

definition poke :: "'a list \<Rightarrow> nat \<Rightarrow> 'a \<Rightarrow> 'a list option" where
  "poke b i v = (if i < length b then Some (b[i := v]) else None)"

text \<open>\<open>memcpy(b + i, xs, length xs)\<close>, \<open>memset\<close> and a read of \<open>n\<close> bytes.\<close>

definition blit :: "'a list \<Rightarrow> nat \<Rightarrow> 'a list \<Rightarrow> 'a list option" where
  "blit b i xs = (if i + length xs \<le> length b
     then Some (take i b @ xs @ drop (i + length xs) b) else None)"

definition fill :: "'a list \<Rightarrow> nat \<Rightarrow> nat \<Rightarrow> 'a \<Rightarrow> 'a list option" where
  "fill b i n v = blit b i (replicate n v)"

definition fetch :: "'a list \<Rightarrow> nat \<Rightarrow> nat \<Rightarrow> 'a list option" where
  "fetch b i n = (if i + n \<le> length b then Some (take n (drop i b)) else None)"

text \<open>The index of an \<open>int\<close> expression: negative means before the object.\<close>

definition to_index :: "int \<Rightarrow> nat option" where
  "to_index i = (if 0 \<le> i then Some (nat i) else None)"

lemma to_index_nonneg [simp]: "0 \<le> i \<Longrightarrow> to_index i = Some (nat i)"
  by (simp add: to_index_def)

lemma to_index_neg [simp]: "i < 0 \<Longrightarrow> to_index i = None"
  by (simp add: to_index_def)

lemma peek_in [simp]: "i < length b \<Longrightarrow> peek b i = Some (b ! i)"
  by (simp add: peek_def)

lemma peek_out [simp]: "length b \<le> i \<Longrightarrow> peek b i = None"
  by (simp add: peek_def)

lemma poke_in [simp]: "i < length b \<Longrightarrow> poke b i v = Some (b[i := v])"
  by (simp add: poke_def)

lemma poke_out [simp]: "length b \<le> i \<Longrightarrow> poke b i v = None"
  by (simp add: poke_def)

lemma blit_length [buf_simps]: "blit b i xs = Some b' \<Longrightarrow> length b' = length b"
  by (auto simp: blit_def split: if_splits)

lemma blit_Some: "i + length xs \<le> length b \<Longrightarrow>
    blit b i xs = Some (take i b @ xs @ drop (i + length xs) b)"
  by (simp add: blit_def)

lemma blit_None: "length b < i + length xs \<Longrightarrow> blit b i xs = None"
  by (simp add: blit_def)

lemma blit_Nil: "i \<le> length b \<Longrightarrow> blit b i [] = Some b"
  by (simp add: blit_def)

lemma blit_blit:
  assumes "blit b i xs = Some b1"
  shows "blit b1 (i + length xs) ys = blit b i (xs @ ys)"
proof -
  from assms have le: "i + length xs \<le> length b" and b1: "b1 = take i b @ xs @ drop (i + length xs) b"
    by (auto simp: blit_def split: if_splits)
  have "length b1 = length b" using le by (simp add: b1)
  moreover have "take (i + length xs) b1 = take i b @ xs"
    using le by (simp add: b1 take_add)
  moreover have "drop (i + length xs + length ys) b1 = drop (i + (length xs + length ys)) b"
    using le by (simp add: b1 add.commute add.left_commute)
  ultimately show ?thesis by (simp add: blit_def add.assoc)
qed

lemma blit_append: "blit b i (xs @ ys) = do { b1 \<leftarrow> blit b i xs; blit b1 (i + length xs) ys }"
proof (cases "blit b i xs")
  case None
  then show ?thesis by (auto simp: blit_def split: if_splits)
next
  case (Some b1)
  then show ?thesis by (simp add: blit_blit)
qed

lemma fetch_blit:
  assumes "blit b i xs = Some b'"
  shows "fetch b' i (length xs) = Some xs"
  using assms by (auto simp: blit_def fetch_def split: if_splits)

lemma nth_blit:
  assumes "blit b i xs = Some b'" and "j < length b"
  shows "b' ! j = (if i \<le> j \<and> j < i + length xs then xs ! (j - i) else b ! j)"
  using assms by (auto simp: blit_def nth_append split: if_splits)

lemma fetch_Some: "i + n \<le> length b \<Longrightarrow> fetch b i n = Some (take n (drop i b))"
  by (simp add: fetch_def)

lemma fetch_length: "fetch b i n = Some xs \<Longrightarrow> length xs = n"
  by (auto simp: fetch_def split: if_splits)

section \<open>The contract of a checked buffer, and runs of writes\<close>

text \<open>
  \<open>write_run wr b i xs\<close> writes the elements of \<open>xs\<close> one by one, as the \<open>for\<close> loops of
  the code do. Its effect follows from four laws of single reads and writes.
\<close>

primrec write_run :: "('b \<Rightarrow> nat \<Rightarrow> 'v \<Rightarrow> 'b option) \<Rightarrow> 'b \<Rightarrow> nat \<Rightarrow> 'v list \<Rightarrow> 'b option" where
  "write_run wr b i [] = Some b"
| "write_run wr b i (x # xs) = do { b' \<leftarrow> wr b i x; write_run wr b' (Suc i) xs }"

locale checked_buffer =
  fixes rd :: "'b \<Rightarrow> nat \<Rightarrow> 'v option"
    and wr :: "'b \<Rightarrow> nat \<Rightarrow> 'v \<Rightarrow> 'b option"
    and len :: "'b \<Rightarrow> nat"
  assumes rd_bound: "rd b i = None \<longleftrightarrow> len b \<le> i"
    and wr_bound: "wr b i v = None \<longleftrightarrow> len b \<le> i"
    and wr_len: "wr b i v = Some b' \<Longrightarrow> len b' = len b"
    and rd_wr: "wr b i v = Some b' \<Longrightarrow> rd b' j = (if j = i then Some v else rd b j)"
begin

lemma wr_ok: "i < len b \<Longrightarrow> \<exists>b'. wr b i v = Some b'"
  using wr_bound [of b i v] by auto

lemma run_len: "write_run wr b i xs = Some b' \<Longrightarrow> len b' = len b"
  by (induction xs arbitrary: b i) (auto simp: bind_eq_Some_conv dest: wr_len)

lemma run_ok: "i + length xs \<le> len b \<Longrightarrow> \<exists>b'. write_run wr b i xs = Some b'"
proof (induction xs arbitrary: b i)
  case Nil
  then show ?case by simp
next
  case (Cons x xs)
  then have "i < len b" by simp
  then obtain b1 where b1: "wr b i x = Some b1" using wr_ok by blast
  then have "len b1 = len b" by (rule wr_len)
  with Cons.prems have "Suc i + length xs \<le> len b1" by simp
  then obtain b2 where "write_run wr b1 (Suc i) xs = Some b2" using Cons.IH by blast
  with b1 show ?case by simp
qed

lemma run_overflow: "len b < i + length xs \<Longrightarrow> xs \<noteq> [] \<Longrightarrow> write_run wr b i xs = None"
proof (induction xs arbitrary: b i)
  case Nil
  then show ?case by simp
next
  case (Cons x xs)
  show ?case
  proof (cases "wr b i x")
    case None
    then show ?thesis by simp
  next
    case (Some b1)
    then have len1: "len b1 = len b" and "i < len b"
      using wr_len [OF Some] wr_bound [of b i x] by auto
    with Cons.prems have "xs \<noteq> []" and "len b1 < Suc i + length xs" by auto
    then have "write_run wr b1 (Suc i) xs = None" by (rule Cons.IH [rotated])
    with Some show ?thesis by simp
  qed
qed

lemma run_rd: "write_run wr b i xs = Some b' \<Longrightarrow>
    rd b' j = (if i \<le> j \<and> j < i + length xs then Some (xs ! (j - i)) else rd b j)"
proof (induction xs arbitrary: b i)
  case Nil
  then show ?case by auto
next
  case (Cons x xs)
  from Cons.prems obtain b1 where b1: "wr b i x = Some b1"
    and rest: "write_run wr b1 (Suc i) xs = Some b'"
    by (auto simp: bind_eq_Some_conv)
  have "rd b' j = (if Suc i \<le> j \<and> j < Suc i + length xs then Some (xs ! (j - Suc i)) else rd b1 j)"
    using rest by (rule Cons.IH)
  then show ?case
    by (auto simp: rd_wr [OF b1] nth_Cons' Suc_diff_Suc)
qed

end

interpretation buf: checked_buffer peek poke length
  by unfold_locales (auto simp: peek_def poke_def split: if_splits)

lemma write_run_blit:
  assumes "i + length xs \<le> length b"
  shows "write_run poke b i xs = blit b i xs"
proof -
  obtain b' where b': "write_run poke b i xs = Some b'"
    using buf.run_ok [OF assms] by blast
  obtain b2 where b2: "blit b i xs = Some b2"
    using assms by (simp add: blit_def)
  have "length b' = length b" and "length b2 = length b"
    using buf.run_len [OF b'] blit_length [OF b2] by auto
  moreover have "b' ! j = b2 ! j" if "j < length b" for j
    using buf.run_rd [OF b', of j] nth_blit [OF b2 that] that \<open>length b' = length b\<close>
    by (auto split: if_splits)
  ultimately have "b' = b2" by (simp add: list_eq_iff_nth_eq)
  with b' b2 show ?thesis by simp
qed

section \<open>Copy loops\<close>

text \<open>
  \<open>for (k = 0; k < n; k++) d[i + k] = s[j + k];\<close> with both sides checked.
\<close>

primrec copy_loop :: "'a list \<Rightarrow> nat \<Rightarrow> 'a list \<Rightarrow> nat \<Rightarrow> nat \<Rightarrow> 'a list option" where
  "copy_loop d i s j 0 = Some d"
| "copy_loop d i s j (Suc n) =
     do { v \<leftarrow> peek s j; d' \<leftarrow> poke d i v; copy_loop d' (Suc i) s (Suc j) n }"

lemma copy_loop_run:
  "j + n \<le> length s \<Longrightarrow> copy_loop d i s j n = write_run poke d i (take n (drop j s))"
proof (induction n arbitrary: d i j)
  case 0
  then show ?case by simp
next
  case (Suc n)
  then have "take (Suc n) (drop j s) = s ! j # take n (drop (Suc j) s)"
    by (simp add: Cons_nth_drop_Suc [symmetric])
  with Suc show ?case by simp
qed

lemma copy_loop_blit:
  assumes "j + n \<le> length s" and "i + n \<le> length d"
  shows "copy_loop d i s j n = blit d i (take n (drop j s))"
  using assms by (simp add: copy_loop_run write_run_blit)

lemma copy_loop_overflow:
  assumes "j + n \<le> length s" and "length d < i + n" and "0 < n"
  shows "copy_loop d i s j n = None"
proof -
  have l: "length (take n (drop j s)) = n" using assms(1) by simp
  then have "take n (drop j s) \<noteq> []" using assms(3) by (metis length_0_conv less_numeral_extra(3))
  then show ?thesis
    unfolding copy_loop_run [OF assms(1)] using assms(2) l by (intro buf.run_overflow) auto
qed

lemma copy_loop_length [buf_simps]: "copy_loop d i s j n = Some d' \<Longrightarrow> length d' = length d"
  by (induction n arbitrary: d i j) (auto simp: bind_eq_Some_conv peek_def poke_def split: if_splits)

section \<open>C strings\<close>

text \<open>
  \<open>cstr b i\<close> is the string that starts at offset \<open>i\<close>: undefined when no NUL follows inside
  the object. \<open>sprintf_at\<close> stores formatted text with its NUL; \<open>strcpy\<close> is the same write.
\<close>

definition cstr :: "byte list \<Rightarrow> nat \<Rightarrow> byte list option" where
  "cstr b i = (if 0 \<in> set (drop i b) then Some (takeWhile (\<lambda>x. x \<noteq> 0) (drop i b)) else None)"

definition sprintf_at :: "byte list \<Rightarrow> nat \<Rightarrow> byte list \<Rightarrow> byte list option" where
  "sprintf_at b i s = blit b i (s @ [0])"

lemma takeWhile_nonzero_append:
  "0 \<notin> set s \<Longrightarrow> takeWhile (\<lambda>x. x \<noteq> 0) (s @ 0 # r) = (s :: byte list)"
  by (subst takeWhile_append2) auto

lemma cstr_stored:
  assumes "0 \<notin> set s" and "i \<le> length b"
  shows "cstr (take i b @ s @ 0 # r) i = Some s"
proof -
  have "drop i (take i b @ s @ 0 # r) = s @ 0 # r" using assms(2) by simp
  then show ?thesis unfolding cstr_def using takeWhile_nonzero_append [OF assms(1)] by simp
qed

lemma cstr_prefix: "0 \<notin> set s \<Longrightarrow> cstr (s @ 0 # r) 0 = Some s"
  by (simp add: cstr_def takeWhile_nonzero_append)

lemma cstr_no_nul: "cstr b i = Some s \<Longrightarrow> 0 \<notin> set s"
  by (auto simp: cstr_def dest: set_takeWhileD split: if_splits)

lemma cstr_sprintf:
  assumes "sprintf_at b i s = Some b'" and "0 \<notin> set s"
  shows "cstr b' i = Some s"
proof -
  from assms(1) have le: "i + Suc (length s) \<le> length b"
    and b': "b' = take i b @ s @ 0 # drop (i + Suc (length s)) b"
    by (auto simp: sprintf_at_def blit_def split: if_splits)
  from le have "i \<le> length b" by simp
  then show ?thesis unfolding b' by (rule cstr_stored [OF assms(2)])
qed

lemma cstr_blit_zeros:
  assumes "0 \<notin> set s" and "length s < n"
  shows "blit (replicate n 0) 0 s = Some (s @ replicate (n - length s) 0)"
    and "cstr (s @ replicate (n - length s) 0) 0 = Some s"
proof -
  show "blit (replicate n 0) 0 s = Some (s @ replicate (n - length s) 0)"
    using assms(2) by (simp add: blit_def)
  have "replicate (n - length s) (0::byte) = 0 # replicate (n - length s - 1) 0"
    using assms(2) by (metis Suc_diff_1 replicate_Suc zero_less_diff)
  then show "cstr (s @ replicate (n - length s) 0) 0 = Some s"
    using cstr_prefix [OF assms(1)] by simp
qed

lemma sprintf_ok:
  assumes "0 \<notin> set s" and "i + length s < length b"
  shows "\<exists>b'. sprintf_at b i s = Some b' \<and> length b' = length b \<and> cstr b' i = Some s"
proof -
  obtain b' where b': "sprintf_at b i s = Some b'"
    using assms(2) by (simp add: sprintf_at_def blit_def)
  moreover have "length b' = length b" using b' unfolding sprintf_at_def by (rule blit_length)
  ultimately show ?thesis using cstr_sprintf [OF b' assms(1)] by blast
qed

lemma sprintf_overflow: "length b \<le> i + length s \<Longrightarrow> sprintf_at b i s = None"
  by (simp add: sprintf_at_def blit_def)

section \<open>Options and pairs\<close>

lemma case_prod_Some_conv:
  "(case p of (a, b) \<Rightarrow> f a b) = Some z \<longleftrightarrow> (\<exists>a b. p = (a, b) \<and> f a b = Some z)"
  by (cases p) auto

lemma case_list_Some_conv:
  "(case xs of [] \<Rightarrow> x | y # ys \<Rightarrow> f y ys) = Some z \<longleftrightarrow>
   xs = [] \<and> x = Some z \<or> (\<exists>y ys. xs = y # ys \<and> f y ys = Some z)"
  by (cases xs) auto

lemmas run_simps = bind_eq_Some_conv case_prod_Some_conv case_list_Some_conv Let_def

end
