(* ===== verification/Robot_Numbers.thy ===== *)
theory Robot_Numbers
  imports Robot_Prelude
begin

text \<open>
  The conversions of the C library that the program's text formats rest on: \<open>"%d"\<close> as
  \<^const>\<open>sprintf_at\<close> prints it, \<open>atoi\<close>, and little-endian \<open>int\<close>s read from or copied into byte
  buffers. The main fact is that \<open>atoi\<close> reads back what \<open>"%d"\<close> printed.
\<close>

section \<open>Decimal printing\<close>

fun dec_nat :: "nat \<Rightarrow> byte list" where
  "dec_nat n = (if n < 10 then [48 + of_nat n] else dec_nat (n div 10) @ [48 + of_nat (n mod 10)])"

declare dec_nat.simps [simp del]

definition dec :: "int \<Rightarrow> byte list" where
  "dec i = (if i < 0 then 45 # dec_nat (nat (- i)) else dec_nat (nat i))"

section \<open>atoi\<close>

definition isdigit :: "byte \<Rightarrow> bool" where
  "isdigit c \<longleftrightarrow> 48 \<le> c \<and> c \<le> 57"

definition isspace :: "byte \<Rightarrow> bool" where
  "isspace c \<longleftrightarrow> c = 32 \<or> (9 \<le> c \<and> c \<le> 13)"

fun scan_digits :: "nat \<Rightarrow> byte list \<Rightarrow> nat" where
  "scan_digits acc [] = acc"
| "scan_digits acc (c # cs) =
     (if isdigit c then scan_digits (acc * 10 + unat (c - 48)) cs else acc)"

definition int32_range :: "int \<Rightarrow> bool" where
  "int32_range v \<longleftrightarrow> - (2 ^ 31) \<le> v \<and> v < 2 ^ 31"

definition to_int32 :: "int \<Rightarrow> int option" where
  "to_int32 v = (if int32_range v then Some v else None)"

definition atoi :: "byte list \<Rightarrow> int option" where
  "atoi s = (let t = dropWhile isspace s in
     case t of
       [] \<Rightarrow> Some 0
     | c # r \<Rightarrow>
         if c = 45 then to_int32 (- int (scan_digits 0 r))
         else if c = 43 then to_int32 (int (scan_digits 0 r))
         else to_int32 (int (scan_digits 0 t)))"

section \<open>Little-endian integers\<close>

text \<open>The width of \<open>long\<close> depends on the platform (4 bytes on i386, 8 on x86-64).\<close>

fun le_int :: "byte list \<Rightarrow> int" where
  "le_int [] = 0"
| "le_int (b # bs) = uint b + 256 * le_int bs"

definition signed_le :: "byte list \<Rightarrow> int" where
  "signed_le bs = signed_take_bit (8 * length bs - 1) (le_int bs)"

definition int_at :: "byte list \<Rightarrow> nat \<Rightarrow> nat \<Rightarrow> int option" where
  "int_at b i width = do { bs \<leftarrow> fetch b i width; Some (signed_le bs) }"

fun le_bytes :: "nat \<Rightarrow> int \<Rightarrow> byte list" where
  "le_bytes 0 v = []"
| "le_bytes (Suc n) v = word_of_int v # le_bytes n (v div 256)"

lemma length_le_bytes [simp]: "length (le_bytes n v) = n"
  by (induction n arbitrary: v) auto

section \<open>Digits\<close>

lemma digit_byte:
  assumes "d < 10"
  shows "isdigit (48 + of_nat d)" and "unat ((48 + of_nat d :: byte) - 48) = d"
    and "48 + of_nat d \<noteq> (0::byte)" and "unat (of_nat d :: byte) = d"
proof -
  have "d \<in> {0,1,2,3,4,5,6,7,8,9}" using assms by auto
  then show "isdigit (48 + of_nat d)" and "unat ((48 + of_nat d :: byte) - 48) = d"
    and "48 + of_nat d \<noteq> (0::byte)" and "unat (of_nat d :: byte) = d"
    by (auto simp: isdigit_def)
qed

lemma dec_nat_digits: "c \<in> set (dec_nat n) \<Longrightarrow> isdigit c"
proof (induction n rule: dec_nat.induct)
  case (1 n)
  show ?case
  proof (cases "n < 10")
    case True
    with 1 show ?thesis by (simp add: dec_nat.simps [of n] digit_byte)
  next
    case False
    with "1.prems" have "c \<in> set (dec_nat (n div 10)) \<or> c = 48 + of_nat (n mod 10)"
      by (auto simp: dec_nat.simps [of n])
    with False "1.IH" digit_byte(1) [of "n mod 10"] show ?thesis by auto
  qed
qed

lemma dec_nat_not_Nil [simp]: "dec_nat n \<noteq> []"
  by (simp add: dec_nat.simps [of n])

lemma isdigit_no_space:
  assumes "isdigit c"
  shows "\<not> isspace c" and "c \<noteq> 45" and "c \<noteq> 43" and "c \<noteq> 0" and "c \<noteq> 95"
proof -
  have "\<not> c \<le> 13"
    using assms order_trans [of 48 c 13] by (auto simp: isdigit_def)
  then show "\<not> isspace c" using assms by (auto simp: isspace_def isdigit_def)
qed (use assms in \<open>auto simp: isdigit_def\<close>)

lemma dec_nat_no_nul: "0 \<notin> set (dec_nat n)"
  using dec_nat_digits isdigit_no_space(4) by blast

lemma dec_no_nul [simp]: "0 \<notin> set (dec i)"
  by (auto simp: dec_def dec_nat_no_nul)

lemma dec_no_underscore [simp]: "95 \<notin> set (dec i)"
  using dec_nat_digits isdigit_no_space(5) by (auto simp: dec_def)

lemma dec_nat_hd: "\<exists>c r. dec_nat n = c # r \<and> isdigit c"
  using dec_nat_digits dec_nat_not_Nil by (metis list.set_intros(1) neq_Nil_conv)

section \<open>atoi reads back what was printed\<close>

lemma scan_dec_nat:
  "scan_digits acc (dec_nat n @ r) = scan_digits (acc * 10 ^ length (dec_nat n) + n) r"
proof (induction n arbitrary: acc r rule: dec_nat.induct)
  case (1 n)
  show ?case
  proof (cases "n < 10")
    case True
    then show ?thesis by (simp add: dec_nat.simps [of n] digit_byte)
  next
    case False
    then have "scan_digits acc (dec_nat n @ r) =
        scan_digits (acc * 10 ^ length (dec_nat (n div 10)) + n div 10) ([48 + of_nat (n mod 10)] @ r)"
      using "1.IH" [of acc "[48 + of_nat (n mod 10)] @ r"]
      by (simp add: dec_nat.simps [of n] del: of_nat_mod)
    also have "\<dots> = scan_digits ((acc * 10 ^ length (dec_nat (n div 10)) + n div 10) * 10 + n mod 10) r"
      using digit_byte(1,2) [of "n mod 10"] by (simp del: of_nat_mod)
    also have "(acc * 10 ^ length (dec_nat (n div 10)) + n div 10) * 10 + n mod 10 =
        acc * 10 ^ length (dec_nat n) + n"
      using False by (simp add: dec_nat.simps [of n] algebra_simps)
    finally show ?thesis .
  qed
qed

definition digit_end :: "byte list \<Rightarrow> bool" where
  "digit_end r \<longleftrightarrow> (case r of [] \<Rightarrow> True | c # _ \<Rightarrow> \<not> isdigit c)"

lemma scan_digit_end: "digit_end r \<Longrightarrow> scan_digits acc r = acc"
  by (cases r) (auto simp: digit_end_def)

lemma atoi_dec:
  assumes "int32_range i" and "digit_end r"
  shows "atoi (dec i @ r) = Some i"
proof -
  have scan: "scan_digits 0 (dec_nat n @ r) = n" for n
    using assms(2) by (simp add: scan_dec_nat scan_digit_end)
  show ?thesis
  proof (cases "i < 0")
    case True
    then show ?thesis
      using assms(1) scan by (simp add: dec_def atoi_def isspace_def to_int32_def)
  next
    case False
    obtain c t where ct: "dec_nat (nat i) = c # t" and "isdigit c"
      using dec_nat_hd by blast
    then have c: "\<not> isspace c" "c \<noteq> 45" "c \<noteq> 43"
      using isdigit_no_space by auto
    have "scan_digits 0 (c # t @ r) = nat i"
      using scan [of "nat i"] ct by simp
    then show ?thesis
      using False assms(1) c by (simp add: dec_def ct atoi_def to_int32_def)
  qed
qed

lemma digit_end_Nil [simp]: "digit_end []"
  by (simp add: digit_end_def)

lemma digit_end_underscore [simp]: "digit_end (95 # r)"
  by (simp add: digit_end_def isdigit_def)

lemma atoi_dec_Nil: "int32_range i \<Longrightarrow> atoi (dec i) = Some i"
  using atoi_dec [of i "[]"] by simp

section \<open>Length of printed numbers\<close>

lemma dec_nat_length: "n < 10 ^ k \<Longrightarrow> 0 < k \<Longrightarrow> length (dec_nat n) \<le> k"
proof (induction n arbitrary: k rule: dec_nat.induct)
  case (1 n)
  show ?case
  proof (cases "n < 10")
    case True
    with 1 show ?thesis by (simp add: dec_nat.simps [of n])
  next
    case False
    obtain j where k: "k = Suc j" using "1.prems"(2) by (cases k) auto
    with "1.prems"(1) have "n div 10 < 10 ^ j" by (auto simp: less_mult_imp_div_less mult.commute)
    moreover from k False "1.prems"(1) have "0 < j" by (cases j) auto
    ultimately have "length (dec_nat (n div 10)) \<le> j" using "1.IH" False by blast
    with False k show ?thesis by (simp add: dec_nat.simps [of n])
  qed
qed

lemma dec_length:
  assumes "- (10 ^ k) < i" and "i < 10 ^ k" and "0 < k"
  shows "length (dec i) \<le> Suc k"
proof (cases "i < 0")
  case True
  then have "nat (- i) < 10 ^ k" using assms(1) by (simp add: nat_less_iff)
  then show ?thesis using True assms(3) dec_nat_length by (simp add: dec_def)
next
  case False
  then have "nat i < 10 ^ k" using assms(2) by (simp add: nat_less_iff)
  then have "length (dec_nat (nat i)) \<le> k" using assms(3) by (rule dec_nat_length)
  then show ?thesis using False by (simp add: dec_def)
qed

lemma dec_nonneg_length: "0 \<le> i \<Longrightarrow> i < 10 ^ k \<Longrightarrow> 0 < k \<Longrightarrow> length (dec i) \<le> k"
  using dec_nat_length [of "nat i" k] by (simp add: dec_def nat_less_iff)

lemma scan_digits_bound: "scan_digits acc s < (acc + 1) * 10 ^ length s"
proof (induction s arbitrary: acc)
  case Nil
  then show ?case by simp
next
  case (Cons c s)
  show ?case
  proof (cases "isdigit c")
    case True
    have "unat (c - 48) < 10"
    proof -
      have "48 \<le> c" and "c \<le> 57" using True by (auto simp: isdigit_def)
      then have "unat (c - 48) = unat c - 48" and "unat c \<le> 57"
        by (auto simp: unat_sub word_le_nat_alt)
      then show ?thesis by simp
    qed
    then have le: "acc * 10 + unat (c - 48) + 1 \<le> (acc + 1) * 10" by simp
    have "scan_digits (acc * 10 + unat (c - 48)) s < (acc * 10 + unat (c - 48) + 1) * 10 ^ length s"
      by (rule Cons.IH)
    also have "\<dots> \<le> (acc + 1) * 10 * 10 ^ length s"
      using le by (rule mult_le_mono1)
    finally show ?thesis using True by (simp add: algebra_simps)
  next
    case False
    have "(1::nat) \<le> 10 ^ length (c # s)" by (rule one_le_power) simp
    then have "(acc + 1) * 1 \<le> (acc + 1) * 10 ^ length (c # s)" by (rule mult_le_mono2)
    then show ?thesis using False by (simp del: length_Cons)
  qed
qed

end
