(* ===== verification/Apollo_Hex.thy ===== *)
theory Apollo_Hex
  imports Robot_Numbers
begin

text \<open>
  The hexadecimal text of \<open>ApolloUtil\<close>: \<open>hextostring\<close> prints bytes as upper-case digits into a
  buffer without terminating it; the macro \<open>STRINGTOHEX\<close> packs two characters back into a
  byte, replacing every character that is not a decimal digit by \<open>'0'\<close>, also in place.
  Printing agrees with the reference \<open>hex_text\<close>, and packing inverts it exactly on binary
  coded decimal bytes.
\<close>

section \<open>Definitions\<close>

definition HIGH_HEXTOSTRING :: "byte \<Rightarrow> byte" where
  "HIGH_HEXTOSTRING x = drop_bit 4 (x AND 0xF0) + 0x30"

definition LOW_HEXTOSTRING :: "byte \<Rightarrow> byte" where
  "LOW_HEXTOSTRING x = (x AND 0xF) + 0x30"

primrec hextostring :: "byte list \<Rightarrow> nat \<Rightarrow> byte list \<Rightarrow> nat \<Rightarrow> nat \<Rightarrow> byte list option" where
  "hextostring ident d hex s 0 = Some ident"
| "hextostring ident d hex s (Suc n) = do {
     x \<leftarrow> peek hex s;
     id1 \<leftarrow> poke ident d (HIGH_HEXTOSTRING x);
     id2 \<leftarrow> poke id1 (Suc d) (LOW_HEXTOSTRING x);
     h \<leftarrow> peek id2 d;
     id3 \<leftarrow> (if 0x39 <s h then poke id2 d ((drop_bit 4 (x AND 0xF0) - 0x0A) + 0x41) else Some id2);
     l \<leftarrow> peek id3 (Suc d);
     id4 \<leftarrow> (if 0x39 <s l then poke id3 (Suc d) (((x AND 0x0F) - 0x0A) + 0x41) else Some id3);
     hextostring id4 (d + 2) hex (Suc s) n }"

text \<open>
  \<open>STRINGTOHEX(x, y)\<close> assigns to its arguments, so its effect on the text is kept:
  \<open>digit_or_zero\<close> is the value left in each place.
\<close>

definition digit_or_zero :: "byte \<Rightarrow> byte" where
  "digit_or_zero x = (if 0x30 \<le>s x \<and> x \<le>s 0x39 then x else 0x30)"

definition STRINGTOHEX :: "byte \<Rightarrow> byte \<Rightarrow> byte" where
  "STRINGTOHEX x y = push_bit 4 ((digit_or_zero x - 0x30) AND 0xFF)
     OR ((digit_or_zero y - 0x30) AND 0xFF)"

text \<open>
  \<open>for (i = 0; i < n; i++) out[i] = STRINGTOHEX(str[2*i], str[2*i+1]);\<close> as the heart-beat
  handler and the multicast sender use it; the text is returned with its replaced places.
\<close>

primrec stringtohex_loop ::
    "byte list \<Rightarrow> nat \<Rightarrow> byte list \<Rightarrow> nat \<Rightarrow> (byte list \<times> byte list) option" where
  "stringtohex_loop out i tx 0 = Some (out, tx)"
| "stringtohex_loop out i tx (Suc n) = do {
     x \<leftarrow> peek tx (2 * i);
     tx1 \<leftarrow> poke tx (2 * i) (digit_or_zero x);
     y \<leftarrow> peek tx1 (2 * i + 1);
     tx2 \<leftarrow> poke tx1 (2 * i + 1) (digit_or_zero y);
     out1 \<leftarrow> poke out i (STRINGTOHEX x y);
     stringtohex_loop out1 (Suc i) tx2 n }"

section \<open>The reference\<close>

definition hex_digit :: "byte \<Rightarrow> byte" where
  "hex_digit v = (if v \<le> 9 then 48 + v else 55 + v)"

definition hi_nibble :: "byte \<Rightarrow> byte" where
  "hi_nibble x = drop_bit 4 (x AND 0xF0)"

definition lo_nibble :: "byte \<Rightarrow> byte" where
  "lo_nibble x = x AND 0xF"

fun hex_text :: "byte list \<Rightarrow> byte list" where
  "hex_text [] = []"
| "hex_text (x # xs) = hex_digit (hi_nibble x) # hex_digit (lo_nibble x) # hex_text xs"

definition bcd :: "byte \<Rightarrow> bool" where
  "bcd x \<longleftrightarrow> hi_nibble x \<le> 9 \<and> lo_nibble x \<le> 9"

section \<open>Facts about all nibbles and bytes\<close>

lemma byte_below:
  assumes "list_all P (map word_of_nat [0..<n])" and "unat (x :: byte) < n"
  shows "P x"
proof -
  have "x = word_of_nat (unat x)" by simp
  moreover have "unat x \<in> {0..<n}" using assms(2) by simp
  ultimately have "x \<in> word_of_nat ` {0..<n}" by (rule image_eqI)
  with assms(1) show ?thesis by (auto simp: list_all_iff)
qed

lemma byte_all:
  assumes "list_all P (map word_of_nat [0..<256])"
  shows "P (x :: byte)"
proof -
  have "unat x < 2 ^ LENGTH(8)" by (rule unsigned_less)
  then have "unat x < 256" by simp
  with assms show ?thesis by (rule byte_below)
qed

lemma hi_nibble_less: "unat (hi_nibble x) < 16"
  by (rule byte_all [where x = x]) code_simp

lemma lo_nibble_less: "unat (lo_nibble x) < 16"
  by (rule byte_all [where x = x]) code_simp

lemma nibble_all:
  assumes "list_all P (map word_of_nat [0..<16])"
  shows "P (hi_nibble x)" and "P (lo_nibble x)"
  using byte_below [OF assms] hi_nibble_less lo_nibble_less by blast+

lemma hex_high:
  "(if 0x39 <s HIGH_HEXTOSTRING x then (drop_bit 4 (x AND 0xF0) - 0x0A) + 0x41
    else HIGH_HEXTOSTRING x) = hex_digit (hi_nibble x)"
  unfolding HIGH_HEXTOSTRING_def hi_nibble_def [symmetric]
  by (rule nibble_all) code_simp

lemma hex_low:
  "(if 0x39 <s LOW_HEXTOSTRING x then ((x AND 0x0F) - 0x0A) + 0x41
    else LOW_HEXTOSTRING x) = hex_digit (lo_nibble x)"
  unfolding LOW_HEXTOSTRING_def lo_nibble_def [symmetric]
  by (rule nibble_all) code_simp

lemma hex_digit_no_nul: "hex_digit (hi_nibble x) \<noteq> 0 \<and> hex_digit (lo_nibble x) \<noteq> 0
    \<and> hex_digit (hi_nibble x) \<noteq> 95 \<and> hex_digit (lo_nibble x) \<noteq> 95"
  by (intro conjI; rule nibble_all) code_simp+

lemma STRINGTOHEX_inverse_iff:
  "STRINGTOHEX (hex_digit (hi_nibble x)) (hex_digit (lo_nibble x)) = x \<longleftrightarrow> bcd x"
  by (rule byte_all [where x = x]) code_simp

lemma STRINGTOHEX_bcd: "bcd x \<Longrightarrow> STRINGTOHEX (hex_digit (hi_nibble x)) (hex_digit (lo_nibble x)) = x"
  by (simp add: STRINGTOHEX_inverse_iff)

lemma hex_digit_le9: "v \<le> 9 \<Longrightarrow> isdigit (hex_digit v)"
proof -
  assume v: "v \<le> 9"
  then have "unat v < 10" by (simp add: word_le_nat_alt)
  then have "isdigit (48 + of_nat (unat v))" by (rule digit_byte)
  with v show ?thesis by (simp add: hex_digit_def)
qed

lemma bcd_digits: "bcd x \<Longrightarrow> isdigit (hex_digit (hi_nibble x)) \<and> isdigit (hex_digit (lo_nibble x))"
  by (simp add: bcd_def hex_digit_le9)

section \<open>Printing\<close>

lemma length_hex_text [simp]: "length (hex_text xs) = 2 * length xs"
  by (induction xs) auto

lemma hex_text_append [simp]: "hex_text (xs @ ys) = hex_text xs @ hex_text ys"
  by (induction xs) auto

lemma hex_text_no_nul [simp]: "0 \<notin> set (hex_text xs)"
  using hex_digit_no_nul by (induction xs) auto

lemma hex_text_no_underscore [simp]: "95 \<notin> set (hex_text xs)"
  using hex_digit_no_nul by (induction xs) auto

lemma hextostring_step:
  assumes "s < length hex" and "Suc d < length ident"
  shows "hextostring ident d hex s (Suc n) =
    hextostring (ident[d := hex_digit (hi_nibble (hex ! s)), Suc d := hex_digit (lo_nibble (hex ! s))])
      (d + 2) hex (Suc s) n"
proof -
  let ?x = "hex ! s"
  have h: "peek (ident[d := HIGH_HEXTOSTRING ?x, Suc d := LOW_HEXTOSTRING ?x]) d = Some (HIGH_HEXTOSTRING ?x)"
    using assms(2) by simp
  show ?thesis
    using assms hex_high [of ?x] hex_low [of ?x]
    by (auto simp: h list_update_swap split: if_splits)
qed

lemma hextostring_run:
  assumes "s + n \<le> length hex" and "d + 2 * n \<le> length ident"
  shows "hextostring ident d hex s n = write_run poke ident d (hex_text (take n (drop s hex)))"
  using assms
proof (induction n arbitrary: ident d s)
  case 0
  then show ?case by simp
next
  case (Suc n)
  then have tk: "take (Suc n) (drop s hex) = hex ! s # take n (drop (Suc s) hex)"
    by (simp add: Cons_nth_drop_Suc [symmetric])
  from Suc.prems have "s < length hex" and "Suc d < length ident" by auto
  note st = hextostring_step [OF this, of n]
  show ?case
    using Suc.prems Suc.IH by (simp add: st tk del: hextostring.simps(2))
qed

lemma hextostring_blit:
  assumes "s + n \<le> length hex" and "d + 2 * n \<le> length ident"
  shows "hextostring ident d hex s n = blit ident d (hex_text (take n (drop s hex)))"
  using assms by (simp add: hextostring_run write_run_blit)

lemma hextostring_into_zeros:
  assumes "s + n \<le> length hex" and "2 * n < m"
  shows "hextostring (replicate m 0) 0 hex s n =
    Some (hex_text (take n (drop s hex)) @ replicate (m - 2 * n) 0)"
  using assms by (simp add: hextostring_blit blit_def)

section \<open>Packing\<close>

text \<open>\<open>recode\<close> is what is left of a byte that was printed and packed again.\<close>

definition recode :: "byte \<Rightarrow> byte" where
  "recode x = STRINGTOHEX (hex_digit (hi_nibble x)) (hex_digit (lo_nibble x))"

lemma recode_iff: "recode x = x \<longleftrightarrow> bcd x"
  by (simp add: recode_def STRINGTOHEX_inverse_iff)

lemma map_recode: "list_all bcd xs \<Longrightarrow> map recode xs = xs"
  by (induction xs) (simp_all add: recode_iff)

lemma stringtohex_text:
  assumes "length tx = 2 * i + length (hex_text xs) + k"
    and "drop (2 * i) tx = hex_text xs @ r" and "i + length xs \<le> length out"
  shows "\<exists>tx'. stringtohex_loop out i tx (length xs) =
    Some (take i out @ map recode xs @ drop (i + length xs) out, tx')"
  using assms
proof (induction xs arbitrary: out i tx)
  case Nil
  then show ?case by simp
next
  case (Cons x xs)
  let ?h = "hex_digit (hi_nibble x)" and ?l = "hex_digit (lo_nibble x)"
  have lt: "Suc (2 * i) < length tx" "i < length out" using Cons.prems(1,3) by auto
  have d0: "tx ! (2 * i) = ?h" and d1: "tx ! Suc (2 * i) = ?l"
    and dr: "drop (2 * Suc i) tx = hex_text xs @ r"
  proof -
    have e: "drop (2 * i) tx = ?h # ?l # hex_text xs @ r" using Cons.prems(2) by simp
    have "drop (2 * i) tx ! 0 = tx ! (2 * i)" and "drop (2 * i) tx ! 1 = tx ! Suc (2 * i)"
      using lt by (simp_all add: nth_drop)
    with e show "tx ! (2 * i) = ?h" and "tx ! Suc (2 * i) = ?l" by simp_all
    have "drop (2 * Suc i) tx = drop 2 (drop (2 * i) tx)" by (simp add: add.commute)
    with e show "drop (2 * Suc i) tx = hex_text xs @ r" by simp
  qed
  let ?t = "tx[2 * i := digit_or_zero ?h, Suc (2 * i) := digit_or_zero ?l]"
  have "drop (2 * Suc i) ?t = hex_text xs @ r" using dr by simp
  moreover have "length ?t = 2 * Suc i + length (hex_text xs) + k" using Cons.prems(1) by simp
  ultimately obtain tx' where
    "stringtohex_loop (out[i := recode x]) (Suc i) ?t (length xs) =
      Some (take (Suc i) (out[i := recode x]) @ map recode xs @ drop (Suc i + length xs) (out[i := recode x]), tx')"
    using Cons.IH [of ?t "Suc i" "out[i := recode x]"] Cons.prems(3) by auto
  then show ?case
    using lt d0 d1
    by (simp add: take_Suc_conv_app_nth nth_list_update recode_def [of x, symmetric])
qed

lemma stringtohex_bcd:
  assumes "list_all bcd xs" and "length tx = 2 * i + length (hex_text xs) + k"
    and "drop (2 * i) tx = hex_text xs @ r" and "i + length xs \<le> length out"
  shows "\<exists>tx'. stringtohex_loop out i tx (length xs) = Some (take i out @ xs @ drop (i + length xs) out, tx')"
  using stringtohex_text [OF assms(2-4)] map_recode [OF assms(1)] by simp

end
