(* ===== verification/Apollo_Text.thy ===== *)
theory Apollo_Text
  imports Apollo_Hex
begin

text \<open>
  The text helpers of \<open>ApolloUtil.c\<close>: splitting a command at a separator (\<open>Separation\<close>),
  the integer parser \<open>apollo_atoi\<close>, the byte comparison \<open>apollo_strcmp\<close>, the file names of
  block and AGPS data, and the time header. The splitter agrees with a reference splitter
  on every sequence whose parts fit its 32-byte cell, and is undefined on every other one.
\<close>

section \<open>Separation\<close>

text \<open>
  \<open>ChArray\<close> is the 32-byte scratch cell and \<open>j\<close> its fill; each table entry is a heap cell
  of \<open>j + 1\<close> bytes. The table grows by one slot before it is written, so its slots are
  never exceeded.
\<close>

fun separation_loop ::
    "byte \<Rightarrow> byte list \<Rightarrow> byte list \<Rightarrow> nat \<Rightarrow> byte list list \<Rightarrow> byte list list option" where
  "separation_loop ch [] ChArray j pTable =
     do { cell \<leftarrow> fetch ChArray 0 (j + 1); Some (pTable @ [cell]) }"
| "separation_loop ch (c # cs) ChArray j pTable =
     (if c = ch then do {
        cell \<leftarrow> fetch ChArray 0 (j + 1);
        separation_loop ch cs (replicate 32 0) 0 (pTable @ [cell]) }
      else do {
        ChArray' \<leftarrow> poke ChArray j c;
        separation_loop ch cs ChArray' (j + 1) pTable })"

definition Separation :: "byte \<Rightarrow> byte list \<Rightarrow> (byte list list \<times> nat) option" where
  "Separation ch sequence = do {
     pTable \<leftarrow> separation_loop ch sequence (replicate 32 0) 0 [];
     Some (pTable, length pTable) }"

text \<open>The reference: split at every separator, and its inverse.\<close>

fun split_on :: "byte \<Rightarrow> byte list \<Rightarrow> byte list list" where
  "split_on ch [] = [[]]"
| "split_on ch (c # cs) =
     (if c = ch then [] # split_on ch cs
      else (case split_on ch cs of [] \<Rightarrow> [[c]] | p # ps \<Rightarrow> (c # p) # ps))"

fun join_with :: "byte \<Rightarrow> byte list list \<Rightarrow> byte list" where
  "join_with ch [] = []"
| "join_with ch [p] = p"
| "join_with ch (p # q # ps) = p @ ch # join_with ch (q # ps)"

definition fits_cell :: "byte list \<Rightarrow> bool" where
  "fits_cell p \<longleftrightarrow> length p < 32"

lemma split_on_not_Nil [simp]: "split_on ch s \<noteq> []"
  by (induction s) (auto split: list.splits)

lemma join_split: "join_with ch (split_on ch s) = s"
proof (induction s)
  case Nil
  then show ?case by simp
next
  case (Cons c s)
  obtain p ps where ps: "split_on ch s = p # ps" by (cases "split_on ch s") auto
  then show ?case using Cons by (cases ps) auto
qed

lemma split_on_append_sep: "ch \<notin> set p \<Longrightarrow> split_on ch (p @ ch # s) = p # split_on ch s"
  by (induction p) auto

lemma split_on_single: "ch \<notin> set p \<Longrightarrow> split_on ch p = [p]"
  by (induction p) auto

lemma separation_loop_split:
  assumes "length acc \<le> 32"
  shows "separation_loop ch s (acc @ replicate (32 - length acc) 0) (length acc) tbl =
    (let parts = (case split_on ch s of [] \<Rightarrow> [acc] | p # ps \<Rightarrow> (acc @ p) # ps) in
     if list_all fits_cell parts then Some (tbl @ map (\<lambda>p. p @ [0]) parts) else None)"
  using assms
proof (induction s arbitrary: acc tbl)
  case Nil
  show ?case
  proof (cases "length acc < 32")
    case True
    then have "replicate (32 - length acc) (0::byte) = 0 # replicate (31 - length acc) 0"
      by (simp add: Suc_diff_le flip: replicate_Suc)
    with True show ?thesis by (simp add: fetch_def fits_cell_def)
  next
    case False
    with Nil show ?thesis by (simp add: fetch_def fits_cell_def)
  qed
next
  case (Cons c s)
  have zero: "separation_loop ch s (replicate 32 0) 0 t =
      (if list_all fits_cell (split_on ch s)
       then Some (t @ map (\<lambda>p. p @ [0]) (split_on ch s)) else None)" for t
    using Cons.IH [of "[]" t] by (cases "split_on ch s") (simp_all add: Let_def)
  have cell: "fetch (acc @ replicate (32 - length acc) 0) 0 (Suc (length acc)) =
      (if length acc < 32 then Some (acc @ [0]) else None)"
  proof (cases "length acc < 32")
    case True
    then have "replicate (32 - length acc) (0::byte) = 0 # replicate (31 - length acc) 0"
      by (simp add: Suc_diff_le flip: replicate_Suc)
    with True show ?thesis by (simp add: fetch_def)
  qed (use Cons.prems in \<open>simp add: fetch_def\<close>)
  show ?case
  proof (cases "c = ch")
    case True
    then show ?thesis by (simp add: cell zero Let_def) (simp add: fits_cell_def)
  next
    case False
    obtain p ps where ps: "split_on ch s = p # ps" by (cases "split_on ch s") auto
    show ?thesis
    proof (cases "length acc < 32")
      case True
      then have "(acc @ replicate (32 - length acc) 0)[length acc := c] =
          (acc @ [c]) @ replicate (32 - length (acc @ [c])) 0"
        by (simp add: list_update_append Suc_diff_Suc flip: replicate_Suc)
          (simp add: Suc_diff_Suc [symmetric])
      moreover have "length (acc @ [c]) \<le> 32" using True by simp
      ultimately show ?thesis
        using Cons.IH [of "acc @ [c]" tbl] True False ps by (simp add: Let_def)
    next
      case full: False
      with Cons.prems have "length acc = 32" by simp
      then show ?thesis using False ps by (simp add: Let_def fits_cell_def)
    qed
  qed
qed

lemma Separation_split:
  "Separation ch s = (if list_all fits_cell (split_on ch s)
     then Some (map (\<lambda>p. p @ [0]) (split_on ch s), length (split_on ch s)) else None)"
  using separation_loop_split [of "[]" ch s "[]"]
  by (cases "split_on ch s") (auto simp: Separation_def Let_def)

section \<open>apollo_atoi and apollo_strcmp\<close>

text \<open>
  The pointer walks over every character that is \<^emph>\<open>not\<close> a space. The argument is the rest
  of the object from the pointer on; walking past it is undefined.
\<close>

fun skip_nonspace :: "byte list \<Rightarrow> byte list option" where
  "skip_nonspace [] = None"
| "skip_nonspace (c # cs) = (if isspace c then Some (c # cs) else skip_nonspace cs)"

fun atoi_digits :: "int \<Rightarrow> byte list \<Rightarrow> int option" where
  "atoi_digits v [] = None"
| "atoi_digits v (c # cs) =
     (if isdigit c then do { v' \<leftarrow> to_int32 (v * 10 + uint c - 48); atoi_digits v' cs } else Some v)"

definition apollo_atoi :: "byte list \<Rightarrow> int option" where
  "apollo_atoi pstr = do {
     p \<leftarrow> skip_nonspace pstr;
     c \<leftarrow> peek p 0;
     let sign = (if c = 45 then -1 else 1);
     let q = (if c = 45 \<or> c = 43 then drop 1 p else p);
     v \<leftarrow> atoi_digits 0 q;
     to_int32 (sign * v) }"

lemma isspace_no_digit: "isspace c \<Longrightarrow> \<not> isdigit c \<and> c \<noteq> 45 \<and> c \<noteq> 43"
  using isdigit_no_space(1) by (auto simp: isspace_def)

lemma skip_nonspace_Some: "skip_nonspace s = Some p \<Longrightarrow> \<exists>c r. p = c # r \<and> isspace c"
  by (induction s) (auto split: if_splits)

lemma skip_nonspace_None: "skip_nonspace s = None \<longleftrightarrow> (\<forall>c \<in> set s. \<not> isspace c)"
  by (induction s) auto

lemma apollo_atoi_cases:
  "apollo_atoi s = (if \<exists>c \<in> set s. isspace c then Some 0 else None)"
proof (cases "skip_nonspace s")
  case None
  then have "\<not> (\<exists>c \<in> set s. isspace c)" by (simp add: skip_nonspace_None)
  with None show ?thesis by (simp add: apollo_atoi_def)
next
  case (Some p)
  then obtain c r where p: "p = c # r" and c: "isspace c" using skip_nonspace_Some by blast
  have "\<exists>c \<in> set s. isspace c" using Some skip_nonspace_None [of s] by auto
  then show ?thesis
    using Some p isspace_no_digit [OF c]
    by (simp add: apollo_atoi_def Let_def to_int32_def int32_range_def)
qed

primrec apollo_strcmp_loop :: "byte list \<Rightarrow> nat \<Rightarrow> byte list \<Rightarrow> nat \<Rightarrow> nat \<Rightarrow> int option" where
  "apollo_strcmp_loop s1 i s2 j 0 = Some 1"
| "apollo_strcmp_loop s1 i s2 j (Suc n) = do {
     a \<leftarrow> peek s1 i; b \<leftarrow> peek s2 j;
     if a \<noteq> b then Some 0 else apollo_strcmp_loop s1 (Suc i) s2 (Suc j) n }"

definition apollo_strcmp :: "byte list \<Rightarrow> nat \<Rightarrow> byte list \<Rightarrow> nat \<Rightarrow> nat \<Rightarrow> int option" where
  "apollo_strcmp str1 i str2 j str1len = apollo_strcmp_loop str1 i str2 j str1len"

lemma apollo_strcmp_iff:
  assumes "i + n \<le> length s1" and "j + n \<le> length s2"
  shows "apollo_strcmp s1 i s2 j n =
    Some (if take n (drop i s1) = take n (drop j s2) then 1 else 0)"
  using assms unfolding apollo_strcmp_def
proof (induction n arbitrary: i j)
  case 0
  then show ?case by simp
next
  case (Suc n)
  then have "take (Suc n) (drop i s1) = s1 ! i # take n (drop (Suc i) s1)"
    and "take (Suc n) (drop j s2) = s2 ! j # take n (drop (Suc j) s2)"
    by (simp_all add: Cons_nth_drop_Suc [symmetric])
  with Suc show ?case by simp
qed

section \<open>File names\<close>

text \<open>\<open>DATA_SAVE_TYPE\<close> selects the directory; the repository commits \<open>DISTRBUTE_SAVE\<close>.\<close>

datatype data_save_type = DISTRBUTE_SAVE | DISK_FILE_SAVE

definition genBlockFileName :: "byte list \<Rightarrow> byte list \<Rightarrow> byte list option" where
  "genBlockFileName sender filename = sprintf_at filename 0 (sender @ bytes ''.dat'')"

definition block_path :: "data_save_type \<Rightarrow> byte list \<Rightarrow> byte list" where
  "block_path save name = (case save of
     DISTRBUTE_SAVE \<Rightarrow> bytes ''/usr/RServer/block_data/'' @ name
   | DISK_FILE_SAVE \<Rightarrow> bytes ''block_data/'' @ name)"

definition agps_path :: "data_save_type \<Rightarrow> byte list \<Rightarrow> byte list" where
  "agps_path save name = (case save of
     DISTRBUTE_SAVE \<Rightarrow> bytes ''/usr/RServer/agps_data/'' @ name @ bytes ''_agps.dat''
   | DISK_FILE_SAVE \<Rightarrow> bytes ''agps_data/'' @ name @ bytes ''_agps.dat'')"

definition genBlockFilePathName ::
    "data_save_type \<Rightarrow> byte list \<Rightarrow> byte list \<Rightarrow> byte list option" where
  "genBlockFilePathName save filename pathname = do {
     name \<leftarrow> cstr filename 0; sprintf_at pathname 0 (block_path save name) }"

definition genAgpsFilePathName ::
    "data_save_type \<Rightarrow> byte list \<Rightarrow> byte list \<Rightarrow> byte list option" where
  "genAgpsFilePathName save filename pathname = do {
     name \<leftarrow> cstr filename 0; sprintf_at pathname 0 (agps_path save name) }"

lemma block_path_no_nul: "0 \<notin> set name \<Longrightarrow> 0 \<notin> set (block_path save name)"
  by (cases save) (auto simp: block_path_def bytes_def)

lemma agps_path_no_nul: "0 \<notin> set name \<Longrightarrow> 0 \<notin> set (agps_path save name)"
  by (cases save) (auto simp: agps_path_def bytes_def)

section \<open>Time header\<close>

record tm =
  tm_sec :: int
  tm_min :: int
  tm_hour :: int
  tm_mday :: int
  tm_mon :: int
  tm_year :: int
  tm_wday :: int

definition writeTimeHeader :: "tm \<Rightarrow> byte list \<Rightarrow> nat \<Rightarrow> byte list option" where
  "writeTimeHeader t buf i = do {
     b0 \<leftarrow> poke buf i (word_of_int (tm_year t - 100));
     b1 \<leftarrow> poke b0 (i + 1) (word_of_int (tm_mon t));
     b2 \<leftarrow> poke b1 (i + 2) (word_of_int (tm_wday t));
     b3 \<leftarrow> poke b2 (i + 3) (word_of_int (tm_mday t));
     b4 \<leftarrow> poke b3 (i + 4) (word_of_int (tm_hour t));
     b5 \<leftarrow> poke b4 (i + 5) (word_of_int (tm_min t));
     poke b5 (i + 6) (word_of_int (tm_sec t)) }"

definition time_bytes :: "tm \<Rightarrow> byte list" where
  "time_bytes t = map word_of_int
     [tm_year t - 100, tm_mon t, tm_wday t, tm_mday t, tm_hour t, tm_min t, tm_sec t]"

lemma writeTimeHeader_blit:
  assumes "i + 7 \<le> length buf"
  shows "writeTimeHeader t buf i = blit buf i (time_bytes t)"
proof -
  have "writeTimeHeader t buf i = write_run poke buf i (time_bytes t)"
    using assms by (simp add: writeTimeHeader_def time_bytes_def add.commute eval_nat_numeral)
  also have "\<dots> = blit buf i (time_bytes t)"
    using assms by (intro write_run_blit) (simp add: time_bytes_def)
  finally show ?thesis .
qed

text \<open>C's \<open>tm_year % 100\<close> truncates towards zero.\<close>

definition c_mod :: "int \<Rightarrow> int \<Rightarrow> int" where
  "c_mod a b = sgn a * (\<bar>a\<bar> mod \<bar>b\<bar>)"

definition writeLogFileTimeStamp :: "tm \<Rightarrow> byte list \<Rightarrow> (byte list \<times> nat) option" where
  "writeLogFileTimeStamp t buf = do {
     let s = bytes '' ['' @ dec (c_mod (tm_year t) 100) @ bytes ''-'' @ dec (tm_mon t) @ bytes ''-''
       @ dec (tm_mday t) @ bytes '' '' @ dec (tm_hour t) @ bytes '':'' @ dec (tm_min t)
       @ bytes '':'' @ dec (tm_sec t) @ bytes ''] '';
     buf' \<leftarrow> sprintf_at buf 0 s;
     Some (buf', length s) }"

end
