(* ===== verification/Apollo_World.thy ===== *)
theory Apollo_World
  imports Apollo_Text
begin

text \<open>
  What the handlers act on. \<open>'w externals\<close> collects the operations of the libraries that are
  not part of the repository (hiredis, libzdb, libevent) and the two compile-time choices
  the code depends on; their combined state is the type parameter \<open>'w\<close>. The record
  \<open>'w world\<close> adds the parts the C library owns: files, the local time, threads that were
  started and descriptors that were closed. \<open>write_dat\<close> and \<open>read_dat\<close> are the file
  accesses of \<open>ApolloUtil.c\<close>.
\<close>

section \<open>External services\<close>

datatype reply_type =
    REDIS_REPLY_STRING | REDIS_REPLY_ARRAY | REDIS_REPLY_INTEGER
  | REDIS_REPLY_NIL | REDIS_REPLY_STATUS | REDIS_REPLY_ERROR

record redisReply =
  reply_type :: reply_type
  reply_str :: "byte list option"

type_synonym sql_row = "byte list option list"

text \<open>
  \<open>redisCommand\<close> answers a null pointer (\<open>None\<close>) when the connection failed. The two libzdb
  statements yield \<open>None\<close> when they raise an SQL exception, which nothing in the program
  catches. A result set is the list of rows \<open>ResultSet_next\<close> delivers.
  \<open>evbuffer_remove n\<close> takes at most \<open>n\<close> bytes from the input of the connection
  (\<open>[]\<close>: nothing there, or an error); \<open>evbuffer_add\<close> and \<open>bufferevent_write_buffer\<close> act on
  its output, the latter answering \<open>True\<close> on failure.
\<close>

record 'w externals =
  save_type :: data_save_type
  sizeof_long :: nat
  redisCommand :: "byte list \<Rightarrow> 'w \<Rightarrow> redisReply option \<times> 'w"
  ConnectionPool_getConnection :: "'w \<Rightarrow> nat option \<times> 'w"
  Connection_execute :: "nat \<Rightarrow> byte list \<Rightarrow> byte list list \<Rightarrow> 'w \<Rightarrow> 'w option"
  Connection_executeQuery ::
    "nat \<Rightarrow> byte list \<Rightarrow> byte list list \<Rightarrow> 'w \<Rightarrow> (sql_row list option \<times> 'w) option"
  Connection_close :: "nat \<Rightarrow> 'w \<Rightarrow> 'w"
  evbuffer_remove :: "nat \<Rightarrow> 'w \<Rightarrow> byte list \<times> 'w"
  evbuffer_add :: "byte list \<Rightarrow> 'w \<Rightarrow> 'w"
  bufferevent_write_buffer :: "'w \<Rightarrow> bool \<times> 'w"

section \<open>Threads and the world\<close>

text \<open>
  The argument a thread is started with: the two HTTP threads get a pointer into the
  packet buffer of the connection, which keeps changing, so no content is recorded.
\<close>

record MulticastSynerPacket =
  syn_DeviceId :: "byte list"
  syn_flag :: byte

datatype thread_start =
    Start_http_device_falldown
  | Start_http_post
  | Start_ubloxDownloadApgs "byte list" "byte list" "byte list"
  | Start_ApolloSynerAction MulticastSynerPacket
  | Start_ApolloSyner

record 'w world =
  ext :: 'w
  files :: "byte list \<rightharpoonup> byte list"
  creatable :: "byte list \<Rightarrow> bool"
  localtime_now :: tm
  started :: "thread_start list"
  closed_fds :: "int list"

definition pthread_create :: "thread_start \<Rightarrow> 'w world \<Rightarrow> 'w world" where
  "pthread_create t w = w\<lparr>started := started w @ [t]\<rparr>"

text \<open>Lifting an external operation to the world.\<close>

definition with_ext :: "('w \<Rightarrow> 'a \<times> 'w) \<Rightarrow> 'w world \<Rightarrow> 'a \<times> 'w world" where
  "with_ext f w = (case f (ext w) of (a, e) \<Rightarrow> (a, w\<lparr>ext := e\<rparr>))"

text \<open>Only the external part differs: the frame of every Redis and SQL operation.\<close>

definition same_but_ext :: "'w world \<Rightarrow> 'w world \<Rightarrow> bool" where
  "same_but_ext w w' \<longleftrightarrow> w' = w\<lparr>ext := ext w'\<rparr>"

lemma same_but_ext_refl [simp]: "same_but_ext w w"
  by (simp add: same_but_ext_def)

lemma same_but_ext_update [simp]: "same_but_ext w (w\<lparr>ext := e\<rparr>)"
  by (simp add: same_but_ext_def)

lemma same_but_ext_iff:
  "same_but_ext w w' \<longleftrightarrow> files w' = files w \<and> creatable w' = creatable w
    \<and> localtime_now w' = localtime_now w \<and> started w' = started w
    \<and> closed_fds w' = closed_fds w \<and> world.more w' = world.more w"
  by (cases w; cases w') (auto simp: same_but_ext_def)

lemma same_but_ext_trans: "same_but_ext u v \<Longrightarrow> same_but_ext v w \<Longrightarrow> same_but_ext u w"
  by (simp add: same_but_ext_iff)

lemma same_but_ext_fields:
  assumes "same_but_ext w w'"
  shows "files w' = files w" and "creatable w' = creatable w"
    and "localtime_now w' = localtime_now w" and "started w' = started w"
    and "closed_fds w' = closed_fds w"
  using assms by (simp_all add: same_but_ext_iff)

lemma with_ext_eq: "with_ext f w = (a, w') \<longleftrightarrow> (\<exists>e. f (ext w) = (a, e) \<and> w' = w\<lparr>ext := e\<rparr>)"
  by (cases "f (ext w)") (auto simp: with_ext_def)

lemma with_ext_frame: "with_ext f w = (a, w') \<Longrightarrow> same_but_ext w w'"
  by (auto simp: with_ext_def split: prod.splits)

section \<open>Files\<close>

text \<open>
  \<open>fopen\<close> yields a null stream when the file cannot be created or does not exist; the code
  hands that null stream to \<open>fwrite\<close> and \<open>fread\<close>, which is undefined.
\<close>

definition write_dat :: "byte list \<Rightarrow> byte list \<Rightarrow> int \<Rightarrow> 'w world \<Rightarrow> (int \<times> 'w world) option" where
  "write_dat filename data len w = do {
     path \<leftarrow> cstr filename 0;
     if \<not> creatable w path then None
     else do {
       n \<leftarrow> to_index len;
       xs \<leftarrow> fetch data 0 n;
       Some (len, w\<lparr>files := (files w)(path \<mapsto> xs)\<rparr>) } }"

definition read_dat :: "byte list \<Rightarrow> byte list \<Rightarrow> nat \<Rightarrow> 'w world \<Rightarrow> (nat \<times> byte list) option" where
  "read_dat filename data len w = do {
     path \<leftarrow> cstr filename 0;
     content \<leftarrow> files w path;
     let xs = take len content;
     data' \<leftarrow> blit data 0 xs;
     Some (length xs, data') }"

lemma write_then_read:
  assumes "write_dat filename data (int n) w = Some (r, w')"
    and "n \<le> len" and "n \<le> length buf0"
  shows "read_dat filename buf0 len w' = Some (n, take n data @ drop n buf0)"
proof -
  obtain path where p: "cstr filename 0 = Some path"
    and n: "n \<le> length data" and w': "w' = w\<lparr>files := (files w)(path \<mapsto> take n data)\<rparr>"
    using assms(1)
    by (auto simp: write_dat_def fetch_def bind_eq_Some_conv split: if_splits)
  show ?thesis
    using assms(2,3) n by (simp add: read_dat_def p w' blit_def min_def)
qed

end
