(* ===== verification/Apollo_Constants.thy ===== *)
theory Apollo_Constants
  imports Apollo_World
begin

text \<open>
  The macros of \<open>ApolloProtocol.h\<close> and the multicast data types, and
  \<open>REDIS_COMMAND_LENGTH\<close> of \<open>ApolloRedis.h\<close>, by their names in the source.
  Message codes are bytes, offsets and lengths are natural numbers; the simplifier
  unfolds them.
\<close>

definition FRAME_LENGTH :: nat where
  [simp]: "FRAME_LENGTH = 1024"

section \<open>Header\<close>

definition HDR_HEART_PACKET_DEVICE :: byte where
  [simp]: "HDR_HEART_PACKET_DEVICE = 0x48"

definition HDR_HEART_PACKET_PHONE :: byte where
  [simp]: "HDR_HEART_PACKET_PHONE = 0x50"

definition HDR_COMMAND_PACKET :: byte where
  [simp]: "HDR_COMMAND_PACKET = 0x43"

definition HDR_LOCATION_DATA :: byte where
  [simp]: "HDR_LOCATION_DATA = 0x47"

definition HDR_INFO_RETURN :: byte where
  [simp]: "HDR_INFO_RETURN = 0x52"

definition HDR_ADD_DEVICE :: byte where
  [simp]: "HDR_ADD_DEVICE = 0x41"

definition HDR_OPERATOR_USER_INFO :: byte where
  [simp]: "HDR_OPERATOR_USER_INFO = 0x55"

definition HDR_BASE_STATION_DEVICE :: byte where
  [simp]: "HDR_BASE_STATION_DEVICE = 0x42"

definition HDR_BLOCK_DATA_RECV :: byte where
  [simp]: "HDR_BLOCK_DATA_RECV = 0x56"

definition HDR_BLOCK_DATA_SEND :: byte where
  [simp]: "HDR_BLOCK_DATA_SEND = 0x44"

section \<open>Index\<close>

definition IDX_PHONE_ID :: nat where
  [simp]: "IDX_PHONE_ID = 1"

definition IDX_PHONE_COMMAND :: nat where
  [simp]: "IDX_PHONE_COMMAND = 5"

definition IDX_DEVICE_ID :: nat where
  [simp]: "IDX_DEVICE_ID = 1"

definition IDX_DEVICE_POWER :: nat where
  [simp]: "IDX_DEVICE_POWER = 9"

definition IDX_DEVICE_HEARTPACKET_TIMESTAMP :: nat where
  [simp]: "IDX_DEVICE_HEARTPACKET_TIMESTAMP = 24"

definition IDX_DEVICE_LOCATIONTYPE :: nat where
  [simp]: "IDX_DEVICE_LOCATIONTYPE = 9"

definition IDX_DEVICE_GPS_LONGITUDE :: nat where
  [simp]: "IDX_DEVICE_GPS_LONGITUDE = 10"

definition IDX_DEVICE_GPS_LATITUDE :: nat where
  [simp]: "IDX_DEVICE_GPS_LATITUDE = 15"

definition IDX_DEVICE_GPS_TIMESTAMP :: nat where
  [simp]: "IDX_DEVICE_GPS_TIMESTAMP = 20"

definition IDX_DEVICE_GPS_HIGH :: nat where
  [simp]: "IDX_DEVICE_GPS_HIGH = 24"

definition IDX_DEVICE_RETURN_COMMAND :: nat where
  [simp]: "IDX_DEVICE_RETURN_COMMAND = 3"

definition IDX_DEVICE_RETURN_INDEX :: nat where
  [simp]: "IDX_DEVICE_RETURN_INDEX = 4"

definition IDX_DEVICE_RETURN_PHNUM :: nat where
  [simp]: "IDX_DEVICE_RETURN_PHNUM = 5"

definition IDX_PHONE_CMD_INDEX :: nat where
  [simp]: "IDX_PHONE_CMD_INDEX = 6"

definition IDX_PHONE_CMD_NUMBER :: nat where
  [simp]: "IDX_PHONE_CMD_NUMBER = 7"

definition IDX_PHONE_USERNAME :: nat where
  [simp]: "IDX_PHONE_USERNAME = 6"

definition IDX_PHONE_PASSWORD :: nat where
  [simp]: "IDX_PHONE_PASSWORD = 23"

definition IDX_PHONE_RETURN_USERID :: nat where
  [simp]: "IDX_PHONE_RETURN_USERID = 6"

section \<open>Length\<close>

definition LEN_DEVICE_ID :: nat where
  [simp]: "LEN_DEVICE_ID = 8"

definition LEN_PHONE_ID :: nat where
  [simp]: "LEN_PHONE_ID = 4"

definition LEN_PHONE_NUMBER :: nat where
  [simp]: "LEN_PHONE_NUMBER = 8"

definition LEN_HEART_PACKET_DEVICE :: nat where
  [simp]: "LEN_HEART_PACKET_DEVICE = 32"

definition LEN_HEART_PACKET_PHONE :: nat where
  [simp]: "LEN_HEART_PACKET_PHONE = 8"

definition LEN_GPS_LOCATION_DATA :: nat where
  [simp]: "LEN_GPS_LOCATION_DATA = 32"

definition LEN_LAB_LOCATION_DATA :: nat where
  [simp]: "LEN_LAB_LOCATION_DATA = 48"

definition LEN_COMMAND_PACKET :: nat where
  [simp]: "LEN_COMMAND_PACKET = 16"

definition LEN_DEVICE_DOWNLOAD :: nat where
  [simp]: "LEN_DEVICE_DOWNLOAD = 16"

definition LEN_DEVICE_INFO :: nat where
  [simp]: "LEN_DEVICE_INFO = 12"

definition LEN_LONGITUDE_DATA :: nat where
  [simp]: "LEN_LONGITUDE_DATA = 5"

definition LEN_LATITUDE_DATA :: nat where
  [simp]: "LEN_LATITUDE_DATA = 5"

definition LEN_PHONE_USERNAME :: nat where
  [simp]: "LEN_PHONE_USERNAME = 16"

definition LEN_PHONE_PASSWORD :: nat where
  [simp]: "LEN_PHONE_PASSWORD = 8"

definition LEN_DEVICE_RETURN_BUFFER :: nat where
  [simp]: "LEN_DEVICE_RETURN_BUFFER = 6"

definition LEN_DEVICE_HEARTPACKET_RETURN_BUFFER :: nat where
  [simp]: "LEN_DEVICE_HEARTPACKET_RETURN_BUFFER = 20"

definition LEN_BLOCK_BUFFER :: nat where
  [simp]: "LEN_BLOCK_BUFFER = 32 * 1024"

definition LEN_BLOCK_PACKET :: nat where
  [simp]: "LEN_BLOCK_PACKET = 1024"

definition LEN_HEADER_LENGTH :: nat where
  [simp]: "LEN_HEADER_LENGTH = 32"

definition LEN_BLOCK_DATA :: nat where
  [simp]: "LEN_BLOCK_DATA = LEN_BLOCK_PACKET - LEN_HEADER_LENGTH"

section \<open>Command\<close>

definition CMD_PHONE_DEVICE_RESET :: byte where
  [simp]: "CMD_PHONE_DEVICE_RESET = 0x1A"

definition CMD_PHONE_REGISTER_USER :: byte where
  [simp]: "CMD_PHONE_REGISTER_USER = 0x71"

definition CMD_PHONE_SIGNIN_USER :: byte where
  [simp]: "CMD_PHONE_SIGNIN_USER = 0x72"

definition CMD_PHONE_UPDATE_PWD :: byte where
  [simp]: "CMD_PHONE_UPDATE_PWD = 0x73"

definition CMD_PHONE_BIND_DEVICE :: byte where
  [simp]: "CMD_PHONE_BIND_DEVICE = 0x31"

definition CMD_PHONE_UNBIND_DEVICE :: byte where
  [simp]: "CMD_PHONE_UNBIND_DEVICE = 0x32"

definition CMD_PHONE_DEVICE_REALTIME_LOCATION :: byte where
  [simp]: "CMD_PHONE_DEVICE_REALTIME_LOCATION = 0x01"

definition CMD_PHONE_DEVICE_DOWNLOAD :: byte where
  [simp]: "CMD_PHONE_DEVICE_DOWNLOAD = 0x02"

definition CMD_PHONE_DEVICE_COUNTSTEP_OPEN :: byte where
  [simp]: "CMD_PHONE_DEVICE_COUNTSTEP_OPEN = 0x03"

definition CMD_PHONE_DEVICE_COUNTSTEP_CLOSE :: byte where
  [simp]: "CMD_PHONE_DEVICE_COUNTSTEP_CLOSE = 0x04"

definition CMD_PHONE_DEVICE_SLEEPQUILTY_OPEN :: byte where
  [simp]: "CMD_PHONE_DEVICE_SLEEPQUILTY_OPEN = 0x05"

definition CMD_PHONE_DEVICE_SLEEPQUILTY_CLOSE :: byte where
  [simp]: "CMD_PHONE_DEVICE_SLEEPQUILTY_CLOSE = 0x06"

definition CMD_PHONE_DEVICE_ALARM :: byte where
  [simp]: "CMD_PHONE_DEVICE_ALARM = 0x08"

definition CMD_PHONE_DEVICE_SAFEZONE_ALARM :: byte where
  [simp]: "CMD_PHONE_DEVICE_SAFEZONE_ALARM = 0x09"

definition CMD_PHONE_DEVICE_LONGSAT_ALARM :: byte where
  [simp]: "CMD_PHONE_DEVICE_LONGSAT_ALARM = 0x0A"

definition CMD_PHONE_DEVICE_LOWPOWER_ALARM :: byte where
  [simp]: "CMD_PHONE_DEVICE_LOWPOWER_ALARM = 0x0B"

definition CMD_PHONE_DEVICE_FAMILYNUMBER_SET :: byte where
  [simp]: "CMD_PHONE_DEVICE_FAMILYNUMBER_SET = 0x41"

definition CMD_PHONE_DEVICE_CONTRACT_SET :: byte where
  [simp]: "CMD_PHONE_DEVICE_CONTRACT_SET = 0x42"

definition CMD_PHONE_DEVICE_PHONEBOOK_SET :: byte where
  [simp]: "CMD_PHONE_DEVICE_PHONEBOOK_SET = 0x43"

definition CMD_PHONE_DEVICE_FREQ_SET :: byte where
  [simp]: "CMD_PHONE_DEVICE_FREQ_SET = 0x44"

definition CMD_PHONE_DEVICE_SOS_MSGREMAINER_OPEN :: byte where
  [simp]: "CMD_PHONE_DEVICE_SOS_MSGREMAINER_OPEN = 0x51"

definition CMD_PHONE_DEVICE_SOS_MSGREMAINER_CLOSE :: byte where
  [simp]: "CMD_PHONE_DEVICE_SOS_MSGREMAINER_CLOSE = 0x52"

definition CMD_PHONE_DEVICE_POWER_MSGREMAINDER_OPEN :: byte where
  [simp]: "CMD_PHONE_DEVICE_POWER_MSGREMAINDER_OPEN = 0x53"

definition CMD_PHONE_DEVICE_POWER_MSGREMAINDER_CLOSE :: byte where
  [simp]: "CMD_PHONE_DEVICE_POWER_MSGREMAINDER_CLOSE = 0x54"

definition CMD_PHONE_DEVICE_ALARMMUSIC_OPEN :: byte where
  [simp]: "CMD_PHONE_DEVICE_ALARMMUSIC_OPEN = 0x61"

definition CMD_PHONE_DEVICE_ALARMMUSIC_CLOSE :: byte where
  [simp]: "CMD_PHONE_DEVICE_ALARMMUSIC_CLOSE = 0x62"

definition CMD_PHONE_DEVICE_SAFEZONEMUSIC_OPEN :: byte where
  [simp]: "CMD_PHONE_DEVICE_SAFEZONEMUSIC_OPEN = 0x63"

definition CMD_PHONE_DEVICE_SAFEZONEMUSIC_CLOSE :: byte where
  [simp]: "CMD_PHONE_DEVICE_SAFEZONEMUSIC_CLOSE = 0x64"

definition CMD_PHONE_DEVICE_SOS_CLEAR :: byte where
  [simp]: "CMD_PHONE_DEVICE_SOS_CLEAR = 0x21"

definition CMD_PHONE_DEVICE_AGPS_DOWNLOAD :: byte where
  [simp]: "CMD_PHONE_DEVICE_AGPS_DOWNLOAD = 0x2B"

definition CMD_PHONE_BUZZER_DEVICE_OPEN :: byte where
  [simp]: "CMD_PHONE_BUZZER_DEVICE_OPEN = 0x81"

definition CMD_PHONE_BUZZER_DEVICE_CLOSE :: byte where
  [simp]: "CMD_PHONE_BUZZER_DEVICE_CLOSE = 0x82"

definition CMD_PHONE_LIGHT1_DEVICE_OPEN :: byte where
  [simp]: "CMD_PHONE_LIGHT1_DEVICE_OPEN = 0x83"

definition CMD_PHONE_LIGHT1_DEVICE_CLOSE :: byte where
  [simp]: "CMD_PHONE_LIGHT1_DEVICE_CLOSE = 0x84"

definition CMD_PHONE_LIGHT2_DEVICE_OPEN :: byte where
  [simp]: "CMD_PHONE_LIGHT2_DEVICE_OPEN = 0x85"

definition CMD_PHONE_LIGHT2_DEVICE_CLOSE :: byte where
  [simp]: "CMD_PHONE_LIGHT2_DEVICE_CLOSE = 0x86"

section \<open>Return codes\<close>

definition RET_PHONE_SUCCESS :: byte where
  [simp]: "RET_PHONE_SUCCESS = 0x00"

definition RET_PHONE_GETUSERID_FAILED :: byte where
  [simp]: "RET_PHONE_GETUSERID_FAILED = 0x02"

definition RET_PHONE_SIGNIN_FAILED :: byte where
  [simp]: "RET_PHONE_SIGNIN_FAILED = 0x11"

definition RET_PHONE_USERID_NOEXIST :: byte where
  [simp]: "RET_PHONE_USERID_NOEXIST = 0x03"

definition RET_PHONE_UPDATE_PWD_FAILED :: byte where
  [simp]: "RET_PHONE_UPDATE_PWD_FAILED = 0x04"

definition MULTICAST_TYPE_BLOCK :: byte where
  [simp]: "MULTICAST_TYPE_BLOCK = 0x31"

definition MULTICAST_TYPE_AGPS :: byte where
  [simp]: "MULTICAST_TYPE_AGPS = 0x32"

definition REDIS_COMMAND_LENGTH :: nat where
  [simp]: "REDIS_COMMAND_LENGTH = 256"

end
