(* ===== verification/Apollo_Redis.thy ===== *)
theory Apollo_Redis
  imports Apollo_Constants
begin

text \<open>
  Access to Redis (\<open>ApolloRedis.c\<close>). Each operation prints one command into a 256-byte
  buffer and runs it. \<open>kv_store\<close> is the contract a key-value store gives its clients;
  \<open>redis_server\<close> states the documented behaviour of SET, GET and DEL through \<open>redisCommand\<close>,
  and under it the operations of the program satisfy the contract for keys and values that
  fit a command. \<open>ref_redis\<close> is an executable server that has the documented behaviour.
\<close>

section \<open>The operations\<close>

definition to_lower :: "byte \<Rightarrow> byte" where
  "to_lower c = (if 65 \<le> c \<and> c \<le> 90 then c + 32 else c)"

definition strcasecmp_eq :: "byte list \<Rightarrow> byte list \<Rightarrow> bool" where
  "strcasecmp_eq s t \<longleftrightarrow> map to_lower s = map to_lower t"

definition set_key_toredis ::
    "'w externals \<Rightarrow> byte list \<Rightarrow> byte list \<Rightarrow> 'w world \<Rightarrow> (int \<times> 'w world) option" where
  "set_key_toredis E key val w = do {
     command \<leftarrow> sprintf_at (replicate REDIS_COMMAND_LENGTH 0) 0 (bytes ''set '' @ key @ bytes '' '' @ val);
     cmd \<leftarrow> cstr command 0;
     (reply, w1) \<leftarrow> Some (with_ext (redisCommand E cmd) w);
     r \<leftarrow> reply;
     ok \<leftarrow> (if reply_type r = REDIS_REPLY_STATUS
            then do { s \<leftarrow> reply_str r; Some (strcasecmp_eq s (bytes ''OK'')) } else Some False);
     Some (if ok then 0 else -1, w1) }"

definition get_value_fromredis ::
    "'w externals \<Rightarrow> byte list \<Rightarrow> byte list \<Rightarrow> nat \<Rightarrow> 'w world \<Rightarrow> (int \<times> byte list \<times> 'w world) option" where
  "get_value_fromredis E key val off w = do {
     command \<leftarrow> sprintf_at (replicate REDIS_COMMAND_LENGTH 0) 0 (bytes ''get '' @ key);
     cmd \<leftarrow> cstr command 0;
     (reply, w1) \<leftarrow> Some (with_ext (redisCommand E cmd) w);
     r \<leftarrow> reply;
     if reply_type r \<noteq> REDIS_REPLY_STRING then Some (-1, val, w1)
     else do {
       s \<leftarrow> reply_str r;
       let str = takeWhile (\<lambda>c. c \<noteq> 0) s;
       let n = min (length str) (REDIS_COMMAND_LENGTH - 2);
       val' \<leftarrow> copy_loop val off str 0 n;
       Some (int n, val', w1) } }"

definition del_redis_key ::
    "'w externals \<Rightarrow> byte list \<Rightarrow> 'w world \<Rightarrow> (int \<times> 'w world) option" where
  "del_redis_key E key w = do {
     command \<leftarrow> sprintf_at (replicate REDIS_COMMAND_LENGTH 0) 0 (bytes ''del '' @ key);
     cmd \<leftarrow> cstr command 0;
     (reply, w1) \<leftarrow> Some (with_ext (redisCommand E cmd) w);
     Some (0, w1) }"

section \<open>Frames\<close>

lemma set_key_frame: "set_key_toredis E k v w = Some (r, w') \<Longrightarrow> same_but_ext w w'"
  by (auto simp: set_key_toredis_def run_simps split: if_splits
      dest: with_ext_frame)

lemma set_key_result: "set_key_toredis E k v w = Some (r, w') \<Longrightarrow> r = 0 \<or> r = -1"
  by (auto simp: set_key_toredis_def run_simps split: if_splits)

lemma get_value_frame: "get_value_fromredis E k b i w = Some (r, b', w') \<Longrightarrow> same_but_ext w w'"
  by (auto simp: get_value_fromredis_def run_simps split: if_splits
      dest: with_ext_frame)

lemma get_value_length: "get_value_fromredis E k b i w = Some (r, b', w') \<Longrightarrow> length b' = length b"
  by (auto simp: get_value_fromredis_def run_simps split: if_splits
      dest: copy_loop_length)

lemma del_key_frame: "del_redis_key E k w = Some (r, w') \<Longrightarrow> same_but_ext w w'"
  by (auto simp: del_redis_key_def run_simps split: if_splits
      dest: with_ext_frame)

text \<open>The command buffer bounds what can be stored.\<close>

lemma sprintf_fits:
  assumes "0 \<notin> set s"
  shows "do { b \<leftarrow> sprintf_at (replicate n 0) 0 s; cstr b 0 } = (if length s < n then Some s else None)"
proof (cases "length s < n")
  case True
  then obtain b where b: "sprintf_at (replicate n 0) 0 s = Some b"
    by (simp add: sprintf_at_def blit_def)
  then have "cstr b 0 = Some s" using assms by (rule cstr_sprintf)
  with b True show ?thesis by simp
next
  case False
  then show ?thesis by (simp add: sprintf_at_def blit_def)
qed

lemma set_key_too_long:
  assumes "0 \<notin> set k" and "0 \<notin> set v" and "251 \<le> length k + length v"
  shows "set_key_toredis E k v w = None"
  using assms by (simp add: set_key_toredis_def sprintf_at_def blit_def)

section \<open>The contract of a key-value store\<close>

locale kv_store =
  fixes kput :: "'k \<Rightarrow> 'v \<Rightarrow> 's \<Rightarrow> 's option"
    and kget :: "'k \<Rightarrow> 's \<Rightarrow> ('v option \<times> 's) option"
    and kdel :: "'k \<Rightarrow> 's \<Rightarrow> 's option"
    and view :: "'s \<Rightarrow> 'k \<Rightarrow> 'v option"
    and key_ok :: "'k \<Rightarrow> bool" and val_ok :: "'k \<Rightarrow> 'v \<Rightarrow> bool"
  assumes put_law: "key_ok k \<Longrightarrow> val_ok k v \<Longrightarrow> \<exists>t. kput k v s = Some t \<and> view t = (view s)(k := Some v)"
    and get_law: "key_ok k \<Longrightarrow> (\<And>v. view s k = Some v \<Longrightarrow> val_ok k v) \<Longrightarrow>
      \<exists>t. kget k s = Some (view s k, t) \<and> view t = view s"
    and del_law: "key_ok k \<Longrightarrow> \<exists>t. kdel k s = Some t \<and> view t = (view s)(k := None)"
begin

lemma put_get:
  assumes "key_ok k" and "val_ok k v"
  shows "\<exists>t. do { s1 \<leftarrow> kput k v s; kget k s1 } = Some (Some v, t)"
proof -
  obtain s1 where s1: "kput k v s = Some s1" "view s1 = (view s)(k := Some v)"
    using put_law assms by blast
  then have "\<exists>t. kget k s1 = Some (view s1 k, t) \<and> view t = view s1"
    using assms by (intro get_law) auto
  with s1 show ?thesis by auto
qed

lemma put_get_other:
  assumes "key_ok k" and "val_ok k v" and "key_ok j" and "j \<noteq> k"
    and "\<And>u. view s j = Some u \<Longrightarrow> val_ok j u"
  shows "\<exists>t. do { s1 \<leftarrow> kput k v s; kget j s1 } = Some (view s j, t)"
proof -
  obtain s1 where s1: "kput k v s = Some s1" "view s1 = (view s)(k := Some v)"
    using put_law assms(1,2) by blast
  then have "\<exists>t. kget j s1 = Some (view s1 j, t) \<and> view t = view s1"
    using assms(3-5) by (intro get_law) auto
  with s1 assms(4) show ?thesis by auto
qed

lemma del_get:
  assumes "key_ok k"
  shows "\<exists>t. do { s1 \<leftarrow> kdel k s; kget k s1 } = Some (None, t)"
proof -
  obtain s1 where s1: "kdel k s = Some s1" "view s1 = (view s)(k := None)"
    using del_law assms by blast
  then have "\<exists>t. kget k s1 = Some (view s1 k, t) \<and> view t = view s1"
    using assms by (intro get_law) auto
  with s1 show ?thesis by auto
qed

end

section \<open>Redis as documented\<close>

text \<open>
  \<open>redisCommand\<close> splits its argument at spaces and treats percent signs as directives; a
  plain word is passed on unchanged.
\<close>

definition plain :: "byte list \<Rightarrow> bool" where
  "plain s \<longleftrightarrow> s \<noteq> [] \<and> 0 \<notin> set s \<and> 32 \<notin> set s \<and> 37 \<notin> set s"

locale redis_server =
  fixes E :: "'w externals" and kv :: "'w \<Rightarrow> byte list \<rightharpoonup> byte list"
  assumes redis_set: "plain k \<Longrightarrow> plain v \<Longrightarrow>
      \<exists>e'. redisCommand E (bytes ''set '' @ k @ bytes '' '' @ v) e =
        (Some \<lparr>reply_type = REDIS_REPLY_STATUS, reply_str = Some (bytes ''OK'')\<rparr>, e')
        \<and> kv e' = (kv e)(k \<mapsto> v)"
    and redis_get_some: "plain k \<Longrightarrow> kv e k = Some v \<Longrightarrow>
      \<exists>e'. redisCommand E (bytes ''get '' @ k) e =
        (Some \<lparr>reply_type = REDIS_REPLY_STRING, reply_str = Some v\<rparr>, e') \<and> kv e' = kv e"
    and redis_get_none: "plain k \<Longrightarrow> kv e k = None \<Longrightarrow>
      \<exists>e'. redisCommand E (bytes ''get '' @ k) e =
        (Some \<lparr>reply_type = REDIS_REPLY_NIL, reply_str = None\<rparr>, e') \<and> kv e' = kv e"
    and redis_del: "plain k \<Longrightarrow>
      \<exists>r e'. redisCommand E (bytes ''del '' @ k) e = (r, e') \<and> kv e' = (kv e)(k := None)"
begin

lemma set_ok:
  assumes "plain k" and "plain v" and "length k + length v < 251"
  shows "\<exists>w'. set_key_toredis E k v w = Some (0, w') \<and> kv (ext w') = (kv (ext w))(k \<mapsto> v)
    \<and> same_but_ext w w'"
proof -
  let ?c = "bytes ''set '' @ k @ bytes '' '' @ v"
  have "0 \<notin> set ?c" using assms(1,2) by (simp add: plain_def bytes_def)
  then obtain b where "sprintf_at (replicate 256 0) 0 ?c = Some b" and "cstr b 0 = Some ?c"
    using sprintf_fits [of ?c 256] assms(3) by (auto simp: bind_eq_Some_conv)
  then show ?thesis
    using redis_set [OF assms(1,2), of "ext w"]
    by (auto simp: set_key_toredis_def with_ext_def Let_def strcasecmp_eq_def)
qed

lemma get_some:
  assumes "plain k" and "length k < 252" and "kv (ext w) k = Some v" and "0 \<notin> set v"
    and "length v \<le> 254" and "off + length v \<le> length b"
  shows "\<exists>w'. get_value_fromredis E k b off w =
      Some (int (length v), take off b @ v @ drop (off + length v) b, w')
    \<and> kv (ext w') = kv (ext w) \<and> same_but_ext w w'"
proof -
  let ?c = "bytes ''get '' @ k"
  have "0 \<notin> set ?c" using assms(1) by (simp add: plain_def bytes_def)
  then obtain c where "sprintf_at (replicate 256 0) 0 ?c = Some c" and "cstr c 0 = Some ?c"
    using sprintf_fits [of ?c 256] assms(2) by (auto simp: bind_eq_Some_conv)
  moreover have tw: "takeWhile (\<lambda>c. c \<noteq> 0) v = v"
    using assms(4) by (simp add: takeWhile_eq_all_conv) (metis)
  moreover have "copy_loop b off v 0 (length v) = Some (take off b @ v @ drop (off + length v) b)"
    using assms(6) by (simp add: copy_loop_blit blit_def)
  moreover obtain e' where "redisCommand E ?c (ext w) =
      (Some \<lparr>reply_type = REDIS_REPLY_STRING, reply_str = Some v\<rparr>, e')" and "kv e' = kv (ext w)"
    using redis_get_some [OF assms(1,3)] by auto
  ultimately show ?thesis
    using assms(5)
    by (intro exI [of _ "w\<lparr>ext := e'\<rparr>"]) (simp add: get_value_fromredis_def with_ext_def Let_def tw min_def del: takeWhile_eq_all_conv)
qed

lemma get_none:
  assumes "plain k" and "length k < 252" and "kv (ext w) k = None"
  shows "\<exists>w'. get_value_fromredis E k b off w = Some (-1, b, w')
    \<and> kv (ext w') = kv (ext w) \<and> same_but_ext w w'"
proof -
  let ?c = "bytes ''get '' @ k"
  have "0 \<notin> set ?c" using assms(1) by (simp add: plain_def bytes_def)
  then obtain c where "sprintf_at (replicate 256 0) 0 ?c = Some c" and "cstr c 0 = Some ?c"
    using sprintf_fits [of ?c 256] assms(2) by (auto simp: bind_eq_Some_conv)
  then show ?thesis
    using redis_get_none [OF assms(1,3)]
    by (auto simp: get_value_fromredis_def with_ext_def Let_def)
qed

lemma del_ok:
  assumes "plain k" and "length k < 252"
  shows "\<exists>w'. del_redis_key E k w = Some (0, w') \<and> kv (ext w') = (kv (ext w))(k := None)
    \<and> same_but_ext w w'"
proof -
  let ?c = "bytes ''del '' @ k"
  have "0 \<notin> set ?c" using assms(1) by (simp add: plain_def bytes_def)
  then obtain c where "sprintf_at (replicate 256 0) 0 ?c = Some c" and "cstr c 0 = Some ?c"
    using sprintf_fits [of ?c 256] assms(2) by (auto simp: bind_eq_Some_conv)
  then show ?thesis
    using redis_del [OF assms(1), of "ext w"]
    by (auto simp: del_redis_key_def with_ext_def Let_def)
qed

end

text \<open>
  The way the handlers look a key up: into a cleared 256-byte buffer, read back as a
  string. With it the operations of the program are a \<open>kv_store\<close>.
\<close>

definition redis_lookup ::
    "'w externals \<Rightarrow> byte list \<Rightarrow> 'w world \<Rightarrow> (byte list option \<times> 'w world) option" where
  "redis_lookup E k w = do {
     (r, b, w') \<leftarrow> get_value_fromredis E k (replicate REDIS_COMMAND_LENGTH 0) 0 w;
     if r = -1 then Some (None, w') else do { s \<leftarrow> cstr b 0; Some (Some s, w') } }"

definition redis_store ::
    "'w externals \<Rightarrow> byte list \<Rightarrow> byte list \<Rightarrow> 'w world \<Rightarrow> 'w world option" where
  "redis_store E k v w = do { (r, w') \<leftarrow> set_key_toredis E k v w; if r = 0 then Some w' else None }"

definition redis_remove :: "'w externals \<Rightarrow> byte list \<Rightarrow> 'w world \<Rightarrow> 'w world option" where
  "redis_remove E k w = do { (r, w') \<leftarrow> del_redis_key E k w; Some w' }"

definition redis_key_ok :: "byte list \<Rightarrow> bool" where
  "redis_key_ok k \<longleftrightarrow> plain k \<and> length k < 128"

definition redis_val_ok :: "byte list \<Rightarrow> byte list \<Rightarrow> bool" where
  "redis_val_ok k v \<longleftrightarrow> plain v \<and> length k + length v < 251"

sublocale redis_server \<subseteq> store: kv_store "redis_store E" "redis_lookup E" "redis_remove E"
    "\<lambda>w. kv (ext w)" redis_key_ok redis_val_ok
proof
  fix k v and s :: "'w world"
  assume "redis_key_ok k" and "redis_val_ok k v"
  then show "\<exists>t. redis_store E k v s = Some t \<and> kv (ext t) = (kv (ext s))(k := Some v)"
    using set_ok [of k v s] by (auto simp: redis_key_ok_def redis_val_ok_def redis_store_def)
next
  fix k and s :: "'w world"
  assume k: "redis_key_ok k" and v: "\<And>v. kv (ext s) k = Some v \<Longrightarrow> redis_val_ok k v"
  show "\<exists>t. redis_lookup E k s = Some (kv (ext s) k, t) \<and> kv (ext t) = kv (ext s)"
  proof (cases "kv (ext s) k")
    case None
    then show ?thesis
      using k get_none [of k s "replicate 256 0" 0] by (auto simp: redis_key_ok_def redis_lookup_def)
  next
    case (Some u)
    then have u: "plain u" "length u < 251" using v by (auto simp: redis_val_ok_def)
    then have "cstr (u @ replicate (256 - length u) 0) 0 = Some u"
      using cstr_blit_zeros(2) [of u 256] by (simp add: plain_def)
    then show ?thesis
      using Some k u get_some [of k s u 0 "replicate 256 0"]
      by (auto simp: redis_key_ok_def redis_lookup_def plain_def)
  qed
next
  fix k and s :: "'w world"
  assume "redis_key_ok k"
  then show "\<exists>t. redis_remove E k s = Some t \<and> kv (ext t) = (kv (ext s))(k := None)"
    using del_ok [of k s] by (auto simp: redis_key_ok_def redis_remove_def)
qed

context redis_server
begin

lemmas store_read = store.put_get
lemmas store_read_other = store.put_get_other
lemmas remove_read = store.del_get

end

section \<open>A reference server\<close>

text \<open>
  A concrete instance of the libraries for closed evaluations: a map as the Redis store,
  a list of free database connections, a log of executed statements, one answer for
  every query, and the two directions of a connection.
\<close>

record ref_state =
  ref_kv :: "byte list \<rightharpoonup> byte list"
  ref_free :: "nat list"
  ref_log :: "(byte list \<times> byte list list) list"
  ref_rows :: "sql_row list"
  ref_input :: "byte list"
  ref_output :: "byte list"

definition ref_redis ::
    "byte list \<Rightarrow> (byte list \<rightharpoonup> byte list) \<Rightarrow> redisReply option \<times> (byte list \<rightharpoonup> byte list)" where
  "ref_redis cmd m =
    (let no = (Some \<lparr>reply_type = REDIS_REPLY_ERROR, reply_str = Some (bytes ''ERR'')\<rparr>, m) in
     case split_on 32 cmd of
       [c, k, v] \<Rightarrow>
         (if c = bytes ''set'' then
            (Some \<lparr>reply_type = REDIS_REPLY_STATUS, reply_str = Some (bytes ''OK'')\<rparr>, m(k \<mapsto> v))
          else no)
     | [c, k] \<Rightarrow>
         (if c = bytes ''get'' then
            (case m k of
               None \<Rightarrow> (Some \<lparr>reply_type = REDIS_REPLY_NIL, reply_str = None\<rparr>, m)
             | Some v \<Rightarrow> (Some \<lparr>reply_type = REDIS_REPLY_STRING, reply_str = Some v\<rparr>, m))
          else if c = bytes ''del'' then
            (Some \<lparr>reply_type = REDIS_REPLY_INTEGER, reply_str = None\<rparr>, m(k := None))
          else no)
     | _ \<Rightarrow> no)"

definition ref_externals :: "data_save_type \<Rightarrow> ref_state externals" where
  "ref_externals st =
    \<lparr>save_type = st, sizeof_long = 4,
     redisCommand = (\<lambda>cmd e. case ref_redis cmd (ref_kv e) of (r, m) \<Rightarrow> (r, e\<lparr>ref_kv := m\<rparr>)),
     ConnectionPool_getConnection =
       (\<lambda>e. case ref_free e of [] \<Rightarrow> (None, e) | c # cs \<Rightarrow> (Some c, e\<lparr>ref_free := cs\<rparr>)),
     Connection_execute = (\<lambda>c stmt args e. Some (e\<lparr>ref_log := ref_log e @ [(stmt, args)]\<rparr>)),
     Connection_executeQuery =
       (\<lambda>c stmt args e. Some (Some (ref_rows e), e\<lparr>ref_log := ref_log e @ [(stmt, args)]\<rparr>)),
     Connection_close = (\<lambda>c e. e\<lparr>ref_free := c # ref_free e\<rparr>),
     evbuffer_remove = (\<lambda>n e. (take n (ref_input e), e\<lparr>ref_input := drop n (ref_input e)\<rparr>)),
     evbuffer_add = (\<lambda>xs e. e\<lparr>ref_output := ref_output e @ xs\<rparr>),
     bufferevent_write_buffer = (\<lambda>e. (False, e))\<rparr>"

lemma ref_externals_simps [simp]:
  "save_type (ref_externals st) = st" "sizeof_long (ref_externals st) = 4"
  by (simp_all add: ref_externals_def)

lemma split_command:
  assumes "plain k"
  shows "split_on 32 (bytes ''get '' @ k) = [bytes ''get'', k]"
    and "split_on 32 (bytes ''del '' @ k) = [bytes ''del'', k]"
    and "plain v \<Longrightarrow> split_on 32 (bytes ''set '' @ k @ bytes '' '' @ v) = [bytes ''set'', k, v]"
  using assms
  by (simp_all add: bytes_def plain_def split_on_single split_on_append_sep)

lemma del_not_get: "bytes ''del'' \<noteq> bytes ''get''"
  by (simp add: bytes_def)

interpretation ref: redis_server "ref_externals st" ref_kv
proof
  fix k v and e :: ref_state
  assume "plain k"
  note sp = split_command [OF this]
  show "plain v \<Longrightarrow> \<exists>e'. redisCommand (ref_externals st) (bytes ''set '' @ k @ bytes '' '' @ v) e =
      (Some \<lparr>reply_type = REDIS_REPLY_STATUS, reply_str = Some (bytes ''OK'')\<rparr>, e')
      \<and> ref_kv e' = (ref_kv e)(k \<mapsto> v)"
    by (simp add: ref_externals_def ref_redis_def sp)
  show "ref_kv e k = Some v \<Longrightarrow> \<exists>e'. redisCommand (ref_externals st) (bytes ''get '' @ k) e =
      (Some \<lparr>reply_type = REDIS_REPLY_STRING, reply_str = Some v\<rparr>, e') \<and> ref_kv e' = ref_kv e"
    by (simp add: ref_externals_def ref_redis_def sp)
  show "ref_kv e k = None \<Longrightarrow> \<exists>e'. redisCommand (ref_externals st) (bytes ''get '' @ k) e =
      (Some \<lparr>reply_type = REDIS_REPLY_NIL, reply_str = None\<rparr>, e') \<and> ref_kv e' = ref_kv e"
    by (simp add: ref_externals_def ref_redis_def sp)
  show "\<exists>r e'. redisCommand (ref_externals st) (bytes ''del '' @ k) e = (r, e')
      \<and> ref_kv e' = (ref_kv e)(k := None)"
    using del_not_get by (simp add: ref_externals_def ref_redis_def sp)
qed

end
