(* ===== verification/Apollo_Sql.thy ===== *)
theory Apollo_Sql
  imports Apollo_Redis "HOL-Library.Multiset"
begin

text \<open>
  The SQL operations of \<open>ApolloSqlOperator.c\<close> in the configuration that is compiled
  (\<open>CONNECTIONPOOL_SELECT\<close> is the libzdb pool). Every operation takes a connection, runs
  one statement and gives the connection back. The locale \<open>backend\<close> adds to the Redis
  contract what libzdb promises about its pool; in it every operation is shown to leave
  the pool as it found it and the two start-up loaders are shown to fill the Redis map.
\<close>

section \<open>Statements and result sets\<close>

definition SQL_INSERT_DEVICE_GPS :: "byte list" where
  "SQL_INSERT_DEVICE_GPS = bytes ''INSERT TBL_DEVICE_LOCATION VALUE('%s', '%s', '%s', '%s', NOW())''"

definition SQL_INSERT_USER :: "byte list" where
  "SQL_INSERT_USER = bytes ''INSERT TBL_USER(U_NAME, U_PWD) VALUES('%s', '%s')''"

definition SQL_SELECT_USERINFO_LIST :: "byte list" where
  "SQL_SELECT_USERINFO_LIST = bytes ''SELECT * FROM TBL_USER''"

definition SQL_SELECT_RELATIONSHIP_LIST :: "byte list" where
  "SQL_SELECT_RELATIONSHIP_LIST = bytes ''SELECT * FROM TBL_USER_RELATIONSHIP''"

definition SQL_SELECT_USERID :: "byte list" where
  "SQL_SELECT_USERID =
     bytes ''SELECT U_ID FROM TBL_USER WHERE U_NAME='%s' AND U_PWD = '%s'' @ [39]"

definition SQL_SELECT_UPDATE_PASSWORD :: "byte list" where
  "SQL_SELECT_UPDATE_PASSWORD = bytes ''UPDATE TBL_USER SET U_PWD = '%s' WHERE U_NAME='%s'' @ [39]"

definition SQL_SELECT_LOCATION_NEWINFO :: "byte list" where
  "SQL_SELECT_LOCATION_NEWINFO =
     bytes ''SELECT  * FROM TBL_DEVICE_LOCATION WHERE L_DEVICE_ID = '%s' ORDER BY L_TIME DESC''"

text \<open>The result codes, \<open>CONNECTIONPOOL_RESULT\<close>.\<close>

definition OK :: int where [simp]: "OK = 0"
definition NOEXIST :: int where [simp]: "NOEXIST = -1"
definition NOINSERT :: int where [simp]: "NOINSERT = -2"
definition NOUPDATE :: int where [simp]: "NOUPDATE = -3"

text \<open>
  Columns count from one; a column outside the row raises, an SQL NULL is a null pointer.
\<close>

definition ResultSet_getString :: "sql_row \<Rightarrow> nat \<Rightarrow> byte list option option" where
  "ResultSet_getString row k = (if 1 \<le> k \<and> k \<le> length row then Some (row ! (k - 1)) else None)"

definition get_column :: "sql_row \<Rightarrow> nat \<Rightarrow> byte list option" where
  "get_column row k = do { s \<leftarrow> ResultSet_getString row k; s }"

text \<open>The connection of the pool, a statement and a query on it, and its return.\<close>

definition take_connection :: "'w externals \<Rightarrow> 'w world \<Rightarrow> (nat \<times> 'w world) option" where
  "take_connection E w = do {
     (con, w1) \<leftarrow> Some (with_ext (ConnectionPool_getConnection E) w);
     c \<leftarrow> con;
     Some (c, w1) }"

definition run_execute ::
    "'w externals \<Rightarrow> nat \<Rightarrow> byte list \<Rightarrow> byte list list \<Rightarrow> 'w world \<Rightarrow> 'w world option" where
  "run_execute E c stmt args w = do {
     e \<leftarrow> Connection_execute E c stmt args (ext w);
     Some (w\<lparr>ext := e\<rparr>) }"

definition run_query ::
    "'w externals \<Rightarrow> nat \<Rightarrow> byte list \<Rightarrow> byte list list \<Rightarrow> 'w world
      \<Rightarrow> (sql_row list option \<times> 'w world) option" where
  "run_query E c stmt args w = do {
     (r, e) \<leftarrow> Connection_executeQuery E c stmt args (ext w);
     Some (r, w\<lparr>ext := e\<rparr>) }"

definition give_connection :: "'w externals \<Rightarrow> nat \<Rightarrow> 'w world \<Rightarrow> 'w world" where
  "give_connection E c w = w\<lparr>ext := Connection_close E c (ext w)\<rparr>"

section \<open>The operations\<close>

definition insertDeviceGps ::
    "'w externals \<Rightarrow> byte list \<Rightarrow> byte list \<Rightarrow> byte list \<Rightarrow> byte list \<Rightarrow> 'w world
      \<Rightarrow> (int \<times> 'w world) option" where
  "insertDeviceGps E longitude latitude high device_id w = do {
     (con, w1) \<leftarrow> take_connection E w;
     w2 \<leftarrow> run_execute E con SQL_INSERT_DEVICE_GPS [longitude, latitude, high, device_id] w1;
     Some (OK, give_connection E con w2) }"

definition insertUser ::
    "'w externals \<Rightarrow> byte list \<Rightarrow> byte list \<Rightarrow> 'w world \<Rightarrow> (int \<times> 'w world) option" where
  "insertUser E userName password w = do {
     (con, w1) \<leftarrow> take_connection E w;
     w2 \<leftarrow> run_execute E con SQL_INSERT_USER [userName, password] w1;
     Some (OK, give_connection E con w2) }"

text \<open>The user id is passed by reference and handed back unchanged: no line writes it.\<close>

definition selectUserId ::
    "'w externals \<Rightarrow> byte list \<Rightarrow> byte list \<Rightarrow> 32 word \<Rightarrow> 'w world
      \<Rightarrow> (int \<times> 32 word \<times> 'w world) option" where
  "selectUserId E userName password userId w = do {
     (con, w1) \<leftarrow> take_connection E w;
     (result, w2) \<leftarrow> run_query E con SQL_SELECT_USERID [userName, password] w1;
     Some (if result = None then NOEXIST else OK, userId, give_connection E con w2) }"

definition updatePassword ::
    "'w externals \<Rightarrow> byte list \<Rightarrow> byte list \<Rightarrow> 'w world \<Rightarrow> (int \<times> 'w world) option" where
  "updatePassword E userName password w = do {
     (con, w1) \<leftarrow> take_connection E w;
     w2 \<leftarrow> run_execute E con SQL_SELECT_UPDATE_PASSWORD [password, userName] w1;
     Some (OK, give_connection E con w2) }"

text \<open>
  The last location of a device, published under the decimal user id. The local buffers
  have 12 bytes (longitude, latitude and altitude), 256 bytes and, for the user id, 8 bytes. The function has a return
  statement only on the failure path; \<open>None\<close> as the value is a missing return.
\<close>

definition location_text :: "byte list \<Rightarrow> byte list \<Rightarrow> byte list \<Rightarrow> byte list" where
  "location_text lng lat high =
     bytes ''G_'' @ lng @ bytes ''_'' @ lat @ bytes ''_'' @ high @
     (if high \<noteq> [] \<and> hd high = 0x30 then bytes ''_1_12345'' else bytes ''_0_12345'')"

definition publish_location ::
    "'w externals \<Rightarrow> sql_row \<Rightarrow> int \<Rightarrow> 'w world \<Rightarrow> (int \<times> 'w world) option" where
  "publish_location E row UserId w = do {
     lng \<leftarrow> get_column row 1;
     lat \<leftarrow> get_column row 2;
     high \<leftarrow> get_column row 3;
     lngBuf \<leftarrow> sprintf_at (replicate (2 * LEN_LONGITUDE_DATA + 2) 0) 0 lng;
     u8Longitude \<leftarrow> cstr lngBuf 0;
     latBuf \<leftarrow> sprintf_at (replicate (2 * LEN_LATITUDE_DATA + 2) 0) 0 lat;
     u8Latitude \<leftarrow> cstr latBuf 0;
     highBuf \<leftarrow> sprintf_at (replicate 12 0) 0 high;
     u8High \<leftarrow> cstr highBuf 0;
     gpsBuf \<leftarrow> sprintf_at (replicate REDIS_COMMAND_LENGTH 0) 0 (location_text u8Longitude u8Latitude u8High);
     u8RedisDeviceGpsInfo \<leftarrow> cstr gpsBuf 0;
     idBuf \<leftarrow> sprintf_at (replicate 8 0) 0 (dec UserId);
     u8UserId \<leftarrow> cstr idBuf 0;
     set_key_toredis E u8UserId u8RedisDeviceGpsInfo w }"

definition selectLocationNewItem ::
    "'w externals \<Rightarrow> byte list \<Rightarrow> int \<Rightarrow> 'w world \<Rightarrow> (int option \<times> 'w world) option" where
  "selectLocationNewItem E u8DeviceId UserId w = do {
     (con, w1) \<leftarrow> take_connection E w;
     (result, w2) \<leftarrow> run_query E con SQL_SELECT_LOCATION_NEWINFO [u8DeviceId] w1;
     rows \<leftarrow> result;
     (case rows of
        [] \<Rightarrow> Some (None, give_connection E con w2)
      | row # _ \<Rightarrow> do {
          (r, w3) \<leftarrow> publish_location E row UserId w2;
          Some (if r = -1 then Some (-2) else None, give_connection E con w3) }) }"

text \<open>The loaders keep one 20-byte key buffer for all rows and stop at a failed command.\<close>

fun user_rows ::
    "'w externals \<Rightarrow> byte list \<Rightarrow> sql_row list \<Rightarrow> 'w world \<Rightarrow> 'w world option" where
  "user_rows E UUserName [] w = Some w"
| "user_rows E UUserName (row # rows) w = do {
     ident \<leftarrow> get_column row 1;
     name \<leftarrow> get_column row 2;
     UUserName' \<leftarrow> sprintf_at UUserName 0 (bytes ''U_'' @ name);
     key \<leftarrow> cstr UUserName' 0;
     (r, w1) \<leftarrow> set_key_toredis E key ident w;
     if r = -1 then Some w1 else user_rows E UUserName' rows w1 }"

definition initUserInfoList :: "'w externals \<Rightarrow> 'w world \<Rightarrow> 'w world option" where
  "initUserInfoList E w = do {
     (con, w1) \<leftarrow> take_connection E w;
     (result, w2) \<leftarrow> run_query E con SQL_SELECT_USERINFO_LIST [] w1;
     rows \<leftarrow> result;
     w3 \<leftarrow> user_rows E (replicate 20 0) rows w2;
     Some (give_connection E con w3) }"

fun relationship_rows ::
    "'w externals \<Rightarrow> byte list \<Rightarrow> byte list \<Rightarrow> sql_row list \<Rightarrow> 'w world \<Rightarrow> 'w world option" where
  "relationship_rows E RPUserId RDeviceId [] w = Some w"
| "relationship_rows E RPUserId RDeviceId (row # rows) w = do {
     UserId \<leftarrow> get_column row 1;
     DeviceId \<leftarrow> get_column row 2;
     RPUserId' \<leftarrow> sprintf_at RPUserId 0 (bytes ''RP_'' @ UserId);
     key1 \<leftarrow> cstr RPUserId' 0;
     (r1, w1) \<leftarrow> set_key_toredis E key1 DeviceId w;
     if r1 = -1 then Some w1 else do {
       RDeviceId' \<leftarrow> sprintf_at RDeviceId 0 (bytes ''R_'' @ DeviceId);
       key2 \<leftarrow> cstr RDeviceId' 0;
       (r2, w2) \<leftarrow> set_key_toredis E key2 UserId w1;
       if r2 = -1 then Some w2 else relationship_rows E RPUserId' RDeviceId' rows w2 } }"

definition initUserAndDeviceRelationshipList :: "'w externals \<Rightarrow> 'w world \<Rightarrow> 'w world option" where
  "initUserAndDeviceRelationshipList E w = do {
     (con, w1) \<leftarrow> take_connection E w;
     (result, w2) \<leftarrow> run_query E con SQL_SELECT_RELATIONSHIP_LIST [] w1;
     rows \<leftarrow> result;
     w3 \<leftarrow> relationship_rows E (replicate 20 0) (replicate 20 0) rows w2;
     Some (give_connection E con w3) }"

section \<open>Frames\<close>

lemma take_connection_frame: "take_connection E w = Some (c, w') \<Longrightarrow> same_but_ext w w'"
  by (auto simp: take_connection_def run_simps dest: with_ext_frame)

lemma run_execute_frame: "run_execute E c s a w = Some w' \<Longrightarrow> same_but_ext w w'"
  by (auto simp: run_execute_def run_simps)

lemma run_query_frame: "run_query E c s a w = Some (r, w') \<Longrightarrow> same_but_ext w w'"
  by (auto simp: run_query_def run_simps)

lemma give_connection_frame: "same_but_ext w (give_connection E c w)"
  by (simp add: give_connection_def)

lemmas sql_frames = take_connection_frame run_execute_frame run_query_frame set_key_frame

lemma insertDeviceGps_frame: "insertDeviceGps E a b c d w = Some (r, w') \<Longrightarrow> same_but_ext w w'"
  by (auto simp: insertDeviceGps_def run_simps intro: same_but_ext_trans dest!: sql_frames
      intro!: same_but_ext_trans [OF _ give_connection_frame])

lemma insertUser_frame: "insertUser E a b w = Some (r, w') \<Longrightarrow> same_but_ext w w'"
  by (auto simp: insertUser_def run_simps intro: same_but_ext_trans dest!: sql_frames
      intro!: same_but_ext_trans [OF _ give_connection_frame])

lemma selectUserId_frame: "selectUserId E a b u w = Some (r, v, w') \<Longrightarrow> same_but_ext w w'"
  by (auto simp: selectUserId_def run_simps intro: same_but_ext_trans dest!: sql_frames
      intro!: same_but_ext_trans [OF _ give_connection_frame])

lemma updatePassword_frame: "updatePassword E a b w = Some (r, w') \<Longrightarrow> same_but_ext w w'"
  by (auto simp: updatePassword_def run_simps intro: same_but_ext_trans dest!: sql_frames
      intro!: same_but_ext_trans [OF _ give_connection_frame])

lemma publish_location_frame: "publish_location E row u w = Some (r, w') \<Longrightarrow> same_but_ext w w'"
  by (auto simp: publish_location_def run_simps dest: set_key_frame)

lemma selectLocationNewItem_frame:
  "selectLocationNewItem E d u w = Some (r, w') \<Longrightarrow> same_but_ext w w'"
  by (auto simp: selectLocationNewItem_def run_simps intro: same_but_ext_trans
      dest!: sql_frames publish_location_frame
      intro!: same_but_ext_trans [OF _ give_connection_frame] split: list.splits)

section \<open>The contract of the backend\<close>

text \<open>
  \<open>idle\<close> is the multiset of connections that lie in the pool. Taking a connection removes
  it, closing it puts it back, statements and Redis commands do not touch the pool, and
  the pool operations and SQL statements do not touch Redis.
\<close>

locale backend = redis_server E kv for E :: "'w externals" and kv +
  fixes idle :: "'w \<Rightarrow> nat multiset"
  assumes pool_take: "ConnectionPool_getConnection E e = (Some c, e') \<Longrightarrow>
      idle e = add_mset c (idle e') \<and> kv e' = kv e"
    and pool_give: "idle (Connection_close E c e) = add_mset c (idle e)
      \<and> kv (Connection_close E c e) = kv e"
    and sql_execute: "Connection_execute E c s a e = Some e' \<Longrightarrow> idle e' = idle e \<and> kv e' = kv e"
    and sql_query: "Connection_executeQuery E c s a e = Some (r, e') \<Longrightarrow>
      idle e' = idle e \<and> kv e' = kv e"
    and redis_idle: "redisCommand E cmd e = (rep, e') \<Longrightarrow> idle e' = idle e"
begin

lemma take_idle: "take_connection E w = Some (c, w') \<Longrightarrow>
    idle (ext w) = add_mset c (idle (ext w')) \<and> kv (ext w') = kv (ext w)"
  by (auto simp: take_connection_def with_ext_eq run_simps dest: pool_take)

lemma execute_idle: "run_execute E c s a w = Some w' \<Longrightarrow>
    idle (ext w') = idle (ext w) \<and> kv (ext w') = kv (ext w)"
  by (auto simp: run_execute_def run_simps dest: sql_execute)

lemma query_idle: "run_query E c s a w = Some (r, w') \<Longrightarrow>
    idle (ext w') = idle (ext w) \<and> kv (ext w') = kv (ext w)"
  by (auto simp: run_query_def run_simps dest: sql_query)

lemma give_idle [simp]: "idle (ext (give_connection E c w)) = add_mset c (idle (ext w))"
    "kv (ext (give_connection E c w)) = kv (ext w)"
  using pool_give by (simp_all add: give_connection_def)

lemma set_key_idle: "set_key_toredis E k v w = Some (r, w') \<Longrightarrow> idle (ext w') = idle (ext w)"
  by (auto simp: set_key_toredis_def with_ext_eq run_simps dest: redis_idle split: if_splits)

lemma insertDeviceGps_balanced: "insertDeviceGps E a b c d w = Some (r, w') \<Longrightarrow>
    idle (ext w') = idle (ext w) \<and> kv (ext w') = kv (ext w)"
  by (auto simp: insertDeviceGps_def run_simps dest!: take_idle execute_idle)

lemma insertUser_balanced: "insertUser E a b w = Some (r, w') \<Longrightarrow>
    idle (ext w') = idle (ext w) \<and> kv (ext w') = kv (ext w)"
  by (auto simp: insertUser_def run_simps dest!: take_idle execute_idle)

lemma selectUserId_balanced: "selectUserId E a b u w = Some (r, v, w') \<Longrightarrow>
    idle (ext w') = idle (ext w) \<and> kv (ext w') = kv (ext w)"
  by (auto simp: selectUserId_def run_simps dest!: take_idle query_idle)

lemma updatePassword_balanced: "updatePassword E a b w = Some (r, w') \<Longrightarrow>
    idle (ext w') = idle (ext w) \<and> kv (ext w') = kv (ext w)"
  by (auto simp: updatePassword_def run_simps dest!: take_idle execute_idle)

lemma publish_idle: "publish_location E row u w = Some (r, w') \<Longrightarrow> idle (ext w') = idle (ext w)"
  by (auto simp: publish_location_def run_simps dest: set_key_idle)

lemma selectLocationNewItem_balanced: "selectLocationNewItem E d u w = Some (r, w') \<Longrightarrow>
    idle (ext w') = idle (ext w)"
  by (auto simp: selectLocationNewItem_def run_simps dest!: take_idle query_idle publish_idle
      split: list.splits)

lemma user_rows_idle: "user_rows E b rows w = Some w' \<Longrightarrow> idle (ext w') = idle (ext w)"
  by (induction rows arbitrary: b w) (auto simp: run_simps dest!: set_key_idle split: if_splits)

lemma relationship_rows_idle:
  "relationship_rows E b c rows w = Some w' \<Longrightarrow> idle (ext w') = idle (ext w)"
  by (induction rows arbitrary: b c w) (auto simp: run_simps dest!: set_key_idle split: if_splits)

lemma initUserInfoList_balanced: "initUserInfoList E w = Some w' \<Longrightarrow> idle (ext w') = idle (ext w)"
  by (auto simp: initUserInfoList_def run_simps dest!: take_idle query_idle user_rows_idle)

lemma initRelationship_balanced:
  "initUserAndDeviceRelationshipList E w = Some w' \<Longrightarrow> idle (ext w') = idle (ext w)"
  by (auto simp: initUserAndDeviceRelationshipList_def run_simps
      dest!: take_idle query_idle relationship_rows_idle)

end

section \<open>The loaders\<close>

text \<open>
  What the start-up leaves in Redis: \<open>U_\<close>name to id for every user; \<open>RP_\<close>user to device
  and \<open>R_\<close>device to user for every relationship. Rows have to fit the 20-byte keys.
\<close>

definition user_row_ok :: "sql_row \<Rightarrow> bool" where
  "user_row_ok row \<longleftrightarrow> 2 \<le> length row \<and> (case (row ! 0, row ! 1) of
     (Some i, Some n) \<Rightarrow> plain i \<and> plain n \<and> length n < 18 \<and> length i < 230 | _ \<Rightarrow> False)"

definition put_user :: "(byte list \<rightharpoonup> byte list) \<Rightarrow> sql_row \<Rightarrow> (byte list \<rightharpoonup> byte list)" where
  "put_user m row = m(bytes ''U_'' @ the (row ! 1) \<mapsto> the (row ! 0))"

definition relationship_row_ok :: "sql_row \<Rightarrow> bool" where
  "relationship_row_ok row \<longleftrightarrow> 2 \<le> length row \<and> (case (row ! 0, row ! 1) of
     (Some u, Some d) \<Rightarrow> plain u \<and> plain d \<and> length u < 17 \<and> length d < 18 | _ \<Rightarrow> False)"

definition put_relationship ::
    "(byte list \<rightharpoonup> byte list) \<Rightarrow> sql_row \<Rightarrow> (byte list \<rightharpoonup> byte list)" where
  "put_relationship m row =
     m(bytes ''RP_'' @ the (row ! 0) \<mapsto> the (row ! 1), bytes ''R_'' @ the (row ! 1) \<mapsto> the (row ! 0))"

lemma plain_prefix [simp]:
  "plain (bytes ''U_'' @ s) \<longleftrightarrow> 0 \<notin> set s \<and> 32 \<notin> set s \<and> 37 \<notin> set s"
  "plain (bytes ''R_'' @ s) \<longleftrightarrow> 0 \<notin> set s \<and> 32 \<notin> set s \<and> 37 \<notin> set s"
  "plain (bytes ''RP_'' @ s) \<longleftrightarrow> 0 \<notin> set s \<and> 32 \<notin> set s \<and> 37 \<notin> set s"
  by (auto simp: plain_def bytes_def)

lemma get_column_Some [simp]:
  "1 \<le> k \<Longrightarrow> k \<le> length row \<Longrightarrow> row ! (k - 1) = Some x \<Longrightarrow> get_column row k = Some x"
  by (simp add: get_column_def ResultSet_getString_def)

text \<open>A key and its device keep their prefixes apart.\<close>

lemma prefixes_differ [simp]: "bytes ''RP_'' @ s \<noteq> bytes ''R_'' @ t" "bytes ''R_'' @ t \<noteq> bytes ''RP_'' @ s"
  by (auto simp: bytes_def)

lemma put_relationship_reads:
  assumes "distinct (map (\<lambda>r. r ! 1) rows)" and "distinct (map (\<lambda>r. r ! 0) rows)"
    and "\<forall>r \<in> set rows. relationship_row_ok r" and "row \<in> set rows"
  shows "foldl put_relationship m rows (bytes ''R_'' @ the (row ! 1)) = row ! 0"
    and "foldl put_relationship m rows (bytes ''RP_'' @ the (row ! 0)) = row ! 1"
proof -
  have "foldl put_relationship m rows (bytes ''R_'' @ the (row ! 1)) = row ! 0 \<and>
      foldl put_relationship m rows (bytes ''RP_'' @ the (row ! 0)) = row ! 1"
    using assms
  proof (induction rows rule: rev_induct)
    case Nil
    then show ?case by simp
  next
    case (snoc r rows)
    have ok: "relationship_row_ok r" "relationship_row_ok row" using snoc.prems(3,4) by auto
    show ?case
    proof (cases "row = r")
      case True
      with ok show ?thesis
        by (auto simp: put_relationship_def relationship_row_ok_def split: option.splits)
    next
      case False
      then have "row \<in> set rows" using snoc.prems(4) by auto
      moreover from this have "row ! 1 \<in> (\<lambda>r. r ! 1) ` set rows" by (rule imageI)
      then have "row ! 1 \<noteq> r ! 1" using snoc.prems(1) by auto
      moreover have "row ! 0 \<in> (\<lambda>r. r ! 0) ` set rows" using \<open>row \<in> set rows\<close> by (rule imageI)
      then have "row ! 0 \<noteq> r ! 0" using snoc.prems(2) by auto
      ultimately have "the (row ! 1) \<noteq> the (r ! 1)" "the (row ! 0) \<noteq> the (r ! 0)"
        using ok by (auto simp: relationship_row_ok_def split: option.splits)
      with \<open>row \<in> set rows\<close> show ?thesis using snoc by (simp add: put_relationship_def)
    qed
  qed
  then show "foldl put_relationship m rows (bytes ''R_'' @ the (row ! 1)) = row ! 0"
    and "foldl put_relationship m rows (bytes ''RP_'' @ the (row ! 0)) = row ! 1" by auto
qed

context backend
begin

lemma user_rows_put:
  assumes "\<forall>r \<in> set rows. user_row_ok r" and "length b = 20"
  shows "\<exists>w'. user_rows E b rows w = Some w' \<and> kv (ext w') = foldl put_user (kv (ext w)) rows"
  using assms
proof (induction rows arbitrary: b w)
  case Nil
  then show ?case by simp
next
  case (Cons r rows)
  obtain i n where r: "2 \<le> length r" "r ! 0 = Some i" "r ! 1 = Some n" "plain i" "plain n"
      "length n < 18" "length i < 230"
    using Cons.prems(1) by (auto simp: user_row_ok_def split: option.splits)
  obtain b' where b': "sprintf_at b 0 (bytes ''U_'' @ n) = Some b'" "length b' = 20"
      "cstr b' 0 = Some (bytes ''U_'' @ n)"
    using sprintf_ok [of "bytes ''U_'' @ n" 0 b] r(5,6) Cons.prems(2)
    by (auto simp: plain_def bytes_def)
  have "plain (bytes ''U_'' @ n)" using r(5) by (simp add: plain_def bytes_def)
  from set_ok [OF this r(4), of w] obtain w1 where w1: "set_key_toredis E (bytes ''U_'' @ n) i w = Some (0, w1)"
      "kv (ext w1) = (kv (ext w))(bytes ''U_'' @ n \<mapsto> i)"
    using r(6,7) by auto
  have "put_user (kv (ext w)) r = kv (ext w1)" using r(2,3) w1(2) by (simp add: put_user_def)
  then show ?case
    using Cons.IH [of b' w1] Cons.prems(1) b' w1(1) r(1-3) by simp
qed

lemma relationship_rows_put:
  assumes "\<forall>r \<in> set rows. relationship_row_ok r" and "length b = 20" and "length c = 20"
  shows "\<exists>w'. relationship_rows E b c rows w = Some w' \<and>
    kv (ext w') = foldl put_relationship (kv (ext w)) rows"
  using assms
proof (induction rows arbitrary: b c w)
  case Nil
  then show ?case by simp
next
  case (Cons r rows)
  obtain u d where r: "2 \<le> length r" "r ! 0 = Some u" "r ! 1 = Some d" "plain u" "plain d"
      "length u < 17" "length d < 18"
    using Cons.prems(1) by (auto simp: relationship_row_ok_def split: option.splits)
  have p: "plain (bytes ''RP_'' @ u)" "plain (bytes ''R_'' @ d)" using r(4,5) by (simp_all add: plain_def bytes_def)
  obtain b' where b': "sprintf_at b 0 (bytes ''RP_'' @ u) = Some b'" "length b' = 20"
      "cstr b' 0 = Some (bytes ''RP_'' @ u)"
    using sprintf_ok [of "bytes ''RP_'' @ u" 0 b] r(6) p(1) Cons.prems(2) by (auto simp: plain_def bytes_def)
  obtain c' where c': "sprintf_at c 0 (bytes ''R_'' @ d) = Some c'" "length c' = 20"
      "cstr c' 0 = Some (bytes ''R_'' @ d)"
    using sprintf_ok [of "bytes ''R_'' @ d" 0 c] r(7) p(2) Cons.prems(3) by (auto simp: plain_def bytes_def)
  obtain w1 where w1: "set_key_toredis E (bytes ''RP_'' @ u) d w = Some (0, w1)"
      "kv (ext w1) = (kv (ext w))(bytes ''RP_'' @ u \<mapsto> d)"
    using set_ok [OF p(1) r(5), of w] r(6,7) by auto
  obtain w2 where w2: "set_key_toredis E (bytes ''R_'' @ d) u w1 = Some (0, w2)"
      "kv (ext w2) = (kv (ext w1))(bytes ''R_'' @ d \<mapsto> u)"
    using set_ok [OF p(2) r(4), of w1] r(6,7) by auto
  have "put_relationship (kv (ext w)) r = kv (ext w2)"
    using r(2,3) w1(2) w2(2) by (simp add: put_relationship_def)
  then show ?case
    using Cons.IH [of b' c' w2] Cons.prems(1) b' c' w1(1) w2(1) r(1-3) by simp
qed

text \<open>Both loaders, from a pool with a free connection and a query that answers \<open>rows\<close>.\<close>

lemma initUserInfoList_loads:
  assumes "ConnectionPool_getConnection E (ext w) = (Some c, e1)"
    and "Connection_executeQuery E c SQL_SELECT_USERINFO_LIST [] e1 = Some (Some rows, e2)"
    and "\<forall>r \<in> set rows. user_row_ok r"
  shows "\<exists>w'. initUserInfoList E w = Some w' \<and> kv (ext w') = foldl put_user (kv (ext w)) rows
    \<and> idle (ext w') = idle (ext w)"
proof -
  have "kv e2 = kv (ext w)" using pool_take [OF assms(1)] sql_query [OF assms(2)] by simp
  with user_rows_put [OF assms(3), of "replicate 20 0" "w\<lparr>ext := e2\<rparr>"]
  obtain w3 where "user_rows E (replicate 20 0) rows (w\<lparr>ext := e2\<rparr>) = Some w3"
    and "kv (ext w3) = foldl put_user (kv (ext w)) rows" by auto
  then have "\<exists>w'. initUserInfoList E w = Some w' \<and> kv (ext w') = foldl put_user (kv (ext w)) rows"
    using assms(1,2)
    by (simp add: initUserInfoList_def take_connection_def with_ext_def run_query_def)
  then show ?thesis using initUserInfoList_balanced by blast
qed

lemma initRelationship_loads:
  assumes "ConnectionPool_getConnection E (ext w) = (Some c, e1)"
    and "Connection_executeQuery E c SQL_SELECT_RELATIONSHIP_LIST [] e1 = Some (Some rows, e2)"
    and "\<forall>r \<in> set rows. relationship_row_ok r"
  shows "\<exists>w'. initUserAndDeviceRelationshipList E w = Some w'
    \<and> kv (ext w') = foldl put_relationship (kv (ext w)) rows \<and> idle (ext w') = idle (ext w)"
proof -
  have "kv e2 = kv (ext w)" using pool_take [OF assms(1)] sql_query [OF assms(2)] by simp
  with relationship_rows_put [OF assms(3), of "replicate 20 0" "replicate 20 0" "w\<lparr>ext := e2\<rparr>"]
  obtain w3 where "relationship_rows E (replicate 20 0) (replicate 20 0) rows (w\<lparr>ext := e2\<rparr>) = Some w3"
    and "kv (ext w3) = foldl put_relationship (kv (ext w)) rows" by auto
  then have "\<exists>w'. initUserAndDeviceRelationshipList E w = Some w'
      \<and> kv (ext w') = foldl put_relationship (kv (ext w)) rows"
    using assms(1,2)
    by (simp add: initUserAndDeviceRelationshipList_def take_connection_def with_ext_def run_query_def)
  then show ?thesis using initRelationship_balanced by blast
qed

end

text \<open>At start-up every row of the relationship table becomes readable in both directions: the
  user under \<open>R_<device>\<close> and the device under \<open>RP_<user>\<close>, for rows that fit the buffers and
  whose users and devices are distinct.\<close>

lemma relationships_loaded:
  assumes "backend E kv idle"
    and "ConnectionPool_getConnection E (ext w) = (Some c, e1)"
    and "Connection_executeQuery E c SQL_SELECT_RELATIONSHIP_LIST [] e1 = Some (Some rows, e2)"
    and "\<forall>r \<in> set rows. relationship_row_ok r"
    and "distinct (map (\<lambda>r. r ! 1) rows)" and "distinct (map (\<lambda>r. r ! 0) rows)" and "row \<in> set rows"
  shows "\<exists>w'. initUserAndDeviceRelationshipList E w = Some w'
    \<and> kv (ext w') (bytes ''R_'' @ the (row ! 1)) = row ! 0
    \<and> kv (ext w') (bytes ''RP_'' @ the (row ! 0)) = row ! 1"
proof -
  obtain w' where "initUserAndDeviceRelationshipList E w = Some w'"
      "kv (ext w') = foldl put_relationship (kv (ext w)) rows"
    using backend.initRelationship_loads [OF assms(1-4)] by blast
  then show ?thesis using put_relationship_reads [OF assms(5,6,4,7)] by auto
qed

section \<open>Publishing a location\<close>

definition location_row :: "byte list \<Rightarrow> byte list \<Rightarrow> byte list \<Rightarrow> sql_row" where
  "location_row lng lat high = [Some lng, Some lat, Some high]"

lemma publish_location_eq:
  assumes "0 \<notin> set lng" and "0 \<notin> set lat" and "0 \<notin> set high"
    and "length lng < 12" and "length lat < 12" and "length high < 12"
    and "length (dec u) < 8"
  shows "publish_location E (location_row lng lat high) u w =
    set_key_toredis E (dec u) (location_text lng lat high) w"
proof -
  obtain b1 where b1: "sprintf_at (replicate 12 0) 0 lng = Some b1" "cstr b1 0 = Some lng"
    using sprintf_ok [OF assms(1), of 0 "replicate 12 0"] assms(4) by auto
  obtain b2 where b2: "sprintf_at (replicate 12 0) 0 lat = Some b2" "cstr b2 0 = Some lat"
    using sprintf_ok [OF assms(2), of 0 "replicate 12 0"] assms(5) by auto
  obtain b3 where b3: "sprintf_at (replicate 12 0) 0 high = Some b3" "cstr b3 0 = Some high"
    using sprintf_ok [OF assms(3), of 0 "replicate 12 0"] assms(6) by auto
  have "0 \<notin> set (location_text lng lat high)" and "length (location_text lng lat high) < 256"
    using assms(1-6) by (auto simp: location_text_def bytes_def)
  then obtain b4 where b4: "sprintf_at (replicate 256 0) 0 (location_text lng lat high) = Some b4"
      "cstr b4 0 = Some (location_text lng lat high)"
    using sprintf_ok [of "location_text lng lat high" 0 "replicate 256 0"] by auto
  obtain b5 where b5: "sprintf_at (replicate 8 0) 0 (dec u) = Some b5" "cstr b5 0 = Some (dec u)"
    using sprintf_ok [of "dec u" 0 "replicate 8 0"] dec_no_nul [of u] assms(7) by auto
  show ?thesis using b1 b2 b3 b4 b5 by (simp add: publish_location_def location_row_def)
qed

text \<open>A user id of eight digits, which a phone packet can carry, overruns \<open>u8UserId\<close>.\<close>

lemma publish_location_overflow: "8 \<le> length (dec u) \<Longrightarrow> publish_location E row u w = None"
  by (auto simp: publish_location_def sprintf_overflow bind_eq_None_conv)

section \<open>The reference backend\<close>

interpretation ref_backend: backend "ref_externals st" ref_kv "\<lambda>e. mset (ref_free e)"
  by unfold_locales (auto simp: ref_externals_def split: list.splits prod.splits)

end
