(* ===== verification/Apollo_Client.thy ===== *)
theory Apollo_Client
  imports Apollo_Sql
begin

text \<open>
  The state of a connection (\<open>client_t\<close> and \<open>BlockBuffer\<close> of \<open>ApolloProtocol.h\<close>) and the two
  operations every handler ends in: \<open>apolloReturnPacket\<close> (\<open>ApolloProtocol.c\<close>) queues an answer
  and \<open>closeClient\<close> (\<open>server.c\<close>) closes the descriptor once. A value of type \<open>client\<close> is an
  allocated object, so the null tests of the code have no counterpart; the pointers inside
  it are optional handles.
\<close>

record BlockBuffer =
  bb_buffer :: "byte list"
  bb_packet :: "byte list"
  bb_index :: "32 word"

record client =
  fd :: int
  evbase :: "nat option"
  buf_ev :: "nat option"
  output_buffer :: "nat option"
  pBlock :: "BlockBuffer option"

definition closeClient :: "client \<Rightarrow> 'w world \<Rightarrow> client \<times> 'w world" where
  "closeClient client w =
     (if 0 \<le> fd client
      then (client\<lparr>fd := -1\<rparr>, w\<lparr>closed_fds := closed_fds w @ [fd client]\<rparr>)
      else (client, w))"

definition buffered_on_error :: "client \<Rightarrow> 'w world \<Rightarrow> client \<times> 'w world" where
  "buffered_on_error client w = closeClient client w"

definition buffered_on_write :: "client \<Rightarrow> 'w world \<Rightarrow> client \<times> 'w world" where
  "buffered_on_write client w = (client, w)"

text \<open>\<open>evbuffer_add\<close> of \<open>len\<close> bytes of a buffer from an offset on, and the flush.\<close>

definition queue_output ::
    "'w externals \<Rightarrow> client \<Rightarrow> byte list \<Rightarrow> nat \<Rightarrow> nat \<Rightarrow> 'w world \<Rightarrow> 'w world option" where
  "queue_output E client buf off len w = do {
     out \<leftarrow> output_buffer client;
     xs \<leftarrow> fetch buf off len;
     Some (w\<lparr>ext := evbuffer_add E xs (ext w)\<rparr>) }"

definition flush_output ::
    "'w externals \<Rightarrow> client \<Rightarrow> 'w world \<Rightarrow> client \<times> 'w world" where
  "flush_output E client w =
     (case with_ext (bufferevent_write_buffer E) w of (failed, w') \<Rightarrow>
        if failed then closeClient client w' else (client, w'))"

definition apolloReturnPacket ::
    "'w externals \<Rightarrow> client \<Rightarrow> byte list \<Rightarrow> nat \<Rightarrow> 'w world \<Rightarrow> (client \<times> 'w world) option" where
  "apolloReturnPacket E client buf len w = do {
     w1 \<leftarrow> queue_output E client buf 0 len w;
     Some (flush_output E client w1) }"

section \<open>Closing\<close>

lemma closeClient_closed: "closeClient c w = (c', w') \<Longrightarrow> fd c' < 0"
  by (auto simp: closeClient_def split: if_splits)

lemma closeClient_idem: "closeClient c w = (c', w') \<Longrightarrow> closeClient c' w' = (c', w')"
  by (auto simp: closeClient_def split: if_splits)

lemma closeClient_fields:
  assumes "closeClient c w = (c', w')"
  shows "pBlock c' = pBlock c" and "output_buffer c' = output_buffer c" and "evbase c' = evbase c"
    and "buf_ev c' = buf_ev c" and "ext w' = ext w" and "files w' = files w"
    and "started w' = started w" and "localtime_now w' = localtime_now w"
    and "creatable w' = creatable w"
  using assms by (auto simp: closeClient_def split: if_splits)

text \<open>
  The descriptors closed so far and the one still open: no sequence of answers and closes
  closes a descriptor twice.
\<close>

definition fd_balance :: "int \<Rightarrow> client \<Rightarrow> 'w world \<Rightarrow> bool" where
  "fd_balance n c w \<longleftrightarrow> (if 0 \<le> fd c then fd c = n \<and> count (mset (closed_fds w)) n = 0
     else count (mset (closed_fds w)) n \<le> 1)"

lemma closeClient_balance: "fd_balance n c w \<Longrightarrow> closeClient c w = (c', w') \<Longrightarrow> fd_balance n c' w'"
  by (auto simp: closeClient_def fd_balance_def split: if_splits)

section \<open>Answers\<close>

lemma queue_output_frame: "queue_output E c b i n w = Some w' \<Longrightarrow> same_but_ext w w'"
  by (auto simp: queue_output_def run_simps)

lemma flush_output_fields:
  assumes "flush_output E c w = (c', w')"
  shows "pBlock c' = pBlock c" and "output_buffer c' = output_buffer c" and "evbase c' = evbase c"
    and "buf_ev c' = buf_ev c" and "files w' = files w"
    and "started w' = started w" and "localtime_now w' = localtime_now w"
    and "creatable w' = creatable w"
  using assms by (auto simp: flush_output_def with_ext_def closeClient_def split: prod.splits if_splits)

lemma flush_output_balance: "fd_balance n c w \<Longrightarrow> flush_output E c w = (c', w') \<Longrightarrow> fd_balance n c' w'"
  by (auto simp: flush_output_def with_ext_def closeClient_def fd_balance_def split: prod.splits if_splits)

lemma queue_output_balance:
  "fd_balance n c w \<Longrightarrow> queue_output E d b i k w = Some w' \<Longrightarrow> fd_balance n c w'"
  by (auto simp: queue_output_def fd_balance_def run_simps split: if_splits)

lemma apolloReturnPacket_fields:
  assumes "apolloReturnPacket E c b n w = Some (c', w')"
  shows "pBlock c' = pBlock c" and "output_buffer c' = output_buffer c" and "files w' = files w"
    and "started w' = started w" and "localtime_now w' = localtime_now w"
    and "creatable w' = creatable w"
proof -
  obtain w1 where q: "queue_output E c b 0 n w = Some w1" and f: "flush_output E c w1 = (c', w')"
    using assms by (auto simp: apolloReturnPacket_def run_simps)
  note fr = same_but_ext_fields [OF queue_output_frame [OF q]]
  show "pBlock c' = pBlock c" and "output_buffer c' = output_buffer c" and "files w' = files w"
    and "started w' = started w" and "localtime_now w' = localtime_now w"
    and "creatable w' = creatable w"
    using flush_output_fields [OF f] fr by simp_all
qed

lemma apolloReturnPacket_balance:
  "fd_balance n c w \<Longrightarrow> apolloReturnPacket E c b k w = Some (c', w') \<Longrightarrow> fd_balance n c' w'"
  by (simp add: apolloReturnPacket_def run_simps)
    (blast intro: queue_output_balance flush_output_balance)

text \<open>The answer that reaches the peer, when the connection has its buffer.\<close>

lemma apolloReturnPacket_sends:
  assumes "output_buffer c \<noteq> None" and "n \<le> length b"
    and "bufferevent_write_buffer E (evbuffer_add E (take n b) (ext w)) = (False, e)"
  shows "apolloReturnPacket E c b n w = Some (c, w\<lparr>ext := e\<rparr>)"
  using assms by (auto simp: apolloReturnPacket_def queue_output_def flush_output_def fetch_def with_ext_def)

lemma apolloReturnPacket_defined:
  "output_buffer c \<noteq> None \<Longrightarrow> n \<le> length b \<Longrightarrow> \<exists>c' w'. apolloReturnPacket E c b n w = Some (c', w')"
  by (cases "flush_output E c (w\<lparr>ext := evbuffer_add E (take n b) (ext w)\<rparr>)")
    (auto simp: apolloReturnPacket_def queue_output_def fetch_def)

end
