(* ===== verification/Apollo_Handlers.thy ===== *)
theory Apollo_Handlers
  imports Apollo_Client
begin

text \<open>
  The packet handlers of \<open>ApolloProtocol.c\<close> that answer from Redis: heart beats of devices and
  phones, phone commands and device locations. \<open>packet\<close> is the 1024-byte packet buffer of
  the connection and \<open>len\<close> the number of bytes received. The lemmas give the handlers'
  results branch by branch, and show that a command stored for a phone is delivered by the
  next heart beat of the device.
\<close>

section \<open>Phone commands\<close>

definition checkPhoneCommand :: "byte \<Rightarrow> int" where
  "checkPhoneCommand Cmd =
     (if Cmd = CMD_PHONE_BUZZER_DEVICE_OPEN \<or> Cmd = CMD_PHONE_BUZZER_DEVICE_CLOSE
       \<or> Cmd = CMD_PHONE_LIGHT1_DEVICE_OPEN \<or> Cmd = CMD_PHONE_LIGHT1_DEVICE_CLOSE
       \<or> Cmd = CMD_PHONE_LIGHT2_DEVICE_OPEN \<or> Cmd = CMD_PHONE_LIGHT2_DEVICE_CLOSE then 8
      else if Cmd = CMD_PHONE_REGISTER_USER \<or> Cmd = CMD_PHONE_SIGNIN_USER
       \<or> Cmd = CMD_PHONE_UPDATE_PWD then 7
      else if Cmd = CMD_PHONE_DEVICE_ALARMMUSIC_OPEN \<or> Cmd = CMD_PHONE_DEVICE_ALARMMUSIC_CLOSE
       \<or> Cmd = CMD_PHONE_DEVICE_SAFEZONEMUSIC_OPEN \<or> Cmd = CMD_PHONE_DEVICE_SAFEZONEMUSIC_CLOSE then 6
      else if Cmd = CMD_PHONE_DEVICE_SOS_MSGREMAINER_OPEN \<or> Cmd = CMD_PHONE_DEVICE_SOS_MSGREMAINER_CLOSE
       \<or> Cmd = CMD_PHONE_DEVICE_POWER_MSGREMAINDER_OPEN
       \<or> Cmd = CMD_PHONE_DEVICE_POWER_MSGREMAINDER_CLOSE then 5
      else if Cmd = CMD_PHONE_DEVICE_FAMILYNUMBER_SET \<or> Cmd = CMD_PHONE_DEVICE_CONTRACT_SET
       \<or> Cmd = CMD_PHONE_DEVICE_PHONEBOOK_SET \<or> Cmd = CMD_PHONE_DEVICE_FREQ_SET then 4
      else if Cmd = CMD_PHONE_BIND_DEVICE \<or> Cmd = CMD_PHONE_UNBIND_DEVICE then 3
      else if Cmd = CMD_PHONE_DEVICE_SOS_CLEAR then 2
      else if Cmd = CMD_PHONE_DEVICE_RESET then 1
      else if Cmd = CMD_PHONE_DEVICE_DOWNLOAD \<or> Cmd = CMD_PHONE_DEVICE_REALTIME_LOCATION
       \<or> Cmd = CMD_PHONE_DEVICE_COUNTSTEP_OPEN \<or> Cmd = CMD_PHONE_DEVICE_COUNTSTEP_CLOSE
       \<or> Cmd = CMD_PHONE_DEVICE_SLEEPQUILTY_OPEN \<or> Cmd = CMD_PHONE_DEVICE_SLEEPQUILTY_CLOSE
       \<or> Cmd = CMD_PHONE_DEVICE_ALARM \<or> Cmd = CMD_PHONE_DEVICE_SAFEZONE_ALARM
       \<or> Cmd = CMD_PHONE_DEVICE_LONGSAT_ALARM \<or> Cmd = CMD_PHONE_DEVICE_LOWPOWER_ALARM then 0
      else -1)"

section \<open>Heart beat of a device\<close>

text \<open>
  The stored command when it has four characters or more: the parts between underscores are
  the command, an index, and a phone number. \<open>Param\<close> has exactly \<open>Count\<close> slots.
\<close>

definition heart_param ::
    "byte list \<Rightarrow> byte list \<Rightarrow> (int \<times> byte list) option" where
  "heart_param u8RedisDeviceInfo info = do {
     (Param, Count) \<leftarrow> Separation 95 u8RedisDeviceInfo;
     p0 \<leftarrow> peek Param 0;
     s0 \<leftarrow> cstr p0 0;
     cmd \<leftarrow> atoi s0;
     info1 \<leftarrow> poke info IDX_DEVICE_RETURN_COMMAND (word_of_int cmd);
     if (word_of_int cmd :: byte) AND 0xF0 = 0x40 then do {
       p1 \<leftarrow> peek Param 1;
       s1 \<leftarrow> cstr p1 0;
       ix \<leftarrow> atoi s1;
       info2 \<leftarrow> poke info1 IDX_DEVICE_RETURN_INDEX (word_of_int ix);
       if Count = 3 then do {
         p2 \<leftarrow> peek Param 2;
         (u8PhoneNumber, p2') \<leftarrow> stringtohex_loop (replicate (LEN_PHONE_NUMBER + 1) 0) 0 p2 LEN_PHONE_NUMBER;
         num \<leftarrow> fetch u8PhoneNumber 0 LEN_PHONE_NUMBER;
         info3 \<leftarrow> blit info2 IDX_DEVICE_RETURN_PHNUM num;
         Some (cmd, info3) }
       else Some (cmd, info2) }
     else Some (cmd, info1) }"

text \<open>Lines 110 to 160: the command waiting for the device, taken out of Redis.\<close>

definition heart_command ::
    "'w externals \<Rightarrow> byte list \<Rightarrow> byte list \<Rightarrow> 'w world \<Rightarrow> (int \<times> byte list \<times> 'w world) option" where
  "heart_command E u8DeviceId info w = do {
     (r, buf, w1) \<leftarrow> get_value_fromredis E u8DeviceId (replicate REDIS_COMMAND_LENGTH 0) 0 w;
     if r = -1 then Some (0, info, w1)
     else do {
       u8RedisDeviceInfo \<leftarrow> cstr buf 0;
       if length u8RedisDeviceInfo < 4 then do {
         cmd \<leftarrow> atoi u8RedisDeviceInfo;
         (d, w2) \<leftarrow> del_redis_key E u8DeviceId w1;
         Some (if cmd < 0 \<or> cmd > 254 then -4 else cmd, info, w2) }
       else do {
         (cmd, info') \<leftarrow> heart_param u8RedisDeviceInfo info;
         (d, w2) \<leftarrow> del_redis_key E u8DeviceId w1;
         Some (cmd AND 0xF0, info', w2) } } }"

text \<open>The device id of a packet as text, and the relationship key printed from it.\<close>

definition device_text :: "byte list \<Rightarrow> byte list option" where
  "device_text packet = do {
     u8DeviceId \<leftarrow> hextostring (replicate (LEN_DEVICE_ID * 2 + 1) 0) 0 packet IDX_DEVICE_ID LEN_DEVICE_ID;
     cstr u8DeviceId 0 }"

definition relationship_key :: "byte list \<Rightarrow> byte list option" where
  "relationship_key u8DeviceId = do {
     b \<leftarrow> sprintf_at (replicate (LEN_DEVICE_ID * 2 + 6) 0) 0 (bytes ''R_'' @ u8DeviceId);
     cstr b 0 }"

definition device_info_text :: "byte list \<Rightarrow> byte list option" where
  "device_info_text packet = do {
     u8DeviceInfo \<leftarrow> hextostring (replicate REDIS_COMMAND_LENGTH 0) 0 packet IDX_DEVICE_POWER LEN_DEVICE_INFO;
     inf \<leftarrow> cstr u8DeviceInfo 0;
     stamp \<leftarrow> int_at packet IDX_DEVICE_HEARTPACKET_TIMESTAMP 4;
     b \<leftarrow> sprintf_at (replicate REDIS_COMMAND_LENGTH 0) 0 (bytes ''I_'' @ inf @ bytes ''_'' @ dec stamp);
     cstr b 0 }"

definition falldown_thread :: "byte list \<Rightarrow> 'w world \<Rightarrow> 'w world option" where
  "falldown_thread packet w = do {
     x \<leftarrow> peek packet 10;
     Some (if x AND 0x0F \<noteq> 0 then pthread_create Start_http_device_falldown w else w) }"

definition deviceHeartPacket ::
    "'w externals \<Rightarrow> byte list \<Rightarrow> int \<Rightarrow> byte list \<Rightarrow> 'w world \<Rightarrow> (int \<times> byte list \<times> 'w world) option" where
  "deviceHeartPacket E packet len info w =
     (if len \<noteq> int LEN_HEART_PACKET_DEVICE then Some (-3, info, w)
      else do {
        u8DeviceId \<leftarrow> device_text packet;
        u8RelationShipDevice \<leftarrow> relationship_key u8DeviceId;
        (r, userBuf, w1) \<leftarrow> get_value_fromredis E u8RelationShipDevice (replicate REDIS_COMMAND_LENGTH 0) 0 w;
        if r = -1 then Some (-1, info, w1)
        else do {
          w2 \<leftarrow> falldown_thread packet w1;
          u8RedisDeviceInfo \<leftarrow> device_info_text packet;
          u8RedisUserValue \<leftarrow> cstr userBuf 0;
          (s, w3) \<leftarrow> set_key_toredis E u8RedisUserValue u8RedisDeviceInfo w2;
          if s = -1 then Some (-2, info, w3)
          else heart_command E u8DeviceId info w3 } })"

section \<open>Heart beat of a phone\<close>

definition phone_text :: "byte list \<Rightarrow> byte list option" where
  "phone_text packet = do {
     u8PhoneId \<leftarrow> hextostring (replicate (LEN_PHONE_ID * 2 + 1) 0) 0 packet IDX_PHONE_ID LEN_PHONE_ID;
     cstr u8PhoneId 0 }"

definition phoneHeaderPacket ::
    "'w externals \<Rightarrow> byte list \<Rightarrow> int \<Rightarrow> byte list \<Rightarrow> nat \<Rightarrow> 'w world
      \<Rightarrow> (int \<times> byte list \<times> 'w world) option" where
  "phoneHeaderPacket E packet len info off w =
     (if len \<noteq> int LEN_HEART_PACKET_PHONE then Some (-3, info, w)
      else do {
        u8PhoneId \<leftarrow> phone_text packet;
        n \<leftarrow> atoi u8PhoneId;
        b \<leftarrow> sprintf_at (replicate (LEN_PHONE_ID * 2 + 1) 0) 0 (dec n);
        PhoneId \<leftarrow> cstr b 0;
        (r, info', w1) \<leftarrow> get_value_fromredis E PhoneId info off w;
        s \<leftarrow> cstr info' off;
        Some (int (length s), info', w1) })"

section \<open>Command of a phone\<close>

text \<open>
  The value stored for the device. \<open>packet\<close> holds signed characters; \<open>u8Cmd\<close> prints the
  command as an unsigned one.
\<close>

definition command_value :: "byte list \<Rightarrow> byte list option" where
  "command_value packet = do {
     c \<leftarrow> peek packet IDX_PHONE_COMMAND;
     i \<leftarrow> peek packet IDX_PHONE_CMD_INDEX;
     b \<leftarrow> (if c \<noteq> CMD_PHONE_DEVICE_FREQ_SET then do {
             u8PhoneNumber \<leftarrow> hextostring (replicate (LEN_PHONE_NUMBER * 2 + 2) 0) 0 packet
               IDX_PHONE_CMD_NUMBER LEN_PHONE_NUMBER;
             num \<leftarrow> cstr u8PhoneNumber 0;
             sprintf_at (replicate 48 0) 0
               (dec (sint c) @ bytes ''_'' @ dec (sint i) @ bytes ''_'' @ num) }
           else sprintf_at (replicate 48 0) 0 (dec (sint c) @ bytes ''_'' @ dec (sint i)));
     cstr b 0 }"

definition phone_device :: "'w externals \<Rightarrow> int \<Rightarrow> 'w world \<Rightarrow> (byte list option \<times> 'w world) option" where
  "phone_device E n w = do {
     kb \<leftarrow> sprintf_at (replicate (LEN_PHONE_ID * 2 + 6) 0) 0 (bytes ''RP_'' @ dec n);
     u8RelationShipPhone \<leftarrow> cstr kb 0;
     (r, dev, w1) \<leftarrow> get_value_fromredis E u8RelationShipPhone (replicate (LEN_DEVICE_ID * 2 + 1) 0) 0 w;
     Some (if r = -1 then None else Some dev, w1) }"

definition phoneCommandPacket ::
    "'w externals \<Rightarrow> byte list \<Rightarrow> int \<Rightarrow> 'w world \<Rightarrow> (int \<times> 'w world) option" where
  "phoneCommandPacket E packet len w =
     (if len \<noteq> int LEN_COMMAND_PACKET then Some (-3, w)
      else do {
        u8PhoneId \<leftarrow> phone_text packet;
        n \<leftarrow> atoi u8PhoneId;
        (dev, w1) \<leftarrow> phone_device E n w;
        (case dev of None \<Rightarrow> Some (-1, w1)
         | Some devBuf \<Rightarrow> do {
             c \<leftarrow> peek packet IDX_PHONE_COMMAND;
             if checkPhoneCommand c = 4 then do {
               u8Value \<leftarrow> command_value packet;
               u8DeviceId \<leftarrow> cstr devBuf 0;
               (r, w2) \<leftarrow> set_key_toredis E u8DeviceId u8Value w1;
               Some (if r = -1 then -2 else 0, w2) }
             else if checkPhoneCommand c = 7 then Some (0, w1)
             else if checkPhoneCommand c = 3 then Some (0, w1)
             else if 0 \<le> checkPhoneCommand c then do {
               cb \<leftarrow> sprintf_at (replicate 6 0) 0 (dec (uint c));
               u8Cmd \<leftarrow> cstr cb 0;
               u8DeviceId \<leftarrow> cstr devBuf 0;
               w2 \<leftarrow> (if c = CMD_PHONE_DEVICE_REALTIME_LOCATION
                      then do { (v, w') \<leftarrow> selectLocationNewItem E u8DeviceId n w1; Some w' }
                      else Some w1);
               (r, w3) \<leftarrow> set_key_toredis E u8DeviceId u8Cmd w2;
               Some (if r = -1 then -2 else 0, w3) }
             else Some (0, w1) }) })"

section \<open>Location of a device\<close>

text \<open>
  A coordinate: five bytes as ten digits behind a letter, the fourth digit replaced by the
  decimal point.
\<close>

definition coordinate :: "byte \<Rightarrow> byte list \<Rightarrow> nat \<Rightarrow> nat \<Rightarrow> byte list option" where
  "coordinate letter packet i n = do {
     b1 \<leftarrow> hextostring (replicate (2 * n + 2) 0) 1 packet i n;
     b2 \<leftarrow> poke b1 0 letter;
     b3 \<leftarrow> poke b2 4 46;
     cstr b3 0 }"

definition location_thread ::
    "byte list \<Rightarrow> byte list \<Rightarrow> byte list \<Rightarrow> byte list \<Rightarrow> 'w world \<Rightarrow> 'w world option" where
  "location_thread packet u8DeviceId u8Longitude u8Latitude w = do {
     t \<leftarrow> peek packet IDX_DEVICE_LOCATIONTYPE;
     if t AND 0xF0 \<noteq> 0 then do {
       lon \<leftarrow> sprintf_at (replicate (2 * LEN_LONGITUDE_DATA + 2) 0) 0 u8Longitude;
       lat \<leftarrow> sprintf_at (replicate (2 * LEN_LATITUDE_DATA + 2) 0) 0 u8Latitude;
       dev \<leftarrow> sprintf_at (replicate (LEN_DEVICE_ID * 2 + 2) 0) 0 u8DeviceId;
       Some (pthread_create (Start_ubloxDownloadApgs u8DeviceId u8Longitude u8Latitude) w) }
     else Some w }"

definition deviceLocationPacket ::
    "'w externals \<Rightarrow> byte list \<Rightarrow> int \<Rightarrow> 'w world \<Rightarrow> (int \<times> 'w world) option" where
  "deviceLocationPacket E packet len w =
     (if len \<noteq> int LEN_GPS_LOCATION_DATA \<and> len \<noteq> int LEN_LAB_LOCATION_DATA then Some (-3, w)
      else do {
        u8DeviceId \<leftarrow> device_text packet;
        u8RelationShipDevice \<leftarrow> relationship_key u8DeviceId;
        (r, userBuf, w1) \<leftarrow> get_value_fromredis E u8RelationShipDevice (replicate REDIS_COMMAND_LENGTH 0) 0 w;
        if r = -1 then Some (-1, w1)
        else if len = int LEN_GPS_LOCATION_DATA then do {
          u8Longitude \<leftarrow> coordinate (of_char CHR ''E'') packet IDX_DEVICE_GPS_LONGITUDE LEN_LONGITUDE_DATA;
          u8Latitude \<leftarrow> coordinate (of_char CHR ''N'') packet IDX_DEVICE_GPS_LATITUDE LEN_LATITUDE_DATA;
          high \<leftarrow> int_at packet IDX_DEVICE_GPS_HIGH 4;
          hb \<leftarrow> sprintf_at (replicate 12 0) 0 (dec high);
          u8High \<leftarrow> cstr hb 0;
          w2 \<leftarrow> location_thread packet u8DeviceId u8Longitude u8Latitude w1;
          (ins, w3) \<leftarrow> insertDeviceGps E u8Longitude u8Latitude u8High u8DeviceId w2;
          stamp \<leftarrow> int_at packet IDX_DEVICE_GPS_TIMESTAMP (sizeof_long E);
          gb \<leftarrow> sprintf_at (replicate REDIS_COMMAND_LENGTH 0) 0
            (bytes ''G_'' @ u8Longitude @ bytes ''_'' @ u8Latitude @ bytes ''_'' @ dec high
              @ bytes ''_0_'' @ dec stamp);
          u8RedisDeviceGpsInfo \<leftarrow> cstr gb 0;
          u8RedisUserValue \<leftarrow> cstr userBuf 0;
          (s, w4) \<leftarrow> set_key_toredis E u8RedisUserValue u8RedisDeviceGpsInfo w3;
          Some (if s = -1 then -2 else 0, w4) }
        else Some (0, pthread_create Start_http_post w1) })"

definition phoneAddDevice :: "byte list \<Rightarrow> int \<Rightarrow> 'w world \<Rightarrow> int \<times> 'w world" where
  "phoneAddDevice packet len w = (0, w)"

definition deviceBaseStation :: "byte list \<Rightarrow> int \<Rightarrow> 'w world \<Rightarrow> int \<times> 'w world" where
  "deviceBaseStation packet len w = (0, w)"

section \<open>The texts of a packet\<close>

text \<open>
  \<open>dev_id\<close> and \<open>phone_number\<close> are the device and the phone a packet names; \<open>heart_info\<close> is
  the text a heart beat publishes. A \<open>clean\<close> text passes through a Redis command unchanged.
\<close>

definition dev_id :: "byte list \<Rightarrow> byte list" where
  "dev_id packet = hex_text (take 8 (drop 1 packet))"

definition phone_number :: "byte list \<Rightarrow> int" where
  "phone_number packet = int (scan_digits 0 (hex_text (take 4 (drop 1 packet))))"

definition heart_info :: "byte list \<Rightarrow> byte list" where
  "heart_info packet = bytes ''I_'' @ hex_text (take 12 (drop 9 packet)) @ bytes ''_''
     @ dec (signed_le (take 4 (drop 24 packet)))"

definition clean :: "byte list \<Rightarrow> bool" where
  "clean s \<longleftrightarrow> 0 \<notin> set s \<and> 32 \<notin> set s \<and> 37 \<notin> set s"

lemma plain_clean: "plain s \<longleftrightarrow> s \<noteq> [] \<and> clean s"
  by (simp add: plain_def clean_def)

lemma clean_append [simp]: "clean (s @ t) \<longleftrightarrow> clean s \<and> clean t"
  by (auto simp: clean_def)

lemma clean_Cons [simp]: "clean (c # s) \<longleftrightarrow> c \<noteq> 0 \<and> c \<noteq> 32 \<and> c \<noteq> 37 \<and> clean s"
  by (auto simp: clean_def)

lemma clean_Nil [simp]: "clean []"
  by (simp add: clean_def)

lemma hex_digit_clean: "hex_digit (hi_nibble x) \<noteq> 32 \<and> hex_digit (lo_nibble x) \<noteq> 32
    \<and> hex_digit (hi_nibble x) \<noteq> 37 \<and> hex_digit (lo_nibble x) \<noteq> 37"
  by (intro conjI; rule nibble_all) code_simp+

lemma clean_hex_text [simp]: "clean (hex_text xs)"
proof -
  have "32 \<notin> set (hex_text xs) \<and> 37 \<notin> set (hex_text xs)"
    using hex_digit_clean by (induction xs) auto
  then show ?thesis by (simp add: clean_def)
qed

lemma clean_dec [simp]: "clean (dec i)"
  using dec_nat_digits [of 32] dec_nat_digits [of 37]
  by (auto simp: clean_def dec_def isdigit_def dec_nat_no_nul)

lemma clean_texts [simp]:
  "clean (bytes ''I_'')" "clean (bytes ''_'')" "clean (bytes ''R_'')" "clean (bytes ''RP_'')"
  "clean (bytes ''G_'')" "clean (bytes ''_0_'')"
  by (simp_all add: clean_def bytes_def)

lemma dec_not_Nil [simp]: "dec i \<noteq> []"
  by (simp add: dec_def)

lemma cstr_zeros:
  "0 \<notin> set s \<Longrightarrow> length s < n \<Longrightarrow> cstr (s @ replicate (n - length s) 0) 0 = Some s"
  by (rule cstr_blit_zeros)

lemma printed:
  assumes "0 \<notin> set s" and "length s < n"
  shows "do { b \<leftarrow> sprintf_at (replicate n 0) 0 s; cstr b 0 } = Some s"
  using sprintf_ok [of s 0 "replicate n 0"] assms by auto

lemma device_text_eq:
  assumes "9 \<le> length packet"
  shows "device_text packet = Some (dev_id packet)"
proof -
  have "length (hex_text (take 8 (drop 1 packet))) = 16" using assms by simp
  then show ?thesis
    using assms cstr_zeros [of "dev_id packet" 17]
    by (simp add: device_text_def hextostring_into_zeros dev_id_def)
qed

lemma length_dev_id [simp]: "9 \<le> length packet \<Longrightarrow> length (dev_id packet) = 16"
  by (simp add: dev_id_def)

lemma clean_dev_id [simp]: "clean (dev_id packet)"
  by (simp add: dev_id_def)

lemma dev_id_no_nul [simp]: "0 \<notin> set (dev_id packet)"
  by (simp add: dev_id_def)

lemma plain_dev_id: "9 \<le> length packet \<Longrightarrow> plain (dev_id packet)"
  by (metis length_dev_id list.size(3) plain_clean clean_dev_id zero_neq_numeral)

lemma relationship_key_eq:
  "0 \<notin> set d \<Longrightarrow> length d < 20 \<Longrightarrow> relationship_key d = Some (bytes ''R_'' @ d)"
  using printed [of "bytes ''R_'' @ d" 22] by (simp add: relationship_key_def bytes_def)

lemma signed_le_range:
  assumes "length bs = 4"
  shows "int32_range (signed_le bs)"
  using assms signed_take_bit_int_less_exp [of 31 "le_int bs"]
    signed_take_bit_int_greater_eq_minus_exp [of 31 "le_int bs"]
  by (simp add: signed_le_def int32_range_def)

lemma dec_int32_length: "int32_range i \<Longrightarrow> length (dec i) \<le> 11"
  using dec_length [of 10 i] by (simp add: int32_range_def)

lemma length_heart_info:
  assumes "28 \<le> length packet"
  shows "length (heart_info packet) \<le> 38"
  using assms dec_int32_length [OF signed_le_range, of "take 4 (drop 24 packet)"]
  by (simp add: heart_info_def)

lemma clean_heart_info [simp]: "clean (heart_info packet)"
  by (simp add: heart_info_def)

lemma heart_info_not_Nil [simp]: "heart_info packet \<noteq> []"
  by (simp add: heart_info_def)

lemma device_info_text_eq:
  assumes "28 \<le> length packet"
  shows "device_info_text packet = Some (heart_info packet)"
proof -
  have "length (hex_text (take 12 (drop 9 packet))) = 24" using assms by simp
  then have "cstr (hex_text (take 12 (drop 9 packet)) @ replicate 232 0) 0 =
      Some (hex_text (take 12 (drop 9 packet)))"
    using cstr_zeros [of "hex_text (take 12 (drop 9 packet))" 256] by simp
  moreover have "0 \<notin> set (heart_info packet)" using clean_heart_info by (simp add: clean_def)
  ultimately show ?thesis
    using assms printed [of "heart_info packet" 256] length_heart_info [OF assms]
    by (simp add: device_info_text_def hextostring_into_zeros int_at_def fetch_def heart_info_def)
qed

lemma phone_text_eq:
  assumes "5 \<le> length packet"
  shows "phone_text packet = Some (hex_text (take 4 (drop 1 packet)))"
proof -
  have "length (hex_text (take 4 (drop 1 packet))) = 8" using assms by simp
  then show ?thesis
    using assms cstr_zeros [of "hex_text (take 4 (drop 1 packet))" 9]
    by (simp add: phone_text_def hextostring_into_zeros)
qed

text \<open>\<open>atoi\<close> of the eight digits of a phone id never overflows; it stops at a letter.\<close>

lemma hex_digit_start: "\<not> isspace (hex_digit (hi_nibble x)) \<and> hex_digit (hi_nibble x) \<noteq> 45
    \<and> hex_digit (hi_nibble x) \<noteq> 43"
  by (rule nibble_all) code_simp

lemma phone_number_atoi:
  assumes "5 \<le> length packet"
  shows "atoi (hex_text (take 4 (drop 1 packet))) = Some (phone_number packet)"
    and "0 \<le> phone_number packet" and "phone_number packet < 10 ^ 8"
proof -
  let ?h = "hex_text (take 4 (drop 1 packet))"
  have l: "length ?h = 8" using assms by simp
  have b: "scan_digits 0 ?h < 10 ^ 8" using scan_digits_bound [of 0 ?h] unfolding l by simp
  then show "0 \<le> phone_number packet" and "phone_number packet < 10 ^ 8"
    by (simp_all add: phone_number_def)
  obtain x r where h: "?h = hex_digit (hi_nibble x) # r"
    using assms by (cases "drop 1 packet") auto
  have "int32_range (int (scan_digits 0 ?h))" using b by (simp add: int32_range_def)
  then show "atoi ?h = Some (phone_number packet)"
    using hex_digit_start [of x] unfolding phone_number_def h
    by (simp add: atoi_def to_int32_def)
qed

lemma length_phone_dec:
  assumes "5 \<le> length packet"
  shows "length (dec (phone_number packet)) \<le> 8"
  using phone_number_atoi [OF assms] by (intro dec_nonneg_length) auto

section \<open>Commands as text\<close>

text \<open>
  \<open>single_command\<close> and \<open>full_command\<close> are the two texts a phone leaves for a device; the
  heart beat reads both back.
\<close>

definition single_command :: "byte \<Rightarrow> byte list" where
  "single_command c = dec (uint c)"

definition full_command :: "byte \<Rightarrow> byte \<Rightarrow> byte list \<Rightarrow> byte list" where
  "full_command c i num = dec (sint c) @ [95] @ dec (sint i) @ [95] @ hex_text num"

definition index_command :: "byte \<Rightarrow> byte \<Rightarrow> byte list" where
  "index_command c i = dec (sint c) @ [95] @ dec (sint i)"

lemma byte_ranges:
  shows "0 \<le> uint (c :: byte)" and "uint c < 256" and "- 128 \<le> sint c" and "sint c < 128"
  using sint_range_size [of c] uint_range_size [of c] by (simp_all add: size_word.rep_eq)

lemma length_single: "length (single_command c) \<le> 3"
  using byte_ranges [of c] unfolding single_command_def by (intro dec_nonneg_length) auto

lemma length_sint: "length (dec (sint (c :: byte))) \<le> 4"
  using byte_ranges [of c] dec_length [of 3 "sint c"] by simp

lemma int32_byte: "int32_range (uint (c :: byte))" "int32_range (sint (c :: byte))"
proof -
  have "- 2147483648 \<le> uint c" "uint c < 2147483648" "- 2147483648 \<le> sint c" "sint c < 2147483648"
    using byte_ranges [of c] by linarith+
  then show "int32_range (uint c)" and "int32_range (sint c)" by (simp_all add: int32_range_def)
qed

lemma clean_commands [simp]:
  "clean (single_command c)" "clean (full_command c i num)" "clean (index_command c i)"
  by (simp_all add: single_command_def full_command_def index_command_def)

lemma word_of_sint [simp]: "word_of_int (sint (c :: byte)) = c"
  by simp

text \<open>Parsing a stored command.\<close>

lemma Separation_full:
  assumes "length num \<le> 15"
  shows "Separation 95 (full_command c i num) =
    Some ([dec (sint c) @ [0], dec (sint i) @ [0], hex_text num @ [0]], 3)"
  using assms length_sint [of c] length_sint [of i]
  by (simp add: Separation_split full_command_def split_on_append_sep split_on_single fits_cell_def)

lemma Separation_index:
  "Separation 95 (index_command c i) = Some ([dec (sint c) @ [0], dec (sint i) @ [0]], 2)"
  using length_sint [of c] length_sint [of i]
  by (simp add: Separation_split index_command_def split_on_append_sep split_on_single fits_cell_def)

lemma cstr_cell: "0 \<notin> set s \<Longrightarrow> cstr (s @ [0]) 0 = Some s"
  using cstr_prefix [of s "[]"] by simp

lemma heart_param_text:
  assumes "c AND 0xF0 = 0x40" and "length num = 8" and "length info = 20"
  shows "heart_param (full_command c i num) info =
    Some (sint c, take 3 info @ [c, i] @ map recode num @ drop 13 info)"
proof -
  obtain p2' where st: "stringtohex_loop (replicate 9 0) 0 (hex_text num @ [0]) 8 = Some (map recode num @ [0], p2')"
    using stringtohex_text [of "hex_text num @ [0]" 0 num 1 "[0]" "replicate 9 0"] assms(2)
    by (auto simp: numeral_eq_Suc)
  have "blit (info[3 := c, 4 := i]) 5 (map recode num) = Some (take 3 info @ [c, i] @ map recode num @ drop 13 info)"
  proof -
    have "take 5 (info[3 := c, 4 := i]) = take 3 info @ [c, i]"
      using assms(3) by (simp add: take_update_swap list_eq_iff_nth_eq nth_append nth_list_update less_Suc_eq numeral_eq_Suc)
    moreover have "drop 13 (info[3 := c, 4 := i]) = drop 13 info" by simp
    ultimately show ?thesis using assms(2,3) by (simp add: blit_def)
  qed
  then show ?thesis
    using assms st
    by (simp add: heart_param_def Separation_full cstr_cell atoi_dec_Nil int32_byte fetch_def)
qed

lemma heart_param_full:
  assumes "c AND 0xF0 = 0x40" and "list_all bcd num" and "length num = 8" and "length info = 20"
  shows "heart_param (full_command c i num) info =
    Some (sint c, take 3 info @ [c, i] @ num @ drop 13 info)"
  using heart_param_text [OF assms(1,3,4)] map_recode [OF assms(2)] by simp

lemma heart_param_index:
  assumes "c AND 0xF0 = 0x40" and "length info = 20"
  shows "heart_param (index_command c i) info = Some (sint c, info[3 := c, 4 := i])"
  using assms by (simp add: heart_param_def Separation_index cstr_cell atoi_dec_Nil int32_byte)

text \<open>A bare command that is stored as four characters has no index to read.\<close>

lemma heart_param_missing_index:
  assumes "Separation 95 s = Some ([p0], 1)" and "cstr p0 0 = Some s0" and "atoi s0 = Some v"
    and "(word_of_int v :: byte) AND 0xF0 = 0x40"
  shows "heart_param s info = None"
  using assms by (auto simp: heart_param_def poke_def)

section \<open>Handlers against Redis\<close>

text \<open>What a device finds: nothing, a single command, or a command with an index.\<close>

context redis_server
begin

lemma heart_command_none:
  assumes "plain dev" and "length dev < 252" and "kv (ext w) dev = None"
  shows "\<exists>w'. heart_command E dev info w = Some (0, info, w') \<and> kv (ext w') = kv (ext w)
    \<and> same_but_ext w w'"
  using get_none [OF assms, of "replicate 256 0" 0] by (auto simp: heart_command_def)

lemma heart_command_reads:
  assumes "plain dev" and "length dev < 252" and "kv (ext w) dev = Some cmd" and "clean cmd"
    and "length cmd \<le> 254"
  shows "\<exists>buf w1 w2. get_value_fromredis E dev (replicate 256 0) 0 w = Some (int (length cmd), buf, w1)
    \<and> cstr buf 0 = Some cmd \<and> del_redis_key E dev w1 = Some (0, w2)
    \<and> kv (ext w2) = (kv (ext w))(dev := None) \<and> same_but_ext w w2"
proof -
  have nul: "0 \<notin> set cmd" using assms(4) by (simp add: clean_def)
  obtain w1 where w1: "get_value_fromredis E dev (replicate 256 0) 0 w =
      Some (int (length cmd), cmd @ replicate (256 - length cmd) 0, w1)"
      "kv (ext w1) = kv (ext w)" "same_but_ext w w1"
    using get_some [OF assms(1-3) nul assms(5), of 0 "replicate 256 0"] assms(5) by auto
  obtain w2 where w2: "del_redis_key E dev w1 = Some (0, w2)" "kv (ext w2) = (kv (ext w1))(dev := None)"
      "same_but_ext w1 w2"
    using del_ok [OF assms(1,2), of w1] by auto
  have "cstr (cmd @ replicate (256 - length cmd) 0) 0 = Some cmd"
    using nul assms(5) by (intro cstr_zeros) auto
  moreover have "same_but_ext w w2" using w1(3) w2(3) by (rule same_but_ext_trans)
  ultimately show ?thesis using w1 w2 by auto
qed

lemma heart_command_single:
  assumes "plain dev" and "length dev < 252" and "kv (ext w) dev = Some (single_command c)"
  shows "\<exists>w'. heart_command E dev info w = Some (if uint c > 254 then -4 else uint c, info, w')
    \<and> kv (ext w') = (kv (ext w))(dev := None) \<and> same_but_ext w w'"
proof -
  have l: "length (single_command c) < 4" using length_single [of c] by simp
  obtain buf w1 w2 where r: "get_value_fromredis E dev (replicate 256 0) 0 w =
        Some (int (length (single_command c)), buf, w1)" "cstr buf 0 = Some (single_command c)"
      "del_redis_key E dev w1 = Some (0, w2)"
      and k: "kv (ext w2) = (kv (ext w))(dev := None)" "same_but_ext w w2"
    using heart_command_reads [OF assms clean_commands(1)] l by auto
  have "atoi (single_command c) = Some (uint c)"
    by (simp add: single_command_def atoi_dec_Nil int32_byte)
  then show ?thesis using r k l byte_ranges [of c] by (auto simp: heart_command_def)
qed

lemma heart_command_param:
  assumes "plain dev" and "length dev < 252" and "kv (ext w) dev = Some cmd" and "clean cmd"
    and "4 \<le> length cmd" and "length cmd \<le> 254" and "heart_param cmd info = Some (v, info')"
  shows "\<exists>w'. heart_command E dev info w = Some (v AND 0xF0, info', w')
    \<and> kv (ext w') = (kv (ext w))(dev := None) \<and> same_but_ext w w'"
proof -
  obtain buf w1 w2 where r: "get_value_fromredis E dev (replicate 256 0) 0 w =
        Some (int (length cmd), buf, w1)" "cstr buf 0 = Some cmd" "del_redis_key E dev w1 = Some (0, w2)"
      and k: "kv (ext w2) = (kv (ext w))(dev := None)" "same_but_ext w w2"
    using heart_command_reads [OF assms(1-4,6)] by auto
  show ?thesis using r k assms(5,7) by (auto simp: heart_command_def)
qed

text \<open>
  The heart beat publishes the state of the device under its user and goes on with the
  waiting command.
\<close>

lemma heart_unbound:
  assumes "length packet = 1024" and "kv (ext w) (bytes ''R_'' @ dev_id packet) = None"
  shows "\<exists>w'. deviceHeartPacket E packet 32 info w = Some (-1, info, w') \<and> kv (ext w') = kv (ext w)
    \<and> same_but_ext w w'"
proof -
  have "plain (bytes ''R_'' @ dev_id packet)" by (simp add: plain_clean bytes_def)
  moreover have "length (bytes ''R_'' @ dev_id packet) < 252" using assms(1) by (simp add: bytes_def)
  ultimately show ?thesis
    using get_none [OF _ _ assms(2), of "replicate 256 0" 0] assms(1)
    by (auto simp: deviceHeartPacket_def device_text_eq relationship_key_eq)
qed

lemma heart_bound:
  assumes "length packet = 1024" and "kv (ext w) (bytes ''R_'' @ dev_id packet) = Some user"
    and "plain user" and "length user < 200"
  shows "\<exists>w'. deviceHeartPacket E packet 32 info w = heart_command E (dev_id packet) info w'
    \<and> kv (ext w') = (kv (ext w))(user \<mapsto> heart_info packet)
    \<and> started w' = started w @ (if packet ! 10 AND 0x0F \<noteq> 0 then [Start_http_device_falldown] else [])
    \<and> files w' = files w"
proof -
  let ?k = "bytes ''R_'' @ dev_id packet"
  have k: "plain ?k" "length ?k < 252" using assms(1) by (simp_all add: plain_clean bytes_def)
  have u: "0 \<notin> set user" "length user \<le> 254" using assms(3,4) by (simp_all add: plain_def)
  obtain w1 where w1: "get_value_fromredis E ?k (replicate 256 0) 0 w =
      Some (int (length user), user @ replicate (256 - length user) 0, w1)"
      "kv (ext w1) = kv (ext w)" "same_but_ext w w1"
    using get_some [OF k assms(2) u, of 0 "replicate 256 0"] u(2) by auto
  have us: "cstr (user @ replicate (256 - length user) 0) 0 = Some user"
    using u by (intro cstr_zeros) auto
  define w2 where "w2 = (if packet ! 10 AND 0x0F \<noteq> 0
    then pthread_create Start_http_device_falldown w1 else w1)"
  have w2: "falldown_thread packet w1 = Some w2" using assms(1) by (simp add: falldown_thread_def w2_def)
  have "plain (heart_info packet)" by (simp add: plain_clean)
  moreover have "length user + length (heart_info packet) < 251"
    using length_heart_info [of packet] assms(1,4) by simp
  ultimately obtain w3 where w3: "set_key_toredis E user (heart_info packet) w2 = Some (0, w3)"
      "kv (ext w3) = (kv (ext w2))(user \<mapsto> heart_info packet)" "same_but_ext w2 w3"
    using set_ok [OF assms(3)] by blast
  have "deviceHeartPacket E packet 32 info w = heart_command E (dev_id packet) info w3"
    using assms(1) w1(1) us w2 w3(1)
    by (simp add: deviceHeartPacket_def device_text_eq relationship_key_eq device_info_text_eq)
  moreover have "ext w2 = ext w1" by (simp add: w2_def pthread_create_def)
  ultimately show ?thesis
    using w1(2) w3(2) same_but_ext_fields [OF w1(3)] same_but_ext_fields [OF w3(3)]
    by (intro exI [of _ w3]) (auto simp: w2_def pthread_create_def)
qed

end

section \<open>Phone commands against Redis\<close>

definition numbered :: "byte \<Rightarrow> bool" where
  "numbered c \<longleftrightarrow> c = CMD_PHONE_DEVICE_FAMILYNUMBER_SET \<or> c = CMD_PHONE_DEVICE_CONTRACT_SET
     \<or> c = CMD_PHONE_DEVICE_PHONEBOOK_SET"

definition single :: "byte \<Rightarrow> bool" where
  "single c \<longleftrightarrow> checkPhoneCommand c \<in> {0, 1, 2, 5, 6, 8} \<and> c \<noteq> CMD_PHONE_DEVICE_REALTIME_LOCATION"

lemma check_numbered: "numbered c \<Longrightarrow> checkPhoneCommand c = 4 \<and> c \<noteq> 0x44 \<and> c AND 0xF0 = 0x40
    \<and> uint c AND 0xF0 = 64 \<and> sint c AND 0xF0 = 64"
  by (auto simp: numbered_def checkPhoneCommand_def)

lemma check_range: "checkPhoneCommand c \<in> {-1, 0, 1, 2, 3, 4, 5, 6, 7, 8}"
  by (simp add: checkPhoneCommand_def)

lemma single_uint:
  assumes "single c"
  shows "0 < uint c \<and> uint c \<le> 254"
proof (rule ccontr)
  assume "\<not> ?thesis"
  then have "uint c = 0 \<or> uint c = 255" using byte_ranges [of c] by auto
  then have "c = 0 \<or> c = 255" by (auto simp: word_uint_eq_iff)
  with assms show False by (auto simp: single_def checkPhoneCommand_def)
qed

lemma command_value_full:
  assumes "length packet = 1024" and "packet ! 5 \<noteq> 0x44"
  shows "command_value packet = Some (full_command (packet ! 5) (packet ! 6) (take 8 (drop 7 packet)))"
proof -
  let ?n = "hex_text (take 8 (drop 7 packet))"
  have l: "length ?n = 16" using assms(1) by simp
  then have "cstr (?n @ replicate 2 0) 0 = Some ?n" using cstr_zeros [of ?n 18] by simp
  moreover have "0 \<notin> set (full_command (packet ! 5) (packet ! 6) (take 8 (drop 7 packet)))"
    using clean_commands(2) by (simp add: clean_def)
  moreover have "length (full_command (packet ! 5) (packet ! 6) (take 8 (drop 7 packet))) < 48"
    using l length_sint [of "packet ! 5"] length_sint [of "packet ! 6"] by (simp add: full_command_def)
  ultimately show ?thesis
    using assms printed [of "full_command (packet ! 5) (packet ! 6) (take 8 (drop 7 packet))" 48]
    by (simp add: command_value_def hextostring_into_zeros full_command_def bytes_def)
qed

lemma command_value_index:
  assumes "length packet = 1024" and "packet ! 5 = 0x44"
  shows "command_value packet = Some (index_command 0x44 (packet ! 6))"
proof -
  have "0 \<notin> set (index_command 0x44 (packet ! 6))" using clean_commands(3) by (simp add: clean_def)
  moreover have "length (index_command 0x44 (packet ! 6)) < 48"
    using length_sint [of "0x44"] length_sint [of "packet ! 6"] by (simp add: index_command_def)
  ultimately show ?thesis
    using assms printed [of "index_command 0x44 (packet ! 6)" 48]
    by (simp add: command_value_def index_command_def bytes_def)
qed

context redis_server
begin

lemma phone_key:
  assumes "0 \<le> n" and "n < 10 ^ 8"
  shows "plain (bytes ''RP_'' @ dec n)" and "length (bytes ''RP_'' @ dec n) < 14"
    and "do { kb \<leftarrow> sprintf_at (replicate 14 0) 0 (bytes ''RP_'' @ dec n); cstr kb 0 } =
      Some (bytes ''RP_'' @ dec n)"
proof -
  show l: "length (bytes ''RP_'' @ dec n) < 14"
    using dec_nonneg_length [of n 8] assms by (simp add: bytes_def)
  show p: "plain (bytes ''RP_'' @ dec n)" by (simp add: plain_clean)
  have "0 \<notin> set (bytes ''RP_'' @ dec n)" using p unfolding plain_def by blast
  then show "do { kb \<leftarrow> sprintf_at (replicate 14 0) 0 (bytes ''RP_'' @ dec n); cstr kb 0 } =
      Some (bytes ''RP_'' @ dec n)"
    using l by (rule printed)
qed

lemma phone_device_get:
  assumes "0 \<le> n" and "n < 10 ^ 8"
  shows "phone_device E n w = do {
     (r, dev, w1) \<leftarrow> get_value_fromredis E (bytes ''RP_'' @ dec n) (replicate 17 0) 0 w;
     Some (if r = -1 then None else Some dev, w1) }"
  using phone_key(3) [OF assms] by (auto simp: phone_device_def bind_eq_Some_conv)

lemma phone_device_none:
  assumes "0 \<le> n" and "n < 10 ^ 8" and "kv (ext w) (bytes ''RP_'' @ dec n) = None"
  shows "\<exists>w'. phone_device E n w = Some (None, w') \<and> kv (ext w') = kv (ext w) \<and> same_but_ext w w'"
  using get_none [OF phone_key(1) [OF assms(1,2)] _ assms(3), of "replicate 17 0" 0]
    phone_key(2) [OF assms(1,2)] phone_device_get [OF assms(1,2), of w]
  by auto

lemma phone_device_some:
  assumes "0 \<le> n" and "n < 10 ^ 8" and "kv (ext w) (bytes ''RP_'' @ dec n) = Some dev"
    and "0 \<notin> set dev" and "length dev < 17"
  shows "\<exists>w'. phone_device E n w = Some (Some (dev @ replicate (17 - length dev) 0), w')
    \<and> kv (ext w') = kv (ext w) \<and> same_but_ext w w'"
  using get_some [OF phone_key(1) [OF assms(1,2)] _ assms(3,4), of 0 "replicate 17 0"]
    phone_key(2) [OF assms(1,2)] phone_device_get [OF assms(1,2), of w] assms(5)
  by auto

lemma phone_unbound:
  assumes "length packet = 1024" and "kv (ext w) (bytes ''RP_'' @ dec (phone_number packet)) = None"
  shows "\<exists>w'. phoneCommandPacket E packet 16 w = Some (-1, w') \<and> kv (ext w') = kv (ext w)"
  using phone_device_none [OF _ _ assms(2)] phone_number_atoi [of packet] assms(1)
  by (auto simp: phoneCommandPacket_def phone_text_eq)

text \<open>The three kinds of command; \<open>dev\<close> is the device the phone is bound to.\<close>

lemma phone_stores:
  assumes "length packet = 1024" and "kv (ext w) (bytes ''RP_'' @ dec (phone_number packet)) = Some dev"
    and "plain dev" and "length dev < 17"
  shows "numbered (packet ! 5) \<Longrightarrow> \<exists>w'. phoneCommandPacket E packet 16 w = Some (0, w')
      \<and> kv (ext w') = (kv (ext w))(dev \<mapsto> full_command (packet ! 5) (packet ! 6) (take 8 (drop 7 packet)))
      \<and> same_but_ext w w'"
    and "packet ! 5 = CMD_PHONE_DEVICE_FREQ_SET \<Longrightarrow> \<exists>w'. phoneCommandPacket E packet 16 w = Some (0, w')
      \<and> kv (ext w') = (kv (ext w))(dev \<mapsto> index_command 0x44 (packet ! 6)) \<and> same_but_ext w w'"
    and "single (packet ! 5) \<Longrightarrow> \<exists>w'. phoneCommandPacket E packet 16 w = Some (0, w')
      \<and> kv (ext w') = (kv (ext w))(dev \<mapsto> single_command (packet ! 5)) \<and> same_but_ext w w'"
proof -
  have nul: "0 \<notin> set dev" using assms(3) by (simp add: plain_def)
  have five: "5 \<le> length packet" using assms(1) by simp
  note num = phone_number_atoi [OF five]
  obtain w1 where w1: "phone_device E (phone_number packet) w =
      Some (Some (dev @ replicate (17 - length dev) 0), w1)" "kv (ext w1) = kv (ext w)" "same_but_ext w w1"
    using phone_device_some [OF num(2,3) assms(2) nul assms(4)] by blast
  have d: "cstr (dev @ replicate (17 - length dev) 0) 0 = Some dev" using nul assms(4) by (rule cstr_zeros)
  have put: "\<exists>w'. set_key_toredis E dev v w1 = Some (0, w') \<and> kv (ext w') = (kv (ext w))(dev \<mapsto> v)
      \<and> same_but_ext w w'" if "plain v" "length v < 200" for v
    using set_ok [OF assms(3) that(1), of w1] that(2) assms(4) w1(2,3)
    by (auto intro: same_but_ext_trans)
  note step = phoneCommandPacket_def phone_text_eq [OF five] num(1) [unfolded One_nat_def] w1(1) d
  let ?f = "full_command (packet ! 5) (packet ! 6) (take 8 (drop 7 packet))"
  have f: "plain ?f" "length ?f < 200"
    using length_sint [of "packet ! 5"] length_sint [of "packet ! 6"] assms(1)
    by (simp_all add: plain_clean) (simp_all add: full_command_def)
  show "\<exists>w'. phoneCommandPacket E packet 16 w = Some (0, w') \<and> kv (ext w') = (kv (ext w))(dev \<mapsto> ?f)
      \<and> same_but_ext w w'" if "numbered (packet ! 5)"
    using put [OF f] check_numbered [OF that] command_value_full [OF assms(1)] assms(1)
    by (auto simp: step)
  let ?i = "index_command 0x44 (packet ! 6)"
  have i: "plain ?i" "length ?i < 200"
    using length_sint [of "0x44"] length_sint [of "packet ! 6"]
    by (simp_all add: plain_clean) (simp_all add: index_command_def)
  show "\<exists>w'. phoneCommandPacket E packet 16 w = Some (0, w') \<and> kv (ext w') = (kv (ext w))(dev \<mapsto> ?i)
      \<and> same_but_ext w w'" if "packet ! 5 = CMD_PHONE_DEVICE_FREQ_SET"
    using put [OF i] that command_value_index [OF assms(1)] assms(1)
    by (auto simp: step checkPhoneCommand_def)
  let ?s = "single_command (packet ! 5)"
  have s: "plain ?s" "length ?s < 200"
    using length_single [of "packet ! 5"] by (simp_all add: plain_clean) (simp_all add: single_command_def)
  have "0 \<notin> set ?s" using s(1) by (simp add: plain_def)
  then obtain cb where pr: "sprintf_at (replicate 6 0) 0 ?s = Some cb" "cstr cb 0 = Some ?s"
    using sprintf_ok [of ?s 0 "replicate 6 0"] length_single [of "packet ! 5"] by auto
  show "\<exists>w'. phoneCommandPacket E packet 16 w = Some (0, w') \<and> kv (ext w') = (kv (ext w))(dev \<mapsto> ?s)
      \<and> same_but_ext w w'" if "single (packet ! 5)"
    using put [OF s] that pr assms(1)
    by (auto simp: step single_def single_command_def)
qed

end

section \<open>From the phone to the device\<close>

text \<open>
  The phone of packet \<open>pp\<close> is bound to the device of heart beat \<open>hp\<close> and the device to a user.
  What the phone sends is what the next heart beat of the device returns, after which the
  command is gone and the state of the device lies under its user.
\<close>

definition bound :: "(byte list \<rightharpoonup> byte list) \<Rightarrow> byte list \<Rightarrow> byte list \<Rightarrow> byte list \<Rightarrow> bool" where
  "bound m pp hp user \<longleftrightarrow> length pp = 1024 \<and> length hp = 1024
     \<and> m (bytes ''RP_'' @ dec (phone_number pp)) = Some (dev_id hp)
     \<and> m (bytes ''R_'' @ dev_id hp) = Some user
     \<and> plain user \<and> length user < 200 \<and> user \<noteq> dev_id hp"

lemma bound_dev:
  assumes "bound m pp hp user"
  shows "plain (dev_id hp)" and "length (dev_id hp) < 17" and "bytes ''R_'' @ dev_id hp \<noteq> dev_id hp"
  using assms plain_dev_id [of hp] by (auto simp: bound_def bytes_def)

context redis_server
begin

lemma deliver:
  assumes "bound (kv (ext w)) pp hp user"
    and "phoneCommandPacket E pp 16 w = Some (0, w1)"
    and "kv (ext w1) = (kv (ext w))(dev_id hp \<mapsto> cmd)"
  shows "\<exists>w2. deviceHeartPacket E hp 32 info w1 = heart_command E (dev_id hp) info w2
    \<and> kv (ext w2) = (kv (ext w))(dev_id hp \<mapsto> cmd, user \<mapsto> heart_info hp)
    \<and> kv (ext w2) (dev_id hp) = Some cmd"
proof -
  have "kv (ext w1) (bytes ''R_'' @ dev_id hp) = Some user"
    using assms(1,3) bound_dev(3) [OF assms(1)] by (simp add: bound_def)
  moreover have "length hp = 1024" "plain user" "length user < 200" "user \<noteq> dev_id hp"
    using assms(1) by (auto simp: bound_def)
  ultimately obtain w2 where
      "deviceHeartPacket E hp 32 info w1 = heart_command E (dev_id hp) info w2"
      "kv (ext w2) = (kv (ext w1))(user \<mapsto> heart_info hp)"
    using heart_bound [of hp w1 user info] by blast
  then show ?thesis using assms(3) \<open>user \<noteq> dev_id hp\<close> by (intro exI [of _ w2]) auto
qed

lemma deliver_numbered:
  assumes "bound (kv (ext w)) pp hp user" and "numbered (pp ! 5)"
    and "list_all bcd (take 8 (drop 7 pp))" and "length info = 20"
  shows "\<exists>w1 w2. phoneCommandPacket E pp 16 w = Some (0, w1)
    \<and> deviceHeartPacket E hp 32 info w1 =
        Some (64, take 3 info @ [pp ! 5, pp ! 6] @ take 8 (drop 7 pp) @ drop 13 info, w2)
    \<and> kv (ext w2) = (kv (ext w))(dev_id hp := None, user \<mapsto> heart_info hp)"
proof -
  let ?num = "take 8 (drop 7 pp)" and ?c = "full_command (pp ! 5) (pp ! 6) (take 8 (drop 7 pp))"
  have pp: "length pp = 1024" "kv (ext w) (bytes ''RP_'' @ dec (phone_number pp)) = Some (dev_id hp)"
    and ne: "user \<noteq> dev_id hp" using assms(1) by (auto simp: bound_def)
  note dev = bound_dev [OF assms(1)]
  obtain w1 where w1: "phoneCommandPacket E pp 16 w = Some (0, w1)"
      "kv (ext w1) = (kv (ext w))(dev_id hp \<mapsto> ?c)"
    using phone_stores(1) [OF pp dev(1,2) assms(2)] by blast
  obtain w2 where w2: "deviceHeartPacket E hp 32 info w1 = heart_command E (dev_id hp) info w2"
      "kv (ext w2) = (kv (ext w))(dev_id hp \<mapsto> ?c, user \<mapsto> heart_info hp)"
      "kv (ext w2) (dev_id hp) = Some ?c"
    using deliver [OF assms(1) w1] by blast
  have l: "length ?num = 8" using pp(1) by simp
  then have lc: "4 \<le> length ?c" "length ?c \<le> 254"
    using length_sint [of "pp ! 5"] length_sint [of "pp ! 6"] by (simp_all add: full_command_def)
  have par: "heart_param ?c info = Some (sint (pp ! 5), take 3 info @ [pp ! 5, pp ! 6] @ ?num @ drop 13 info)"
    using check_numbered [OF assms(2)] by (intro heart_param_full assms l) simp
  obtain w3 where w3: "heart_command E (dev_id hp) info w2 =
      Some (sint (pp ! 5) AND 0xF0, take 3 info @ [pp ! 5, pp ! 6] @ ?num @ drop 13 info, w3)"
      "kv (ext w3) = (kv (ext w2))(dev_id hp := None)"
    using heart_command_param [OF dev(1) _ w2(3) clean_commands(2) lc par] dev(2) by auto
  have "kv (ext w3) = (kv (ext w))(dev_id hp := None, user \<mapsto> heart_info hp)"
    using w2(2) w3(2) ne by (simp add: fun_upd_twist)
  then show ?thesis using w1(1) w2(1) w3(1) check_numbered [OF assms(2)] by auto
qed

lemma deliver_single:
  assumes "bound (kv (ext w)) pp hp user" and "single (pp ! 5)"
  shows "\<exists>w1 w2. phoneCommandPacket E pp 16 w = Some (0, w1)
    \<and> deviceHeartPacket E hp 32 info w1 = Some (uint (pp ! 5), info, w2)
    \<and> kv (ext w2) = (kv (ext w))(dev_id hp := None, user \<mapsto> heart_info hp)"
proof -
  let ?c = "single_command (pp ! 5)"
  have pp: "length pp = 1024" "kv (ext w) (bytes ''RP_'' @ dec (phone_number pp)) = Some (dev_id hp)"
    and ne: "user \<noteq> dev_id hp" using assms(1) by (auto simp: bound_def)
  note dev = bound_dev [OF assms(1)]
  obtain w1 where w1: "phoneCommandPacket E pp 16 w = Some (0, w1)"
      "kv (ext w1) = (kv (ext w))(dev_id hp \<mapsto> ?c)"
    using phone_stores(3) [OF pp dev(1,2) assms(2)] by blast
  obtain w2 where w2: "deviceHeartPacket E hp 32 info w1 = heart_command E (dev_id hp) info w2"
      "kv (ext w2) = (kv (ext w))(dev_id hp \<mapsto> ?c, user \<mapsto> heart_info hp)"
      "kv (ext w2) (dev_id hp) = Some ?c"
    using deliver [OF assms(1) w1] by blast
  obtain w3 where w3: "heart_command E (dev_id hp) info w2 = Some (uint (pp ! 5), info, w3)"
      "kv (ext w3) = (kv (ext w2))(dev_id hp := None)"
    using heart_command_single [OF dev(1) _ w2(3), of info] dev(2) single_uint [OF assms(2)] by auto
  have "kv (ext w3) = (kv (ext w))(dev_id hp := None, user \<mapsto> heart_info hp)"
    using w2(2) w3(2) ne by (simp add: fun_upd_twist)
  then show ?thesis using w1(1) w2(1) w3(1) by auto
qed

lemma deliver_freq:
  assumes "bound (kv (ext w)) pp hp user" and "pp ! 5 = CMD_PHONE_DEVICE_FREQ_SET" and "length info = 20"
  shows "\<exists>w1 w2. phoneCommandPacket E pp 16 w = Some (0, w1)
    \<and> deviceHeartPacket E hp 32 info w1 = Some (64, info[3 := 0x44, 4 := pp ! 6], w2)
    \<and> kv (ext w2) = (kv (ext w))(dev_id hp := None, user \<mapsto> heart_info hp)"
proof -
  let ?c = "index_command 0x44 (pp ! 6)"
  have pp: "length pp = 1024" "kv (ext w) (bytes ''RP_'' @ dec (phone_number pp)) = Some (dev_id hp)"
    and ne: "user \<noteq> dev_id hp" using assms(1) by (auto simp: bound_def)
  note dev = bound_dev [OF assms(1)]
  obtain w1 where w1: "phoneCommandPacket E pp 16 w = Some (0, w1)"
      "kv (ext w1) = (kv (ext w))(dev_id hp \<mapsto> ?c)"
    using phone_stores(2) [OF pp dev(1,2) assms(2)] by blast
  obtain w2 where w2: "deviceHeartPacket E hp 32 info w1 = heart_command E (dev_id hp) info w2"
      "kv (ext w2) = (kv (ext w))(dev_id hp \<mapsto> ?c, user \<mapsto> heart_info hp)"
      "kv (ext w2) (dev_id hp) = Some ?c"
    using deliver [OF assms(1) w1] by blast
  have "length (dec 68) = 2" and "1 \<le> length (dec (sint (pp ! 6)))"
    by (simp add: dec_def dec_nat.simps) (simp add: Suc_le_eq)
  then have lc: "4 \<le> length ?c" "length ?c \<le> 254"
    using length_sint [of "pp ! 6"] by (simp_all add: index_command_def)
  have par: "heart_param ?c info = Some (sint (0x44 :: byte), info[3 := 0x44, 4 := pp ! 6])"
    using assms(3) by (intro heart_param_index) auto
  obtain w3 where w3: "heart_command E (dev_id hp) info w2 =
      Some (sint (0x44 :: byte) AND 0xF0, info[3 := 0x44, 4 := pp ! 6], w3)"
      "kv (ext w3) = (kv (ext w2))(dev_id hp := None)"
    using heart_command_param [OF dev(1) _ w2(3) clean_commands(3) lc par] dev(2) by auto
  have "kv (ext w3) = (kv (ext w))(dev_id hp := None, user \<mapsto> heart_info hp)"
    using w2(2) w3(2) ne by (simp add: fun_upd_twist)
  then show ?thesis using w1(1) w2(1) w3(1) by auto
qed

end

section \<open>From the device to the phone\<close>

context redis_server
begin

lemma phone_reads:
  assumes "length packet = 1024" and "kv (ext w) (dec (phone_number packet)) = Some v"
    and "clean v" and "length v \<le> 254"
  shows "\<exists>w'. phoneHeaderPacket E packet 8 (replicate 260 0) 4 w =
      Some (int (length v), replicate 4 0 @ v @ replicate (256 - length v) 0, w')
    \<and> kv (ext w') = kv (ext w) \<and> same_but_ext w w'"
proof -
  have five: "5 \<le> length packet" using assms(1) by simp
  note l = length_phone_dec [OF five]
  obtain b where b: "sprintf_at (replicate 9 0) 0 (dec (phone_number packet)) = Some b"
      "cstr b 0 = Some (dec (phone_number packet))"
    using sprintf_ok [of "dec (phone_number packet)" 0 "replicate 9 0"] l by auto
  have nul: "0 \<notin> set v" using assms(3) by (simp add: clean_def)
  have "plain (dec (phone_number packet))" by (simp add: plain_clean)
  then obtain w1 where w1: "get_value_fromredis E (dec (phone_number packet)) (replicate 260 0) 4 w =
      Some (int (length v), replicate 4 0 @ v @ replicate (256 - length v) 0, w1)"
      "kv (ext w1) = kv (ext w)" "same_but_ext w w1"
    using get_some [of "dec (phone_number packet)" w v 4 "replicate 260 0"] assms(2,4) nul l by auto
  have "replicate (256 - length v) (0::byte) = 0 # replicate (255 - length v) 0"
    using assms(4) by (simp add: Suc_diff_le flip: replicate_Suc)
  then have "cstr (replicate 4 0 @ v @ replicate (256 - length v) 0) 4 = Some v"
    using cstr_stored [OF nul, of 4 "replicate 4 0" "replicate (255 - length v) 0"] by simp
  then show ?thesis
    using w1 b phone_number_atoi(1) [OF five, unfolded One_nat_def]
    by (simp add: phoneHeaderPacket_def phone_text_eq [OF five])
qed

lemma phone_reads_nothing:
  assumes "length packet = 1024" and "kv (ext w) (dec (phone_number packet)) = None"
  shows "\<exists>w'. phoneHeaderPacket E packet 8 (replicate 260 0) 4 w = Some (0, replicate 260 0, w')
    \<and> kv (ext w') = kv (ext w) \<and> same_but_ext w w'"
proof -
  have five: "5 \<le> length packet" using assms(1) by simp
  note l = length_phone_dec [OF five]
  obtain b where b: "sprintf_at (replicate 9 0) 0 (dec (phone_number packet)) = Some b"
      "cstr b 0 = Some (dec (phone_number packet))"
    using sprintf_ok [of "dec (phone_number packet)" 0 "replicate 9 0"] l by auto
  have "plain (dec (phone_number packet))" by (simp add: plain_clean)
  then obtain w1 where w1: "get_value_fromredis E (dec (phone_number packet)) (replicate 260 0) 4 w =
      Some (-1, replicate 260 0, w1)" "kv (ext w1) = kv (ext w)" "same_but_ext w w1"
    using get_none [of "dec (phone_number packet)" w "replicate 260 0" 4] assms(2) l by auto
  have "replicate 260 (0::byte) = replicate 4 0 @ 0 # replicate 255 0"
    by (simp flip: replicate_add replicate_Suc)
  then have "cstr (replicate 260 0) 4 = Some []"
    using cstr_stored [of "[]" 4 "replicate 4 0" "replicate 255 0"] by simp
  then show ?thesis
    using w1 b phone_number_atoi(1) [OF five, unfolded One_nat_def]
    by (simp add: phoneHeaderPacket_def phone_text_eq [OF five])
qed

end

section \<open>Locations\<close>

definition coord_text :: "char \<Rightarrow> byte list \<Rightarrow> byte list" where
  "coord_text letter xs = of_char letter # take 3 (hex_text xs) @ [46] @ drop 4 (hex_text xs)"

definition longitude_of :: "byte list \<Rightarrow> byte list" where
  "longitude_of packet = coord_text CHR ''E'' (take 5 (drop 10 packet))"

definition latitude_of :: "byte list \<Rightarrow> byte list" where
  "latitude_of packet = coord_text CHR ''N'' (take 5 (drop 15 packet))"

definition location_info :: "nat \<Rightarrow> byte list \<Rightarrow> byte list" where
  "location_info width packet = bytes ''G_'' @ longitude_of packet @ bytes ''_'' @ latitude_of packet
     @ bytes ''_'' @ dec (signed_le (take 4 (drop 24 packet))) @ bytes ''_0_''
     @ dec (signed_le (take width (drop 20 packet)))"

lemma four_heads: "4 \<le> length xs \<Longrightarrow> \<exists>a b c d r. xs = a # b # c # d # r"
  by (cases xs; cases "tl xs"; cases "tl (tl xs)"; cases "tl (tl (tl xs))") auto

lemma coordinate_eq:
  assumes "i + 5 \<le> length packet" and "of_char c \<noteq> (0 :: byte)"
  shows "coordinate (of_char c) packet i 5 = Some (coord_text c (take 5 (drop i packet)))"
proof -
  let ?h = "hex_text (take 5 (drop i packet))"
  have l: "length ?h = 10" using assms(1) by simp
  then have "4 \<le> length ?h" by linarith
  from four_heads [OF this] obtain h0 h1 h2 h3 r where h: "?h = h0 # h1 # h2 # h3 # r"
    by blast
  have "hextostring (replicate 12 0) 1 packet i 5 = Some (0 # ?h @ [0])"
  proof -
    have "hextostring (replicate 12 0) 1 packet i 5 = blit (replicate 12 0) 1 ?h"
      using assms(1) by (intro hextostring_blit) auto
    also have "\<dots> = Some (0 # ?h @ [0])"
      unfolding blit_def l by simp
    finally show ?thesis .
  qed
  moreover have "(0 # ?h @ [0])[0 := of_char c, 4 := 46] = coord_text c (take 5 (drop i packet)) @ [0]"
    unfolding coord_text_def h by (simp add: numeral_eq_Suc)
  moreover have "0 \<notin> set (coord_text c (take 5 (drop i packet)))"
    using hex_text_no_nul [of "take 5 (drop i packet)"] assms(2) unfolding coord_text_def h by auto
  then have "cstr (coord_text c (take 5 (drop i packet)) @ [0]) 0 = Some (coord_text c (take 5 (drop i packet)))"
    by (rule cstr_cell)
  ultimately show ?thesis using l by (simp add: coordinate_def)
qed

lemma coord_text_clean:
  assumes "clean [of_char c]"
  shows "clean (coord_text c xs)"
proof -
  have "clean (take n (hex_text xs)) \<and> clean (drop n (hex_text xs))" for n
    using clean_hex_text [of xs] by (metis append_take_drop_id clean_append)
  then show ?thesis using assms by (simp add: coord_text_def)
qed

lemma length_coord_text: "length xs = 5 \<Longrightarrow> length (coord_text c xs) = 11"
  by (simp add: coord_text_def)

lemma coords_clean [simp]: "clean (longitude_of packet)" "clean (latitude_of packet)"
  by (simp_all add: longitude_of_def latitude_of_def coord_text_clean)

lemma clean_no_nul: "clean s \<Longrightarrow> 0 \<notin> set s"
  by (simp add: clean_def)

lemma signed_le_long:
  assumes "length bs = 4 \<or> length bs = 8"
  shows "length (dec (signed_le bs)) \<le> 20"
proof -
  have "- (2 ^ 63) \<le> signed_le bs" "signed_le bs < 2 ^ 63"
    using assms signed_take_bit_int_less_exp [of 31 "le_int bs"] signed_take_bit_int_less_exp [of 63 "le_int bs"]
      signed_take_bit_int_greater_eq_minus_exp [of 31 "le_int bs"]
      signed_take_bit_int_greater_eq_minus_exp [of 63 "le_int bs"]
    by (auto simp: signed_le_def)
  then show ?thesis using dec_length [of 19 "signed_le bs"] by simp
qed

lemma location_info_fits:
  assumes "length packet = 1024" and "width = 4 \<or> width = 8"
  shows "length (location_info width packet) \<le> 60" and "plain (location_info width packet)"
proof -
  have "length (dec (signed_le (take 4 (drop 24 packet)))) \<le> 11"
    using assms(1) by (intro dec_int32_length signed_le_range) simp
  moreover have "length (dec (signed_le (take width (drop 20 packet)))) \<le> 20"
    using assms by (intro signed_le_long) auto
  ultimately show "length (location_info width packet) \<le> 60"
    using assms(1) by (simp add: location_info_def longitude_of_def latitude_of_def length_coord_text)
  show "plain (location_info width packet)"
    by (simp add: plain_clean location_info_def)
qed

context backend
begin

text \<open>The user of a device, and an inserted location: the steps both location answers share.\<close>

lemma user_read:
  assumes "plain k" and "length k < 252" and "kv (ext w) k = Some user" and "plain user" and "length user < 255"
  shows "\<exists>w'. get_value_fromredis E k (replicate 256 0) 0 w =
      Some (int (length user), user @ replicate (256 - length user) 0, w')
    \<and> cstr (user @ replicate (256 - length user) 0) 0 = Some user
    \<and> kv (ext w') = kv (ext w) \<and> idle (ext w') = idle (ext w) \<and> same_but_ext w w'"
proof -
  have u: "0 \<notin> set user" "length user \<le> 254" using assms(4,5) by (simp_all add: plain_def)
  obtain w' where w': "get_value_fromredis E k (replicate 256 0) 0 w =
      Some (int (length user), user @ replicate (256 - length user) 0, w')"
      "kv (ext w') = kv (ext w)" "same_but_ext w w'"
    using get_some [OF assms(1-3) u, of 0 "replicate 256 0"] u(2) by auto
  moreover have "idle (ext w') = idle (ext w)"
    using w'(1) redis_idle by (auto simp: get_value_fromredis_def with_ext_eq run_simps split: if_splits)
  ultimately show ?thesis using u by (auto intro: cstr_zeros)
qed

lemma gps_inserted:
  assumes "\<And>e. idle e = idle (ext w) \<Longrightarrow> fst (ConnectionPool_getConnection E e) \<noteq> None"
    and "\<And>c s a e. Connection_execute E c s a e \<noteq> None"
  shows "\<exists>w'. insertDeviceGps E lon lat high dev w = Some (0, w') \<and> kv (ext w') = kv (ext w)
    \<and> idle (ext w') = idle (ext w) \<and> same_but_ext w w'"
proof -
  obtain c e1 where "ConnectionPool_getConnection E (ext w) = (Some c, e1)"
    using assms(1) [OF HOL.refl] by (metis not_None_eq prod.collapse)
  moreover obtain e2 where "Connection_execute E c SQL_INSERT_DEVICE_GPS [lon, lat, high, dev] e1 = Some e2"
    using assms(2) by (metis not_None_eq)
  ultimately have "insertDeviceGps E lon lat high dev w = Some (0, w\<lparr>ext := Connection_close E c e2\<rparr>)"
    by (simp add: insertDeviceGps_def take_connection_def with_ext_def run_execute_def give_connection_def)
  then show ?thesis using insertDeviceGps_balanced insertDeviceGps_frame by blast
qed

lemma location_published:
  assumes "length packet = 1024" and "sizeof_long E = 4 \<or> sizeof_long E = 8"
    and "kv (ext w) (bytes ''R_'' @ dev_id packet) = Some user" and "plain user" and "length user < 190"
    and "\<And>e. idle e = idle (ext w) \<Longrightarrow> fst (ConnectionPool_getConnection E e) \<noteq> None"
    and "\<And>c s a e. Connection_execute E c s a e \<noteq> None"
  shows "\<exists>w'. deviceLocationPacket E packet 32 w = Some (0, w')
    \<and> kv (ext w') = (kv (ext w))(user \<mapsto> location_info (sizeof_long E) packet)
    \<and> idle (ext w') = idle (ext w)
    \<and> started w' = started w @ (if packet ! 9 AND 0xF0 \<noteq> 0
        then [Start_ubloxDownloadApgs (dev_id packet) (longitude_of packet) (latitude_of packet)] else [])"
proof -
  let ?k = "bytes ''R_'' @ dev_id packet" and ?lon = "longitude_of packet" and ?lat = "latitude_of packet"
  let ?high = "signed_le (take 4 (drop 24 packet))" and ?info = "location_info (sizeof_long E) packet"
  have k: "plain ?k" "length ?k < 252" using assms(1) by (simp_all add: plain_clean bytes_def)
  obtain w1 where w1: "get_value_fromredis E ?k (replicate 256 0) 0 w =
      Some (int (length user), user @ replicate (256 - length user) 0, w1)"
      "cstr (user @ replicate (256 - length user) 0) 0 = Some user"
      "kv (ext w1) = kv (ext w)" "idle (ext w1) = idle (ext w)" "same_but_ext w w1"
    using user_read [OF k assms(3,4)] assms(5) by auto
  define w2 where "w2 = (if packet ! 9 AND 0xF0 \<noteq> 0
    then pthread_create (Start_ubloxDownloadApgs (dev_id packet) ?lon ?lat) w1 else w1)"
  have l: "length ?lon = 11" "length ?lat = 11"
    using assms(1) by (simp_all add: longitude_of_def latitude_of_def length_coord_text)
  have "location_thread packet (dev_id packet) ?lon ?lat w1 = Some w2"
    using assms(1) l by (auto simp: location_thread_def w2_def sprintf_at_def blit_def)
  moreover have "ext w2 = ext w1" by (simp add: w2_def pthread_create_def)
  ultimately obtain w3 where w3: "insertDeviceGps E ?lon ?lat (dec ?high) (dev_id packet) w2 = Some (0, w3)"
      "kv (ext w3) = kv (ext w)" "idle (ext w3) = idle (ext w)" "same_but_ext w2 w3"
    using gps_inserted [of w2 ?lon ?lat "dec ?high" "dev_id packet"] assms(6,7) w1(3,4) by auto
  note fits = location_info_fits [OF assms(1,2)]
  obtain w4 where w4: "set_key_toredis E user ?info w3 = Some (0, w4)"
      "kv (ext w4) = (kv (ext w))(user \<mapsto> ?info)" "same_but_ext w3 w4"
    using set_ok [OF assms(4) fits(2), of w3] fits(1) assms(5) w3(2) by auto
  obtain hb where hb: "sprintf_at (replicate 12 0) 0 (dec ?high) = Some hb" "cstr hb 0 = Some (dec ?high)"
    using sprintf_ok [of "dec ?high" 0 "replicate 12 0"]
      dec_int32_length [OF signed_le_range, of "take 4 (drop 24 packet)"] assms(1) by auto
  have "0 \<notin> set ?info" using fits(2) by (simp add: plain_def)
  then obtain gb where gb: "sprintf_at (replicate 256 0) 0 ?info = Some gb" "cstr gb 0 = Some ?info"
    using sprintf_ok [of ?info 0 "replicate 256 0"] fits(1) by auto
  have stamp: "int_at packet 20 (sizeof_long E) = Some (signed_le (take (sizeof_long E) (drop 20 packet)))"
    using assms(1,2) by (auto simp: int_at_def fetch_def)
  have co: "coordinate (of_char CHR ''E'') packet 10 5 = Some ?lon"
    "coordinate (of_char CHR ''N'') packet 15 5 = Some ?lat"
    unfolding longitude_of_def latitude_of_def using assms(1) by (intro coordinate_eq; simp)+
  have high: "int_at packet 24 4 = Some ?high" using assms(1) by (simp add: int_at_def fetch_def)
  have "deviceLocationPacket E packet 32 w = Some (0, w4)"
    using assms(1) w1(1,2) \<open>location_thread packet _ _ _ w1 = _\<close> w3(1) w4(1) hb gb stamp co high
    by (simp add: deviceLocationPacket_def device_text_eq relationship_key_eq location_info_def
        del: of_char_of)
  moreover have "idle (ext w4) = idle (ext w)" using set_key_idle [OF w4(1)] w3(3) by simp
  ultimately show ?thesis
    using w4(2) same_but_ext_fields [OF w4(3)] same_but_ext_fields [OF w3(4)] same_but_ext_fields [OF w1(5)]
    by (intro exI [of _ w4]) (auto simp: w2_def pthread_create_def)
qed

end

section \<open>The contract of a handler\<close>

text \<open>
  A handler answers \<open>-3\<close> to a packet of a wrong length without touching anything, never
  answers \<open>-3\<close> otherwise, and leaves files and descriptors alone. \<open>handle_run\<close> feeds it a
  sequence of packets.
\<close>

primrec handle_run ::
    "(byte list \<Rightarrow> int \<Rightarrow> 'w world \<Rightarrow> (int \<times> 'w world) option) \<Rightarrow> (byte list \<times> int) list
      \<Rightarrow> 'w world \<Rightarrow> (int list \<times> 'w world) option" where
  "handle_run h [] w = Some ([], w)"
| "handle_run h (p # ps) w = do {
     (r, w1) \<leftarrow> h (fst p) (snd p) w;
     (rs, w2) \<leftarrow> handle_run h ps w1;
     Some (r # rs, w2) }"

locale packet_handler =
  fixes handle :: "byte list \<Rightarrow> int \<Rightarrow> 'w world \<Rightarrow> (int \<times> 'w world) option"
    and lengths :: "int set"
  assumes rejects: "len \<notin> lengths \<Longrightarrow> handle p len w = Some (-3, w)"
    and accepts: "len \<in> lengths \<Longrightarrow> handle p len w = Some (r, w') \<Longrightarrow> r \<noteq> -3"
    and frame: "handle p len w = Some (r, w') \<Longrightarrow> files w' = files w \<and> closed_fds w' = closed_fds w"
begin

lemma reject_iff: "handle p len w = Some (r, w') \<Longrightarrow> r = -3 \<longleftrightarrow> len \<notin> lengths"
  using rejects accepts by fastforce

lemma run_frame: "handle_run handle ps w = Some (rs, w') \<Longrightarrow>
    files w' = files w \<and> closed_fds w' = closed_fds w \<and> length rs = length ps"
  by (induction ps arbitrary: w rs) (fastforce simp: run_simps dest: frame)+

lemma run_rejected:
  assumes "\<forall>p \<in> set ps. snd p \<notin> lengths"
  shows "handle_run handle ps w = Some (replicate (length ps) (-3), w)"
  using assms by (induction ps) (auto simp: rejects)

lemma run_codes: "handle_run handle ps w = Some (rs, w') \<Longrightarrow>
    length (filter (\<lambda>r. r = -3) rs) = length (filter (\<lambda>p. snd p \<notin> lengths) ps)"
  by (induction ps arbitrary: w rs) (auto simp: run_simps dest: reject_iff)

end

text \<open>The four handlers that check the length of their packet.\<close>

definition heart_handler :: "'w externals \<Rightarrow> byte list \<Rightarrow> byte list \<Rightarrow> int \<Rightarrow> 'w world \<Rightarrow> (int \<times> 'w world) option" where
  "heart_handler E info p len w = do { (r, i, w') \<leftarrow> deviceHeartPacket E p len info w; Some (r, w') }"

definition phone_handler :: "'w externals \<Rightarrow> byte list \<Rightarrow> nat \<Rightarrow> byte list \<Rightarrow> int \<Rightarrow> 'w world \<Rightarrow> (int \<times> 'w world) option" where
  "phone_handler E info off p len w = do { (r, i, w') \<leftarrow> phoneHeaderPacket E p len info off w; Some (r, w') }"

lemmas redis_frames = get_value_frame [THEN same_but_ext_iff [THEN iffD1]]
  set_key_frame [THEN same_but_ext_iff [THEN iffD1]] del_key_frame [THEN same_but_ext_iff [THEN iffD1]]

lemma heart_command_frame: "heart_command E dev info w = Some (r, i, w') \<Longrightarrow> same_but_ext w w'"
  by (auto simp: heart_command_def run_simps same_but_ext_iff split: if_splits dest!: redis_frames)

lemma heart_command_result: "heart_command E dev info w = Some (r, i, w') \<Longrightarrow> r = -4 \<or> 0 \<le> r"
  by (auto simp: heart_command_def run_simps split: if_splits)

interpretation device_heart: packet_handler "heart_handler E info" "{32}"
proof
  fix len p and r :: int and w w' :: "'a world"
  show "len \<notin> {32} \<Longrightarrow> heart_handler E info p len w = Some (-3, w)"
    by (simp add: heart_handler_def deviceHeartPacket_def)
  show "len \<in> {32} \<Longrightarrow> heart_handler E info p len w = Some (r, w') \<Longrightarrow> r \<noteq> -3"
    by (auto simp: heart_handler_def deviceHeartPacket_def run_simps split: if_splits
        dest: heart_command_result)
  assume "heart_handler E info p len w = Some (r, w')"
  then show "files w' = files w \<and> closed_fds w' = closed_fds w"
    by (auto simp: heart_handler_def deviceHeartPacket_def falldown_thread_def pthread_create_def run_simps
        split: if_splits dest!: redis_frames heart_command_frame [THEN same_but_ext_iff [THEN iffD1]])
qed

interpretation phone_heart: packet_handler "phone_handler E info off" "{8}"
proof
  fix len p and r :: int and w w' :: "'a world"
  show "len \<notin> {8} \<Longrightarrow> phone_handler E info off p len w = Some (-3, w)"
    by (simp add: phone_handler_def phoneHeaderPacket_def)
  show "len \<in> {8} \<Longrightarrow> phone_handler E info off p len w = Some (r, w') \<Longrightarrow> r \<noteq> -3"
    by (auto simp: phone_handler_def phoneHeaderPacket_def run_simps split: if_splits)
  assume "phone_handler E info off p len w = Some (r, w')"
  then show "files w' = files w \<and> closed_fds w' = closed_fds w"
    by (auto simp: phone_handler_def phoneHeaderPacket_def run_simps split: if_splits dest!: redis_frames)
qed

lemma phone_device_frame: "phone_device E n w = Some (d, w') \<Longrightarrow> same_but_ext w w'"
  by (auto simp: phone_device_def run_simps dest: get_value_frame)

lemma case_option_Some_conv:
  "(case x of None \<Rightarrow> u | Some a \<Rightarrow> f a) = Some z \<longleftrightarrow> x = None \<and> u = Some z \<or> (\<exists>a. x = Some a \<and> f a = Some z)"
  by (cases x) auto

lemma phoneCommandPacket_frame: "phoneCommandPacket E p len w = Some (r, w') \<Longrightarrow> same_but_ext w w'"
  by (auto simp: phoneCommandPacket_def run_simps case_option_Some_conv split: if_splits
      dest!: phone_device_frame set_key_frame selectLocationNewItem_frame intro: same_but_ext_trans)

interpretation phone_command: packet_handler "phoneCommandPacket E" "{16}"
proof
  fix len p and r :: int and w w' :: "'a world"
  show "len \<notin> {16} \<Longrightarrow> phoneCommandPacket E p len w = Some (-3, w)"
    by (simp add: phoneCommandPacket_def)
  show "len \<in> {16} \<Longrightarrow> phoneCommandPacket E p len w = Some (r, w') \<Longrightarrow> r \<noteq> -3"
    by (auto simp: phoneCommandPacket_def run_simps case_option_Some_conv split: if_splits)
  assume "phoneCommandPacket E p len w = Some (r, w')"
  then show "files w' = files w \<and> closed_fds w' = closed_fds w"
    by (auto dest!: phoneCommandPacket_frame [THEN same_but_ext_iff [THEN iffD1]])
qed

lemma location_thread_frame: "location_thread p d lo la w = Some w' \<Longrightarrow>
    files w' = files w \<and> closed_fds w' = closed_fds w"
  by (auto simp: location_thread_def pthread_create_def run_simps split: if_splits)

interpretation device_location: packet_handler "deviceLocationPacket E" "{32, 48}"
proof
  fix len p and r :: int and w w' :: "'a world"
  show "len \<notin> {32, 48} \<Longrightarrow> deviceLocationPacket E p len w = Some (-3, w)"
    by (simp add: deviceLocationPacket_def)
  show "len \<in> {32, 48} \<Longrightarrow> deviceLocationPacket E p len w = Some (r, w') \<Longrightarrow> r \<noteq> -3"
    by (auto simp: deviceLocationPacket_def run_simps split: if_splits)
  assume "deviceLocationPacket E p len w = Some (r, w')"
  then show "files w' = files w \<and> closed_fds w' = closed_fds w"
    by (auto simp: deviceLocationPacket_def pthread_create_def run_simps split: if_splits
        dest!: redis_frames location_thread_frame insertDeviceGps_frame [THEN same_but_ext_iff [THEN iffD1]])
qed

lemma wrong_lengths_rejected:
  assumes "handle_run (heart_handler E info) ps w = Some (r1, v1)"
    and "handle_run (phone_handler E info off) ps w = Some (r2, v2)"
    and "handle_run (phoneCommandPacket E) ps w = Some (r3, v3)"
    and "handle_run (deviceLocationPacket E) ps w = Some (r4, v4)"
  shows "length (filter (\<lambda>r. r = -3) r1) = length (filter (\<lambda>p. snd p \<notin> {32}) ps)
    \<and> length (filter (\<lambda>r. r = -3) r2) = length (filter (\<lambda>p. snd p \<notin> {8}) ps)
    \<and> length (filter (\<lambda>r. r = -3) r3) = length (filter (\<lambda>p. snd p \<notin> {16}) ps)
    \<and> length (filter (\<lambda>r. r = -3) r4) = length (filter (\<lambda>p. snd p \<notin> {32, 48}) ps)
    \<and> ((\<forall>p \<in> set ps. snd p \<notin> {8, 16, 32, 48}) \<longrightarrow> v1 = w \<and> v2 = w \<and> v3 = w \<and> v4 = w)"
  using assms device_heart.run_codes [OF assms(1)] phone_heart.run_codes [OF assms(2)]
    phone_command.run_codes [OF assms(3)] device_location.run_codes [OF assms(4)]
    device_heart.run_rejected [of ps E info w] phone_heart.run_rejected [of ps E info off w]
    phone_command.run_rejected [of ps E w] device_location.run_rejected [of ps E w]
  by auto

end
