(* ===== verification/Apollo_Blocks.thy ===== *)
theory Apollo_Blocks
  imports Apollo_Constants
begin

text \<open>
  Block packets: \<open>takeDataPacket\<close> cuts a file into packets of a 32-byte header and at most 992
  bytes of payload, \<open>takeDataPacketFlag\<close> marks them, and the send loops hand them out in
  pieces of at most 1024 bytes. The reference \<open>packets\<close> lists the packets; the routine writes
  exactly their concatenation when it fits the output buffer and is undefined otherwise.
\<close>

section \<open>takeDataPacket\<close>

definition block_header :: "byte list" where
  "block_header = [0x56, 0x0, 0x86, 0x18, 0x64, 0x33, 0x87, 0x42,
     0x90, 0x15, 0x09, 0x00, 0x02, 0x0, 0x0, 0x0,
     0x0, 0x0, 0x0, 0x0, 0x0, 0x0, 0x0, 0x0,
     0x0, 0x0, 0x0, 0x0, 0x0, 0x0, 0x0, 0x0]"

text \<open>One turn of the \<open>for\<close> loop: header fields 13, 30 and 31, then header and payload.\<close>

definition emit_block ::
    "nat \<Rightarrow> nat \<Rightarrow> byte list \<Rightarrow> byte list \<Rightarrow> nat \<Rightarrow> byte list \<Rightarrow> (byte list \<times> byte list \<times> nat) option" where
  "emit_block i n header data index buffer = do {
     h1 \<leftarrow> poke header 13 (of_nat i);
     h2 \<leftarrow> poke h1 30 (of_nat (n div 256));
     h3 \<leftarrow> poke h2 31 (of_nat (n mod 256));
     d1 \<leftarrow> copy_loop data index h3 0 LEN_HEADER_LENGTH;
     d2 \<leftarrow> copy_loop d1 (index + LEN_HEADER_LENGTH) buffer (i * LEN_BLOCK_DATA) n;
     Some (h3, d2, index + LEN_HEADER_LENGTH + n) }"

primrec block_loop ::
    "nat \<Rightarrow> nat \<Rightarrow> byte list \<Rightarrow> byte list \<Rightarrow> nat \<Rightarrow> byte list \<Rightarrow> (byte list \<times> byte list \<times> nat) option" where
  "block_loop i 0 header data index buffer = Some (header, data, index)"
| "block_loop i (Suc m) header data index buffer = do {
     (h, d, k) \<leftarrow> emit_block i LEN_BLOCK_DATA header data index buffer;
     block_loop (Suc i) m h d k buffer }"

text \<open>
  The stack array \<open>buffer\<close> is indeterminate beyond the \<open>size\<close> bytes that \<open>fread\<close> stored: it is
  cut there, so that reading beyond them is undefined.
\<close>

definition takeDataPacket ::
    "byte list \<Rightarrow> byte list \<Rightarrow> byte list \<Rightarrow> nat \<Rightarrow> 'w world \<Rightarrow> (nat \<times> byte list) option" where
  "takeDataPacket filename data packet p w = do {
     (size, buffer0) \<leftarrow> read_dat filename (replicate LEN_BLOCK_BUFFER 0) LEN_BLOCK_BUFFER w;
     let buffer = take size buffer0;
     header1 \<leftarrow> copy_loop block_header 1 packet p LEN_DEVICE_ID;
     header2 \<leftarrow> poke header1 29
       (if size mod LEN_BLOCK_DATA \<noteq> 0 then of_nat (size div LEN_BLOCK_DATA + 1)
        else of_nat (size div LEN_BLOCK_DATA));
     (header3, data1, index) \<leftarrow> block_loop 0 (size div LEN_BLOCK_DATA) header2 data 0 buffer;
     if size mod LEN_BLOCK_DATA \<noteq> 0 then do {
       (header4, data2, index2) \<leftarrow>
         emit_block (size div LEN_BLOCK_DATA) (size mod LEN_BLOCK_DATA) header3 data1 index buffer;
       Some (index2, data2) }
     else Some (index, data1) }"

section \<open>takeDataPacketFlag and the send loop\<close>

function takeDataPacketFlag_loop :: "byte list \<Rightarrow> nat \<Rightarrow> nat \<Rightarrow> byte \<Rightarrow> byte list option" where
  "takeDataPacketFlag_loop data i len flag =
     (if i * LEN_BLOCK_PACKET < len then do {
        data' \<leftarrow> poke data (i * LEN_BLOCK_PACKET + 20) flag;
        takeDataPacketFlag_loop data' (Suc i) len flag }
      else Some data)"
  by pat_completeness auto
termination
  by (relation "measure (\<lambda>(data, i, len, flag). len - i * LEN_BLOCK_PACKET)") auto

declare takeDataPacketFlag_loop.simps [simp del]

definition takeDataPacketFlag :: "byte list \<Rightarrow> nat \<Rightarrow> byte \<Rightarrow> byte list option" where
  "takeDataPacketFlag data len flag = takeDataPacketFlag_loop data 0 len flag"

text \<open>The pieces the \<open>while (sendLength < totalLength)\<close> loop of \<open>ApolloSynerAction\<close> sends.\<close>

function send_loop :: "byte list \<Rightarrow> nat \<Rightarrow> nat \<Rightarrow> byte list list option" where
  "send_loop sendBuf sendLength totalLength =
     (if sendLength < totalLength then
        (if LEN_BLOCK_PACKET \<le> totalLength - sendLength then do {
           d \<leftarrow> fetch sendBuf sendLength LEN_BLOCK_PACKET;
           ds \<leftarrow> send_loop sendBuf (sendLength + LEN_BLOCK_PACKET) totalLength;
           Some (d # ds) }
         else do {
           d \<leftarrow> fetch sendBuf sendLength (totalLength - sendLength);
           ds \<leftarrow> send_loop sendBuf totalLength totalLength;
           Some (d # ds) })
      else Some [])"
  by pat_completeness auto
termination
  by (relation "measure (\<lambda>(sendBuf, sendLength, totalLength). totalLength - sendLength)") auto

declare send_loop.simps [simp del]

section \<open>The reference packets\<close>

definition n_packets :: "nat \<Rightarrow> nat" where
  "n_packets sz = sz div 992 + (if sz mod 992 = 0 then 0 else 1)"

definition raw_header :: "byte list \<Rightarrow> byte \<Rightarrow> byte \<Rightarrow> byte \<Rightarrow> byte \<Rightarrow> byte list" where
  "raw_header dev x t y z = 0x56 # dev @ [0x15, 0x09, 0x00, 0x02, x] @ replicate 15 0 @ [t, y, z]"

definition packet_header :: "byte list \<Rightarrow> nat \<Rightarrow> nat \<Rightarrow> nat \<Rightarrow> byte list" where
  "packet_header dev i tot n =
     raw_header dev (of_nat i) (of_nat tot) (of_nat (n div 256)) (of_nat (n mod 256))"

definition payload :: "byte list \<Rightarrow> nat \<Rightarrow> byte list" where
  "payload content i = take 992 (drop (992 * i) content)"

definition packet :: "byte list \<Rightarrow> byte list \<Rightarrow> nat \<Rightarrow> byte list" where
  "packet dev content i =
     packet_header dev i (n_packets (length content)) (length (payload content i)) @ payload content i"

definition packets :: "byte list \<Rightarrow> byte list \<Rightarrow> byte list list" where
  "packets dev content = map (packet dev content) [0..<n_packets (length content)]"

section \<open>The routine against the reference\<close>

lemma length_block_header [simp]: "length block_header = 32"
  by (simp add: block_header_def)

lemma length_packet_header: "length dev = 8 \<Longrightarrow> length (packet_header dev i t n) = 32"
  by (simp add: packet_header_def raw_header_def)

lemma emit_block_blit:
  assumes "length header = 32" and "index + 32 + n \<le> length data"
    and "i * 992 + n \<le> length buffer"
    and h: "h = header[13 := of_nat i, 30 := of_nat (n div 256), 31 := of_nat (n mod 256)]"
  shows "emit_block i n header data index buffer =
    do { d \<leftarrow> blit data index (h @ take n (drop (992 * i) buffer)); Some (h, d, index + 32 + n) }"
proof -
  have lh: "length h = 32" using assms(1) h by simp
  have "copy_loop data index h 0 32 = blit data index h"
    using lh assms(2) by (simp add: copy_loop_blit)
  moreover obtain d1 where d1: "blit data index h = Some d1"
    using lh assms(2) by (simp add: blit_def)
  moreover have "copy_loop d1 (index + 32) buffer (i * 992) n =
      blit data index (h @ take n (drop (992 * i) buffer))"
  proof -
    have "copy_loop d1 (index + 32) buffer (i * 992) n =
        blit d1 (index + length h) (take n (drop (992 * i) buffer))"
      using assms(2,3) lh blit_length [OF d1] by (simp add: copy_loop_blit mult.commute)
    then show ?thesis by (simp add: blit_blit [OF d1])
  qed
  ultimately show ?thesis
    using assms(1) by (simp add: emit_block_def h [symmetric] del: of_nat_mod)
qed

lemma emit_block_overflow:
  assumes "length header = 32" and "length data < index + 32 + n" and "0 < n"
    and "i * 992 + n \<le> length buffer"
  shows "emit_block i n header data index buffer = None"
proof -
  let ?h = "header[13 := of_nat i, 30 := of_nat (n div 256), 31 := of_nat (n mod 256)]"
  have "copy_loop data index ?h 0 32 \<bind>
      (\<lambda>d1. copy_loop d1 (index + 32) buffer (i * 992) n) = None"
  proof (cases "copy_loop data index ?h 0 32")
    case (Some d1)
    then have "length d1 = length data" by (rule copy_loop_length)
    with Some assms show ?thesis by (simp add: copy_loop_overflow)
  qed simp
  then show ?thesis
    using assms(1) by (auto simp: emit_block_def bind_eq_None_conv simp del: of_nat_mod)
qed

text \<open>Header fields, and the header the loops thread from turn to turn.\<close>

lemma length_raw_header: "length dev = 8 \<Longrightarrow> length (raw_header dev x t y z) = 32"
  by (simp add: raw_header_def)

lemma dev8: "length dev = 8 \<Longrightarrow> \<exists>a b c d e f g h. dev = [a, b, c, d, e, f, g, h]"
  by (auto simp: eval_nat_numeral length_Suc_conv)

lemma raw_header_update:
  assumes "length dev = 8"
  shows "(raw_header dev x t y z)[13 := x', 30 := y', 31 := z'] = raw_header dev x' t y' z'"
    and "(raw_header dev x t y z)[20 := f] ! 0 = 0x56"
proof -
  obtain a b c d e f g h where "dev = [a, b, c, d, e, f, g, h]" using dev8 [OF assms] by blast
  then show "(raw_header dev x t y z)[13 := x', 30 := y', 31 := z'] = raw_header dev x' t y' z'"
    by (simp add: raw_header_def eval_nat_numeral)
qed (simp add: raw_header_def)

lemma raw_header_nth:
  assumes "length dev = 8"
  shows "raw_header dev x t y z ! 0 = 0x56" and "take 8 (drop 1 (raw_header dev x t y z)) = dev"
    and "raw_header dev x t y z ! 13 = x" and "raw_header dev x t y z ! 29 = t"
    and "raw_header dev x t y z ! 30 = y" and "raw_header dev x t y z ! 31 = z"
  using assms by (simp_all add: raw_header_def nth_append)

lemma block_header_init:
  assumes "p + 8 \<le> length pkt"
  shows "do { h \<leftarrow> copy_loop block_header 1 pkt p 8; poke h 29 t } =
    Some (raw_header (take 8 (drop p pkt)) 0 t 0 0)"
proof -
  have "copy_loop block_header 1 pkt p 8 = blit block_header 1 (take 8 (drop p pkt))"
    using assms by (simp add: copy_loop_blit)
  also have "\<dots> = Some (raw_header (take 8 (drop p pkt)) 0 0 0 0)"
    using assms by (simp add: blit_def block_header_def raw_header_def eval_nat_numeral)
  finally show ?thesis
    using assms dev8 [of "take 8 (drop p pkt)"]
    by (auto simp: length_raw_header) (simp add: raw_header_def eval_nat_numeral)
qed

text \<open>The loop over the full blocks.\<close>

definition full_packet :: "byte list \<Rightarrow> byte \<Rightarrow> byte list \<Rightarrow> nat \<Rightarrow> byte list" where
  "full_packet dev t buffer k = raw_header dev (of_nat k) t 3 224 @ payload buffer k"

lemma emit_full:
  assumes "length dev = 8" and "index + 1024 \<le> length data" and "(i + 1) * 992 \<le> length buffer"
  shows "emit_block i 992 (raw_header dev x t y z) data index buffer =
    do { d \<leftarrow> blit data index (full_packet dev t buffer i);
         Some (raw_header dev (of_nat i) t 3 224, d, index + 1024) }"
  using assms
  by (subst emit_block_blit [where h = "raw_header dev (of_nat i) t 3 224"])
     (simp_all add: length_raw_header raw_header_update full_packet_def payload_def add.commute)

lemma block_loop_blit:
  assumes "length dev = 8" and "index + m * 1024 \<le> length data" and "(i + m) * 992 \<le> length buffer"
  shows "\<exists>x' y' z'. block_loop i m (raw_header dev x t y z) data index buffer =
    do { d \<leftarrow> blit data index (concat (map (full_packet dev t buffer) [i..<i + m]));
         Some (raw_header dev x' t y' z', d, index + m * 1024) }"
  using assms(2,3)
proof (induction m arbitrary: i x y z data index)
  case 0
  then show ?case by (auto simp: blit_Nil)
next
  case (Suc m)
  let ?p = "full_packet dev t buffer i"
  have "992 \<le> length buffer - 992 * i" using Suc.prems(2) by simp
  then have lp: "length ?p = 1024"
    using assms(1) by (simp add: full_packet_def length_raw_header payload_def)
  obtain d where d: "blit data index ?p = Some d"
    using Suc.prems(1) lp by (simp add: blit_def)
  have "index + 1024 + m * 1024 \<le> length d" and "(Suc i + m) * 992 \<le> length buffer"
    using Suc.prems blit_length [OF d] by auto
  then obtain x' y' z' where
    "block_loop (Suc i) m (raw_header dev (of_nat i) t 3 224) d (index + 1024) buffer =
      do { d' \<leftarrow> blit d (index + 1024) (concat (map (full_packet dev t buffer) [Suc i..<Suc i + m]));
           Some (raw_header dev x' t y' z', d', index + 1024 + m * 1024) }"
    using Suc.IH by blast
  moreover have "block_loop i (Suc m) (raw_header dev x t y z) data index buffer =
      block_loop (Suc i) m (raw_header dev (of_nat i) t 3 224) d (index + 1024) buffer"
    using Suc.prems assms(1) d by (simp add: emit_full)
  moreover have "blit d (index + 1024) (concat (map (full_packet dev t buffer) [Suc i..<Suc i + m])) =
      blit data index (concat (map (full_packet dev t buffer) [i..<i + Suc m]))"
  proof -
    have "[i..<i + Suc m] = i # [Suc i..<Suc i + m]"
      by (metis add_Suc_right add_Suc less_add_Suc1 upt_conv_Cons)
    then show ?thesis using d lp by (simp add: blit_append del: upt_Suc)
  qed
  moreover have "index + 1024 + m * 1024 = index + Suc m * 1024" by simp
  ultimately have "block_loop i (Suc m) (raw_header dev x t y z) data index buffer =
    do { d \<leftarrow> blit data index (concat (map (full_packet dev t buffer) [i..<i + Suc m]));
         Some (raw_header dev x' t y' z', d, index + Suc m * 1024) }"
    by (simp only:)
  then show ?case by blast
qed

lemma block_loop_overflow:
  assumes "length dev = 8" and "length data < index + m * 1024" and "index \<le> length data"
    and "(i + m) * 992 \<le> length buffer"
  shows "block_loop i m (raw_header dev x t y z) data index buffer = None"
  using assms(2-4)
proof (induction m arbitrary: i x y z data index)
  case 0
  then show ?case by simp
next
  case (Suc m)
  show ?case
  proof (cases "index + 1024 \<le> length data")
    case True
    let ?p = "full_packet dev t buffer i"
    have "992 \<le> length buffer - 992 * i" using Suc.prems(3) by simp
    then have lp: "length ?p = 1024"
      using assms(1) by (simp add: full_packet_def length_raw_header payload_def)
    obtain d where d: "blit data index ?p = Some d"
      using True lp by (simp add: blit_def)
    have "block_loop (Suc i) m (raw_header dev (of_nat i) t 3 224) d (index + 1024) buffer = None"
      using Suc.prems True blit_length [OF d] by (intro Suc.IH) auto
    then show ?thesis using True Suc.prems assms(1) d by (simp add: emit_full)
  next
    case False
    then have "emit_block i 992 (raw_header dev x t y z) data index buffer = None"
      using Suc.prems assms(1) by (intro emit_block_overflow) (auto simp: length_raw_header)
    then show ?thesis by simp
  qed
qed

section \<open>What takeDataPacket computes\<close>

lemma n_packets_full: "sz mod 992 = 0 \<Longrightarrow> n_packets sz = sz div 992"
  by (simp add: n_packets_def)

lemma packet_full:
  assumes "Suc i * 992 \<le> length content"
  shows "packet dev content i = full_packet dev (of_nat (n_packets (length content))) content i"
  using assms by (simp add: packet_def packet_header_def full_packet_def payload_def)

lemma length_full_packets:
  assumes "length dev = 8" and "k * 992 \<le> length content"
  shows "length (concat (map (packet dev content) [0..<k])) = 1024 * k"
  using assms(2)
proof (induction k)
  case (Suc k)
  then have "length (packet dev content k) = 1024"
    using assms(1) by (simp add: packet_def length_packet_header payload_def)
  with Suc show ?case by simp
qed simp

lemma length_packets:
  assumes "length dev = 8"
  shows "length (concat (packets dev content)) = 32 * n_packets (length content) + length content"
proof -
  let ?n = "length content div 992" and ?r = "length content mod 992"
  have n: "?n * 992 + ?r = length content" by simp
  then have fn: "length (concat (map (packet dev content) [0..<?n])) = 1024 * ?n"
    by (intro length_full_packets [OF assms]) simp
  show ?thesis
  proof (cases "?r = 0")
    case True
    then show ?thesis using fn n by (simp add: packets_def n_packets_def)
  next
    case False
    have "length content - 992 * ?n = ?r" and "?r < 992"
      by (simp_all add: minus_mult_div_eq_mod)
    then have "length (packet dev content ?n) = 32 + ?r"
      using assms by (simp add: packet_def length_packet_header payload_def)
    then show ?thesis using False fn n by (simp add: packets_def n_packets_def)
  qed
qed

definition block_need :: "byte list \<Rightarrow> nat" where
  "block_need content = 32 * n_packets (length content) + length content"

lemma block_need_split:
  "block_need content = length content div 992 * 1024 +
    (if length content mod 992 = 0 then 0 else 32 + length content mod 992)"
proof -
  have "length content = 992 * (length content div 992) + length content mod 992"
    by (rule mult_div_mod_eq [symmetric])
  then show ?thesis unfolding block_need_def n_packets_def by (auto split: if_splits)
qed

lemma takeDataPacket_prefix:
  assumes "cstr filename 0 = Some path" and "files w path = Some file" and "p + 8 \<le> length pkt"
    and c: "content = take 32768 file" and dev: "dev = take 8 (drop p pkt)"
  shows "takeDataPacket filename data pkt p w =
    do { (h, d, k) \<leftarrow> block_loop 0 (length content div 992)
           (raw_header dev 0 (of_nat (n_packets (length content))) 0 0) data 0 content;
         if length content mod 992 \<noteq> 0 then do {
           (h', d', k') \<leftarrow> emit_block (length content div 992) (length content mod 992) h d k content;
           Some (k', d') }
         else Some (k, d) }"
proof -
  have read: "read_dat filename (replicate 32768 0) 32768 w =
      Some (length content, content @ replicate (32768 - length content) 0)"
    using assms(1,2) by (simp add: read_dat_def c blit_def min_def)
  obtain h1 where "copy_loop block_header 1 pkt p 8 = Some h1"
    and "poke h1 29 (of_nat (n_packets (length content))) =
      Some (raw_header dev 0 (of_nat (n_packets (length content))) 0 0)"
    using block_header_init [OF assms(3), of "of_nat (n_packets (length content))"]
    by (auto simp: bind_eq_Some_conv dev)
  then show ?thesis
    by (cases "length content mod 992 = 0") (simp_all add: takeDataPacket_def read n_packets_def)
qed

lemma takeDataPacket_spec:
  assumes "cstr filename 0 = Some path" and "files w path = Some file" and "p + 8 \<le> length pkt"
    and c: "content = take 32768 file" and dev: "dev = take 8 (drop p pkt)"
    and fits: "block_need content \<le> length data"
  shows "takeDataPacket filename data pkt p w =
    Some (block_need content, concat (packets dev content) @ drop (block_need content) data)"
proof -
  let ?n = "length content div 992" and ?r = "length content mod 992"
  let ?t = "of_nat (n_packets (length content)) :: byte"
  have dev8: "length dev = 8" using assms(3) dev by simp
  have nr: "?n * 992 + ?r = length content" by simp
  have need: "block_need content = ?n * 1024 + (if ?r = 0 then 0 else 32 + ?r)"
    by (rule block_need_split)
  obtain x y z where loop: "block_loop 0 ?n (raw_header dev 0 ?t 0 0) data 0 content =
      do { d \<leftarrow> blit data 0 (concat (map (full_packet dev ?t content) [0..<?n]));
           Some (raw_header dev x ?t y z, d, ?n * 1024) }"
    using block_loop_blit [OF dev8, of 0 ?n data 0 content 0 ?t 0 0] fits need nr by auto
  have full: "map (full_packet dev ?t content) [0..<?n] = map (packet dev content) [0..<?n]"
    using nr by (auto simp: packet_full)
  have lc: "length (concat (map (packet dev content) [0..<?n])) = ?n * 1024"
    using length_full_packets [OF dev8, of ?n content] by simp
  obtain d where d: "blit data 0 (concat (map (packet dev content) [0..<?n])) = Some d"
    using fits need lc by (simp add: blit_def)
  show ?thesis
  proof (cases "?r = 0")
    case True
    then have "takeDataPacket filename data pkt p w = Some (block_need content, d)"
      using d need by (simp add: takeDataPacket_prefix [OF assms(1-5)] loop full)
    moreover have "d = concat (packets dev content) @ drop (block_need content) data"
      using True d fits need lc by (simp add: packets_def n_packets_full blit_def)
    ultimately show ?thesis by simp
  next
    case False
    let ?h = "raw_header dev (of_nat ?n) ?t (of_nat (?r div 256)) (of_nat (?r mod 256))"
    have pl: "payload content ?n = take ?r (drop (992 * ?n) content)"
    proof -
      have "length (drop (992 * ?n) content) = ?r"
        by (simp add: minus_mult_div_eq_mod)
      then show ?thesis by (simp add: payload_def)
    qed
    have lpl: "length (payload content ?n) = ?r"
      by (simp add: pl minus_mult_div_eq_mod)
    then have last: "packet dev content ?n = ?h @ payload content ?n"
      by (simp add: packet_def packet_header_def)
    have "emit_block ?n ?r (raw_header dev x ?t y z) d (?n * 1024) content =
        do { d' \<leftarrow> blit d (?n * 1024) (packet dev content ?n); Some (?h, d', ?n * 1024 + 32 + ?r) }"
      unfolding last pl using False fits need nr blit_length [OF d] dev8
      by (intro emit_block_blit) (auto simp: length_raw_header raw_header_update)
    moreover have "blit d (?n * 1024) (packet dev content ?n) =
        blit data 0 (concat (packets dev content))"
      using blit_blit [OF d, of "packet dev content ?n"] lc False
      by (simp add: packets_def n_packets_def)
    moreover have "blit data 0 (concat (packets dev content)) =
        Some (concat (packets dev content) @ drop (block_need content) data)"
      using fits length_packets [OF dev8, of content] by (simp add: blit_def block_need_def)
    ultimately show ?thesis
      using False need d by (simp add: takeDataPacket_prefix [OF assms(1-5)] loop full)
  qed
qed

lemma takeDataPacket_overflow:
  assumes "cstr filename 0 = Some path" and "files w path = Some file" and "p + 8 \<le> length pkt"
    and c: "content = take 32768 file"
    and big: "length data < block_need content"
  shows "takeDataPacket filename data pkt p w = None"
proof -
  let ?n = "length content div 992" and ?r = "length content mod 992"
  define dev where dev: "dev = take 8 (drop p pkt)"
  let ?t = "of_nat (n_packets (length content)) :: byte"
  have dev8: "length dev = 8" using assms(3) dev by simp
  have nr: "?n * 992 + ?r = length content" by simp
  have need: "block_need content = ?n * 1024 + (if ?r = 0 then 0 else 32 + ?r)"
    by (rule block_need_split)
  show ?thesis
  proof (cases "length data < ?n * 1024")
    case True
    then have "block_loop 0 ?n (raw_header dev 0 ?t 0 0) data 0 content = None"
      using nr by (intro block_loop_overflow [OF dev8]) auto
    then show ?thesis by (simp add: takeDataPacket_prefix [OF assms(1-4) dev])
  next
    case False
    have r: "?r \<noteq> 0" by (rule notI) (use False big need in simp)
    obtain x y z where loop: "block_loop 0 ?n (raw_header dev 0 ?t 0 0) data 0 content =
        do { d \<leftarrow> blit data 0 (concat (map (full_packet dev ?t content) [0..<?n]));
             Some (raw_header dev x ?t y z, d, ?n * 1024) }"
      using block_loop_blit [OF dev8, of 0 ?n data 0 content 0 ?t 0 0] False nr by auto
    have "emit_block ?n ?r (raw_header dev x ?t y z) d (?n * 1024) content = None"
      if "blit data 0 (concat (map (full_packet dev ?t content) [0..<?n])) = Some d" for d
      using blit_length [OF that] big need r nr dev8
      by (intro emit_block_overflow) (auto simp: length_raw_header)
    then show ?thesis
      using r by (auto simp: takeDataPacket_prefix [OF assms(1-4) dev] loop bind_eq_None_conv)
  qed
qed

lemma takeDataPacket_no_file:
  assumes "cstr filename 0 = Some path" and "files w path = None"
  shows "takeDataPacket filename data pkt p w = None"
  using assms by (simp add: takeDataPacket_def read_dat_def)

section \<open>Marking and sending the packets\<close>

text \<open>A sequence the loops step through: full pieces of 1024 bytes, the last one shorter.\<close>

fun block_seq :: "byte list list \<Rightarrow> bool" where
  "block_seq [] \<longleftrightarrow> True"
| "block_seq [p] \<longleftrightarrow> 20 < length p \<and> length p \<le> 1024"
| "block_seq (p # q # ps) \<longleftrightarrow> length p = 1024 \<and> block_seq (q # ps)"

lemma block_seq_append: "(\<And>p. p \<in> set ps \<Longrightarrow> length p = 1024) \<Longrightarrow> block_seq qs \<Longrightarrow> block_seq (ps @ qs)"
proof (induction ps)
  case (Cons p ps)
  then have "block_seq (ps @ qs)" and "length p = 1024" by auto
  then show ?case by (cases "ps @ qs") auto
qed simp

lemma block_seq_map: "(\<And>p. length (f p) = length p) \<Longrightarrow> block_seq (map f ps) = block_seq ps"
  by (induction ps rule: block_seq.induct) auto

lemma packets_block_seq:
  assumes "length dev = 8"
  shows "block_seq (packets dev content)"
proof -
  let ?n = "length content div 992" and ?r = "length content mod 992"
  have full: "length (packet dev content k) = 1024" if "k < ?n" for k
  proof -
    have "Suc k * 992 \<le> ?n * 992" using that by simp
    also have "\<dots> \<le> length content" by simp
    finally show ?thesis
      using assms by (simp add: packet_def length_packet_header payload_def)
  qed
  show ?thesis
  proof (cases "?r = 0")
    case True
    have "block_seq (map (packet dev content) [0..<?n] @ [])"
      using full by (intro block_seq_append) auto
    then show ?thesis
      by (simp add: packets_def n_packets_full [OF True])
  next
    case False
    have "length (payload content ?n) = ?r"
      by (simp add: payload_def minus_mult_div_eq_mod)
    with False have "block_seq [packet dev content ?n]"
      using assms by (simp add: packet_def length_packet_header)
    then have "block_seq (map (packet dev content) [0..<?n] @ [packet dev content ?n])"
      using full by (intro block_seq_append) auto
    with False show ?thesis by (simp add: packets_def n_packets_def)
  qed
qed

definition flagged :: "byte \<Rightarrow> byte list \<Rightarrow> byte list" where
  "flagged f p = p[20 := f]"

lemma length_flagged [simp]: "length (flagged f p) = length p"
  by (simp add: flagged_def)

lemma flag_loop_stop: "len \<le> i * 1024 \<Longrightarrow> takeDataPacketFlag_loop data i len f = Some data"
  by (subst takeDataPacketFlag_loop.simps) simp

lemma flag_loop_step:
  assumes "i * 1024 < len" and "length pre = i * 1024" and "20 < length p"
  shows "takeDataPacketFlag_loop (pre @ p @ rest) i len f =
    takeDataPacketFlag_loop (pre @ flagged f p @ rest) (Suc i) len f"
proof -
  have "poke (pre @ p @ rest) (i * 1024 + 20) f = Some (pre @ flagged f p @ rest)"
    using assms(2,3) by (simp add: list_update_append flagged_def)
  then show ?thesis
    using assms(1) by (simp add: takeDataPacketFlag_loop.simps [of "pre @ p @ rest"])
qed

lemma flag_loop_seq:
  assumes "block_seq ps" and "length pre = i * 1024" and "len = i * 1024 + length (concat ps)"
  shows "takeDataPacketFlag_loop (pre @ concat ps @ rest) i len f =
    Some (pre @ concat (map (flagged f) ps) @ rest)"
  using assms
proof (induction ps arbitrary: pre i rule: block_seq.induct)
  case 1
  then show ?case by (simp add: flag_loop_stop)
next
  case (2 p)
  then have "takeDataPacketFlag_loop (pre @ p @ rest) i len f =
      takeDataPacketFlag_loop (pre @ flagged f p @ rest) (Suc i) len f"
    by (intro flag_loop_step) auto
  also have "\<dots> = Some (pre @ flagged f p @ rest)"
    using 2 by (intro flag_loop_stop) simp
  finally show ?case by simp
next
  case (3 p q ps)
  let ?R = "concat (q # ps) @ rest"
  have "takeDataPacketFlag_loop (pre @ p @ ?R) i len f =
      takeDataPacketFlag_loop (pre @ flagged f p @ ?R) (Suc i) len f"
    using 3 by (intro flag_loop_step) auto
  also have "pre @ flagged f p @ ?R = (pre @ flagged f p) @ concat (q # ps) @ rest" by simp
  also have "takeDataPacketFlag_loop \<dots> (Suc i) len f =
      Some ((pre @ flagged f p) @ concat (map (flagged f) (q # ps)) @ rest)"
    using 3 by (intro "3.IH") auto
  finally show ?case by simp
qed

lemma takeDataPacketFlag_seq:
  assumes "block_seq ps"
  shows "takeDataPacketFlag (concat ps @ rest) (length (concat ps)) f =
    Some (concat (map (flagged f) ps) @ rest)"
  using flag_loop_seq [OF assms, of "[]" 0 "length (concat ps)" rest f]
  by (simp add: takeDataPacketFlag_def)

lemma send_loop_stop: "send_loop buf n n = Some []"
  by (subst send_loop.simps) simp

lemma send_loop_seq:
  assumes "block_seq ps" and "length pre = s" and "tot = s + length (concat ps)"
  shows "send_loop (pre @ concat ps @ rest) s tot = Some ps"
  using assms
proof (induction ps arbitrary: pre s rule: block_seq.induct)
  case 1
  then show ?case by (simp add: send_loop_stop)
next
  case (2 p)
  have "fetch (pre @ p @ rest) s (length p) = Some p" using 2 by (simp add: fetch_def)
  moreover have "p \<noteq> []" using 2 by auto
  ultimately show ?case
    using 2 by (cases "length p = 1024")
      (simp_all add: send_loop.simps [of "pre @ p @ rest" s] send_loop_stop)
next
  case (3 p q ps)
  define b where "b = pre @ concat (p # q # ps) @ rest"
  have "send_loop ((pre @ p) @ concat (q # ps) @ rest) (s + 1024) tot = Some (q # ps)"
    using 3 by (intro "3.IH") auto
  then have "send_loop b (s + 1024) tot = Some (q # ps)" by (simp add: b_def)
  moreover have "fetch b s 1024 = Some p" using 3 by (simp add: fetch_def b_def)
  ultimately have "send_loop b s tot = Some (p # q # ps)"
    using 3 by (subst send_loop.simps) simp
  then show ?case by (simp add: b_def)
qed

section \<open>Reading a packet\<close>

text \<open>
  The fields the receivers read: \<open>char\<close> is signed, only byte 31 is cast to unsigned.
  \<open>store_block\<close> is the loop that copies \<open>n\<close> payload bytes to \<open>buffer[base + i]\<close>.
\<close>

record block_fields =
  dataLength :: int
  pktIndex :: int
  pktTotal :: int

definition read_fields :: "byte list \<Rightarrow> block_fields option" where
  "read_fields data = do {
     b30 \<leftarrow> peek data 30; b31 \<leftarrow> peek data 31; b13 \<leftarrow> peek data 13; b29 \<leftarrow> peek data 29;
     Some \<lparr>dataLength = sint b30 * 256 + uint b31, pktIndex = sint b13, pktTotal = sint b29\<rparr> }"

definition store_block :: "byte list \<Rightarrow> int \<Rightarrow> byte list \<Rightarrow> nat \<Rightarrow> int \<Rightarrow> byte list option" where
  "store_block buffer base data off n =
     (if n \<le> 0 then Some buffer
      else do { b \<leftarrow> to_index base; copy_loop buffer b data off (nat n) })"

lemma store_block_length: "store_block buffer base data off n = Some b \<Longrightarrow> length b = length buffer"
  by (auto simp: store_block_def bind_eq_Some_conv copy_loop_length split: if_splits)

lemma sint_of_nat_byte: "i < 128 \<Longrightarrow> sint (word_of_nat i :: byte) = int i"
  by (simp add: signed_of_nat signed_take_bit_int_eq_self)

lemma uint_of_nat_byte: "i < 256 \<Longrightarrow> uint (word_of_nat i :: byte) = int i"
  by (simp add: unsigned_of_nat take_bit_eq_mod)

lemma length_field:
  assumes "n < 32768"
  shows "sint (word_of_nat (n div 256) :: byte) * 256 + uint (word_of_nat (n mod 256) :: byte) = int n"
proof -
  have "n div 256 < 128" and "n mod 256 < 256" using assms by auto
  then have "sint (word_of_nat (n div 256) :: byte) = int (n div 256)"
    and "uint (word_of_nat (n mod 256) :: byte) = int (n mod 256)"
    by (simp_all only: sint_of_nat_byte uint_of_nat_byte)
  moreover have "int (n div 256) * 256 + int (n mod 256) = int n"
    by (metis div_mult_mod_eq of_nat_add of_nat_mult of_nat_numeral)
  ultimately show ?thesis by simp
qed

lemma flagged_packet:
  assumes "length dev = 8"
  shows "flagged f (packet dev content i) =
    flagged f (packet_header dev i (n_packets (length content)) (length (payload content i)))
      @ payload content i"
  using assms by (simp add: flagged_def packet_def list_update_append length_packet_header)

lemma packet_fields:
  assumes "length dev = 8" and "i < 128" and "n_packets (length content) < 128"
    and "pk = packet dev content i \<or> pk = flagged f (packet dev content i)"
  shows "read_fields (pk @ r) =
      Some \<lparr>dataLength = int (length (payload content i)), pktIndex = int i,
            pktTotal = int (n_packets (length content))\<rparr>"
    and "(pk @ r) ! 0 = 0x56" and "fetch (pk @ r) 1 8 = Some dev"
    and "take (length (payload content i)) (drop 32 (pk @ r)) = payload content i"
    and "length pk = 32 + length (payload content i)"
proof -
  let ?h = "packet_header dev i (n_packets (length content)) (length (payload content i))"
  have lh: "length ?h = 32" using assms(1) by (rule length_packet_header)
  have lp: "length (payload content i) < 32768" by (simp add: payload_def)
  note nth = raw_header_nth [OF assms(1)]
  obtain h where pk: "pk = h @ payload content i" and h: "h = ?h \<or> h = flagged f ?h"
    using assms(4) flagged_packet [OF assms(1)] by (auto simp: packet_def)
  have l: "length h = 32" using h lh by auto
  then show "length pk = 32 + length (payload content i)" by (simp add: pk)
  have "h ! 0 = 0x56" and "h ! 13 = of_nat i" and "h ! 29 = of_nat (n_packets (length content))"
    and "h ! 30 = of_nat (length (payload content i) div 256)"
    and "h ! 31 = of_nat (length (payload content i) mod 256)"
    using h lh nth by (auto simp: flagged_def packet_header_def simp del: of_nat_mod)
  then show "read_fields (pk @ r) =
      Some \<lparr>dataLength = int (length (payload content i)), pktIndex = int i,
            pktTotal = int (n_packets (length content))\<rparr>" and "(pk @ r) ! 0 = 0x56"
    using l assms(2,3) lp length_field [OF lp]
    by (simp_all add: pk read_fields_def nth_append sint_of_nat_byte del: of_nat_mod)
  have "take 8 (drop 1 h) = dev"
    using h nth(2) by (auto simp: flagged_def packet_header_def drop_update_swap)
  then show "fetch (pk @ r) 1 8 = Some dev" using l by (simp add: pk fetch_def)
  show "take (length (payload content i)) (drop 32 (pk @ r)) = payload content i"
    using l by (simp add: pk)
qed

end
