(* ===== verification/Apollo_Syner.thy ===== *)
theory Apollo_Syner
  imports Apollo_Blocks
begin

text \<open>
  Multicast synchronisation (\<open>ApolloSyner.c\<close>). \<open>ApolloSynerAction\<close> reads the AGPS file of a
  device and sends it as marked block packets; \<open>ApolloSyner_step\<close> is one turn of the endless
  receive loop of another server, \<open>syner_run\<close> a sequence of turns. The main lemma follows
  a file through both ends.
\<close>

section \<open>The sender\<close>

text \<open>
  \<open>sock_ok\<close> and \<open>bind_ok\<close> are the outcomes of \<open>socket\<close> and \<open>bind\<close>; the result is the list of
  datagrams handed to \<open>sendto\<close>.
\<close>

definition ApolloSynerAction ::
    "data_save_type \<Rightarrow> bool \<Rightarrow> bool \<Rightarrow> MulticastSynerPacket \<Rightarrow> 'w world \<Rightarrow> byte list list option" where
  "ApolloSynerAction save sock_ok bind_ok pSynPacket w =
     (if \<not> sock_ok then Some []
      else if \<not> bind_ok then Some []
      else do {
        dev \<leftarrow> cstr (syn_DeviceId pSynPacket) 0;
        fileName \<leftarrow> sprintf_at (replicate 128 0) 0 dev;
        pathName \<leftarrow> genAgpsFilePathName save fileName (replicate 128 0);
        (devId, _) \<leftarrow> stringtohex_loop (replicate LEN_DEVICE_ID 0) 0 (syn_DeviceId pSynPacket) LEN_DEVICE_ID;
        (totalLength, sendBuf) \<leftarrow> takeDataPacket pathName (replicate LEN_BLOCK_BUFFER 0) devId 0 w;
        sendBuf' \<leftarrow> takeDataPacketFlag sendBuf totalLength (syn_flag pSynPacket);
        send_loop sendBuf' 0 totalLength })"

section \<open>The receiver\<close>

record syner =
  u8DevId :: "byte list"
  u8SynerBlockData :: "byte list"

definition syner_init :: syner where
  "syner_init = \<lparr>u8DevId = replicate LEN_DEVICE_ID 0, u8SynerBlockData = replicate (32 * 1024) 0\<rparr>"

definition syner_path :: "data_save_type \<Rightarrow> byte \<Rightarrow> byte list \<Rightarrow> byte list option" where
  "syner_path save flag u8DeviceId =
     (if flag = MULTICAST_TYPE_BLOCK then genBlockFilePathName save u8DeviceId (replicate (LEN_DEVICE_ID * 8) 0)
      else if flag = MULTICAST_TYPE_AGPS then genAgpsFilePathName save u8DeviceId (replicate (LEN_DEVICE_ID * 8) 0)
      else genBlockFilePathName save u8DeviceId (replicate (LEN_DEVICE_ID * 8) 0))"

text \<open>
  One turn: \<open>r\<close> is what \<open>recvfrom\<close> delivered, \<open>None\<close> for its error \<open>-1\<close>. The result is
  stored in an unsigned variable, so the test \<open>n < 0\<close> never holds and the turn goes on with
  the cleared buffer. \<open>syner_accept\<close> is the part of the turn after the header and device
  checks.
\<close>

definition syner_accept ::
    "data_save_type \<Rightarrow> byte list \<Rightarrow> byte list \<Rightarrow> nat \<Rightarrow> byte list \<Rightarrow> block_fields \<Rightarrow> 'w world
      \<Rightarrow> (syner \<times> 'w world) option" where
  "syner_accept save devId block n data f w = do {
     block1 \<leftarrow> (if n = 1024 \<and> pktIndex f + 1 \<noteq> pktTotal f
                then store_block block (pktIndex f * int LEN_BLOCK_DATA) data LEN_HEADER_LENGTH (dataLength f)
                else Some block);
     if pktIndex f + 1 = pktTotal f then do {
       block2 \<leftarrow> store_block block1 (pktIndex f * int LEN_BLOCK_DATA) data LEN_HEADER_LENGTH (dataLength f);
       u8DeviceId \<leftarrow> hextostring (replicate (LEN_DEVICE_ID * 2 + 1) 0) 0 data IDX_DEVICE_ID LEN_DEVICE_ID;
       flag \<leftarrow> peek data 20;
       u8FileName \<leftarrow> syner_path save flag u8DeviceId;
       (_, w') \<leftarrow> write_dat u8FileName block2 (pktIndex f * int LEN_BLOCK_DATA + dataLength f) w;
       Some (\<lparr>u8DevId = devId, u8SynerBlockData = replicate (32 * 1024) 0\<rparr>, w') }
     else Some (\<lparr>u8DevId = devId, u8SynerBlockData = block1\<rparr>, w) }"

definition syner_device :: "byte list \<Rightarrow> byte list \<Rightarrow> block_fields \<Rightarrow> byte list option" where
  "syner_device devId data f =
     (if pktIndex f = 0 then do { x \<leftarrow> fetch data 1 LEN_DEVICE_ID; blit devId 0 x } else Some devId)"

definition ApolloSyner_step ::
    "data_save_type \<Rightarrow> syner \<Rightarrow> byte list option \<Rightarrow> 'w world \<Rightarrow> (syner \<times> 'w world) option" where
  "ApolloSyner_step save st r w = do {
     data \<leftarrow> (case r of None \<Rightarrow> Some (replicate 1048 0)
              | Some d \<Rightarrow> blit (replicate 1048 0) 0 (take 1024 d));
     let n = (case r of None \<Rightarrow> 2 ^ 32 - 1 | Some d \<Rightarrow> min (length d) 1024);
     f \<leftarrow> read_fields data;
     d0 \<leftarrow> peek data 0;
     if d0 \<noteq> 0x56 then Some (st, w)
     else do {
       devId \<leftarrow> syner_device (u8DevId st) data f;
       same \<leftarrow> apollo_strcmp devId 0 data 1 LEN_DEVICE_ID;
       if same = 0 then Some (st\<lparr>u8DevId := devId\<rparr>, w)
       else syner_accept save devId (u8SynerBlockData st) n data f w } }"

primrec syner_run ::
    "data_save_type \<Rightarrow> syner \<Rightarrow> byte list option list \<Rightarrow> 'w world \<Rightarrow> (syner \<times> 'w world) option" where
  "syner_run save st [] w = Some (st, w)"
| "syner_run save st (r # rs) w = do {
     (st', w') \<leftarrow> ApolloSyner_step save st r w;
     syner_run save st' rs w' }"

text \<open>
  The set-up before the loop: the outcomes of its calls. \<open>exit\<close> in this thread ends the whole
  server, with the code \<open>Inl\<close> carries.
\<close>

record syner_setup =
  syn_sockfd :: int
  membership_ok :: bool
  syn_bind_ok :: bool

definition ApolloSyner_setup :: "syner_setup \<Rightarrow> int option" where
  "ApolloSyner_setup o' =
     (if syn_sockfd o' < 0 then Some 1
      else if \<not> membership_ok o' then Some (-1)
      else if \<not> syn_bind_ok o' then Some 0
      else None)"

definition ApolloSyner ::
    "data_save_type \<Rightarrow> syner_setup \<Rightarrow> byte list option list \<Rightarrow> 'w world \<Rightarrow> (int + syner \<times> 'w world) option" where
  "ApolloSyner save o' rs w =
     (case ApolloSyner_setup o' of
        Some code \<Rightarrow> Some (Inl code)
      | None \<Rightarrow> map_option Inr (syner_run save syner_init rs w))"

definition syner_wf :: "syner \<Rightarrow> bool" where
  "syner_wf st \<longleftrightarrow> length (u8DevId st) = 8 \<and> length (u8SynerBlockData st) = 32768"

section \<open>The receiver keeps its buffers, and ignores errors and foreign datagrams\<close>

lemma syner_wf_init: "syner_wf syner_init"
  by (simp add: syner_wf_def syner_init_def)

lemma syner_accept_wf:
  assumes "syner_accept save devId block n data f w = Some (st', w')" and "length block = 32768"
  shows "u8DevId st' = devId \<and> length (u8SynerBlockData st') = 32768"
  using assms by (auto simp: syner_accept_def bind_eq_Some_conv store_block_length split: if_splits)

lemma syner_device_length: "syner_device d data f = Some d' \<Longrightarrow> length d' = length d"
  by (auto simp: syner_device_def bind_eq_Some_conv dest: blit_length split: if_splits)

lemma syner_step_wf:
  assumes "syner_wf st" and step: "ApolloSyner_step save st r w = Some (st', w')"
  shows "syner_wf st'"
proof -
  from step consider "st' = st"
    | devId data f where "syner_device (u8DevId st) data f = Some devId"
        and "st' = st\<lparr>u8DevId := devId\<rparr>"
    | devId n data f where "syner_device (u8DevId st) data f = Some devId"
        and "syner_accept save devId (u8SynerBlockData st) n data f w = Some (st', w')"
    by (auto simp: ApolloSyner_step_def bind_eq_Some_conv Let_def split: if_splits)
  then show ?thesis
    using assms(1) by cases (auto simp: syner_wf_def dest!: syner_accept_wf syner_device_length)
qed

lemma syner_run_wf: "syner_wf st \<Longrightarrow> syner_run save st rs w = Some (st', w') \<Longrightarrow> syner_wf st'"
proof (induction rs arbitrary: st w)
  case Nil
  then show ?case by simp
next
  case (Cons r rs)
  then obtain st1 w1 where "ApolloSyner_step save st r w = Some (st1, w1)"
    and "syner_run save st1 rs w1 = Some (st', w')"
    by (auto simp: bind_eq_Some_conv)
  with Cons show ?case by (blast intro: syner_step_wf)
qed

lemma syner_step_error: "ApolloSyner_step save st None w = Some (st, w)"
  by (simp add: ApolloSyner_step_def read_fields_def)

lemma syner_step_foreign:
  assumes "d \<noteq> []" and "d ! 0 \<noteq> 0x56"
  shows "ApolloSyner_step save st (Some d) w = Some (st, w)"
proof -
  have "blit (replicate 1048 0) 0 (take 1024 d) =
      Some (take 1024 d @ replicate (1048 - min (length d) 1024) 0)"
    by (simp add: blit_def min_def)
  moreover have "(take 1024 d @ replicate (1048 - min (length d) 1024) 0) ! 0 = d ! 0"
    using assms(1) by (simp add: nth_append)
  ultimately show ?thesis
    using assms(2) by (auto simp: ApolloSyner_step_def read_fields_def min_def)
qed

section \<open>What the sender sends\<close>

lemma agps_pathname:
  assumes "length dev = 8" and "n \<ge> 64"
  shows "\<exists>buf. sprintf_at (replicate n 0) 0 (agps_path save (hex_text dev)) = Some buf
      \<and> cstr buf 0 = Some (agps_path save (hex_text dev))"
proof -
  have "length (agps_path save (hex_text dev)) < 64"
    using assms(1) by (cases save) (simp_all add: agps_path_def)
  then obtain buf where buf: "sprintf_at (replicate n 0) 0 (agps_path save (hex_text dev)) = Some buf"
    using assms(2) by (simp add: sprintf_at_def blit_def)
  moreover have "cstr buf 0 = Some (agps_path save (hex_text dev))"
    using buf by (rule cstr_sprintf) (simp add: agps_path_no_nul)
  ultimately show ?thesis by blast
qed

lemma cstr_hex_buffer:
  assumes "length dev = 8" and "k > 0"
  shows "cstr (hex_text dev @ replicate k 0) 0 = Some (hex_text dev)"
  using assms cstr_blit_zeros(2) [of "hex_text dev" "16 + k"] by simp

text \<open>Cutting a file, marking the packets and sending them: the packets of the reference, marked.\<close>

lemma cut_mark_send:
  assumes "length dev = 8" and "cstr pathName 0 = Some path" and "files w path = Some content"
    and "block_need content \<le> 32768"
  shows "do { (totalLength, sendBuf) \<leftarrow> takeDataPacket pathName (replicate 32768 0) dev 0 w;
      sendBuf' \<leftarrow> takeDataPacketFlag sendBuf totalLength flag;
      send_loop sendBuf' 0 totalLength } = Some (map (flagged flag) (packets dev content))"
proof -
  have "length content \<le> 32768" using assms(4) by (simp add: block_need_def)
  then have take_pkt: "takeDataPacket pathName (replicate 32768 0) dev 0 w =
      Some (block_need content, concat (packets dev content) @ replicate (32768 - block_need content) 0)"
    using assms(1,4) takeDataPacket_spec [OF assms(2,3), of 0 dev content dev "replicate 32768 0"]
    by simp
  have len: "length (concat (packets dev content)) = block_need content"
    by (simp add: length_packets [OF assms(1)] block_need_def)
  let ?z = "replicate (32768 - block_need content) 0"
  have seq: "block_seq (packets dev content)" by (rule packets_block_seq [OF assms(1)])
  then have seq': "block_seq (map (flagged flag) (packets dev content))"
    by (simp add: block_seq_map)
  have "length (concat (map (flagged flag) (packets dev content))) = block_need content"
    using len by (simp add: length_concat o_def)
  then have "send_loop (concat (map (flagged flag) (packets dev content)) @ ?z) 0 (block_need content) =
      Some (map (flagged flag) (packets dev content))"
    using send_loop_seq [OF seq', of "[]" 0 "block_need content" ?z] by simp
  then show ?thesis
    using takeDataPacketFlag_seq [OF seq, of ?z flag] by (simp add: take_pkt len)
qed

lemma ApolloSynerAction_sends:
  assumes "length dev = 8" and "list_all bcd dev"
    and "syn_DeviceId pkt = hex_text dev @ [0, 0]"
    and "files w (agps_path save (hex_text dev)) = Some content"
    and "block_need content \<le> 32768"
  shows "ApolloSynerAction save True True pkt w = Some (map (flagged (syn_flag pkt)) (packets dev content))"
proof -
  let ?H = "hex_text dev"
  have cs: "cstr (?H @ [0, 0]) 0 = Some ?H"
    using cstr_hex_buffer [OF assms(1), of 2] by (simp add: numeral_2_eq_2)
  obtain fb where fb: "sprintf_at (replicate 128 0) 0 ?H = Some fb"
    using assms(1) by (simp add: sprintf_at_def blit_def)
  then have "cstr fb 0 = Some ?H" by (rule cstr_sprintf) simp
  moreover obtain pb where pb: "sprintf_at (replicate 128 0) 0 (agps_path save ?H) = Some pb"
    and pc: "cstr pb 0 = Some (agps_path save ?H)"
    using agps_pathname [OF assms(1), of 128 save] by auto
  ultimately have path: "genAgpsFilePathName save fb (replicate 128 0) = Some pb"
    by (simp add: genAgpsFilePathName_def)
  obtain tx where dev: "stringtohex_loop (replicate 8 0) 0 (?H @ [0, 0]) 8 = Some (dev, tx)"
    using stringtohex_bcd [OF assms(2), of "?H @ [0, 0]" 0 2 "[0, 0]" "replicate 8 0"] assms(1)
    by auto
  show ?thesis
    using cut_mark_send [OF assms(1) pc assms(4,5), of "syn_flag pkt"]
    by (simp add: ApolloSynerAction_def assms(3) cs fb path dev)
qed

section \<open>What the receiver makes of it\<close>

lemma store_payload:
  assumes "take (length xs) (drop 32 data) = xs" and "32 + length xs \<le> length data"
    and "b + length xs \<le> length buffer"
  shows "store_block buffer (int b) data 32 (int (length xs)) = blit buffer b xs"
  using assms by (cases "xs = []") (auto simp: store_block_def copy_loop_blit blit_Nil)

lemma recv_buffer:
  assumes "length p \<le> 1024"
  shows "blit (replicate 1048 0) 0 (take 1024 p) = Some (p @ replicate (1048 - length p) 0)"
  using assms by (simp add: blit_def)

text \<open>The buffer \<open>data\<close> of a turn that receives packet \<open>i\<close> of a file.\<close>

definition recv_data :: "byte \<Rightarrow> byte list \<Rightarrow> byte list \<Rightarrow> nat \<Rightarrow> byte list" where
  "recv_data f dev content i =
     flagged f (packet dev content i) @ replicate (1016 - length (payload content i)) 0"

lemma recv_data_facts:
  assumes "length dev = 8" and "n_packets (length content) \<le> 32" and "i < n_packets (length content)"
  shows "blit (replicate 1048 0) 0 (take 1024 (flagged f (packet dev content i))) =
      Some (recv_data f dev content i)"
    and "read_fields (recv_data f dev content i) =
      Some \<lparr>dataLength = int (length (payload content i)), pktIndex = int i,
            pktTotal = int (n_packets (length content))\<rparr>"
    and "recv_data f dev content i ! 0 = 0x56" and "fetch (recv_data f dev content i) 1 8 = Some dev"
    and "take (length (payload content i)) (drop 32 (recv_data f dev content i)) = payload content i"
    and "length (recv_data f dev content i) = 1048"
    and "recv_data f dev content i ! 20 = f"
proof -
  let ?pk = "flagged f (packet dev content i)"
  have i: "i < 128" "n_packets (length content) < 128" using assms(2,3) by auto
  note fields = packet_fields(1-4) [OF assms(1) i, of ?pk f "replicate (1016 - length (payload content i)) 0"]
  have lpk: "length ?pk = 32 + length (payload content i)"
    by (rule packet_fields(5) [OF assms(1) i, of _ f]) simp
  have pl: "length (payload content i) \<le> 992" by (simp add: payload_def)
  then have le: "length ?pk \<le> 1024" using lpk by simp
  then show "blit (replicate 1048 0) 0 (take 1024 ?pk) = Some (recv_data f dev content i)"
    using recv_buffer [of ?pk] lpk by (simp add: recv_data_def)
  show "read_fields (recv_data f dev content i) =
      Some \<lparr>dataLength = int (length (payload content i)), pktIndex = int i,
            pktTotal = int (n_packets (length content))\<rparr>"
    and "recv_data f dev content i ! 0 = 0x56" and "fetch (recv_data f dev content i) 1 8 = Some dev"
    and "take (length (payload content i)) (drop 32 (recv_data f dev content i)) = payload content i"
    using fields unfolding recv_data_def by blast+
  show "length (recv_data f dev content i) = 1048"
    using lpk pl by (simp add: recv_data_def del: length_flagged)
  show "recv_data f dev content i ! 20 = f"
    using lpk by (simp add: recv_data_def nth_append) (simp add: flagged_def)
qed

lemma recv_same_dev:
  assumes "fetch data 1 8 = Some dev" and "length d = 8"
  shows "apollo_strcmp d 0 data 1 8 = Some (if d = dev then 1 else 0)"
  using assms by (auto simp: apollo_strcmp_iff fetch_def split: if_splits)

text \<open>A packet whose device is not the one of the transfer under way is dropped.\<close>

lemma syner_step_other_device:
  assumes "length dev = 8" and "n_packets (length content) \<le> 32" and "i < n_packets (length content)"
    and "syner_wf st" and "0 < i" and "u8DevId st \<noteq> dev"
  shows "ApolloSyner_step save st (Some (flagged f (packet dev content i))) w = Some (st, w)"
proof -
  note facts = recv_data_facts [OF assms(1-3), of f]
  have "apollo_strcmp (u8DevId st) 0 (recv_data f dev content i) 1 8 = Some 0"
    using recv_same_dev [OF facts(4)] assms(4,6) by (simp add: syner_wf_def)
  then show ?thesis
    using facts(1-3,6) assms(5) by (simp add: ApolloSyner_step_def syner_device_def)
qed

text \<open>Receive errors, datagrams that are not block packets, and later packets of another device
  than the one a transfer started with change neither the receiver nor any file.\<close>

lemma strangers_ignored:
  assumes "length dev = 8" and "n_packets (length content) \<le> 32" and "0 < i" and "i < n_packets (length content)"
    and "syner_wf st" and "u8DevId st \<noteq> dev" and "d \<noteq> []" and "d ! 0 \<noteq> 0x56"
  shows "syner_run save st [None, Some d, Some (flagged f (packet dev content i))] w = Some (st, w)"
proof -
  have "ApolloSyner_step save st (Some (flagged f (packet dev content i))) w = Some (st, w)"
    by (rule syner_step_other_device [OF assms(1,2,4,5,3,6)])
  moreover have "ApolloSyner_step save st (Some d) w = Some (st, w)"
    by (rule syner_step_foreign [OF assms(7,8)])
  ultimately show ?thesis by (simp add: syner_step_error)
qed

text \<open>The turn of a packet of the transfer under way, reduced to its last part.\<close>

lemma syner_step_accept:
  assumes "length dev = 8" and "n_packets (length content) \<le> 32" and "i < n_packets (length content)"
    and "syner_wf st" and "i = 0 \<or> u8DevId st = dev"
  shows "ApolloSyner_step save st (Some (flagged f (packet dev content i))) w =
    syner_accept save dev (u8SynerBlockData st) (32 + length (payload content i))
      (recv_data f dev content i)
      \<lparr>dataLength = int (length (payload content i)), pktIndex = int i,
       pktTotal = int (n_packets (length content))\<rparr> w"
proof -
  note facts = recv_data_facts [OF assms(1-3), of f]
  have len: "length (packet dev content i) = 32 + length (payload content i)"
    using assms(1) by (simp add: packet_def length_packet_header)
  then have n: "min (length (packet dev content i)) 1024 = 32 + length (payload content i)"
    by (simp add: payload_def)
  have "apollo_strcmp dev 0 (recv_data f dev content i) 1 8 = Some 1"
    using recv_same_dev [OF facts(4)] assms(1) by simp
  moreover have "i \<noteq> 0 \<Longrightarrow> u8DevId st = dev" and "blit (u8DevId st) 0 dev = Some dev"
    using assms(1,4,5) by (auto simp: syner_wf_def blit_def)
  ultimately show ?thesis
    using facts(1-4,6) n by (cases "i = 0") (simp_all add: ApolloSyner_step_def syner_device_def Let_def)
qed

section \<open>Receiving a whole file\<close>

lemma payload_middle:
  assumes "Suc i < n_packets (length content)"
  shows "length (payload content i) = 992" and "take (992 * i) content @ payload content i = take (992 * Suc i) content"
    and "992 * Suc i \<le> length content"
proof -
  have "Suc i * 992 \<le> length content div 992 * 992"
    using assms by (simp add: n_packets_def split: if_splits)
  also have "\<dots> \<le> length content" by simp
  finally have le: "Suc i * 992 \<le> length content" .
  then show "length (payload content i) = 992" and "992 * Suc i \<le> length content"
    by (simp_all add: payload_def)
  show "take (992 * i) content @ payload content i = take (992 * Suc i) content"
    using take_add [of "992 * i" 992 content] by (simp add: payload_def add.commute)
qed

lemma n_packets_bound: "length content \<le> 992 * n_packets (length content)"
proof -
  have "length content = 992 * (length content div 992) + length content mod 992"
    by (rule mult_div_mod_eq [symmetric])
  moreover have "length content mod 992 < 992" by simp
  ultimately show ?thesis by (simp only: n_packets_def) auto
qed

lemma payload_last:
  assumes "Suc i = n_packets (length content)"
  shows "take (992 * i) content @ payload content i = content"
    and "992 * i + length (payload content i) = length content"
proof -
  have "length content \<le> 992 * Suc i" using n_packets_bound [of content] assms by simp
  moreover have "take (992 * i) content @ payload content i = take (992 * Suc i) content"
    using take_add [of "992 * i" 992 content] by (simp add: payload_def add.commute)
  ultimately show e: "take (992 * i) content @ payload content i = content" by simp
  have "992 * i \<le> length content"
  proof -
    have "i \<le> length content div 992"
      using assms by (simp add: n_packets_def split: if_splits)
    then have "i * 992 \<le> length content div 992 * 992" by (rule mult_le_mono1)
    also have "\<dots> \<le> length content" by simp
    finally show ?thesis by simp
  qed
  then show "992 * i + length (payload content i) = length content"
    using arg_cong [OF e, of length] by simp
qed

definition received :: "byte list \<Rightarrow> byte list \<Rightarrow> nat \<Rightarrow> byte list" where
  "received blk content k = take (992 * k) content @ drop (992 * k) blk"

lemma blit_received:
  assumes "992 * i + length (payload content i) \<le> length content"
    and "992 * i + length (payload content i) \<le> length blk"
  shows "blit (received blk content i) (992 * i) (payload content i) =
    Some (take (992 * i) content @ payload content i @ drop (992 * i + length (payload content i)) blk)"
  using assms by (simp add: received_def blit_def add.commute)

lemma accept_middle:
  assumes "length dev = 8" and "n_packets (length content) \<le> 32" and "Suc i < n_packets (length content)"
    and "length blk = 32768"
  shows "syner_accept save dev (received blk content i) (32 + length (payload content i))
      (recv_data f dev content i)
      \<lparr>dataLength = int (length (payload content i)), pktIndex = int i,
       pktTotal = int (n_packets (length content))\<rparr> w =
    Some (\<lparr>u8DevId = dev, u8SynerBlockData = received blk content (Suc i)\<rparr>, w)"
proof -
  note mid = payload_middle [OF assms(3)]
  have i: "i < n_packets (length content)" using assms(3) by simp
  note facts = recv_data_facts [OF assms(1,2) i, of f]
  have fits: "992 * Suc i \<le> 32768" using assms(2,3) by simp
  have "store_block (received blk content i) (int (992 * i)) (recv_data f dev content i) 32
      (int (length (payload content i))) = blit (received blk content i) (992 * i) (payload content i)"
    using facts(5,6) mid fits assms(4) by (intro store_payload) (auto simp: received_def)
  also have "\<dots> = Some (received blk content (Suc i))"
    using mid fits assms(4) by (subst blit_received) (simp_all add: received_def add.commute flip: append_assoc)
  finally show ?thesis
    using assms(3) mid(1) by (simp add: syner_accept_def mult.commute)
qed

lemma syner_path_agps:
  assumes "length dev = 8"
  shows "\<exists>buf. syner_path save MULTICAST_TYPE_AGPS (hex_text dev @ [0]) = Some buf
    \<and> cstr buf 0 = Some (agps_path save (hex_text dev))"
proof -
  have "cstr (hex_text dev @ [0]) 0 = Some (hex_text dev)"
    using cstr_hex_buffer [OF assms, of 1] by simp
  then show ?thesis
    using agps_pathname [OF assms, of 64 save]
    by (auto simp: syner_path_def genAgpsFilePathName_def)
qed

lemma recv_hex:
  assumes "fetch data 1 8 = Some dev" and "length data = 1048"
  shows "hextostring (replicate 17 0) 0 data 1 8 = Some (hex_text dev @ [0])"
  using assms by (simp add: hextostring_into_zeros fetch_def)

lemma accept_last:
  assumes "length dev = 8" and "n_packets (length content) \<le> 32" and last: "Suc i = n_packets (length content)"
    and "length blk = 32768" and "length content \<le> 32768"
    and "creatable w (agps_path save (hex_text dev))"
  shows "syner_accept save dev (received blk content i) (32 + length (payload content i))
      (recv_data MULTICAST_TYPE_AGPS dev content i)
      \<lparr>dataLength = int (length (payload content i)), pktIndex = int i,
       pktTotal = int (n_packets (length content))\<rparr> w =
    Some (\<lparr>u8DevId = dev, u8SynerBlockData = replicate 32768 0\<rparr>,
      w\<lparr>files := (files w)(agps_path save (hex_text dev) \<mapsto> content)\<rparr>)"
proof -
  let ?data = "recv_data MULTICAST_TYPE_AGPS dev content i"
  have i: "i < n_packets (length content)" using last by simp
  note facts = recv_data_facts [OF assms(1,2) i, of MULTICAST_TYPE_AGPS]
  note pl = payload_last [OF last]
  let ?blk = "content @ drop (length content) blk"
  have lr: "length (received blk content i) = 32768"
    using assms(4,5) pl(2) by (simp add: received_def)
  have "store_block (received blk content i) (int (992 * i)) ?data 32 (int (length (payload content i))) =
      blit (received blk content i) (992 * i) (payload content i)"
    using facts(5,6) pl lr assms(5) by (intro store_payload) (auto simp: payload_def)
  also have "\<dots> = Some ?blk"
    using pl assms(4,5) by (subst blit_received) (simp_all flip: append_assoc)
  finally have store: "store_block (received blk content i) (int i * 992) ?data 32
      (int (length (payload content i))) = Some ?blk" by (simp add: mult.commute)
  obtain buf where path: "syner_path save MULTICAST_TYPE_AGPS (hex_text dev @ [0]) = Some buf"
    and name: "cstr buf 0 = Some (agps_path save (hex_text dev))"
    using syner_path_agps [OF assms(1)] by blast
  have "int i * 992 + int (length (payload content i)) = int (length content)"
    using pl(2) by (metis mult.commute of_nat_add of_nat_mult of_nat_numeral)
  then have "write_dat buf ?blk (int i * 992 + int (length (payload content i))) w =
      Some (int (length content), w\<lparr>files := (files w)(agps_path save (hex_text dev) \<mapsto> content)\<rparr>)"
    using name assms(6) by (simp add: write_dat_def fetch_def)
  then show ?thesis
    using last store path facts(6,7) recv_hex [OF facts(4,6)]
    by (simp add: syner_accept_def del: MULTICAST_TYPE_AGPS_def) 
qed

lemma syner_run_append:
  "syner_run save st (rs @ rs') w = do { (st', w') \<leftarrow> syner_run save st rs w; syner_run save st' rs' w' }"
  by (induction rs arbitrary: st w) (auto split: bind_splits)

lemma syner_run_middle:
  assumes "length dev = 8" and "n_packets (length content) \<le> 32" and "k < n_packets (length content)"
    and "syner_wf st"
  shows "\<exists>d. syner_run save st (map (\<lambda>i. Some (flagged f (packet dev content i))) [0..<k]) w =
      Some (\<lparr>u8DevId = d, u8SynerBlockData = received (u8SynerBlockData st) content k\<rparr>, w)
      \<and> length d = 8 \<and> (0 < k \<longrightarrow> d = dev)"
  using assms(3)
proof (induction k)
  case 0
  then show ?case using assms(4) by (cases st) (auto simp: received_def syner_wf_def)
next
  case (Suc k)
  then obtain d where run: "syner_run save st (map (\<lambda>i. Some (flagged f (packet dev content i))) [0..<k]) w =
      Some (\<lparr>u8DevId = d, u8SynerBlockData = received (u8SynerBlockData st) content k\<rparr>, w)"
    and d: "length d = 8" "0 < k \<longrightarrow> d = dev" by auto
  let ?st = "\<lparr>u8DevId = d, u8SynerBlockData = received (u8SynerBlockData st) content k\<rparr>"
  have lb: "length (u8SynerBlockData st) = 32768" using assms(4) by (simp add: syner_wf_def)
  have "992 * k \<le> length content" using payload_middle(3) [OF Suc.prems] by simp
  then have "syner_wf ?st" using d lb Suc.prems assms(2) by (simp add: syner_wf_def received_def)
  moreover have "k < n_packets (length content)" using Suc.prems by simp
  ultimately have "ApolloSyner_step save ?st (Some (flagged f (packet dev content k))) w =
      Some (\<lparr>u8DevId = dev, u8SynerBlockData = received (u8SynerBlockData st) content (Suc k)\<rparr>, w)"
    using syner_step_accept [OF assms(1,2), of k ?st save f w] d
      accept_middle [OF assms(1,2) Suc.prems lb, of save f w] by auto
  then show ?case using run assms(1) by (simp add: syner_run_append)
qed

lemma syner_receives_file:
  assumes "length dev = 8" and "n_packets (length content) \<le> 32" and "content \<noteq> []"
    and "syner_wf st" and "creatable w (agps_path save (hex_text dev))"
  shows "syner_run save st (map Some (map (flagged MULTICAST_TYPE_AGPS) (packets dev content))) w =
    Some (\<lparr>u8DevId = dev, u8SynerBlockData = replicate 32768 0\<rparr>,
      w\<lparr>files := (files w)(agps_path save (hex_text dev) \<mapsto> content)\<rparr>)"
proof -
  let ?n = "n_packets (length content)" and ?f = MULTICAST_TYPE_AGPS
  have "0 < ?n" using assms(3) n_packets_bound [of content] by (cases ?n) auto
  then obtain k where k: "?n = Suc k" by (cases ?n) auto
  then have kn: "k < ?n" by simp
  have lc: "length content \<le> 32768" using n_packets_bound [of content] assms(2) by simp
  have lb: "length (u8SynerBlockData st) = 32768" using assms(4) by (simp add: syner_wf_def)
  obtain d where run: "syner_run save st (map (\<lambda>i. Some (flagged ?f (packet dev content i))) [0..<k]) w =
      Some (\<lparr>u8DevId = d, u8SynerBlockData = received (u8SynerBlockData st) content k\<rparr>, w)"
    and d: "length d = 8" "0 < k \<longrightarrow> d = dev"
    using syner_run_middle [OF assms(1,2) kn assms(4)] by blast
  let ?st = "\<lparr>u8DevId = d, u8SynerBlockData = received (u8SynerBlockData st) content k\<rparr>"
  have "992 * k \<le> length content" using payload_last(2) [of k content] k by simp
  then have "syner_wf ?st" using d lb lc by (simp add: syner_wf_def received_def)
  then have "ApolloSyner_step save ?st (Some (flagged ?f (packet dev content k))) w =
    Some (\<lparr>u8DevId = dev, u8SynerBlockData = replicate 32768 0\<rparr>,
      w\<lparr>files := (files w)(agps_path save (hex_text dev) \<mapsto> content)\<rparr>)"
    using syner_step_accept [OF assms(1,2) kn, of ?st save ?f w] d
      accept_last [OF assms(1,2) k [symmetric] lb lc assms(5)] by auto
  moreover have "map Some (map (flagged ?f) (packets dev content)) =
      map (\<lambda>i. Some (flagged ?f (packet dev content i))) [0..<k] @ [Some (flagged ?f (packet dev content k))]"
    by (simp add: packets_def k o_def)
  ultimately show ?thesis using run by (simp add: syner_run_append)
qed

end
