(* ===== verification/Apollo_Upload.thy ===== *)
theory Apollo_Upload
  imports Apollo_Dispatch
begin

text \<open>
  A device uploads a file as block packets, which TCP hands to the server in fragments. The
  state of the connection between two reads is described by \<open>uploading\<close>: \<open>k\<close> packets are
  stored and \<open>j\<close> bytes of the next one are in the packet buffer. Every fragment keeps this
  invariant; the fragment that completes the last packet writes the file, provided its path
  fits the 32-byte name buffer.
\<close>

section \<open>The state between two fragments\<close>

definition partial_data :: "byte list \<Rightarrow> nat \<Rightarrow> byte list" where
  "partial_data p j = take j p @ replicate (1024 - j) 0"

definition uploading ::
    "byte list \<Rightarrow> byte list \<Rightarrow> byte list \<Rightarrow> nat \<Rightarrow> nat \<Rightarrow> client \<Rightarrow> 32 word \<Rightarrow> bool" where
  "uploading dev content blk k j client bi \<longleftrightarrow>
     output_buffer client \<noteq> None \<and> bi = of_nat j \<and>
     pBlock client = Some \<lparr>bb_buffer = received blk content k,
       bb_packet = partial_data (packet dev content k) j, bb_index = of_nat j\<rparr>"

text \<open>A client as \<open>on_accept\<close> leaves it.\<close>

definition fresh_block :: BlockBuffer where
  "fresh_block = \<lparr>bb_buffer = replicate LEN_BLOCK_BUFFER 0, bb_packet = replicate LEN_BLOCK_PACKET 0, bb_index = 0\<rparr>"

lemma uploading_start:
  assumes "output_buffer client \<noteq> None" and "pBlock client = Some fresh_block"
  shows "uploading dev content (replicate 32768 0) 0 0 client 0"
  using assms by (simp add: uploading_def fresh_block_def received_def partial_data_def)

text \<open>Storing a fragment: \<open>upload_chunk\<close> is one turn of the read loop on given bytes.\<close>

definition upload_chunk ::
    "'w externals \<Rightarrow> byte list \<Rightarrow> client \<Rightarrow> 32 word \<Rightarrow> 'w world \<Rightarrow> (client \<times> 32 word \<times> 'w world) option" where
  "upload_chunk E xs client bi w = do {
     pb \<leftarrow> pBlock client;
     data \<leftarrow> blit (bb_packet pb) (unat bi) xs;
     dispatch E (client\<lparr>pBlock := Some (pb\<lparr>bb_packet := data\<rparr>)\<rparr>) bi (length xs) w }"

primrec upload_chunks ::
    "'w externals \<Rightarrow> byte list list \<Rightarrow> client \<Rightarrow> 32 word \<Rightarrow> 'w world \<Rightarrow> (client \<times> 32 word \<times> 'w world) option" where
  "upload_chunks E [] client bi w = Some (client, bi, w)"
| "upload_chunks E (xs # xss) client bi w = do {
     (client', bi', w') \<leftarrow> upload_chunk E xs client bi w;
     upload_chunks E xss client' bi' w' }"

lemma upload_chunks_append:
  "upload_chunks E (xss @ yss) client bi w = do {
     (c, b, w') \<leftarrow> upload_chunks E xss client bi w; upload_chunks E yss c b w' }"
  by (induction xss arbitrary: client bi w) (auto split: bind_splits)

section \<open>Reading the fields of an incomplete packet\<close>

lemma length_packet: "length dev = 8 \<Longrightarrow> length (packet dev content k) = 32 + length (payload content k)"
  by (simp add: packet_def length_packet_header)

lemma payload_le: "length (payload content k) \<le> 992"
  by (simp add: payload_def)

lemma packet_nth:
  assumes "length dev = 8"
  shows "packet dev content k ! 0 = 0x56" and "packet dev content k ! 13 = of_nat k"
    and "packet dev content k ! 29 = of_nat (n_packets (length content))"
    and "packet dev content k ! 30 = of_nat (length (payload content k) div 256)"
    and "packet dev content k ! 31 = of_nat (length (payload content k) mod 256)"
  using raw_header_nth [OF assms] length_packet_header [OF assms]
  by (simp_all add: packet_def packet_header_def nth_append length_raw_header [OF assms] del: of_nat_mod)

lemma partial_fields:
  assumes "length dev = 8" and "k < 128" and "n_packets (length content) < 128"
    and "q \<le> length (packet dev content k)"
  shows "read_fields (partial_data (packet dev content k) q) =
    Some \<lparr>dataLength = (if 30 < q then int (length (payload content k) div 256) * 256 else 0)
            + (if 31 < q then int (length (payload content k) mod 256) else 0),
          pktIndex = (if 13 < q then int k else 0),
          pktTotal = (if 29 < q then int (n_packets (length content)) else 0)\<rparr>"
proof -
  let ?p = "packet dev content k"
  have q: "q \<le> 1024" using assms(4) length_packet [OF assms(1), of content k] payload_le [of content k] by simp
  have len: "length (partial_data ?p q) = 1024" using assms(4) q by (simp add: partial_data_def)
  have nth: "partial_data ?p q ! i = (if i < q then ?p ! i else 0)" if "i < 1024" for i
    using that assms(4) q by (simp add: partial_data_def nth_append)
  have m: "length (payload content k) div 256 < 128" using payload_le [of content k] by simp
  have "sint (word_of_nat (length (payload content k) div 256) :: byte) = int (length (payload content k) div 256)"
    using m by (rule sint_of_nat_byte)
  moreover have "uint (word_of_nat (length (payload content k) mod 256) :: byte) = int (length (payload content k) mod 256)"
    by (rule uint_of_nat_byte) simp
  ultimately show ?thesis
    using assms(2,3) len
    by (simp add: read_fields_def nth packet_nth [OF assms(1)] sint_of_nat_byte del: of_nat_mod of_nat_div)
qed

lemma blit_partial:
  assumes "take (length xs) (drop j p) = xs" and "j + length xs \<le> length p" and "length p \<le> 1024"
  shows "blit (partial_data p j) j xs = Some (partial_data p (j + length xs))"
proof -
  have "take j p @ xs = take (j + length xs) p"
    using assms(1) by (metis take_add)
  moreover have "drop (j + length xs) (partial_data p j) = replicate (1024 - (j + length xs)) 0"
    using assms(2,3) by (simp add: partial_data_def)
  ultimately show ?thesis
    using assms(2,3) by (simp add: blit_def partial_data_def)
qed

section \<open>A fragment that does not complete its packet\<close>

lemma header_block:
  assumes "length dev = 8" and "0 < q" and "q \<le> length (packet dev content k)"
  shows "partial_data (packet dev content k) q ! 0 = HDR_BLOCK_DATA_RECV"
    and "length (partial_data (packet dev content k) q) = 1024"
proof -
  have q: "q \<le> 1024" using assms(3) length_packet [OF assms(1), of content k] payload_le [of content k] by simp
  then show "length (partial_data (packet dev content k) q) = 1024" using assms(3) by (simp add: partial_data_def)
  show "partial_data (packet dev content k) q ! 0 = HDR_BLOCK_DATA_RECV"
    using assms(2,3) packet_nth(1) [OF assms(1)] by (simp add: partial_data_def nth_append)
qed

lemma chunk_to_block:
  assumes "length dev = 8" and "uploading dev content blk k j client bi"
    and "xs \<noteq> []" and "take (length xs) (drop j (packet dev content k)) = xs"
    and "j + length xs \<le> length (packet dev content k)"
  shows "upload_chunk E xs client bi w =
    on_block E (client\<lparr>pBlock := Some \<lparr>bb_buffer = received blk content k,
        bb_packet = partial_data (packet dev content k) (j + length xs), bb_index = of_nat j\<rparr>\<rparr>)
      (of_nat j) (length xs) w"
proof -
  let ?p = "packet dev content k"
  have lp: "length ?p \<le> 1024" using length_packet [OF assms(1), of content k] payload_le [of content k] by simp
  have j: "unat (of_nat j :: 32 word) = j" using assms(5) lp by (simp add: unsigned_of_nat take_bit_nat_eq_self)
  have "0 < j + length xs" using assms(3) by simp
  note h = header_block [OF assms(1) this assms(5)]
  show ?thesis
    using assms(2) blit_partial [OF assms(4,5) lp] j h
    by (auto simp: upload_chunk_def uploading_def dispatch_def Let_def)
qed

lemma word32_eq: "a < 2 ^ 32 \<Longrightarrow> b < 2 ^ 32 \<Longrightarrow> (of_nat a :: 32 word) = of_nat b \<longleftrightarrow> a = b"
  by (auto simp: word_unat_eq_iff unsigned_of_nat take_bit_nat_eq_self)

lemma word32_le: "a < 2 ^ 32 \<Longrightarrow> b < 2 ^ 32 \<Longrightarrow> (of_nat a :: 32 word) \<le> of_nat b \<longleftrightarrow> a \<le> b"
  by (simp add: word_le_nat_alt unsigned_of_nat take_bit_nat_eq_self)

lemma chunk_partial:
  assumes "length dev = 8" and "n_packets (length content) \<le> 32" and "k < n_packets (length content)"
    and "uploading dev content blk k j client bi"
    and "xs \<noteq> []" and "take (length xs) (drop j (packet dev content k)) = xs"
    and "j + length xs < length (packet dev content k)"
  shows "\<exists>c. upload_chunk E xs client bi w = Some (c, of_nat (j + length xs), w)
    \<and> uploading dev content blk k (j + length xs) c (of_nat (j + length xs))
    \<and> fd c = fd client"
proof -
  let ?p = "packet dev content k" and ?q = "j + length xs"
  let ?T = "n_packets (length content)" and ?m = "length (payload content k)"
  have lp: "length ?p = 32 + ?m" by (rule length_packet [OF assms(1)])
  have m: "?m \<le> 992" by (rule payload_le)
  have q: "?q < 1024" using assms(7) lp m by simp
  have le: "?q \<le> length ?p" using assms(7) by simp
  let ?pb = "\<lparr>bb_buffer = received blk content k, bb_packet = partial_data ?p ?q, bb_index = of_nat j\<rparr>"
  have bi: "(of_nat j + of_nat (length xs) :: 32 word) = of_nat ?q" by simp
  have no: "(of_nat ?q :: 32 word) \<noteq> of_nat 1024" using q by (subst word32_eq) auto
  define f where "f = \<lparr>dataLength = (if 30 < ?q then int (?m div 256) * 256 else 0)
      + (if 31 < ?q then int (?m mod 256) else 0),
    pktIndex = (if 13 < ?q then int k else 0), pktTotal = (if 29 < ?q then int ?T else 0)\<rparr>"
  have f: "read_fields (partial_data ?p ?q) = Some f"
    unfolding f_def using assms(2,3) by (intro partial_fields assms(1) le) auto
  have mm: "int (?m div 256) * 256 + int (?m mod 256) = int ?m"
    by (metis div_mult_mod_eq of_nat_add of_nat_mult of_nat_numeral)
  have m0: "0 \<le> int (?m div 256) * 256" "0 \<le> int (?m mod 256)" by simp_all
  have nd: "0 \<le> dataLength f" and big: "dataLength f < 1024"
    using m0 mm m by (simp_all add: f_def del: of_nat_mod of_nat_div)
  have last: "int ?q < dataLength f + 32" if "pktIndex f + 1 = pktTotal f"
  proof -
    have "29 < ?q" using that by (auto simp: f_def split: if_splits)
    then show ?thesis
      using mm m0 assms(7) lp by (cases "31 < ?q") (auto simp: f_def simp del: of_nat_mod of_nat_div)
  qed
  have wl: "word_of_int (dataLength f + 32) = (of_nat (nat (dataLength f + 32)) :: 32 word)"
  proof -
    have "dataLength f + 32 = int (nat (dataLength f + 32))" using nd by simp
    then show ?thesis by (metis of_int_of_nat_eq)
  qed
  have "\<not> (word_of_int (dataLength f + 32) :: 32 word) \<le> of_nat ?q" if "pktIndex f + 1 = pktTotal f"
    unfolding wl using last [OF that] nd big q by (subst word32_le) auto
  moreover have "block_progress ?pb (of_nat j) f (length xs) =
      Some (?pb\<lparr>bb_index := of_nat ?q\<rparr>, of_nat ?q)"
    unfolding block_progress_def bi using no by simp
  ultimately have "upload_chunk E xs client bi w =
      Some (client\<lparr>pBlock := Some (?pb\<lparr>bb_index := of_nat ?q\<rparr>)\<rparr>, of_nat ?q, w)"
    unfolding chunk_to_block [OF assms(1,4-6) le] on_block_def
    using f by (auto simp del: of_nat_add)
  then show ?thesis using assms(4) by (simp add: uploading_def)
qed

section \<open>A fragment that completes its packet\<close>

lemma full_fields:
  assumes "length dev = 8" and "n_packets (length content) \<le> 32" and "k < n_packets (length content)"
  shows "read_fields (partial_data (packet dev content k) (length (packet dev content k))) =
    Some \<lparr>dataLength = int (length (payload content k)), pktIndex = int k,
          pktTotal = int (n_packets (length content))\<rparr>"
proof -
  have "int (length (payload content k) div 256) * 256 + int (length (payload content k) mod 256) =
      int (length (payload content k))"
    by (metis div_mult_mod_eq of_nat_add of_nat_mult of_nat_numeral)
  then show ?thesis
    using partial_fields [OF assms(1), of k content "length (packet dev content k)"] assms(2,3)
    by (simp add: length_packet [OF assms(1)] del: of_nat_mod of_nat_div)
qed

lemma full_payload:
  assumes "length dev = 8"
  shows "take (length (payload content k)) (drop 32 (partial_data (packet dev content k) (length (packet dev content k))))
    = payload content k"
  using length_packet_header [OF assms]
  by (simp add: partial_data_def length_packet [OF assms]) (simp add: packet_def)

lemma store_full:
  assumes "length dev = 8" and "length blk = 32768" and "length content \<le> 32768"
    and "992 * k + length (payload content k) \<le> length content"
  shows "store_block (received blk content k) (int k * 992)
      (partial_data (packet dev content k) (length (packet dev content k))) 32 (int (length (payload content k)))
    = Some (take (992 * k) content @ payload content k @ drop (992 * k + length (payload content k)) blk)"
proof -
  have "length (partial_data (packet dev content k) (length (packet dev content k))) = 1024"
    using length_packet [OF assms(1), of content k] payload_le [of content k] by (simp add: partial_data_def)
  moreover have "length (received blk content k) = 32768"
    using assms(2-4) by (simp add: received_def)
  ultimately have "store_block (received blk content k) (int (992 * k))
      (partial_data (packet dev content k) (length (packet dev content k))) 32 (int (length (payload content k)))
      = blit (received blk content k) (992 * k) (payload content k)"
    using assms(2-4) payload_le [of content k] by (intro store_payload full_payload assms(1)) auto
  also have "\<dots> = Some (take (992 * k) content @ payload content k @ drop (992 * k + length (payload content k)) blk)"
    using assms(2-4) by (intro blit_received) auto
  finally show ?thesis by (simp add: mult.commute)
qed

lemma chunk_middle:
  assumes "length dev = 8" and "n_packets (length content) \<le> 32" and "Suc k < n_packets (length content)"
    and "uploading dev content blk k j client bi" and "length blk = 32768"
    and "xs \<noteq> []" and "take (length xs) (drop j (packet dev content k)) = xs"
    and "j + length xs = length (packet dev content k)"
  shows "\<exists>c. upload_chunk E xs client bi w = Some (c, 0, w) \<and> uploading dev content blk (Suc k) 0 c 0
    \<and> fd c = fd client"
proof -
  let ?p = "packet dev content k"
  have k: "k < n_packets (length content)" using assms(3) by simp
  note mid = payload_middle [OF assms(3)]
  have lp: "length ?p = 1024" using length_packet [OF assms(1)] mid(1) by simp
  have lc: "length content \<le> 32768" using n_packets_bound [of content] assms(2) by simp
  have "take (992 * k) content @ payload content k @ drop (992 * k + length (payload content k)) blk =
      received blk content (Suc k)"
    using mid by (simp add: received_def add.commute flip: append_assoc)
  then have st: "store_block (received blk content k) (int k * 992) (partial_data ?p 1024) 32 992 =
      Some (received blk content (Suc k))"
    using store_full [OF assms(1,5) lc, of k] mid lp by simp
  have f: "read_fields (partial_data ?p 1024) = Some \<lparr>dataLength = 992, pktIndex = int k,
      pktTotal = int (n_packets (length content))\<rparr>"
    using full_fields [OF assms(1,2) k] lp mid(1) by simp
  have bi: "(of_nat j + of_nat (length xs) :: 32 word) = 1024"
    using assms(8) lp by (metis of_nat_add of_nat_numeral)
  have z: "fill (partial_data ?p 1024) 0 1024 0 = Some (partial_data (packet dev content (Suc k)) 0)"
    using lp by (simp add: fill_def blit_def partial_data_def)
  have ne: "int k + 1 \<noteq> int (n_packets (length content))" using assms(3) by simp
  have "upload_chunk E xs client bi w = Some (client\<lparr>pBlock := Some \<lparr>bb_buffer = received blk content (Suc k),
      bb_packet = partial_data (packet dev content (Suc k)) 0, bb_index = 0\<rparr>\<rparr>, 0, w)"
    unfolding chunk_to_block [OF assms(1,4,6,7) eq_refl [OF assms(8)]] assms(8) lp
    using ne by (simp add: on_block_def f block_progress_def bi block_store_packet_def st z)
  then show ?thesis using assms(4) by (simp add: uploading_def)
qed

definition upload_answer ::
    "'w externals \<Rightarrow> byte list \<Rightarrow> byte list \<Rightarrow> byte list \<Rightarrow> client \<Rightarrow> 'w world \<Rightarrow> (client \<times> 'w world)" where
  "upload_answer E dev content blk client w =
     (case flush_output E (client\<lparr>pBlock := Some \<lparr>bb_buffer = content @ drop (length content) blk,
          bb_packet = partial_data (packet dev content (n_packets (length content) - 1))
            (32 + length (payload content (n_packets (length content) - 1))),
          bb_index = of_nat (32 + length (payload content (n_packets (length content) - 1)))\<rparr>\<rparr>)
        (w\<lparr>files := (files w)(block_path (save_type E) (hex_text dev) \<mapsto> content),
           ext := evbuffer_add E (bytes ''SETOK%'') (ext w)\<rparr>) of
      (c, w2) \<Rightarrow> (c, pthread_create
        (Start_ApolloSynerAction \<lparr>syn_DeviceId = hex_text dev @ [0, 0], syn_flag = MULTICAST_TYPE_AGPS\<rparr>) w2))"

lemma last_ready:
  assumes "length dev = 8" and "n_packets (length content) \<le> 32" and last: "Suc k = n_packets (length content)"
    and "uploading dev content blk k j client bi" and "length blk = 32768"
    and "xs \<noteq> []" and "take (length xs) (drop j (packet dev content k)) = xs"
    and "j + length xs = length (packet dev content k)"
    and pb: "pb = \<lparr>bb_buffer = content @ drop (length content) blk,
      bb_packet = partial_data (packet dev content k) (32 + length (payload content k)),
      bb_index = of_nat (32 + length (payload content k))\<rparr>"
    and f: "f = \<lparr>dataLength = int (length (payload content k)), pktIndex = int k,
      pktTotal = int (n_packets (length content))\<rparr>"
  shows "upload_chunk E xs client bi w = do {
      (u8DeviceId, w1) \<leftarrow> block_save (save_type E) (replicate 17 0) (replicate 32 0) pb f (bb_packet pb) w;
      (client1, w2) \<leftarrow> apolloReturnPacket E (client\<lparr>pBlock := Some pb\<rparr>) (bytes ''SETOK%'') 6 w1;
      pSynPacket \<leftarrow> syn_packet u8DeviceId;
      Some (client1, of_nat (32 + length (payload content k)),
        pthread_create (Start_ApolloSynerAction pSynPacket) w2) }"
proof -
  let ?p = "packet dev content k" and ?m = "length (payload content k)"
  have k: "k < n_packets (length content)" using last by simp
  note pl = payload_last [OF last]
  have m: "?m \<le> 992" by (rule payload_le)
  have lp: "length ?p = 32 + ?m" by (rule length_packet [OF assms(1)])
  have lc: "length content \<le> 32768" using n_packets_bound [of content] assms(2) by simp
  have st: "store_block (received blk content k) (int k * 992) (partial_data ?p (32 + ?m)) 32 (int ?m) =
      Some (content @ drop (length content) blk)"
    using store_full [OF assms(1,5) lc, of k] pl lp by (simp flip: append_assoc)
  have fld: "read_fields (partial_data ?p (32 + ?m)) = Some f"
    using full_fields [OF assms(1,2) k] lp f by simp
  have bi: "(of_nat j + of_nat (length xs) :: 32 word) = of_nat (32 + ?m)"
    using assms(8) lp by (metis of_nat_add)
  have eq: "int k + 1 = int (n_packets (length content))" using last by simp
  have wl: "(word_of_nat ?m + 32 :: 32 word) = of_nat (32 + ?m)" by simp
  show ?thesis
    unfolding chunk_to_block [OF assms(1,4,6,7) eq_refl [OF assms(8)]] assms(8) lp
    using eq by (simp add: on_block_def fld f block_progress_def bi block_store_packet_def wl st pb
        del: of_nat_add)
qed

lemma chunk_last:
  assumes "length dev = 8" and "n_packets (length content) \<le> 32" and last: "Suc k = n_packets (length content)"
    and "uploading dev content blk k j client bi" and "length blk = 32768"
    and "xs \<noteq> []" and "take (length xs) (drop j (packet dev content k)) = xs"
    and "j + length xs = length (packet dev content k)"
    and "save_type E = DISK_FILE_SAVE" and "creatable w (block_path DISK_FILE_SAVE (hex_text dev))"
  shows "\<exists>c w'. upload_chunk E xs client bi w = Some (c, of_nat (32 + length (payload content k)), w')
    \<and> (c, w') = upload_answer E dev content blk client w"
proof -
  let ?m = "length (payload content k)"
  define pb where pb: "pb = \<lparr>bb_buffer = content @ drop (length content) blk,
      bb_packet = partial_data (packet dev content k) (32 + length (payload content k)),
      bb_index = of_nat (32 + length (payload content k))\<rparr>"
  define f where f: "f = \<lparr>dataLength = int (length (payload content k)), pktIndex = int k,
      pktTotal = int (n_packets (length content))\<rparr>"
  have lp: "length (packet dev content k) = 32 + ?m" by (rule length_packet [OF assms(1)])
  have hdr: "take 8 (drop 1 (partial_data (packet dev content k) (32 + ?m))) = dev"
    and lpd: "9 \<le> length (partial_data (packet dev content k) (32 + ?m))"
    using lp assms(1) by (simp_all add: partial_data_def packet_def packet_header_def raw_header_def)
  then have hx: "hextostring (replicate 17 0) 0 (partial_data (packet dev content k) (32 + ?m)) (Suc 0) 8 =
      Some (hex_text dev @ [0])"
    using hextostring_into_zeros [of 1 8 "partial_data (packet dev content k) (32 + ?m)" 17] by simp
  have "length (block_path DISK_FILE_SAVE (hex_text dev)) < 32"
    using assms(1) by (simp add: block_path_def)
  then obtain nb where nb: "sprintf_at (replicate 32 0) 0 (block_path DISK_FILE_SAVE (hex_text dev)) = Some nb"
      "cstr nb 0 = Some (block_path DISK_FILE_SAVE (hex_text dev))"
    using sprintf_ok [of "block_path DISK_FILE_SAVE (hex_text dev)" 0 "replicate 32 0"]
    by (auto simp: block_path_no_nul)
  have name: "cstr (hex_text dev @ [0]) 0 = Some (hex_text dev)"
    using cstr_hex_buffer [OF assms(1), of 1] by simp
  have tot: "int k * 992 + int ?m = int (length content)"
    using payload_last(2) [OF last] by (metis mult.commute of_nat_add of_nat_mult of_nat_numeral)
  have save: "block_save (save_type E) (replicate 17 0) (replicate 32 0) pb f (bb_packet pb) w =
      Some (hex_text dev @ [0], w\<lparr>files := (files w)(block_path DISK_FILE_SAVE (hex_text dev) \<mapsto> content)\<rparr>)"
    using assms(9,10) nb
    by (simp add: block_save_def pb f hx genBlockFilePathName_def name tot write_dat_def fetch_def)
  have syn: "syn_packet (hex_text dev @ [0]) = Some \<lparr>syn_DeviceId = hex_text dev @ [0, 0], syn_flag = MULTICAST_TYPE_AGPS\<rparr>"
    using assms(1) by (simp add: syn_packet_def fetch_def blit_def list_update_append numeral_2_eq_2)
  obtain out where "output_buffer client = Some out" using assms(4) by (auto simp: uploading_def)
  then show ?thesis
    unfolding last_ready [OF assms(1-8) pb f] save
    using assms(9) by (simp add: apolloReturnPacket_def queue_output_def fetch_def syn upload_answer_def
        pb flip: last split: prod.splits)
qed

lemma upload_answer_world:
  assumes "(c, w') = upload_answer E dev content blk client w"
  shows "files w' = (files w)(block_path (save_type E) (hex_text dev) \<mapsto> content)"
    and "started w' = started w @
      [Start_ApolloSynerAction \<lparr>syn_DeviceId = hex_text dev @ [0, 0], syn_flag = MULTICAST_TYPE_AGPS\<rparr>]"
    and "output_buffer c = output_buffer client"
proof -
  obtain c2 w2 where fl: "flush_output E (client\<lparr>pBlock := Some \<lparr>bb_buffer = content @ drop (length content) blk,
          bb_packet = partial_data (packet dev content (n_packets (length content) - 1))
            (32 + length (payload content (n_packets (length content) - 1))),
          bb_index = of_nat (32 + length (payload content (n_packets (length content) - 1)))\<rparr>\<rparr>)
        (w\<lparr>files := (files w)(block_path (save_type E) (hex_text dev) \<mapsto> content),
           ext := evbuffer_add E (bytes ''SETOK%'') (ext w)\<rparr>) = (c2, w2)" by fastforce
  then have w': "w' = pthread_create (Start_ApolloSynerAction
      \<lparr>syn_DeviceId = hex_text dev @ [0, 0], syn_flag = MULTICAST_TYPE_AGPS\<rparr>) w2" and "c = c2"
    using assms unfolding upload_answer_def by simp_all
  show "files w' = (files w)(block_path (save_type E) (hex_text dev) \<mapsto> content)"
    and "started w' = started w @
      [Start_ApolloSynerAction \<lparr>syn_DeviceId = hex_text dev @ [0, 0], syn_flag = MULTICAST_TYPE_AGPS\<rparr>]"
    and "output_buffer c = output_buffer client"
    using flush_output_fields [OF fl] \<open>c = c2\<close> by (simp_all add: w' pthread_create_def)
qed

text \<open>
  With the directory the repository commits the path has 40 characters, the name buffer 32
  bytes: the last fragment of every upload runs over it.
\<close>

lemma chunk_last_overflow:
  assumes "length dev = 8" and "n_packets (length content) \<le> 32" and last: "Suc k = n_packets (length content)"
    and "uploading dev content blk k j client bi" and "length blk = 32768"
    and "xs \<noteq> []" and "take (length xs) (drop j (packet dev content k)) = xs"
    and "j + length xs = length (packet dev content k)"
    and "save_type E = DISTRBUTE_SAVE"
  shows "upload_chunk E xs client bi w = None"
proof -
  have lp: "length (packet dev content k) = 32 + length (payload content k)" by (rule length_packet [OF assms(1)])
  have hdr: "take 8 (drop 1 (partial_data (packet dev content k) (32 + length (payload content k)))) = dev"
    using lp assms(1) by (simp_all add: partial_data_def packet_def packet_header_def raw_header_def)
  then have hx: "hextostring (replicate 17 0) 0 (partial_data (packet dev content k) (32 + length (payload content k))) (Suc 0) 8 =
      Some (hex_text dev @ [0])"
    using hextostring_into_zeros [of 1 8 "partial_data (packet dev content k) (32 + length (payload content k))" 17] lp
    by (simp add: partial_data_def)
  have "cstr (hex_text dev @ [0]) 0 = Some (hex_text dev)"
    using cstr_hex_buffer [OF assms(1), of 1] by simp
  moreover have "sprintf_at (replicate 32 0) 0 (block_path DISTRBUTE_SAVE (hex_text dev)) = None"
    using assms(1) by (intro sprintf_overflow) (simp add: block_path_def)
  ultimately show ?thesis
    unfolding last_ready [OF assms(1-8) refl refl]
    using assms(9) by (simp add: block_save_def hx genBlockFilePathName_def)
qed

section \<open>A whole upload\<close>

lemma chunks_within:
  assumes "length dev = 8" and "n_packets (length content) \<le> 32" and "k < n_packets (length content)"
    and "uploading dev content blk k j client bi" and "[] \<notin> set xss"
    and "take (length (concat xss)) (drop j (packet dev content k)) = concat xss"
    and "j + length (concat xss) < length (packet dev content k)"
  shows "\<exists>c. upload_chunks E xss client bi w = Some (c, of_nat (j + length (concat xss)), w)
    \<and> uploading dev content blk k (j + length (concat xss)) c (of_nat (j + length (concat xss)))
    \<and> fd c = fd client"
  using assms(4-7)
proof (induction xss arbitrary: j client bi)
  case Nil
  then show ?case by (auto simp: uploading_def)
next
  case (Cons xs xss)
  let ?p = "packet dev content k"
  have xs: "take (length xs) (drop j ?p) = xs"
    using arg_cong [OF Cons.prems(3), of "take (length xs)"] by (simp add: min_def)
  have rest: "take (length (concat xss)) (drop (j + length xs) ?p) = concat xss"
    using arg_cong [OF Cons.prems(3), of "drop (length xs)"]
    by (simp add: drop_take add.commute)
  have le: "j + length xs < length ?p" using Cons.prems(4) by simp
  obtain c where c: "upload_chunk E xs client bi w = Some (c, of_nat (j + length xs), w)"
      "uploading dev content blk k (j + length xs) c (of_nat (j + length xs))" "fd c = fd client"
    using chunk_partial [OF assms(1-3) Cons.prems(1) _ xs le, of E w] Cons.prems(2) by auto
  obtain c' where "upload_chunks E xss c (of_nat (j + length xs)) w =
        Some (c', of_nat (j + length xs + length (concat xss)), w)"
      "uploading dev content blk k (j + length xs + length (concat xss)) c'
        (of_nat (j + length xs + length (concat xss)))" "fd c' = fd c"
    using Cons.IH [OF c(2) _ rest] Cons.prems(2,4) by (auto simp del: of_nat_add)
  with c show ?case by (auto simp: add.assoc simp del: of_nat_add)
qed

text \<open>The fragments of one packet; the last of them is handled by itself.\<close>

lemma split_last:
  assumes "concat xss = p" and "[] \<notin> set xss" and "p \<noteq> []"
  obtains yss ys where "xss = yss @ [ys]" and "ys \<noteq> []" and "[] \<notin> set yss"
    and "take (length (concat yss)) p = concat yss" and "length (concat yss) < length p"
    and "take (length ys) (drop (length (concat yss)) p) = ys"
    and "length (concat yss) + length ys = length p"
proof -
  have "xss \<noteq> []" using assms(1,3) by auto
  then obtain yss ys where x: "xss = yss @ [ys]" using rev_exhaust by blast
  moreover have "ys \<noteq> []" using assms(2) x by auto
  moreover have "p = concat yss @ ys" using assms(1) x by simp
  ultimately show ?thesis using assms(2) by (intro that [of yss ys]) auto
qed

lemma packet_middle:
  assumes "length dev = 8" and "n_packets (length content) \<le> 32" and "Suc k < n_packets (length content)"
    and "uploading dev content blk k 0 client 0" and "length blk = 32768"
    and "concat xss = packet dev content k" and "[] \<notin> set xss"
  shows "\<exists>c. upload_chunks E xss client 0 w = Some (c, 0, w) \<and> uploading dev content blk (Suc k) 0 c 0
    \<and> fd c = fd client"
proof -
  have k: "k < n_packets (length content)" using assms(3) by simp
  have "packet dev content k \<noteq> []" using length_packet [OF assms(1), of content k] by auto
  from split_last [OF assms(6,7) this] obtain yss ys where s: "xss = yss @ [ys]" "ys \<noteq> []" "[] \<notin> set yss"
    "take (length (concat yss)) (packet dev content k) = concat yss"
    "length (concat yss) < length (packet dev content k)"
    "take (length ys) (drop (length (concat yss)) (packet dev content k)) = ys"
    "length (concat yss) + length ys = length (packet dev content k)" .
  obtain c where c: "upload_chunks E yss client 0 w = Some (c, of_nat (length (concat yss)), w)"
      "uploading dev content blk k (length (concat yss)) c (of_nat (length (concat yss)))" "fd c = fd client"
    using chunks_within [OF assms(1,2) k assms(4) s(3), of E w] s(4,5) by auto
  show ?thesis
    using chunk_middle [OF assms(1-3) c(2) assms(5) s(2,6,7), of E w] c
    by (auto simp: s(1) upload_chunks_append)
qed

text \<open>
  What the reads of the loop take in of the packets of a file, grouped by packet: a read ends at
  the end of a packet at the latest (\<open>Robot_Transfers\<close> shows it for every arrival of the stream).
\<close>

definition fragments :: "byte list list list \<Rightarrow> byte list list \<Rightarrow> bool" where
  "fragments frs ps \<longleftrightarrow> map concat frs = ps \<and> (\<forall>xss \<in> set frs. [] \<notin> set xss)"

lemma upload_prefix:
  assumes "length dev = 8" and "n_packets (length content) \<le> 32" and "k < n_packets (length content)"
    and "uploading dev content blk 0 0 client 0" and "length blk = 32768"
    and "fragments frs (map (packet dev content) [0..<k])"
  shows "\<exists>c. upload_chunks E (concat frs) client 0 w = Some (c, 0, w)
    \<and> uploading dev content blk k 0 c 0 \<and> fd c = fd client"
  using assms(3,6)
proof (induction k arbitrary: frs)
  case 0
  then show ?case using assms(4) by (simp add: fragments_def)
next
  case (Suc k)
  obtain gs xss where frs: "frs = gs @ [xss]" "map concat gs = map (packet dev content) [0..<k]"
      "concat xss = packet dev content k"
    using Suc.prems(2) by (cases frs rule: rev_cases) (auto simp: fragments_def)
  have "fragments gs (map (packet dev content) [0..<k])" "[] \<notin> set xss"
    using Suc.prems(2) frs by (auto simp: fragments_def)
  then obtain c where c: "upload_chunks E (concat gs) client 0 w = Some (c, 0, w)"
      "uploading dev content blk k 0 c 0" "fd c = fd client"
    using Suc.IH [of gs] Suc.prems(1) by auto
  show ?case
    using packet_middle [OF assms(1,2) Suc.prems(1) c(2) assms(5) frs(3) \<open>[] \<notin> set xss\<close>, of E w] c
    by (auto simp: frs(1) upload_chunks_append)
qed

lemma upload_overflows:
  assumes "length dev = 8" and "n_packets (length content) \<le> 32" and "content \<noteq> []"
    and "output_buffer client \<noteq> None" and "pBlock client = Some fresh_block"
    and "fragments frs (packets dev content)" and "save_type E = DISTRBUTE_SAVE"
  shows "upload_chunks E (concat frs) client 0 w = None"
proof -
  let ?n = "n_packets (length content)"
  have "0 < ?n" using assms(3) n_packets_bound [of content] by (cases ?n) auto
  then obtain k where k: "?n = Suc k" by (cases ?n) auto
  obtain gs xss where frs: "frs = gs @ [xss]" "map concat gs = map (packet dev content) [0..<k]"
      "concat xss = packet dev content k"
    using assms(6) k by (cases frs rule: rev_cases) (auto simp: fragments_def packets_def)
  have fr: "fragments gs (map (packet dev content) [0..<k])" and ne: "[] \<notin> set xss"
    using assms(6) frs by (auto simp: fragments_def)
  have kn: "k < ?n" using k by simp
  obtain c where c: "upload_chunks E (concat gs) client 0 w = Some (c, 0, w)"
      "uploading dev content (replicate 32768 0) k 0 c 0"
    using upload_prefix [OF assms(1,2) kn uploading_start [OF assms(4,5)] _ fr, of E w] by auto
  have "packet dev content k \<noteq> []" using length_packet [OF assms(1), of content k] by auto
  from split_last [OF frs(3) ne this] obtain yss ys where s: "xss = yss @ [ys]" "ys \<noteq> []" "[] \<notin> set yss"
    "take (length (concat yss)) (packet dev content k) = concat yss"
    "length (concat yss) < length (packet dev content k)"
    "take (length ys) (drop (length (concat yss)) (packet dev content k)) = ys"
    "length (concat yss) + length ys = length (packet dev content k)" .
  obtain c2 where c2: "upload_chunks E yss c 0 w = Some (c2, of_nat (length (concat yss)), w)"
      "uploading dev content (replicate 32768 0) k (length (concat yss)) c2 (of_nat (length (concat yss)))"
    using chunks_within [OF assms(1,2) kn c(2) s(3), of E w] s(4,5) by auto
  have "upload_chunk E ys c2 (of_nat (length (concat yss))) w = None"
    using chunk_last_overflow [OF assms(1,2) k [symmetric] c2(2) _ s(2,6,7) assms(7)] by simp
  then show ?thesis using c c2 by (simp add: frs(1) s(1) upload_chunks_append)
qed

section \<open>The read loop on a fragment\<close>

text \<open>
  What libevent promises of the input of a connection: \<open>evbuffer_remove\<close> takes from its front,
  and writing does not touch it.
\<close>

locale connection_input =
  fixes E :: "'w externals" and inp :: "'w \<Rightarrow> byte list"
  assumes input_remove: "evbuffer_remove E n e = (xs, e') \<Longrightarrow> xs = take n (inp e) \<and> inp e' = drop n (inp e)"
    and input_add: "inp (evbuffer_add E xs e) = inp e"
    and input_write: "bufferevent_write_buffer E e = (b, e') \<Longrightarrow> inp e' = inp e"
begin

lemma read_chunk_eq:
  assumes "pBlock client = Some pb" and "length (bb_packet pb) = 1024" and "unat bi \<le> 1024"
  shows "\<exists>e'. read_chunk E client bi w =
      (let xs = take (1024 - unat bi) (inp (ext w)) in
       Some (client\<lparr>pBlock := Some (pb\<lparr>bb_packet := take (unat bi) (bb_packet pb) @ xs
           @ drop (unat bi + length xs) (bb_packet pb)\<rparr>)\<rparr>, length xs, w\<lparr>ext := e'\<rparr>))
    \<and> inp e' = drop (1024 - unat bi) (inp (ext w))"
proof -
  obtain xs e' where e': "evbuffer_remove E (1024 - unat bi) (ext w) = (xs, e')" by fastforce
  from input_remove [OF e'] have "xs = take (1024 - unat bi) (inp (ext w))"
    and "inp e' = drop (1024 - unat bi) (inp (ext w))" by auto
  with e' show ?thesis
    using assms by (intro exI [of _ e']) (simp add: read_chunk_def with_ext_def blit_def Let_def)
qed

lemma read_nothing:
  assumes "pBlock client = Some pb" and "length (bb_packet pb) = 1024" and "unat bi \<le> 1024"
    and "inp (ext w) = [] \<or> unat bi = 1024"
  shows "\<exists>e'. parse_loop E client bi w = Some (client, w\<lparr>ext := e'\<rparr>) \<and> inp e' = inp (ext w)"
proof -
  have "take (1024 - unat bi) (inp (ext w)) = []" using assms(4) by auto
  moreover have "client\<lparr>pBlock := Some pb\<rparr> = client" using assms(1) by simp
  ultimately obtain e' where "read_chunk E client bi w = Some (client, 0, w\<lparr>ext := e'\<rparr>)"
    and "inp e' = drop (1024 - unat bi) (inp (ext w))"
    using read_chunk_eq [OF assms(1-3), of w] by (auto simp: Let_def)
  then show ?thesis
    using assms(4) by (intro exI [of _ e']) (subst parse_loop.simps, auto)
qed

text \<open>A full packet buffer wedges the connection: the callback consumes nothing any more.\<close>

lemma parse_wedged:
  assumes "pBlock client = Some pb" and "length (bb_packet pb) = 1024" and "bb_index pb = 1024"
  shows "\<exists>e'. apolloParsePacket E client w = Some (client, w\<lparr>ext := e'\<rparr>) \<and> inp e' = inp (ext w)"
  using read_nothing [OF assms(1,2), of 1024 w] assms by (simp add: apolloParsePacket_def)

end

interpretation ref_input: connection_input "ref_externals st" ref_input
  by unfold_locales (auto simp: ref_externals_def)

end
