(* ===== verification/Work_Queue.thy ===== *)
theory Work_Queue
  imports Robot_Prelude "HOL-Library.Multiset"
begin

text \<open>
  The thread pool of \<open>workqueue.c\<close>. The first part is its doubly linked list on a heap: the two
  macros, the path a list pointer describes, and the stack it implements (jobs are taken in
  the opposite order of their arrival). The second part is the protocol of the worker
  threads, producers and the shutdown as a step relation whose steps are the accesses
  between two points where threads can interleave.
\<close>

section \<open>The linked list\<close>

record 'd node =
  ll_prev :: "nat option"
  ll_next :: "nat option"
  ll_data :: 'd

type_synonym 'd heap = "nat \<rightharpoonup> 'd node"

definition LL_ADD :: "nat \<Rightarrow> 'd heap \<Rightarrow> nat option \<Rightarrow> ('d heap \<times> nat option) option" where
  "LL_ADD item h list = do {
     n \<leftarrow> h item;
     Some (h(item \<mapsto> n\<lparr>ll_prev := None, ll_next := list\<rparr>), Some item) }"

definition set_next :: "'d heap \<Rightarrow> nat option \<Rightarrow> nat option \<Rightarrow> 'd heap option" where
  "set_next h p v = (case p of None \<Rightarrow> Some h
     | Some a \<Rightarrow> do { n \<leftarrow> h a; Some (h(a \<mapsto> n\<lparr>ll_next := v\<rparr>)) })"

definition set_prev :: "'d heap \<Rightarrow> nat option \<Rightarrow> nat option \<Rightarrow> 'd heap option" where
  "set_prev h p v = (case p of None \<Rightarrow> Some h
     | Some a \<Rightarrow> do { n \<leftarrow> h a; Some (h(a \<mapsto> n\<lparr>ll_prev := v\<rparr>)) })"

definition LL_REMOVE :: "nat \<Rightarrow> 'd heap \<Rightarrow> nat option \<Rightarrow> ('d heap \<times> nat option) option" where
  "LL_REMOVE item h list = do {
     n \<leftarrow> h item;
     h1 \<leftarrow> set_next h (ll_prev n) (ll_next n);
     n1 \<leftarrow> h1 item;
     h2 \<leftarrow> set_prev h1 (ll_next n1) (ll_prev n1);
     n2 \<leftarrow> h2 item;
     let list' = (if list = Some item then ll_next n2 else list);
     Some (h2(item \<mapsto> n2\<lparr>ll_prev := None, ll_next := None\<rparr>), list') }"

text \<open>
  The elements reachable from a list pointer. \<open>LL_ADD\<close> never sets the \<open>prev\<close> of the element
  it displaces, so every \<open>prev\<close> in the list stays null.
\<close>

fun path :: "'d heap \<Rightarrow> nat option \<Rightarrow> nat list \<Rightarrow> bool" where
  "path h p [] \<longleftrightarrow> p = None"
| "path h p (a # as) \<longleftrightarrow> p = Some a \<and> (\<exists>n. h a = Some n \<and> ll_prev n = None \<and> path h (ll_next n) as)"

lemma path_frame: "a \<notin> set xs \<Longrightarrow> path (h(a \<mapsto> n)) p xs = path h p xs"
  by (induction xs arbitrary: p) auto

lemma path_prev: "path h p xs \<Longrightarrow> a \<in> set xs \<Longrightarrow> \<exists>n. h a = Some n \<and> ll_prev n = None"
  by (induction xs arbitrary: p) auto

lemma path_unique: "path h p xs \<Longrightarrow> path h p ys \<Longrightarrow> xs = ys"
proof (induction xs arbitrary: p ys)
  case Nil
  then show ?case by (cases ys) auto
next
  case (Cons x xs)
  then show ?case by (cases ys) auto
qed

lemma path_head: "path h p xs \<Longrightarrow> p = (case xs of [] \<Rightarrow> None | a # as \<Rightarrow> Some a)"
  by (cases xs) auto

lemma LL_ADD_path:
  assumes "path h p xs" and "a \<notin> set xs" and "h a = Some n"
  shows "\<exists>h'. LL_ADD a h p = Some (h', Some a) \<and> path h' (Some a) (a # xs)
    \<and> (\<forall>b. b \<noteq> a \<longrightarrow> h' b = h b) \<and> (\<exists>m. h' a = Some m \<and> ll_data m = ll_data n)"
  using assms by (auto simp: LL_ADD_def path_frame)

lemma path_set_prev:
  assumes "path h p xs" and "distinct xs"
  shows "\<exists>h'. set_prev h p None = Some h' \<and> path h' p xs
    \<and> (\<forall>b. b \<notin> set xs \<longrightarrow> h' b = h b) \<and> (\<forall>b. map_option ll_data (h' b) = map_option ll_data (h b))"
proof (cases xs)
  case Nil
  then show ?thesis using assms by (auto simp: set_prev_def)
next
  case (Cons a as)
  then show ?thesis using assms by (auto simp: set_prev_def path_frame)
qed

lemma LL_REMOVE_head:
  assumes "path h p (a # xs)" and "distinct (a # xs)"
  shows "\<exists>h' q. LL_REMOVE a h p = Some (h', q) \<and> path h' q xs
    \<and> (\<forall>b. b \<notin> set (a # xs) \<longrightarrow> h' b = h b) \<and> (\<forall>b. map_option ll_data (h' b) = map_option ll_data (h b))"
proof -
  obtain n where p: "p = Some a" and n: "h a = Some n" "ll_prev n = None" "path h (ll_next n) xs"
    using assms(1) by auto
  obtain h2 where h2: "set_prev h (ll_next n) None = Some h2" "path h2 (ll_next n) xs"
      "\<forall>b. b \<notin> set xs \<longrightarrow> h2 b = h b" "\<forall>b. map_option ll_data (h2 b) = map_option ll_data (h b)"
    using path_set_prev [OF n(3)] assms(2) by auto
  have "h2 a = Some n" using h2(3) n(1) assms(2) by auto
  then have "LL_REMOVE a h p = Some (h2(a \<mapsto> n\<lparr>ll_prev := None, ll_next := None\<rparr>), ll_next n)"
    using n h2(1) by (simp add: LL_REMOVE_def set_next_def p Let_def)
  moreover have "path (h2(a \<mapsto> n\<lparr>ll_prev := None, ll_next := None\<rparr>)) (ll_next n) xs"
    using h2(2) assms(2) by (simp add: path_frame)
  ultimately show ?thesis
    using h2(3,4) n(1) by (intro exI [of _ "h2(a \<mapsto> n\<lparr>ll_prev := None, ll_next := None\<rparr>)"]) auto
qed

text \<open>
  Because of the null \<open>prev\<close>, an element behind the head is not unlinked: the list still
  leads to it and then ends.
\<close>

lemma path_append: "path h p (xs @ a # ys) \<Longrightarrow> \<exists>n. h a = Some n \<and> ll_prev n = None \<and> path h (ll_next n) ys"
  by (induction xs arbitrary: p) auto

lemma path_cut:
  assumes "path h p (xs @ a # ys)" and "distinct (xs @ a # ys)" and "h' a = Some m"
    and "ll_prev m = None" and "ll_next m = None" and "\<forall>b \<in> set xs. h' b = h b"
  shows "path h' p (xs @ [a])"
  using assms by (induction xs arbitrary: p) auto

lemma LL_REMOVE_behind_head:
  assumes "path h p (x # xs @ a # ys)" and "distinct (x # xs @ a # ys)"
  shows "\<exists>h'. LL_REMOVE a h p = Some (h', p) \<and> path h' p (x # xs @ [a])"
proof -
  obtain n where n: "h a = Some n" "ll_prev n = None" "path h (ll_next n) ys"
    using path_append [of h p "x # xs" a ys] assms(1) by auto
  obtain h2 where h2: "set_prev h (ll_next n) None = Some h2" "\<forall>b. b \<notin> set ys \<longrightarrow> h2 b = h b"
    using path_set_prev [OF n(3)] assms(2) by auto
  have "h2 a = Some n" using h2(2) n(1) assms(2) by auto
  moreover have "p = Some x" and "x \<noteq> a" using assms by auto
  ultimately have r: "LL_REMOVE a h p = Some (h2(a \<mapsto> n\<lparr>ll_prev := None, ll_next := None\<rparr>), p)"
    using n h2(1) by (simp add: LL_REMOVE_def set_next_def Let_def)
  have "path (h2(a \<mapsto> n\<lparr>ll_prev := None, ll_next := None\<rparr>)) p ((x # xs) @ [a])"
    using assms h2(2) by (intro path_cut [of h p "x # xs" a ys]) auto
  then show ?thesis using r by auto
qed

text \<open>The list as a reader sees it, who follows \<open>next\<close> only; and adding several elements.\<close>

fun leads_to :: "'d heap \<Rightarrow> nat option \<Rightarrow> nat list \<Rightarrow> bool" where
  "leads_to h p [] \<longleftrightarrow> p = None"
| "leads_to h p (a # as) \<longleftrightarrow> p = Some a \<and> (\<exists>n. h a = Some n \<and> leads_to h (ll_next n) as)"

lemma path_leads_to: "path h p xs \<Longrightarrow> leads_to h p xs"
  by (induction xs arbitrary: p) auto

primrec add_all :: "nat list \<Rightarrow> 'd heap \<Rightarrow> nat option \<Rightarrow> ('d heap \<times> nat option) option" where
  "add_all [] h list = Some (h, list)"
| "add_all (x # xs) h list = do { (h', list') \<leftarrow> LL_ADD x h list; add_all xs h' list' }"

lemma add_all_path:
  assumes "path h p ys" and "distinct (rev xs @ ys)" and "\<forall>x \<in> set xs. h x \<noteq> None"
  shows "\<exists>h' p'. add_all xs h p = Some (h', p') \<and> path h' p' (rev xs @ ys)"
  using assms
proof (induction xs arbitrary: h p ys)
  case (Cons x xs)
  obtain n where n: "h x = Some n" using Cons.prems(3) by auto
  have "x \<notin> set ys" using Cons.prems(2) by simp
  from LL_ADD_path [OF Cons.prems(1) this n] obtain h1 where
      h1: "LL_ADD x h p = Some (h1, Some x)" "path h1 (Some x) (x # ys)" "\<forall>b. b \<noteq> x \<longrightarrow> h1 b = h b" by blast
  have "\<forall>y \<in> set xs. h1 y \<noteq> None" using Cons.prems(2,3) h1(3) by auto
  then show ?case using Cons.IH [OF h1(2)] Cons.prems(2) h1(1) by auto
qed simp

lemma remove_after_adds:
  assumes "distinct (ys @ a # xs @ [x])" and "\<forall>b \<in> set (ys @ a # xs @ [x]). h b \<noteq> None"
  shows "\<exists>h1 p h2. add_all (ys @ a # xs @ [x]) h None = Some (h1, p)
    \<and> leads_to h1 p (x # rev xs @ a # rev ys)
    \<and> LL_REMOVE a h1 p = Some (h2, p) \<and> leads_to h2 p (x # rev xs @ [a])"
proof -
  have d: "distinct (x # rev xs @ a # rev ys)" using assms(1) by auto
  have "path h None []" "distinct (rev (ys @ a # xs @ [x]) @ [])" using assms(1) by auto
  from add_all_path [OF this assms(2)] obtain h1 p where
      h1: "add_all (ys @ a # xs @ [x]) h None = Some (h1, p)" "path h1 p (x # rev xs @ a # rev ys)" by auto
  from LL_REMOVE_behind_head [OF h1(2) d] obtain h2 where
      "LL_REMOVE a h1 p = Some (h2, p)" "path h2 p (x # rev xs @ [a])" by blast
  then show ?thesis using h1 by (blast intro: path_leads_to)
qed

section \<open>The queue of jobs\<close>

text \<open>\<open>ll_data\<close> of a job is its \<open>user_data\<close>; workers carry their termination flag.\<close>

record ('w, 'j) workqueue =
  workers :: "nat option"
  waiting_jobs :: "nat option"
  worker_heap :: "'w heap"
  job_heap :: "'j heap"

definition workqueue_add_job ::
    "nat \<Rightarrow> ('w, 'j) workqueue \<Rightarrow> ('w, 'j) workqueue option" where
  "workqueue_add_job job q = do {
     (h, l) \<leftarrow> LL_ADD job (job_heap q) (waiting_jobs q);
     Some (q\<lparr>job_heap := h, waiting_jobs := l\<rparr>) }"

text \<open>The part of \<open>worker_function\<close> that takes a job, when it is not told to terminate.\<close>

definition take_job :: "('w, 'j) workqueue \<Rightarrow> (nat option \<times> ('w, 'j) workqueue) option" where
  "take_job q = (case waiting_jobs q of
     None \<Rightarrow> Some (None, q)
   | Some job \<Rightarrow> do {
       (h, l) \<leftarrow> LL_REMOVE job (job_heap q) (waiting_jobs q);
       Some (Some job, q\<lparr>job_heap := h, waiting_jobs := l\<rparr>) })"

text \<open>
  \<open>workqueue_init\<close>: per worker the address \<open>malloc\<close> gave (if any) and whether the thread could
  be started. It stops with result 1 at the first failure.
\<close>

fun init_workers ::
    "(nat option \<times> bool) list \<Rightarrow> (bool, 'j) workqueue \<Rightarrow> (int \<times> (bool, 'j) workqueue) option" where
  "init_workers [] q = Some (0, q)"
| "init_workers ((None, ok) # rs) q = Some (1, q)"
| "init_workers ((Some a, ok) # rs) q =
     (if \<not> ok then Some (1, q)
      else do {
        (h, l) \<leftarrow> LL_ADD a ((worker_heap q)(a \<mapsto> \<lparr>ll_prev = None, ll_next = None, ll_data = False\<rparr>)) (workers q);
        init_workers rs (q\<lparr>worker_heap := h, workers := l\<rparr>) })"

definition workqueue_init ::
    "(nat option \<times> bool) list \<Rightarrow> int \<Rightarrow> 'j heap \<Rightarrow> (int \<times> (bool, 'j) workqueue) option" where
  "workqueue_init rs numWorkers jobs =
     init_workers (take (nat (max 1 numWorkers)) rs)
       \<lparr>workers = None, waiting_jobs = None, worker_heap = Map.empty, job_heap = jobs\<rparr>"

text \<open>\<open>workqueue_shutdown\<close>: the walk over the workers, then the lists are dropped.\<close>

primrec terminate_all :: "nat \<Rightarrow> bool heap \<Rightarrow> nat option \<Rightarrow> bool heap option" where
  "terminate_all 0 h p = (if p = None then Some h else None)"
| "terminate_all (Suc fuel) h p = (case p of
     None \<Rightarrow> Some h
   | Some a \<Rightarrow> do { n \<leftarrow> h a; terminate_all fuel (h(a \<mapsto> n\<lparr>ll_data := True\<rparr>)) (ll_next n) })"

definition workqueue_shutdown :: "nat \<Rightarrow> (bool, 'j) workqueue \<Rightarrow> (bool, 'j) workqueue option" where
  "workqueue_shutdown fuel q = do {
     h \<leftarrow> terminate_all fuel (worker_heap q) (workers q);
     Some (q\<lparr>worker_heap := h, workers := None, waiting_jobs := None\<rparr>) }"

text \<open>The contract of a stack of distinct items, and what follows for its clients.\<close>

definition queue_abs :: "('w, 'j) workqueue \<Rightarrow> nat list \<Rightarrow> bool" where
  "queue_abs q js \<longleftrightarrow> path (job_heap q) (waiting_jobs q) js \<and> distinct js"

primrec push_all :: "('i \<Rightarrow> 's \<Rightarrow> 's option) \<Rightarrow> 'i list \<Rightarrow> 's \<Rightarrow> 's option" where
  "push_all f [] s = Some s"
| "push_all f (x # xs) s = do { s' \<leftarrow> f x s; push_all f xs s' }"

primrec pop_n :: "('s \<Rightarrow> ('i option \<times> 's) option) \<Rightarrow> nat \<Rightarrow> 's \<Rightarrow> ('i option list \<times> 's) option" where
  "pop_n f 0 s = Some ([], s)"
| "pop_n f (Suc n) s = do { (x, s1) \<leftarrow> f s; (xs, s2) \<leftarrow> pop_n f n s1; Some (x # xs, s2) }"

locale item_stack =
  fixes push :: "'i \<Rightarrow> 's \<Rightarrow> 's option" and pop :: "'s \<Rightarrow> ('i option \<times> 's) option"
    and content :: "'s \<Rightarrow> 'i list \<Rightarrow> bool" and valid :: "'s \<Rightarrow> 'i \<Rightarrow> bool"
  assumes push_law: "content s xs \<Longrightarrow> valid s x \<Longrightarrow> x \<notin> set xs \<Longrightarrow>
      \<exists>s'. push x s = Some s' \<and> content s' (x # xs) \<and> (\<forall>y. valid s' y = valid s y)"
    and pop_law: "content s (x # xs) \<Longrightarrow>
      \<exists>s'. pop s = Some (Some x, s') \<and> content s' xs \<and> (\<forall>y. valid s' y = valid s y)"
    and pop_empty: "content s [] \<Longrightarrow> pop s = Some (None, s)"
begin

lemma push_all_content:
  assumes "content s xs" and "\<forall>y \<in> set ys. valid s y" and "distinct ys" and "set ys \<inter> set xs = {}"
  shows "\<exists>s'. push_all push ys s = Some s' \<and> content s' (rev ys @ xs)"
  using assms
proof (induction ys arbitrary: s xs)
  case Nil
  then show ?case by auto
next
  case (Cons y ys)
  obtain s1 where "push y s = Some s1" "content s1 (y # xs)" "\<forall>z. valid s1 z = valid s z"
    using push_law [OF Cons.prems(1), of y] Cons.prems(2,4) by auto
  then show ?case using Cons.IH [of s1 "y # xs"] Cons.prems by auto
qed

lemma pop_n_content:
  assumes "content s xs" and "n \<le> length xs"
  shows "\<exists>s'. pop_n pop n s = Some (map Some (take n xs), s') \<and> content s' (drop n xs)"
  using assms
proof (induction n arbitrary: s xs)
  case 0
  then show ?case by auto
next
  case (Suc n)
  then obtain x ys where x: "xs = x # ys" by (cases xs) auto
  obtain s1 where "pop s = Some (Some x, s1)" "content s1 ys"
    using pop_law Suc.prems(1) x by blast
  moreover from this obtain s2 where "pop_n pop n s1 = Some (map Some (take n ys), s2)" "content s2 (drop n ys)"
    using Suc.IH [of s1 ys] Suc.prems(2) x by auto
  ultimately show ?case by (simp add: x)
qed

text \<open>What is put in one after the other comes out in the opposite order.\<close>

lemma last_in_first_out:
  assumes "content s []" and "\<forall>y \<in> set ys. valid s y" and "distinct ys"
  shows "\<exists>s1 s2. push_all push ys s = Some s1 \<and> pop_n pop (length ys) s1 = Some (map Some (rev ys), s2)
    \<and> content s2 []"
proof -
  obtain s1 where s1: "push_all push ys s = Some s1" "content s1 (rev ys)"
    using push_all_content [OF assms(1-3)] by auto
  then show ?thesis using pop_n_content [OF s1(2), of "length ys"] by auto
qed

end

interpretation jobs: item_stack workqueue_add_job take_job queue_abs "\<lambda>q j. job_heap q j \<noteq> None"
proof
  fix q :: "('w, 'j) workqueue" and js j
  assume a: "queue_abs q js" "job_heap q j \<noteq> None" "j \<notin> set js"
  then obtain n where n: "job_heap q j = Some n" by auto
  then show "\<exists>q'. workqueue_add_job j q = Some q' \<and> queue_abs q' (j # js)
      \<and> (\<forall>y. (job_heap q' y \<noteq> None) = (job_heap q y \<noteq> None))"
    using a LL_ADD_path [of "job_heap q" "waiting_jobs q" js j n]
    by (auto simp: workqueue_add_job_def queue_abs_def) (metis option.simps(3))+
next
  fix q :: "('w, 'j) workqueue" and js j
  assume a: "queue_abs q (j # js)"
  then have "waiting_jobs q = Some j" by (auto simp: queue_abs_def)
  moreover obtain h l where "LL_REMOVE j (job_heap q) (waiting_jobs q) = Some (h, l)" "path h l js"
      "\<forall>b. map_option ll_data (h b) = map_option ll_data (job_heap q b)"
    using LL_REMOVE_head [of "job_heap q" "waiting_jobs q" j js] a by (auto simp: queue_abs_def)
  moreover from this(3) have "\<forall>b. (h b \<noteq> None) = (job_heap q b \<noteq> None)"
    by (metis option.map_disc_iff)
  ultimately show "\<exists>q'. take_job q = Some (Some j, q') \<and> queue_abs q' js
      \<and> (\<forall>y. (job_heap q' y \<noteq> None) = (job_heap q y \<noteq> None))"
    using a by (simp add: take_job_def queue_abs_def)
next
  fix q :: "('w, 'j) workqueue"
  assume "queue_abs q []"
  then show "take_job q = Some (None, q)" by (simp add: queue_abs_def take_job_def)
qed

section \<open>Start-up and shutdown of the list of workers\<close>

lemma terminate_all_path:
  assumes "path h p xs" and "distinct xs" and "length xs \<le> fuel"
  shows "\<exists>h'. terminate_all fuel h p = Some h' \<and> path h' p xs
    \<and> (\<forall>a \<in> set xs. map_option ll_data (h' a) = Some True) \<and> (\<forall>b. b \<notin> set xs \<longrightarrow> h' b = h b)"
  using assms
proof (induction xs arbitrary: h p fuel)
  case Nil
  then show ?case by (cases fuel) auto
next
  case (Cons a xs)
  obtain n where n: "p = Some a" "h a = Some n" "ll_prev n = None" "path h (ll_next n) xs"
    using Cons.prems(1) by auto
  obtain f where f: "fuel = Suc f" "length xs \<le> f" using Cons.prems(3) by (cases fuel) auto
  let ?h = "h(a \<mapsto> n\<lparr>ll_data := True\<rparr>)"
  have "path ?h (ll_next n) xs" using n(4) Cons.prems(2) by (simp add: path_frame)
  from Cons.IH [OF this _ f(2)] Cons.prems(2)
  obtain h' where h': "terminate_all f ?h (ll_next n) = Some h'" "path h' (ll_next n) xs"
      "\<forall>a \<in> set xs. map_option ll_data (h' a) = Some True" "\<forall>b. b \<notin> set xs \<longrightarrow> h' b = ?h b"
    unfolding distinct.simps by blast
  have "h' a = Some (n\<lparr>ll_data := True\<rparr>)" using h'(4) Cons.prems(2) by auto
  then show ?case using n h' f(1) by auto
qed

lemma init_workers_path:
  assumes "path (worker_heap q) (workers q) xs" and "distinct xs"
    and "list_all (\<lambda>r. fst r \<noteq> None \<and> snd r) rs" and "distinct (map fst rs)"
    and "Some ` set xs \<inter> set (map fst rs) = {}"
  shows "\<exists>q'. init_workers rs q = Some (0, q')
    \<and> path (worker_heap q') (workers q') (rev (map (the \<circ> fst) rs) @ xs)
    \<and> waiting_jobs q' = waiting_jobs q \<and> job_heap q' = job_heap q"
  using assms
proof (induction rs arbitrary: q xs)
  case Nil
  then show ?case by simp
next
  case (Cons r rs)
  obtain a where r: "r = (Some a, True)" using Cons.prems(3) by (cases r) auto
  have a: "a \<notin> set xs" using Cons.prems(5) r by auto
  let ?h = "(worker_heap q)(a \<mapsto> \<lparr>ll_prev = None, ll_next = None, ll_data = False\<rparr>)"
  have "path ?h (workers q) xs" using Cons.prems(1) a by (simp add: path_frame)
  then obtain h' where h': "LL_ADD a ?h (workers q) = Some (h', Some a)" "path h' (Some a) (a # xs)"
    using LL_ADD_path [of ?h "workers q" xs a] a by fastforce
  then show ?case
    using Cons.IH [of "q\<lparr>worker_heap := h', workers := Some a\<rparr>" "a # xs"] Cons.prems r a
    by (force simp: LL_ADD_def)
qed

section \<open>The threads\<close>

text \<open>
  The control points of a worker: waiting for the mutex, at the test of the inner loop, at
  the two tests of \<open>terminate\<close>, asleep in \<open>pthread_cond_wait\<close>, woken there and waiting for the
  mutex, running a job, and gone. The worker that leaves through the second test does so with
  the mutex locked; it is gone when it has freed itself.
\<close>

datatype wpc = Lock | Test | CheckTerm1 | CheckTerm2 | Asleep | Woken | Running nat | Gone

text \<open>
  The shutdown walks over the list of workers without the mutex: it sets \<open>terminate\<close> of a worker
  (\<open>Flag\<close>) and reads the \<open>next\<close> of the same worker (\<open>Next\<close>). \<open>workqueue_init\<close> adds at the head, so
  the last worker comes first. \<open>Freed\<close>: the worker has freed itself in between.
\<close>

datatype shutdown_pc = NotCalled | Flag nat | Next nat | Locking | Finished | Freed

record pool =
  mutex :: "nat option"
  pc :: "nat \<Rightarrow> wpc"
  terminate :: "nat \<Rightarrow> bool"
  jobs :: "nat list"
  added :: "nat list"
  done_jobs :: "nat list"
  dropped :: "nat list"
  shutdown :: shutdown_pc

definition pool_init :: pool where
  "pool_init = \<lparr>mutex = None, pc = (\<lambda>_. Lock), terminate = (\<lambda>_. False), jobs = [], added = [],
     done_jobs = [], dropped = [], shutdown = NotCalled\<rparr>"

text \<open>
  The steps of worker \<open>i\<close> of \<open>n\<close>. A critical section without internal waiting is one step that
  needs the mutex free or held by its thread. A worker does not wake up by itself.
\<close>

inductive worker_step :: "nat \<Rightarrow> nat \<Rightarrow> pool \<Rightarrow> pool \<Rightarrow> bool" for n i :: nat where
  lock: "i < n \<Longrightarrow> pc s i = Lock \<Longrightarrow> mutex s = None \<Longrightarrow>
    worker_step n i s (s\<lparr>mutex := Some i, pc := (pc s)(i := Test)\<rparr>)"
| test_empty: "i < n \<Longrightarrow> pc s i = Test \<Longrightarrow> jobs s = [] \<Longrightarrow>
    worker_step n i s (s\<lparr>pc := (pc s)(i := CheckTerm1)\<rparr>)"
| test_job: "i < n \<Longrightarrow> pc s i = Test \<Longrightarrow> jobs s \<noteq> [] \<Longrightarrow>
    worker_step n i s (s\<lparr>pc := (pc s)(i := CheckTerm2)\<rparr>)"
| break: "i < n \<Longrightarrow> pc s i = CheckTerm1 \<Longrightarrow> terminate s i \<Longrightarrow>
    worker_step n i s (s\<lparr>pc := (pc s)(i := CheckTerm2)\<rparr>)"
| wait: "i < n \<Longrightarrow> pc s i = CheckTerm1 \<Longrightarrow> \<not> terminate s i \<Longrightarrow>
    worker_step n i s (s\<lparr>mutex := None, pc := (pc s)(i := Asleep)\<rparr>)"
| relock: "i < n \<Longrightarrow> pc s i = Woken \<Longrightarrow> mutex s = None \<Longrightarrow>
    worker_step n i s (s\<lparr>mutex := Some i, pc := (pc s)(i := Test)\<rparr>)"
| leave: "i < n \<Longrightarrow> pc s i = CheckTerm2 \<Longrightarrow> terminate s i \<Longrightarrow>
    worker_step n i s (s\<lparr>pc := (pc s)(i := Gone)\<rparr>)"
| take_none: "i < n \<Longrightarrow> pc s i = CheckTerm2 \<Longrightarrow> \<not> terminate s i \<Longrightarrow> jobs s = [] \<Longrightarrow>
    worker_step n i s (s\<lparr>mutex := None, pc := (pc s)(i := Lock)\<rparr>)"
| take_some: "i < n \<Longrightarrow> pc s i = CheckTerm2 \<Longrightarrow> \<not> terminate s i \<Longrightarrow> jobs s = j # js \<Longrightarrow>
    worker_step n i s (s\<lparr>mutex := None, pc := (pc s)(i := Running j), jobs := js\<rparr>)"
| finish: "i < n \<Longrightarrow> pc s i = Running j \<Longrightarrow>
    worker_step n i s (s\<lparr>pc := (pc s)(i := Lock), done_jobs := done_jobs s @ [j]\<rparr>)"

text \<open>
  All threads. \<open>workqueue_add_job\<close> adds at the head and signals, which wakes a sleeping worker if
  there is one; POSIX also allows a wake-up without a signal. The shutdown drops the lists and
  wakes everybody.
\<close>

definition wake_all :: "(nat \<Rightarrow> wpc) \<Rightarrow> nat \<Rightarrow> wpc" where
  "wake_all p i = (if p i = Asleep then Woken else p i)"

inductive pool_step :: "nat \<Rightarrow> pool \<Rightarrow> pool \<Rightarrow> bool" for n :: nat where
  worker: "worker_step n i s t \<Longrightarrow> pool_step n s t"
| wake: "i < n \<Longrightarrow> pc s i = Asleep \<Longrightarrow>
    pool_step n s (s\<lparr>pc := (pc s)(i := Woken)\<rparr>)"
| add_signal: "mutex s = None \<Longrightarrow> i < n \<Longrightarrow> pc s i = Asleep \<Longrightarrow>
    pool_step n s (s\<lparr>jobs := j # jobs s, added := added s @ [j], pc := (pc s)(i := Woken)\<rparr>)"
| add: "mutex s = None \<Longrightarrow> (\<forall>i < n. pc s i \<noteq> Asleep) \<Longrightarrow>
    pool_step n s (s\<lparr>jobs := j # jobs s, added := added s @ [j]\<rparr>)"
| begin_shutdown: "shutdown s = NotCalled \<Longrightarrow>
    pool_step n s (s\<lparr>shutdown := (if n = 0 then Locking else Flag (n - 1))\<rparr>)"
| flag: "shutdown s = Flag i \<Longrightarrow> pc s i \<noteq> Gone \<Longrightarrow>
    pool_step n s (s\<lparr>terminate := (terminate s)(i := True), shutdown := Next i\<rparr>)"
| following: "shutdown s = Next i \<Longrightarrow> pc s i \<noteq> Gone \<Longrightarrow>
    pool_step n s (s\<lparr>shutdown := (if i = 0 then Locking else Flag (i - 1))\<rparr>)"
| freed: "shutdown s = Flag i \<or> shutdown s = Next i \<Longrightarrow> pc s i = Gone \<Longrightarrow>
    pool_step n s (s\<lparr>shutdown := Freed\<rparr>)"
| drop: "shutdown s = Locking \<Longrightarrow> mutex s = None \<Longrightarrow>
    pool_step n s (s\<lparr>jobs := [], dropped := dropped s @ jobs s, pc := wake_all (pc s), shutdown := Finished\<rparr>)"

inductive pool_reach :: "nat \<Rightarrow> pool \<Rightarrow> bool" for n :: nat where
  start: "pool_reach n pool_init"
| step: "pool_reach n s \<Longrightarrow> pool_step n s t \<Longrightarrow> pool_reach n t"

inductive_cases pool_stepE: "pool_step n s t"
inductive_cases worker_stepE: "worker_step n i s t"

text \<open>A worker is inside its critical section.\<close>

definition inside :: "wpc \<Rightarrow> bool" where
  "inside p \<longleftrightarrow> p \<in> {Test, CheckTerm1, CheckTerm2, Gone}"

lemma inside_simps [simp]:
  "inside Test" "inside CheckTerm1" "inside CheckTerm2" "inside Gone" "\<not> inside Lock" "\<not> inside Asleep"
  "\<not> inside Woken" "\<not> inside (Running j)"
  by (simp_all add: inside_def)

lemma wake_all_simps [simp]:
  "inside (wake_all p i) = inside (p i)" "wake_all p i = Gone \<longleftrightarrow> p i = Gone"
  "wake_all p i = Lock \<longleftrightarrow> p i = Lock" "wake_all p i = CheckTerm1 \<longleftrightarrow> p i = CheckTerm1"
  "wake_all p i = CheckTerm2 \<longleftrightarrow> p i = CheckTerm2"
  by (auto simp: wake_all_def)

definition pool_inv :: "nat \<Rightarrow> pool \<Rightarrow> bool" where
  "pool_inv n s \<longleftrightarrow> (\<forall>i. inside (pc s i) \<longleftrightarrow> mutex s = Some i)
     \<and> (\<forall>i. n \<le> i \<longrightarrow> pc s i = Lock)
     \<and> (\<forall>i. pc s i = Gone \<longrightarrow> terminate s i)
     \<and> (\<forall>i. pc s i = CheckTerm1 \<longrightarrow> jobs s = [])
     \<and> (\<forall>i. pc s i = CheckTerm2 \<longrightarrow> terminate s i \<or> jobs s \<noteq> [])"

lemma pool_inv_init: "pool_inv n pool_init"
  by (simp add: pool_inv_def pool_init_def)

lemma pool_inv_mutex:
  assumes "pool_inv n s"
  shows "pc s i = Test \<Longrightarrow> mutex s = Some i" and "pc s i = CheckTerm1 \<Longrightarrow> mutex s = Some i"
    and "pc s i = CheckTerm2 \<Longrightarrow> mutex s = Some i" and "pc s i = Gone \<Longrightarrow> mutex s = Some i"
    and "mutex s = Some i \<Longrightarrow> pc s i \<noteq> Running j"
  using assms unfolding pool_inv_def by (metis inside_simps)+

lemma worker_keeps_inv:
  assumes "worker_step n i s t" and "pool_inv n s"
  shows "pool_inv n t"
  using assms(1)
proof cases
  case (take_some j js)
  have "pc s k \<noteq> CheckTerm2 \<and> pc s k \<noteq> CheckTerm1" if "k \<noteq> i" for k
    using that pool_inv_mutex(2,3) [OF assms(2)] take_some(3) by (metis option.inject)
  then show ?thesis using assms(2) take_some by (auto simp: pool_inv_def)
next
  case (finish j)
  then have "mutex s \<noteq> Some i" using pool_inv_mutex(5) [OF assms(2)] by blast
  then show ?thesis using assms(2) finish by (auto simp: pool_inv_def)
qed (use assms(2) in \<open>auto simp: pool_inv_def split: if_splits\<close>)

lemma pool_inv_step:
  assumes "pool_step n s t" and "pool_inv n s"
  shows "pool_inv n t"
proof -
  have out: "pc s k \<noteq> CheckTerm2 \<and> pc s k \<noteq> CheckTerm1" if "mutex s = None" for k
    using that pool_inv_mutex(2,3) [OF assms(2)] by (metis option.distinct(1))
  from assms(1) show ?thesis
  proof cases
    case (worker i)
    then show ?thesis using worker_keeps_inv assms(2) by blast
  next
    case (wake i)
    then have "mutex s \<noteq> Some i" using assms(2) by (metis inside_simps(6) pool_inv_def)
    then show ?thesis using assms(2) wake by (auto simp: pool_inv_def)
  qed (use assms(2) out in \<open>auto simp: pool_inv_def split: if_splits\<close>)
qed

lemma pool_inv_reach: "pool_reach n s \<Longrightarrow> pool_inv n s"
  by (induction rule: pool_reach.induct) (auto simp: pool_inv_init intro: pool_inv_step)

text \<open>At most one worker is inside, and the removal never meets an empty list.\<close>

lemma pool_exclusive: "pool_reach n s \<Longrightarrow> inside (pc s i) \<Longrightarrow> inside (pc s k) \<Longrightarrow> i = k"
  using pool_inv_reach by (metis option.inject pool_inv_def)

lemma pool_job_there:
  "pool_reach n s \<Longrightarrow> pc s i = CheckTerm2 \<Longrightarrow> \<not> terminate s i \<Longrightarrow> jobs s \<noteq> []"
  using pool_inv_reach by (auto simp: pool_inv_def)

section \<open>No job is lost or run twice\<close>

fun job_of :: "wpc \<Rightarrow> nat multiset" where
  "job_of (Running j) = {#j#}"
| "job_of _ = {#}"

definition running :: "nat \<Rightarrow> (nat \<Rightarrow> wpc) \<Rightarrow> nat multiset" where
  "running n p = (\<Sum>i<n. job_of (p i))"

lemma sum_moved:
  fixes f :: "wpc \<Rightarrow> 'a :: comm_monoid_add" and i n :: nat
  assumes "i < n"
  shows "(\<Sum>k<n. f ((p(i := x)) k)) + f (p i) = (\<Sum>k<n. f (p k)) + f x"
proof -
  have a: "(\<Sum>k<n. f (p k)) = f (p i) + (\<Sum>k \<in> {..<n} - {i}. f (p k))"
    using assms by (subst sum.remove [of _ i]) auto
  have b: "(\<Sum>k<n. f ((p(i := x)) k)) = f x + (\<Sum>k \<in> {..<n} - {i}. f ((p(i := x)) k))"
    using assms by (subst sum.remove [of _ i]) auto
  have "(\<Sum>k \<in> {..<n} - {i}. f ((p(i := x)) k)) = (\<Sum>k \<in> {..<n} - {i}. f (p k))"
    by (intro sum.cong) auto
  then show ?thesis using a b by (simp add: ac_simps)
qed

lemma running_update:
  assumes "i < n"
  shows "running n (p(i := x)) + job_of (p i) = running n p + job_of x"
  unfolding running_def by (rule sum_moved [OF assms])

lemma running_wake_all [simp]: "running n (wake_all p) = running n p"
  unfolding running_def by (intro sum.cong) (auto simp: wake_all_def)

lemma running_idle: "i < n \<Longrightarrow> job_of (p i) = {#} \<Longrightarrow> job_of x = {#} \<Longrightarrow> running n (p(i := x)) = running n p"
  using running_update [of i n p x] by simp

lemma running_take: "i < n \<Longrightarrow> job_of (p i) = {#} \<Longrightarrow> running n (p(i := Running j)) = add_mset j (running n p)"
  using running_update [of i n p "Running j"] by simp

lemma running_finish: "i < n \<Longrightarrow> p i = Running j \<Longrightarrow> job_of x = {#} \<Longrightarrow>
    add_mset j (running n (p(i := x))) = running n p"
  using running_update [of i n p x] by simp

definition conserved :: "nat \<Rightarrow> pool \<Rightarrow> bool" where
  "conserved n s \<longleftrightarrow>
     mset (added s) = mset (jobs s) + running n (pc s) + mset (done_jobs s) + mset (dropped s)"

lemma worker_conserves: "worker_step n i s t \<Longrightarrow> conserved n s \<Longrightarrow> conserved n t"
  by (induction rule: worker_step.induct)
    (auto simp: conserved_def running_idle running_take running_finish [symmetric])

lemma conserved_step: "pool_step n s t \<Longrightarrow> conserved n s \<Longrightarrow> conserved n t"
  by (induction rule: pool_step.induct) (auto simp: conserved_def running_idle dest: worker_conserves)

lemma conserved_reach: "pool_reach n s \<Longrightarrow> conserved n s"
proof (induction rule: pool_reach.induct)
  case start
  show ?case by (simp add: conserved_def pool_init_def running_def)
qed (rule conserved_step)

lemma job_once:
  assumes "pool_reach n s" and "distinct (added s)"
  shows "distinct (jobs s @ done_jobs s @ dropped s)"
    and "pc s i = Running j \<Longrightarrow> i < n \<Longrightarrow> j \<notin> set (jobs s @ done_jobs s @ dropped s)"
proof -
  have eq: "mset (added s) = mset (jobs s @ done_jobs s @ dropped s) + running n (pc s)"
    using conserved_reach [OF assms(1)] by (simp add: conserved_def ac_simps)
  have c: "count (mset (added s)) x \<le> 1" for x
    using assms(2) by (simp add: distinct_count_atmost_1)
  have sub: "count (mset (jobs s @ done_jobs s @ dropped s)) x + count (running n (pc s)) x \<le> 1" for x
    using c [of x] eq by (metis count_union)
  then have "count (mset (jobs s @ done_jobs s @ dropped s)) x \<le> 1" for x
    by (meson add_leD1)
  then show "distinct (jobs s @ done_jobs s @ dropped s)"
    by (metis distinct_count_atmost_1 count_mset_0_iff count_greater_zero_iff le_Suc_eq le_zero_eq One_nat_def mset_eq_setD)
  assume "pc s i = Running j" "i < n"
  then have "j \<in># running n (pc s)"
    unfolding running_def by (auto simp: set_mset_sum intro!: bexI [of _ i])
  then have "0 < count (running n (pc s)) j" by simp
  then have "count (mset (jobs s @ done_jobs s @ dropped s)) j = 0" using sub [of j] by linarith
  then show "j \<notin> set (jobs s @ done_jobs s @ dropped s)" using count_mset_0_iff by metis
qed

section \<open>After a worker has left\<close>

text \<open>
  The worker that leaves keeps the mutex, so no thread gets inside any more: nothing is taken
  or added, no second worker leaves, and a shutdown that has not reached its own critical
  section never does.
\<close>

definition stuck :: "nat \<Rightarrow> pool \<Rightarrow> pool \<Rightarrow> bool" where
  "stuck i s t \<longleftrightarrow> pc t i = Gone \<and> mutex t = Some i \<and> jobs t = jobs s \<and> added t = added s
     \<and> (shutdown s \<noteq> Finished \<longrightarrow> shutdown t \<noteq> Finished)
     \<and> (\<forall>k. k \<noteq> i \<longrightarrow> pc t k \<noteq> Gone)"

inductive pool_steps :: "nat \<Rightarrow> pool \<Rightarrow> pool \<Rightarrow> bool" for n :: nat where
  refl: "pool_steps n s s"
| more: "pool_steps n s t \<Longrightarrow> pool_step n t u \<Longrightarrow> pool_steps n s u"

lemma stuck_step:
  assumes "pool_step n t u" and "pool_inv n t" and "stuck i s t"
  shows "stuck i s u"
proof -
  have g: "pc t i = Gone" "mutex t = Some i" using assms(3) by (simp_all add: stuck_def)
  have "\<not> inside (pc t k)" if "k \<noteq> i" for k using that g(2) assms(2) by (simp add: pool_inv_def)
  then have out: "pc t k \<noteq> Test" "pc t k \<noteq> CheckTerm1" "pc t k \<noteq> CheckTerm2" for k
    using g(1) by (cases "k = i"; force)+
  from assms(1) show ?thesis
  proof cases
    case (worker k)
    then show ?thesis using assms(3) g by cases (auto simp: stuck_def out)
  qed (use assms(3) g in \<open>auto simp: stuck_def\<close>)
qed

lemma stuck_steps: "pool_steps n t u \<Longrightarrow> pool_inv n t \<Longrightarrow> stuck i s t \<Longrightarrow> stuck i s u \<and> pool_inv n u"
  by (induction rule: pool_steps.induct) (auto intro: stuck_step pool_inv_step)

lemma leave_blocks:
  assumes "pool_reach n s" and "pc s i = Gone" and "pool_steps n s t"
  shows "mutex t = Some i" and "jobs t = jobs s" and "added t = added s"
    and "pc t k = Gone \<Longrightarrow> k = i" and "shutdown s \<noteq> Finished \<Longrightarrow> shutdown t \<noteq> Finished"
proof -
  have inv: "pool_inv n s" using assms(1) by (rule pool_inv_reach)
  have "mutex s = Some i" using inv assms(2) by (metis inside_simps(4) pool_inv_def)
  moreover have "pc s k = Gone \<Longrightarrow> k = i" for k
    using pool_exclusive [OF assms(1)] assms(2) by fastforce
  ultimately have "stuck i s s" unfolding stuck_def using assms(2) by blast
  from stuck_steps [OF assms(3) inv this] show "mutex t = Some i" and "jobs t = jobs s"
    and "added t = added s" and "pc t k = Gone \<Longrightarrow> k = i"
    and "shutdown s \<noteq> Finished \<Longrightarrow> shutdown t \<noteq> Finished"
    by (auto simp: stuck_def)
qed

section \<open>No wake-up is lost\<close>

text \<open>Before a shutdown nobody is told to terminate and no job is dropped.\<close>

lemma worker_step_keeps: "worker_step n i s t \<Longrightarrow> terminate t = terminate s \<and> shutdown t = shutdown s
    \<and> added t = added s \<and> dropped t = dropped s"
  by (induction rule: worker_step.induct) auto

lemma before_shutdown:
  "pool_reach n s \<Longrightarrow> shutdown s = NotCalled \<Longrightarrow> (\<forall>i. \<not> terminate s i) \<and> dropped s = []"
proof (induction rule: pool_reach.induct)
  case start
  then show ?case by (simp add: pool_init_def)
next
  case (step s t)
  then show ?case by (auto elim!: pool_stepE split: if_splits dest: worker_step_keeps)
qed

text \<open>
  A worker on its way to the queue will look for a job before it sleeps. While anybody sleeps,
  there are at least as many workers on their way as jobs wait: every added job woke one.
\<close>

fun on_the_way :: "wpc \<Rightarrow> nat" where
  "on_the_way Lock = 1"
| "on_the_way Woken = 1"
| "on_the_way Test = 1"
| "on_the_way CheckTerm2 = 1"
| "on_the_way _ = 0"

definition coming :: "nat \<Rightarrow> (nat \<Rightarrow> wpc) \<Rightarrow> nat" where
  "coming n p = (\<Sum>i<n. on_the_way (p i))"

lemma coming_update: "i < n \<Longrightarrow> coming n (p(i := x)) + on_the_way (p i) = coming n p + on_the_way x"
  unfolding coming_def by (rule sum_moved)

definition covered :: "nat \<Rightarrow> pool \<Rightarrow> bool" where
  "covered n s \<longleftrightarrow> ((\<exists>i < n. pc s i = Asleep) \<longrightarrow> length (jobs s) \<le> coming n (pc s))"

lemma covered_move:
  assumes "covered n s" and "i < n" and "pc s i \<noteq> Asleep" and "x \<noteq> Asleep"
    and "on_the_way (pc s i) + length (jobs t) \<le> on_the_way x + length (jobs s)" and "pc t = (pc s)(i := x)"
  shows "covered n t"
  using assms coming_update [OF assms(2), of "pc s" x] by (auto simp: covered_def split: if_splits)

lemma worker_covers:
  assumes "worker_step n i s t" and "pool_inv n s" and "\<forall>i. \<not> terminate s i" and "covered n s"
  shows "covered n t"
proof -
  have i: "i < n" using assms(1) by cases
  have none: "covered n u" if "jobs u = []" for u using that by (simp add: covered_def)
  have jobs: "jobs s = []" if "pc s i = CheckTerm1" using that assms(2) by (auto simp: pool_inv_def)
  note move = covered_move [OF assms(4) i, of _ t]
  from assms(1) show ?thesis
  proof cases
    case lock
    then show ?thesis using move [of Test] by simp
  next
    case test_empty
    then show ?thesis using none [of t] by simp
  next
    case test_job
    then show ?thesis using move [of CheckTerm2] by simp
  next
    case wait
    then show ?thesis using none [of t] jobs by simp
  next
    case relock
    then show ?thesis using move [of Test] by simp
  next
    case take_none
    then show ?thesis using none [of t] by simp
  next
    case (take_some j js)
    then show ?thesis using move [of "Running j"] by simp
  next
    case (finish j)
    then show ?thesis using move [of Lock] by simp
  qed (use assms(3) in simp_all)
qed

lemma covered_step:
  assumes "pool_step n s t" and "pool_inv n s" and "\<forall>i. \<not> terminate s i" and "covered n s" and "shutdown t = NotCalled"
  shows "covered n t"
  using assms(1)
proof cases
  case (worker i)
  then show ?thesis using worker_covers assms(2-4) by blast
next
  case (wake i)
  then show ?thesis using assms(4) coming_update [OF wake(2), of "pc s" Woken]
    by (auto simp: covered_def split: if_splits)
next
  case (add_signal i j)
  then show ?thesis using assms(4) coming_update [OF add_signal(3), of "pc s" Woken]
    by (auto simp: covered_def split: if_splits)
qed (use assms(4,5) in \<open>auto simp: covered_def split: if_splits\<close>)

lemma covered_reach: "pool_reach n s \<Longrightarrow> shutdown s = NotCalled \<Longrightarrow> covered n s"
proof (induction rule: pool_reach.induct)
  case start
  then show ?case by (simp add: covered_def pool_init_def)
next
  case (step s t)
  have "shutdown s = NotCalled"
    using step.hyps(2) step.prems by (auto elim!: pool_stepE split: if_splits dest: worker_step_keeps)
  then show ?case
    using covered_step [OF step.hyps(2) pool_inv_reach [OF step.hyps(1)]] before_shutdown [OF step.hyps(1)]
      step.IH step.prems by blast
qed

text \<open>Runs of the workers alone: they end, and only when there is nothing left to do.\<close>

inductive worker_run :: "nat \<Rightarrow> nat \<Rightarrow> pool \<Rightarrow> pool \<Rightarrow> bool" for n :: nat where
  still: "worker_run n 0 s s"
| move: "worker_run n k s t \<Longrightarrow> worker_step n i t u \<Longrightarrow> worker_run n (Suc k) s u"

fun effort :: "wpc \<Rightarrow> nat" where
  "effort (Running _) = 5"
| "effort Lock = 4"
| "effort Woken = 4"
| "effort Test = 3"
| "effort CheckTerm1 = 2"
| "effort CheckTerm2 = 1"
| "effort _ = 0"

definition work_left :: "nat \<Rightarrow> pool \<Rightarrow> nat" where
  "work_left n s = 5 * length (jobs s) + (\<Sum>i<n. effort (pc s i))"

lemma effort_bound: "effort p \<le> 5"
  by (cases p) auto

lemma work_left_bound: "work_left n s \<le> 5 * length (jobs s) + 5 * n"
  using sum_bounded_above [of "{..<n}" "\<lambda>i. effort (pc s i)" 5] by (simp add: work_left_def effort_bound)

lemma worker_works:
  assumes "worker_step n i s t" and "pool_inv n s"
  shows "work_left n t < work_left n s"
proof -
  have i: "i < n" using assms(1) by cases
  have "jobs s \<noteq> []" if "pc s i = CheckTerm2" "\<not> terminate s i" using that assms(2) by (auto simp: pool_inv_def)
  note jobs = this
  have eq: "work_left n t + effort (pc s i) + 5 * length (jobs s) = work_left n s + effort x + 5 * length (jobs t)"
    if "pc t = (pc s)(i := x)" for x
    using sum_moved [OF i, of effort "pc s" x] that by (simp add: work_left_def)
  have less: "work_left n t < work_left n s"
    if "pc t = (pc s)(i := x)" "effort x + 5 * length (jobs t) < effort (pc s i) + 5 * length (jobs s)" for x
    using eq [OF that(1)] that(2) by linarith
  from assms(1) show ?thesis
  proof cases
    case (take_some j js)
    then show ?thesis using less [of "Running j"] by simp
  next
    case (finish j)
    then show ?thesis using less [of Lock] by simp
  qed (use jobs less [of Test] less [of CheckTerm1] less [of CheckTerm2] less [of Asleep] less [of Gone] in simp_all)
qed

lemma worker_run_reach: "worker_run n k s t \<Longrightarrow> pool_reach n s \<Longrightarrow> pool_reach n t \<and> shutdown t = shutdown s
    \<and> added t = added s \<and> k + work_left n t \<le> work_left n s"
proof (induction rule: worker_run.induct)
  case (move k s t i u)
  then show ?case
    using worker_works [OF move.hyps(2) pool_inv_reach] worker_step_keeps [OF move.hyps(2)]
      pool_reach.step [OF _ pool_step.worker [OF move.hyps(2)]] by force
qed simp

lemma nothing_left:
  assumes "pool_reach n s" and "shutdown s = NotCalled" and "0 < n" and final: "\<And>i t. \<not> worker_step n i s t"
  shows "jobs s = []" and "\<forall>i < n. pc s i = Asleep" and "mset (done_jobs s) = mset (added s)"
proof -
  note inv = pool_inv_reach [OF assms(1)] and calm = before_shutdown [OF assms(1,2)]
  have no_mutex: "mutex s = None"
  proof (rule ccontr)
    assume "mutex s \<noteq> None"
    then obtain i where m: "mutex s = Some i" by auto
    then have ins: "inside (pc s i)" using inv by (simp add: pool_inv_def)
    have "pc s k = Lock" if "n \<le> k" for k using that inv by (simp add: pool_inv_def)
    then have i: "i < n" using ins by (metis inside_simps(5) linorder_not_less)
    have "pc s i \<noteq> Gone" using inv calm by (auto simp: pool_inv_def)
    then consider "pc s i = Test" | "pc s i = CheckTerm1" | "pc s i = CheckTerm2"
      using ins by (auto simp: inside_def)
    then show False
      by cases (metis final i calm worker_step.test_empty worker_step.test_job worker_step.wait
        worker_step.take_none worker_step.take_some neq_Nil_conv)+
  qed
  have asleep: "pc s i = Asleep" if "i < n" for i
  proof (cases "pc s i")
    case Lock
    then show ?thesis using final worker_step.lock [OF that _ no_mutex] by blast
  next
    case Woken
    then show ?thesis using final worker_step.relock [OF that _ no_mutex] by blast
  next
    case (Running j)
    then show ?thesis using final worker_step.finish [OF that] by blast
  qed (use inv no_mutex in \<open>metis inside_simps(1-4) option.distinct(1) pool_inv_def\<close>)+
  then show "\<forall>i < n. pc s i = Asleep" by blast
  have "coming n (pc s) = 0" using asleep by (simp add: coming_def)
  then show j: "jobs s = []" using covered_reach [OF assms(1,2)] asleep assms(3) by (auto simp: covered_def)
  have "running n (pc s) = {#}" using asleep by (simp add: running_def)
  then show "mset (done_jobs s) = mset (added s)"
    using conserved_reach [OF assms(1)] j calm by (simp add: conserved_def)
qed

lemma jobs_get_done:
  assumes "pool_reach n s" and "shutdown s = NotCalled" and "0 < n" and "worker_run n k s t"
  shows "k \<le> 5 * length (jobs s) + 5 * n"
    and "(\<And>i u. \<not> worker_step n i t u) \<Longrightarrow> jobs t = [] \<and> mset (done_jobs t) = mset (added s) \<and> (\<forall>i < n. pc t i = Asleep)"
proof -
  note r = worker_run_reach [OF assms(4,1)]
  then show "k \<le> 5 * length (jobs s) + 5 * n" using work_left_bound [of n s] by linarith
  show "jobs t = [] \<and> mset (done_jobs t) = mset (added s) \<and> (\<forall>i < n. pc t i = Asleep)"
    if "\<And>i u. \<not> worker_step n i t u"
    using nothing_left [of n t] r assms(2,3) that by metis
qed

text \<open>A run that can be prolonged never has to stop early: from every state some run is maximal.\<close>

lemma maximal_run:
  assumes "pool_reach n s"
  shows "\<exists>k t. worker_run n k s t \<and> (\<forall>i u. \<not> worker_step n i t u)"
proof -
  have "\<exists>k' t'. worker_run n k' s t' \<and> (\<forall>i u. \<not> worker_step n i t' u)" if "worker_run n k s t" for k t
    using that
  proof (induction "work_left n t" arbitrary: k t rule: less_induct)
    case less
    show ?case
    proof (cases "\<forall>i u. \<not> worker_step n i t u")
      case False
      then obtain i u where u: "worker_step n i t u" by blast
      have "work_left n u < work_left n t"
        using worker_works [OF u pool_inv_reach] worker_run_reach [OF less.prems assms] by blast
      then show ?thesis using less.hyps worker_run.move [OF less.prems u] by blast
    qed (use less.prems in blast)
  qed
  then show ?thesis using worker_run.still by blast
qed

section \<open>The shutdown walk\<close>

text \<open>
  A worker may leave and free itself between the moment the walk tells it to and the moment the
  walk reads its \<open>next\<close>: with one worker and no job the walk can touch freed memory.
\<close>

lemma pool_reach_steps: "pool_steps n s t \<Longrightarrow> pool_reach n s \<Longrightarrow> pool_reach n t"
  by (induction rule: pool_steps.induct) (auto intro: pool_reach.step)

definition gone_pool :: pool where
  "gone_pool = \<lparr>mutex = Some 0, pc = (\<lambda>_. Lock)(0 := Gone), terminate = (\<lambda>_. False)(0 := True), jobs = [],
     added = [], done_jobs = [], dropped = [], shutdown = Next 0\<rparr>"

lemma gone_pool_reach: "pool_reach 1 gone_pool"
proof -
  let ?s1 = "pool_init\<lparr>shutdown := Flag 0\<rparr>"
  let ?s2 = "?s1\<lparr>terminate := (terminate ?s1)(0 := True), shutdown := Next 0\<rparr>"
  let ?s3 = "?s2\<lparr>mutex := Some 0, pc := (pc ?s2)(0 := Test)\<rparr>"
  let ?s4 = "?s3\<lparr>pc := (pc ?s3)(0 := CheckTerm1)\<rparr>"
  let ?s5 = "?s4\<lparr>pc := (pc ?s4)(0 := CheckTerm2)\<rparr>"
  let ?s6 = "?s5\<lparr>pc := (pc ?s5)(0 := Gone)\<rparr>"
  have "pool_reach 1 ?s1"
    using pool_reach.step [OF pool_reach.start pool_step.begin_shutdown, of 1] by (simp add: pool_init_def)
  then have "pool_reach 1 ?s2"
    by (rule pool_reach.step, intro pool_step.flag) (auto simp: pool_init_def)
  then have "pool_reach 1 ?s3"
    by (rule pool_reach.step, intro pool_step.worker [of _ 0] worker_step.lock) (auto simp: pool_init_def)
  then have "pool_reach 1 ?s4"
    by (rule pool_reach.step, intro pool_step.worker [of _ 0] worker_step.test_empty) (auto simp: pool_init_def)
  then have "pool_reach 1 ?s5"
    by (rule pool_reach.step, intro pool_step.worker [of _ 0] worker_step.break) (auto simp: pool_init_def)
  then have "pool_reach 1 ?s6"
    by (rule pool_reach.step, intro pool_step.worker [of _ 0] worker_step.leave) (auto simp: pool_init_def)
  moreover have "?s6 = gone_pool" by (auto simp: gone_pool_def pool_init_def)
  ultimately show ?thesis by simp
qed

lemma walk_reads_freed: "pool_step 1 gone_pool (gone_pool\<lparr>shutdown := Freed\<rparr>)"
  by (rule pool_step.freed [of _ 0]) (simp_all add: gone_pool_def)

end
