(* ===== verification/Robot_Server.thy ===== *)
theory Robot_Server
  imports Apollo_Upload Work_Queue
begin

text \<open>
  \<open>server.c\<close>: accepting a connection, the callbacks of its event loop, the job that serves it,
  and the start of the server. Library calls appear with their outcomes; a \<open>resources\<close> record
  counts what is allocated. The lemmas show that every failure path of \<open>on_accept\<close> gives back
  what it took, and that serving an accepted connection to its end does the same.
\<close>

section \<open>Resources of a connection\<close>

record resources =
  open_fds :: "int list"
  n_clients :: nat
  n_output_buffers :: nat
  n_event_bases :: nat
  n_blocks :: nat
  n_bufferevents :: nat
  n_jobs :: nat

definition setnonblock :: "int \<Rightarrow> int \<Rightarrow> int" where
  "setnonblock getfl setfl = (if getfl < 0 then getfl else if setfl < 0 then -1 else 0)"

definition close_fd :: "int \<Rightarrow> resources \<Rightarrow> resources" where
  "close_fd d r = r\<lparr>open_fds := remove1 d (open_fds r)\<rparr>"

definition closeClient_res :: "client \<Rightarrow> resources \<Rightarrow> client \<times> resources" where
  "closeClient_res client r =
     (if 0 \<le> fd client then (client\<lparr>fd := -1\<rparr>, close_fd (fd client) r) else (client, r))"

text \<open>The object itself is freed last; every member is freed when it is set.\<close>

definition closeAndFreeClient :: "client \<Rightarrow> resources \<Rightarrow> resources" where
  "closeAndFreeClient client r = (case closeClient_res client r of (c1, r1) \<Rightarrow>
     let r2 = (if buf_ev c1 \<noteq> None then r1\<lparr>n_bufferevents := n_bufferevents r1 - 1\<rparr> else r1);
         r3 = (if evbase c1 \<noteq> None then r2\<lparr>n_event_bases := n_event_bases r2 - 1\<rparr> else r2);
         r4 = (if output_buffer c1 \<noteq> None then r3\<lparr>n_output_buffers := n_output_buffers r3 - 1\<rparr> else r3);
         r5 = (if pBlock c1 \<noteq> None then r4\<lparr>n_blocks := n_blocks r4 - 1\<rparr> else r4)
     in r5\<lparr>n_clients := n_clients r5 - 1\<rparr>)"

section \<open>Accepting\<close>

text \<open>The outcomes of the calls \<open>on_accept\<close> makes, in their order.\<close>

record accept_outcome =
  client_fd :: int
  getfl :: int
  setfl :: int
  client_ok :: bool
  output_buffer_new :: "nat option"
  event_base_new :: "nat option"
  block_ok :: bool
  bufferevent_new :: "nat option"
  job_ok :: bool

definition on_accept :: "accept_outcome \<Rightarrow> resources \<Rightarrow> client option \<times> resources" where
  "on_accept a r =
     (if client_fd a < 0 then (None, r)
      else
        let r0 = r\<lparr>open_fds := client_fd a # open_fds r\<rparr> in
        if setnonblock (getfl a) (setfl a) < 0 then (None, close_fd (client_fd a) r0)
        else if \<not> client_ok a then (None, close_fd (client_fd a) r0)
        else
          let r1 = r0\<lparr>n_clients := n_clients r0 + 1\<rparr>;
              c1 = \<lparr>fd = client_fd a, evbase = None, buf_ev = None, output_buffer = output_buffer_new a,
                    pBlock = None\<rparr> in
          if output_buffer_new a = None then (None, closeAndFreeClient c1 r1)
          else
            let r2 = r1\<lparr>n_output_buffers := n_output_buffers r1 + 1\<rparr>;
                c2 = c1\<lparr>evbase := event_base_new a\<rparr> in
            if event_base_new a = None then (None, closeAndFreeClient c2 r2)
            else
              let r3 = r2\<lparr>n_event_bases := n_event_bases r2 + 1\<rparr> in
              if \<not> block_ok a then (None, closeAndFreeClient c2 r3)
              else
                let r4 = r3\<lparr>n_blocks := n_blocks r3 + 1\<rparr>;
                    c3 = c2\<lparr>pBlock := Some fresh_block, buf_ev := bufferevent_new a\<rparr> in
                if bufferevent_new a = None then (None, closeAndFreeClient c3 r4)
                else
                  let r5 = r4\<lparr>n_bufferevents := n_bufferevents r4 + 1\<rparr> in
                  if \<not> job_ok a then (None, closeAndFreeClient c3 r5)
                  else (Some c3, r5\<lparr>n_jobs := n_jobs r5 + 1\<rparr>))"

section \<open>Serving\<close>

text \<open>
  The events \<open>event_base_dispatch\<close> reports for a connection. Before \<open>Readable\<close> the library has
  put received bytes into the input of the connection, the argument \<open>arrive\<close> of the model.
\<close>

datatype conn_event = Readable "byte list" | Writable | Failed

primrec serve ::
    "'w externals \<Rightarrow> (byte list \<Rightarrow> 'w \<Rightarrow> 'w) \<Rightarrow> conn_event list \<Rightarrow> client \<Rightarrow> 'w world
      \<Rightarrow> (client \<times> 'w world) option" where
  "serve E arrive [] client w = Some (client, w)"
| "serve E arrive (ev # evs) client w = do {
     (client', w') \<leftarrow> (case ev of
        Readable xs \<Rightarrow> buffered_on_read E client (w\<lparr>ext := arrive xs (ext w)\<rparr>)
      | Writable \<Rightarrow> Some (buffered_on_write client w)
      | Failed \<Rightarrow> Some (buffered_on_error client w));
     serve E arrive evs client' w' }"

text \<open>
  \<open>server_job_function\<close>: dispatch, close and free the client, free the job. Descriptors the
  callbacks close are taken off the open ones.
\<close>

definition server_job_function ::
    "'w externals \<Rightarrow> (byte list \<Rightarrow> 'w \<Rightarrow> 'w) \<Rightarrow> conn_event list \<Rightarrow> client \<Rightarrow> 'w world \<Rightarrow> resources
      \<Rightarrow> ('w world \<times> resources) option" where
  "server_job_function E arrive evs client w r = do {
     (client', w') \<leftarrow> serve E arrive evs client w;
     let r1 = (if 0 \<le> fd client \<and> fd client' < 0 then close_fd (fd client) r else r);
         r2 = closeAndFreeClient client' r1;
         w2 = (if 0 \<le> fd client' then w'\<lparr>closed_fds := closed_fds w' @ [fd client']\<rparr> else w') in
     Some (w2, r2\<lparr>n_jobs := n_jobs r2 - 1\<rparr>) }"

lemma on_accept_failed:
  assumes "on_accept a r = (None, r')"
  shows "r' = r"
  using assms
  by (auto simp: on_accept_def closeAndFreeClient_def closeClient_res_def close_fd_def Let_def
      split: if_splits)

lemma on_accept_client:
  assumes "on_accept a r = (Some c, r')"
  shows "0 \<le> fd c" and "evbase c \<noteq> None" and "buf_ev c \<noteq> None" and "output_buffer c \<noteq> None"
    and "pBlock c = Some fresh_block" and "fd c = client_fd a"
    and "r' = \<lparr>open_fds = client_fd a # open_fds r, n_clients = n_clients r + 1,
      n_output_buffers = n_output_buffers r + 1, n_event_bases = n_event_bases r + 1,
      n_blocks = n_blocks r + 1, n_bufferevents = n_bufferevents r + 1, n_jobs = n_jobs r + 1\<rparr>"
  using assms by (auto simp: on_accept_def Let_def split: if_splits)

section \<open>The members of a client while it is served\<close>

text \<open>
  No callback frees or replaces a member of the client; a callback can only close the
  descriptor.
\<close>

definition same_members :: "client \<Rightarrow> client \<Rightarrow> bool" where
  "same_members c c' \<longleftrightarrow> evbase c' = evbase c \<and> buf_ev c' = buf_ev c \<and> output_buffer c' = output_buffer c
     \<and> (pBlock c' = None \<longleftrightarrow> pBlock c = None) \<and> (fd c' = fd c \<or> fd c' < 0)"

lemma same_members_refl [simp]: "same_members c c"
  by (simp add: same_members_def)

lemma same_members_trans: "same_members a b \<Longrightarrow> same_members b c \<Longrightarrow> same_members a c"
  by (auto simp: same_members_def)

lemma closeClient_members: "closeClient c w = (c', w') \<Longrightarrow> same_members c c'"
  by (auto simp: closeClient_def same_members_def split: if_splits)

lemma flush_members: "flush_output E c w = (c', w') \<Longrightarrow> same_members c c'"
  by (auto simp: flush_output_def dest: closeClient_members split: prod.splits if_splits)

lemma return_members: "apolloReturnPacket E c b n w = Some (c', w') \<Longrightarrow> same_members c c'"
  by (auto simp: apolloReturnPacket_def run_simps dest: flush_members)

lemma return12_members: "return12 E c b w = Some (c', w') \<Longrightarrow> same_members c c'"
  by (auto simp: return12_def run_simps dest: return_members)

lemma block_members: "same_members c (c\<lparr>pBlock := Some pb\<rparr>) \<longleftrightarrow> pBlock c \<noteq> None"
  by (auto simp: same_members_def)

lemma same_members_block: "pBlock c = Some b \<Longrightarrow> same_members (c\<lparr>pBlock := Some pb\<rparr>) c' \<Longrightarrow> same_members c c'"
  by (auto simp: same_members_def)

lemma account_members: "phoneOperatorUserInfo E c p n w = Some (r, c', w') \<Longrightarrow> same_members c c'"
  by (auto simp: phoneOperatorUserInfo_def register_user_def signin_user_def update_pwd_def run_simps
      split: if_splits dest: return12_members)

lemma send_loop_members: "block_send_loop E c buf s n w = Some (c', w') \<Longrightarrow> same_members c c'"
proof (induction E c buf s n w rule: block_send_loop.induct)
  case (1 E c buf s n w)
  show ?case
  proof (cases "s < n")
    case False
    with "1.prems" show ?thesis by (simp add: block_send_loop.simps [of E c buf])
  next
    case True
    let ?k = "if 1024 \<le> n - s then 1024 else n - s"
    obtain w1 c1 w2 where q: "queue_output E c buf s ?k w = Some w1" "flush_output E c w1 = (c1, w2)"
        "block_send_loop E c1 buf (s + ?k) n w2 = Some (c', w')"
      using "1.prems" True
      by (cases "1024 \<le> n - s") (auto simp: block_send_loop.simps [of E c buf s] run_simps)
    have "same_members c1 c'" using "1.IH" True q by (cases "1024 \<le> n - s") (auto simp: Let_def)
    then show ?thesis using flush_members [OF q(2)] by (blast intro: same_members_trans)
  qed
qed

lemma download_members: "deviceBlockDataSendPacket E c p n w = Some (r, c', w') \<Longrightarrow> same_members c c'"
  by (auto simp: deviceBlockDataSendPacket_def run_simps block_members split: if_splits
      dest!: send_loop_members intro: same_members_block)

lemma on_block_members: "on_block E c bi n w = Some (c', bi', w') \<Longrightarrow> same_members c c'"
  by (auto simp: on_block_def run_simps block_members split: if_splits
      dest!: return_members intro: same_members_block)

lemma heart_members: "on_device_heart E c d n w = Some (c', w') \<Longrightarrow> same_members c c'"
  by (auto simp: on_device_heart_def run_simps split: if_splits dest: return_members)

lemma phone_members: "on_phone_heart E c d n w = Some (c', w') \<Longrightarrow> same_members c c'"
  by (auto simp: on_phone_heart_def run_simps split: if_splits dest: return_members)

lemma location_members: "on_location E c d n w = Some (c', w') \<Longrightarrow> same_members c c'"
  by (auto simp: on_location_def run_simps dest: return_members)

lemma dispatch_members: "dispatch E c bi n w = Some (c', bi', w') \<Longrightarrow> same_members c c'"
  by (auto simp: dispatch_def run_simps split: if_splits
      dest: heart_members phone_members location_members account_members download_members on_block_members)

lemma read_chunk_members: "read_chunk E c bi w = Some (c', n, w') \<Longrightarrow> same_members c c'"
  by (auto simp: read_chunk_def run_simps block_members)

lemma parse_members_pair:
  assumes "parse_loop E c bi w = Some y"
  shows "same_members c (fst y)"
  using assms
proof (rule parse_loop.raw_induct [rotated, where P = "\<lambda>E c bi w y. same_members c (fst y)"])
  fix parse :: "'a externals \<Rightarrow> client \<Rightarrow> 32 word \<Rightarrow> 'a world \<Rightarrow> (client \<times> 'a world) option"
    and E :: "'a externals" and c bi w and y :: "client \<times> 'a world"
  assume IH: "\<And>E c bi w y. parse E c bi w = Some y \<Longrightarrow> same_members c (fst y)"
    and body: "Option.bind (read_chunk E c bi w) (\<lambda>r.
       if fst (snd r) = 0 then Some (fst r, snd (snd r))
       else Option.bind (dispatch E (fst r) bi (fst (snd r)) (snd (snd r))) (\<lambda>s.
         parse E (fst s) (fst (snd s)) (snd (snd s)))) = Some y"
  obtain c1 n w1 where r: "read_chunk E c bi w = Some (c1, n, w1)"
    using body by (cases "read_chunk E c bi w") auto
  have m: "same_members c c1" using r by (rule read_chunk_members)
  show "same_members c (fst y)"
  proof (cases "n = 0")
    case True
    then show ?thesis using body r m by auto
  next
    case False
    then obtain c2 bi2 w2 where d: "dispatch E c1 bi n w1 = Some (c2, bi2, w2)"
        "parse E c2 bi2 w2 = Some y"
      using body r by (cases "dispatch E c1 bi n w1") auto
    show ?thesis using m dispatch_members [OF d(1)] IH [OF d(2)] by (blast intro: same_members_trans)
  qed
qed

lemma parse_members: "apolloParsePacket E c w = Some (c', w') \<Longrightarrow> same_members c c'"
  using parse_members_pair [of E c] by (fastforce simp: apolloParsePacket_def run_simps)

lemma serve_members: "serve E arrive evs c w = Some (c', w') \<Longrightarrow> same_members c c'"
proof (induction evs arbitrary: c w)
  case Nil
  then show ?case by simp
next
  case (Cons ev evs)
  obtain c1 w1 where s: "serve E arrive evs c1 w1 = Some (c', w')" and m: "same_members c c1"
  proof (cases ev)
    case (Readable xs)
    then show ?thesis
      using Cons.prems that by (auto simp: run_simps buffered_on_read_def dest: parse_members)
  next
    case Writable
    then show ?thesis using Cons.prems that by (auto simp: run_simps buffered_on_write_def)
  next
    case Failed
    then show ?thesis
      using Cons.prems that by (auto simp: run_simps buffered_on_error_def dest: closeClient_members)
  qed
  show ?case using Cons.IH [OF s] m by (blast intro: same_members_trans)
qed

text \<open>Accept, serve, free: nothing is left allocated.\<close>

lemma closeAndFree_all:
  assumes "evbase c \<noteq> None" and "buf_ev c \<noteq> None" and "output_buffer c \<noteq> None" and "pBlock c \<noteq> None"
  shows "closeAndFreeClient c r =
    \<lparr>open_fds = (if 0 \<le> fd c then remove1 (fd c) (open_fds r) else open_fds r),
     n_clients = n_clients r - 1, n_output_buffers = n_output_buffers r - 1,
     n_event_bases = n_event_bases r - 1, n_blocks = n_blocks r - 1,
     n_bufferevents = n_bufferevents r - 1, n_jobs = n_jobs r\<rparr>"
  using assms by (auto simp: closeAndFreeClient_def closeClient_res_def close_fd_def Let_def)

lemma serve_releases:
  assumes "on_accept a r = (Some c, r1)" and "server_job_function E arrive evs c w r1 = Some (w', r2)"
  shows "r2 = r"
proof -
  note acc = on_accept_client [OF assms(1)]
  obtain c' w1 where s: "serve E arrive evs c w = Some (c', w1)"
    using assms(2) by (auto simp: server_job_function_def run_simps)
  have m: "same_members c c'" using s by (rule serve_members)
  then have "evbase c' \<noteq> None" "buf_ev c' \<noteq> None" "output_buffer c' \<noteq> None" "pBlock c' \<noteq> None"
    using acc by (auto simp: same_members_def)
  note free = closeAndFree_all [OF this]
  have "fd c' = fd c \<or> fd c' < 0" using m by (simp add: same_members_def)
  then show ?thesis
    using assms(2) acc(1,6,7) s by (auto simp: server_job_function_def run_simps free close_fd_def)
qed

section \<open>Starting and stopping\<close>

text \<open>
  The outcomes of the calls of \<open>runServer\<close>: \<open>err\<close> ends the process. \<open>Returned\<close> carries the result,
  the descriptors still open and the event base still allocated at the end.
\<close>

record start_outcome =
  listenfd :: int
  bind_ok :: bool
  listen_ok :: bool
  listen_getfl :: int
  listen_setfl :: int
  accept_base :: "nat option"
  queue_result :: int

datatype server_end = Exited int | Returned int "int list" "nat option"

definition NUM_THREADS :: int where [simp]: "NUM_THREADS = 40"

definition runServer :: "start_outcome \<Rightarrow> server_end" where
  "runServer o' =
     (if listenfd o' < 0 then Exited 1
      else if \<not> bind_ok o' then Exited 1
      else if \<not> listen_ok o' then Exited 1
      else if setnonblock (listen_getfl o') (listen_setfl o') < 0 then Exited 1
      else if accept_base o' = None then Returned 1 (remove1 (listenfd o') [listenfd o']) None
      else if queue_result o' \<noteq> 0 then Returned 1 (remove1 (listenfd o') [listenfd o']) (accept_base o')
      else Returned 0 (remove1 (listenfd o') [listenfd o']) None)"

lemma runServer_closes: "runServer o' = Returned n ds b \<Longrightarrow>
    ds = [] \<and> (b \<noteq> None \<longleftrightarrow> queue_result o' \<noteq> 0 \<and> accept_base o' \<noteq> None) \<and> (n = 0 \<longrightarrow> b = None)"
  by (auto simp: runServer_def split: if_splits; metis)

text \<open>
  \<open>killServer\<close>, the signal handler's work: a failure to stop the accept loop is only printed,
  and the work queue is shut down in any case.
\<close>

definition killServer :: "int \<Rightarrow> nat \<Rightarrow> (bool, 'j) workqueue \<Rightarrow> (bool, 'j) workqueue option" where
  "killServer loopexit_result fuel q = workqueue_shutdown fuel q"

definition StartApolloSyner :: "'w world \<Rightarrow> 'w world" where
  "StartApolloSyner w = pthread_create Start_ApolloSyner w"

definition StartApolloSynerAction :: "MulticastSynerPacket \<Rightarrow> 'w world \<Rightarrow> 'w world" where
  "StartApolloSynerAction arg w = pthread_create (Start_ApolloSynerAction arg) w"

definition main_init :: "'w externals \<Rightarrow> 'w world \<Rightarrow> 'w world option" where
  "main_init E w = do {
     w1 \<leftarrow> initUserInfoList E w;
     w2 \<leftarrow> initUserAndDeviceRelationshipList E w1;
     Some (StartApolloSyner w2) }"

end
