(* ===== verification/Robot_Broker.thy ===== *)
theory Robot_Broker
  imports Robot_Server
begin

text \<open>
  What the server is for, stated without packets, buffers and Redis: a broker between
  devices and phones. It knows the owner of a device and the device a phone watches, keeps at
  most one waiting command per device and the last report per user, and answers each message
  with a text. \<open>represents\<close> relates the broker to the keys and values the handlers use in Redis;
  its lemmas say that the key spaces do not overlap and how each change of the broker appears in
  the store.
\<close>

section \<open>The broker\<close>

datatype command = Plain byte | Indexed byte | Numbered byte byte "byte list"

primrec command_text :: "command \<Rightarrow> byte list" where
  "command_text (Plain c) = single_command c"
| "command_text (Indexed i) = index_command 0x44 i"
| "command_text (Numbered c i num) = full_command c i num"

primrec command_ok :: "command \<Rightarrow> bool" where
  "command_ok (Plain c) \<longleftrightarrow> single c"
| "command_ok (Indexed i) \<longleftrightarrow> True"
| "command_ok (Numbered c i num) \<longleftrightarrow> numbered c \<and> length num = 8"

record broker =
  owner :: "byte list \<rightharpoonup> nat"
  watch :: "nat \<rightharpoonup> byte list"
  waiting :: "byte list \<rightharpoonup> command"
  report :: "nat \<rightharpoonup> byte list"

text \<open>
  The messages. A device is named by eight bytes, a phone by four; the rest of the packet is
  kept as it is. The last constructor has the command, its index and nine more bytes, of which
  eight are a telephone number.
\<close>

datatype message =
    Device_heart "byte list" "byte list"
  | Device_location "byte list" "byte list"
  | Phone_heart "byte list" "byte list"
  | Phone_command "byte list" byte byte "byte list"

primrec encode :: "message \<Rightarrow> byte list" where
  "encode (Device_heart d x) = 0x48 # d @ x"
| "encode (Device_location d x) = 0x47 # d @ x"
| "encode (Phone_heart p x) = 0x50 # p @ x"
| "encode (Phone_command p c i x) = 0x43 # p @ [c, i] @ x"

primrec message_ok :: "message \<Rightarrow> bool" where
  "message_ok (Device_heart d x) \<longleftrightarrow> length d = 8 \<and> length x = 23"
| "message_ok (Device_location d x) \<longleftrightarrow> length d = 8 \<and> length x = 23"
| "message_ok (Phone_heart p x) \<longleftrightarrow> length p = 4 \<and> length x = 3"
| "message_ok (Phone_command p c i x) \<longleftrightarrow> length p = 4 \<and> length x = 9
     \<and> c \<noteq> CMD_PHONE_DEVICE_REALTIME_LOCATION"

text \<open>The number of a phone: its decimal digits up to the first letter.\<close>

definition number_of :: "byte list \<Rightarrow> nat" where
  "number_of p = scan_digits 0 (hex_text p)"

definition state_report :: "byte list \<Rightarrow> byte list" where
  "state_report x = bytes ''I_'' @ hex_text (take 12 x) @ bytes ''_'' @ dec (signed_le (take 4 (drop 15 x)))"

definition place_report :: "nat \<Rightarrow> byte list \<Rightarrow> byte list" where
  "place_report width x = bytes ''G_'' @ coord_text CHR ''E'' (take 5 (drop 1 x)) @ bytes ''_''
     @ coord_text CHR ''N'' (take 5 (drop 6 x)) @ bytes ''_'' @ dec (signed_le (take 4 (drop 15 x)))
     @ bytes ''_0_'' @ dec (signed_le (take width (drop 11 x)))"

definition time_answer :: "tm \<Rightarrow> byte list" where
  "time_answer t = bytes ''RETOK'' @ [0] @ time_bytes t @ [0]"

primrec command_answer :: "command \<Rightarrow> byte list" where
  "command_answer (Plain c) = bytes ''CET'' @ [c] @ bytes ''K%''"
| "command_answer (Indexed i) = bytes ''C'' @ [0, 0, 0x44, i] @ replicate 15 0"
| "command_answer (Numbered c i num) = bytes ''C'' @ [0, 0, c, i] @ map recode num @ replicate 7 0"

definition command_of :: "byte \<Rightarrow> byte \<Rightarrow> byte list \<Rightarrow> command option" where
  "command_of c i num =
     (if numbered c then Some (Numbered c i num)
      else if c = CMD_PHONE_DEVICE_FREQ_SET then Some (Indexed i)
      else if single c then Some (Plain c)
      else None)"

text \<open>The answer to a message and the broker after it.\<close>

fun respond :: "nat \<Rightarrow> tm \<Rightarrow> message \<Rightarrow> broker \<Rightarrow> byte list \<times> broker" where
  "respond width t (Device_heart d x) b =
     (case owner b d of
        None \<Rightarrow> (time_answer t, b)
      | Some u \<Rightarrow>
          let b1 = b\<lparr>report := (report b)(u \<mapsto> state_report x)\<rparr> in
          (case waiting b d of
             None \<Rightarrow> (time_answer t, b1)
           | Some c \<Rightarrow> (command_answer c, b1\<lparr>waiting := (waiting b)(d := None)\<rparr>)))"
| "respond width t (Device_location d x) b =
     (bytes ''RETOK%'',
      case owner b d of None \<Rightarrow> b | Some u \<Rightarrow> b\<lparr>report := (report b)(u \<mapsto> place_report width x)\<rparr>)"
| "respond width t (Phone_heart p x) b =
     (bytes ''RET:'' @ (case report b (number_of p) of None \<Rightarrow> [] | Some r \<Rightarrow> r), b)"
| "respond width t (Phone_command p c i x) b =
     ([], case watch b (number_of p) of
        None \<Rightarrow> b
      | Some d \<Rightarrow> (case command_of c i (take 8 x) of
          None \<Rightarrow> b
        | Some cmd \<Rightarrow> b\<lparr>waiting := (waiting b)(d \<mapsto> cmd)\<rparr>))"

text \<open>A session: the messages in the order they are handled, each with its connection.\<close>

primrec converse_with :: "nat \<Rightarrow> tm \<Rightarrow> ('c \<times> message) list \<Rightarrow> broker \<Rightarrow> ('c \<times> byte list) list \<times> broker" where
  "converse_with width t [] b = ([], b)"
| "converse_with width t (e # es) b =
     (case respond width t (snd e) b of (a, b1) \<Rightarrow>
        case converse_with width t es b1 of (as, b2) \<Rightarrow> ((fst e, a) # as, b2))"

definition answers_to :: "'c \<Rightarrow> ('c \<times> byte list) list \<Rightarrow> byte list" where
  "answers_to c as = concat (map snd (filter (\<lambda>a. fst a = c) as))"

lemma answers_to_simps [simp]: "answers_to c [] = []"
    "answers_to c (a # as) = (if fst a = c then snd a else []) @ answers_to c as"
  by (simp_all add: answers_to_def)

section \<open>The broker in Redis\<close>

definition broker_ok :: "broker \<Rightarrow> bool" where
  "broker_ok b \<longleftrightarrow> (\<forall>d u. owner b d = Some u \<longrightarrow> u < 10 ^ 8)
     \<and> (\<forall>n d. watch b n = Some d \<longrightarrow> length d = 8)
     \<and> (\<forall>d c. waiting b d = Some c \<longrightarrow> command_ok c)
     \<and> (\<forall>n r. report b n = Some r \<longrightarrow> clean r \<and> length r \<le> 254)"

text \<open>
  Under \<open>R_\<close> and a device lies its owner, under \<open>RP_\<close> and a phone its device, under the bare
  device the waiting command, under the bare user the report.
\<close>

definition represents :: "(byte list \<rightharpoonup> byte list) \<Rightarrow> broker \<Rightarrow> bool" where
  "represents m b \<longleftrightarrow> broker_ok b
     \<and> (\<forall>d. length d = 8 \<longrightarrow> m (bytes ''R_'' @ hex_text d) = map_option (\<lambda>u. dec (int u)) (owner b d)
          \<and> m (hex_text d) = map_option command_text (waiting b d))
     \<and> (\<forall>n < 10 ^ 8. m (bytes ''RP_'' @ dec (int n)) = map_option hex_text (watch b n)
          \<and> m (dec (int n)) = report b n)"

section \<open>Keys\<close>

lemma hex_digit_inject: "hex_digit (hi_nibble x) = hex_digit (hi_nibble y)
    \<and> hex_digit (lo_nibble x) = hex_digit (lo_nibble y) \<longleftrightarrow> x = y"
proof -
  let ?unhex = "\<lambda>h l :: byte. (if h \<le> 57 then h - 48 else h - 55) * 16 + (if l \<le> 57 then l - 48 else l - 55)"
  have inv: "?unhex (hex_digit (hi_nibble x)) (hex_digit (lo_nibble x)) = x" for x
    by (rule byte_all [where x = x]) code_simp
  show ?thesis using inv [of x] inv [of y] by metis
qed

lemma hex_text_inject: "length d = length d' \<Longrightarrow> hex_text d = hex_text d' \<longleftrightarrow> d = d'"
  by (induction d d' rule: list_induct2) (auto dest: hex_digit_inject [THEN iffD1, OF conjI])

lemma dec_inject: "dec (int n) = dec (int k) \<longleftrightarrow> n = k"
proof
  assume "dec (int n) = dec (int k)"
  then have "scan_digits 0 (dec_nat n @ []) = scan_digits 0 (dec_nat k @ [])" by (simp add: dec_def)
  then show "n = k" unfolding scan_dec_nat by simp
qed simp

lemma length_dec_user: "n < 10 ^ 8 \<Longrightarrow> length (dec (int n)) \<le> 8"
  by (intro dec_nonneg_length) auto

lemma keys_differ:
  assumes "length d = 8" and "n < 10 ^ 8"
  shows "dec (int n) \<noteq> hex_text d" and "hex_text d \<noteq> dec (int n)"
proof -
  have "length (dec (int n)) < length (hex_text d)" using assms(1) length_dec_user [OF assms(2)] by simp
  then show "dec (int n) \<noteq> hex_text d" and "hex_text d \<noteq> dec (int n)" by (metis less_irrefl)+
qed

lemma hex_prefix_differ:
  assumes "length d = 8" and "length e = 8"
  shows "bytes ''R_'' @ hex_text e \<noteq> hex_text d" and "hex_text d \<noteq> bytes ''R_'' @ hex_text e"
proof -
  have "length (bytes ''R_'' @ hex_text e) \<noteq> length (hex_text d)" using assms by simp
  then show "bytes ''R_'' @ hex_text e \<noteq> hex_text d" and "hex_text d \<noteq> bytes ''R_'' @ hex_text e"
    by metis+
qed

lemma phone_prefix_differ:
  assumes "length d = 8" and "n < 10 ^ 8"
  shows "bytes ''RP_'' @ dec (int n) \<noteq> hex_text d" and "hex_text d \<noteq> bytes ''RP_'' @ dec (int n)"
proof -
  have "length (bytes ''RP_'' @ dec (int n)) < length (hex_text d)"
    using assms(1) length_dec_user [OF assms(2)] by simp
  then show "bytes ''RP_'' @ dec (int n) \<noteq> hex_text d" and "hex_text d \<noteq> bytes ''RP_'' @ dec (int n)"
    by (metis less_irrefl)+
qed

lemma user_no_letter:
  "dec (int n) \<noteq> bytes ''R_'' @ s" "dec (int n) \<noteq> bytes ''RP_'' @ s"
  "bytes ''R_'' @ s \<noteq> dec (int n)" "bytes ''RP_'' @ s \<noteq> dec (int n)"
proof -
  have "82 \<notin> set (dec (int n))" using dec_nat_digits [of 82 n] by (auto simp: dec_def isdigit_def)
  moreover have "82 \<in> set (bytes ''R_'' @ s)" "82 \<in> set (bytes ''RP_'' @ s)" by (simp_all add: bytes_def)
  ultimately show "dec (int n) \<noteq> bytes ''R_'' @ s" "dec (int n) \<noteq> bytes ''RP_'' @ s"
    "bytes ''R_'' @ s \<noteq> dec (int n)" "bytes ''RP_'' @ s \<noteq> dec (int n)" by metis+
qed

lemmas key_simps = hex_text_inject dec_inject keys_differ hex_prefix_differ phone_prefix_differ
  user_no_letter prefixes_differ

section \<open>Reading and writing the broker\<close>

lemma represents_ok: "represents m b \<Longrightarrow> broker_ok b"
  by (simp add: represents_def)

lemma represents_reads:
  assumes "represents m b"
  shows "length d = 8 \<Longrightarrow> m (bytes ''R_'' @ hex_text d) = map_option (\<lambda>u. dec (int u)) (owner b d)"
    and "length d = 8 \<Longrightarrow> m (hex_text d) = map_option command_text (waiting b d)"
    and "n < 10 ^ 8 \<Longrightarrow> m (bytes ''RP_'' @ dec (int n)) = map_option hex_text (watch b n)"
    and "n < 10 ^ 8 \<Longrightarrow> m (dec (int n)) = report b n"
  using assms by (simp_all add: represents_def)

lemma represents_report:
  assumes "represents m b" and "n < 10 ^ 8" and "clean r" and "length r \<le> 254"
  shows "represents (m(dec (int n) \<mapsto> r)) (b\<lparr>report := (report b)(n \<mapsto> r)\<rparr>)"
  using assms by (auto simp: represents_def broker_ok_def key_simps)

lemma represents_waiting:
  assumes "represents m b" and "length d = 8" and "command_ok c"
  shows "represents (m(hex_text d \<mapsto> command_text c)) (b\<lparr>waiting := (waiting b)(d \<mapsto> c)\<rparr>)"
  using assms by (auto simp: represents_def broker_ok_def key_simps)

lemma represents_delivered:
  assumes "represents m b" and "length d = 8"
  shows "represents (m(hex_text d := None)) (b\<lparr>waiting := (waiting b)(d := None)\<rparr>)"
  using assms by (auto simp: represents_def broker_ok_def key_simps split: if_splits)

end
