(* ===== verification/Robot_Protocol.thy ===== *)
theory Robot_Protocol
  imports Robot_Broker
begin

text \<open>
  The server refines the broker: each handler of a message answers what \<^const>\<open>respond\<close> says
  and keeps the store of Redis a representation of the broker, and a session over any number
  of connections is a run of the broker. What a handler must leave alone (the bytes of the
  connections, the idle database connections) is an observation that library calls keep:
  the locales \<open>redis_quiet\<close> and \<open>library_quiet\<close>.
\<close>

unbundle bit_operations_syntax

section \<open>Observations the library calls keep\<close>

locale redis_quiet =
  fixes E :: "'w externals" and obs :: "'w \<Rightarrow> 'o"
  assumes redis_obs: "redisCommand E cmd e = (r, e') \<Longrightarrow> obs e' = obs e"
begin

lemma set_obs: "set_key_toredis E k v w = Some (r, w') \<Longrightarrow> obs (ext w') = obs (ext w)"
  by (auto simp: set_key_toredis_def with_ext_eq run_simps dest: redis_obs split: if_splits)

lemma get_obs: "get_value_fromredis E k b i w = Some (r, b', w') \<Longrightarrow> obs (ext w') = obs (ext w)"
  by (auto simp: get_value_fromredis_def with_ext_eq run_simps dest: redis_obs split: if_splits)

lemma del_obs: "del_redis_key E k w = Some (r, w') \<Longrightarrow> obs (ext w') = obs (ext w)"
  by (auto simp: del_redis_key_def with_ext_eq run_simps dest: redis_obs split: if_splits)

lemma heart_command_obs: "heart_command E d i w = Some (r, i', w') \<Longrightarrow> obs (ext w') = obs (ext w)"
  by (auto simp: heart_command_def run_simps split: if_splits dest!: get_obs del_obs)

lemma heart_obs: "deviceHeartPacket E p n i w = Some (r, i', w') \<Longrightarrow> obs (ext w') = obs (ext w)"
  by (auto simp: deviceHeartPacket_def falldown_thread_def pthread_create_def run_simps
      split: if_splits dest!: get_obs set_obs heart_command_obs)

lemma phone_heart_obs: "phoneHeaderPacket E p n i k w = Some (r, i', w') \<Longrightarrow> obs (ext w') = obs (ext w)"
  by (auto simp: phoneHeaderPacket_def run_simps split: if_splits dest!: get_obs)

lemma publish_obs: "publish_location E row u w = Some (r, w') \<Longrightarrow> obs (ext w') = obs (ext w)"
  by (auto simp: publish_location_def run_simps dest: set_obs)

lemma phone_device_obs: "phone_device E n w = Some (d, w') \<Longrightarrow> obs (ext w') = obs (ext w)"
  by (auto simp: phone_device_def run_simps dest: get_obs)

end

locale library_quiet = redis_quiet +
  assumes take_obs: "ConnectionPool_getConnection E e = (c, e') \<Longrightarrow> obs e' = obs e"
    and execute_obs: "Connection_execute E k s a e = Some e' \<Longrightarrow> obs e' = obs e"
    and query_obs: "Connection_executeQuery E k s a e = Some (q, e') \<Longrightarrow> obs e' = obs e"
    and close_obs: "obs (Connection_close E k e) = obs e"
begin

lemmas sql_obs = take_obs execute_obs query_obs publish_obs

lemma insert_obs: "insertDeviceGps E a b c d w = Some (r, w') \<Longrightarrow> obs (ext w') = obs (ext w)"
  by (auto simp: insertDeviceGps_def take_connection_def with_ext_eq run_execute_def give_connection_def
      close_obs run_simps dest!: sql_obs)

lemma newest_obs: "selectLocationNewItem E d u w = Some (r, w') \<Longrightarrow> obs (ext w') = obs (ext w)"
  by (auto simp: selectLocationNewItem_def take_connection_def with_ext_eq run_query_def give_connection_def
      close_obs run_simps dest!: sql_obs split: list.splits)

lemma command_obs: "phoneCommandPacket E p n w = Some (r, w') \<Longrightarrow> obs (ext w') = obs (ext w)"
  by (auto simp: phoneCommandPacket_def run_simps case_option_Some_conv split: if_splits
      dest!: phone_device_obs set_obs newest_obs)

lemma location_obs: "deviceLocationPacket E p n w = Some (r, w') \<Longrightarrow> obs (ext w') = obs (ext w)"
  by (auto simp: deviceLocationPacket_def location_thread_def pthread_create_def run_simps
      split: if_splits dest!: get_obs set_obs insert_obs)

end

sublocale backend \<subseteq> pool: redis_quiet E idle
  by unfold_locales (rule redis_idle)

context backend
begin

lemma command_idle: "phoneCommandPacket E p n w = Some (r, w') \<Longrightarrow> idle (ext w') = idle (ext w)"
  by (auto simp: phoneCommandPacket_def run_simps case_option_Some_conv split: if_splits
      dest!: pool.phone_device_obs pool.set_obs selectLocationNewItem_balanced)

end

text \<open>No handler sets the clock.\<close>

lemma heart_time: "deviceHeartPacket E p n i w = Some (r, i', w') \<Longrightarrow> localtime_now w' = localtime_now w"
  by (auto simp: deviceHeartPacket_def falldown_thread_def pthread_create_def run_simps
      split: if_splits dest!: redis_frames heart_command_frame [THEN same_but_ext_iff [THEN iffD1]])

lemma location_time: "deviceLocationPacket E p n w = Some (r, w') \<Longrightarrow> localtime_now w' = localtime_now w"
  by (auto simp: deviceLocationPacket_def location_thread_def pthread_create_def run_simps split: if_splits
      dest!: redis_frames insertDeviceGps_frame [THEN same_but_ext_iff [THEN iffD1]])

lemma phone_heart_time: "phoneHeaderPacket E p n i k w = Some (r, i', w') \<Longrightarrow> localtime_now w' = localtime_now w"
  by (auto simp: phoneHeaderPacket_def run_simps split: if_splits dest!: redis_frames)

lemma command_time: "phoneCommandPacket E p n w = Some (r, w') \<Longrightarrow> localtime_now w' = localtime_now w"
  by (auto dest: phoneCommandPacket_frame same_but_ext_fields)

section \<open>The fields of a message in the packet buffer\<close>

lemma device_fields:
  assumes "pkt = h # d @ x @ old" and "length d = 8" and "length x = 23"
  shows "dev_id pkt = hex_text d" and "heart_info pkt = state_report x"
    and "width \<le> 8 \<Longrightarrow> location_info width pkt = place_report width x"
proof -
  have d: "drop n pkt = drop (n - 9) (x @ old)" if "9 \<le> n" for n
    using that assms by (cases n) auto
  show "dev_id pkt = hex_text d" using assms by (simp add: dev_id_def)
  show "heart_info pkt = state_report x"
    using assms(3) by (simp add: heart_info_def state_report_def d)
  show "location_info width pkt = place_report width x" if "width \<le> 8"
    using assms(3) that
    by (simp add: location_info_def place_report_def longitude_of_def latitude_of_def d)
qed

lemma phone_fields:
  assumes "pkt = h # p @ x" and "length p = 4"
  shows "phone_number pkt = int (number_of p)" and "number_of p < 10 ^ 8"
proof -
  show "phone_number pkt = int (number_of p)" using assms by (simp add: phone_number_def number_of_def)
  show "number_of p < 10 ^ 8" using scan_digits_bound [of 0 "hex_text p"] assms(2) by (simp add: number_of_def)
qed

lemma command_fields:
  assumes "pkt = 0x43 # p @ [c, i] @ x @ old" and "length p = 4" and "length x = 9"
  shows "pkt ! 5 = c" and "pkt ! 6 = i" and "take 8 (drop 7 pkt) = take 8 x"
  using assms by (simp_all add: nth_append nth_Cons')

section \<open>The handlers and the broker\<close>

definition send_answer :: "'w externals \<Rightarrow> client \<Rightarrow> byte list \<Rightarrow> 'w world \<Rightarrow> client \<times> 'w world" where
  "send_answer E client a w = flush_output E client (w\<lparr>ext := evbuffer_add E a (ext w)\<rparr>)"

lemma return_answer:
  assumes "output_buffer client \<noteq> None" and "n \<le> length b"
  shows "apolloReturnPacket E client b n w = Some (send_answer E client (take n b) w)"
  using assms by (auto simp: apolloReturnPacket_def queue_output_def fetch_def send_answer_def)

lemma single_class: "single c \<Longrightarrow> uint c AND 0xF0 \<noteq> 64"
  by (auto simp: single_def checkPhoneCommand_def split: if_splits)

text \<open>What the dispatcher makes of the result of the heart beat.\<close>

lemma heart_time_answer:
  assumes "deviceHeartPacket E data n (replicate 20 0) w = Some (r, i, w1)" and "r = 0 \<or> r = -1 \<or> r = -2"
    and "output_buffer client \<noteq> None"
  shows "on_device_heart E client data n w = Some (send_answer E client (time_answer (localtime_now w1)) w1)"
proof -
  have "sprintf_at (replicate 14 0) 0 (bytes ''RETOK'') = Some (bytes ''RETOK'' @ replicate 9 0)"
    by (simp add: sprintf_at_def blit_def numeral_eq_Suc)
  moreover have "writeTimeHeader t (bytes ''RETOK'' @ replicate 9 0) 6 = Some (time_answer t)" for t
    by (simp add: writeTimeHeader_blit blit_def time_answer_def time_bytes_def numeral_eq_Suc)
  moreover have "length (time_answer t) = 14" for t by (simp add: time_answer_def time_bytes_def)
  ultimately show ?thesis
    using assms by (auto simp: on_device_heart_def return_answer)
qed

lemma heart_plain_answer:
  assumes "deviceHeartPacket E data n (replicate 20 0) w = Some (uint c, i, w1)" and "single c"
    and "output_buffer client \<noteq> None"
  shows "on_device_heart E client data n w = Some (send_answer E client (command_answer (Plain c)) w1)"
proof -
  have "0 < uint c" using single_uint [OF assms(2)] by simp
  then show ?thesis
    using assms single_class [OF assms(2)]
    by (simp add: on_device_heart_def return_answer retTOK_def bytes_def)
qed

lemma heart_numbered_answer:
  assumes "deviceHeartPacket E data n (replicate 20 0) w = Some (64, i, w1)" and "length i = 20"
    and "output_buffer client \<noteq> None"
  shows "on_device_heart E client data n w = Some (send_answer E client (i[0 := of_char CHR ''C'']) w1)"
  using assms by (simp add: on_device_heart_def return_answer)

context redis_server
begin

lemma heart_delivers:
  assumes "plain dev" and "length dev < 252" and "kv (ext w) dev = Some (command_text c)" and "command_ok c"
    and "\<And>r i w1. heart_command E dev (replicate 20 0) w = Some (r, i, w1) \<Longrightarrow>
        deviceHeartPacket E data n (replicate 20 0) v = Some (r, i, w1)"
    and "output_buffer client \<noteq> None"
  shows "\<exists>r i w1. deviceHeartPacket E data n (replicate 20 0) v = Some (r, i, w1)
    \<and> on_device_heart E client data n v = Some (send_answer E client (command_answer c) w1)
    \<and> kv (ext w1) = (kv (ext w))(dev := None)"
proof (cases c)
  case (Plain x)
  then have s: "single x" "kv (ext w) dev = Some (single_command x)" using assms(3,4) by simp_all
  obtain w1 where w1: "heart_command E dev (replicate 20 0) w = Some (uint x, replicate 20 0, w1)"
      "kv (ext w1) = (kv (ext w))(dev := None)"
    using heart_command_single [OF assms(1,2) s(2), of "replicate 20 0"] single_uint [OF s(1)] by auto
  show ?thesis
    using assms(5) [OF w1(1)] heart_plain_answer [OF assms(5) [OF w1(1)] s(1) assms(6)] w1(2) Plain by blast
next
  case (Indexed x)
  let ?t = "index_command 0x44 x" and ?i = "(replicate 20 0)[3 := 0x44, 4 := x] :: byte list"
  have "length (dec 68) = 2" and "1 \<le> length (dec (sint x))"
    by (simp add: dec_def dec_nat.simps) (simp add: Suc_le_eq)
  then have l: "4 \<le> length ?t" "length ?t \<le> 254"
    using length_sint [of x] by (simp_all add: index_command_def)
  have p: "heart_param ?t (replicate 20 0) = Some (sint (0x44 :: byte), ?i)"
    by (intro heart_param_index) auto
  obtain w1 where w1: "heart_command E dev (replicate 20 0) w = Some (sint (0x44 :: byte) AND 0xF0, ?i, w1)"
      "kv (ext w1) = (kv (ext w))(dev := None)"
    using heart_command_param [OF assms(1,2) _ clean_commands(3) l p] assms(3) Indexed by auto
  then have h: "deviceHeartPacket E data n (replicate 20 0) v = Some (64, ?i, w1)" using assms(5) by simp
  have "?i[0 := of_char CHR ''C''] = command_answer c"
    using Indexed by (simp add: bytes_def numeral_eq_Suc)
  then show ?thesis using heart_numbered_answer [OF h _ assms(6)] h w1(2) by auto
next
  case (Numbered x k num)
  let ?t = "full_command x k num" and ?i = "take 3 (replicate 20 0) @ [x, k] @ map recode num @ drop 13 (replicate 20 0)"
  have num: "numbered x" "length num = 8" using assms(4) Numbered by simp_all
  then have l: "4 \<le> length ?t" "length ?t \<le> 254"
    using length_sint [of x] length_sint [of k] by (simp_all add: full_command_def)
  have p: "heart_param ?t (replicate 20 0) = Some (sint x, ?i)"
    using check_numbered [OF num(1)] num(2) by (intro heart_param_text) auto
  obtain w1 where w1: "heart_command E dev (replicate 20 0) w = Some (sint x AND 0xF0, ?i, w1)"
      "kv (ext w1) = (kv (ext w))(dev := None)"
    using heart_command_param [OF assms(1,2) _ clean_commands(2) l p] assms(3) Numbered by auto
  then have h: "deviceHeartPacket E data n (replicate 20 0) v = Some (64, ?i, w1)"
    using assms(5) check_numbered [OF num(1)] by simp
  have "?i[0 := of_char CHR ''C''] = command_answer c"
    using Numbered by (simp add: bytes_def numeral_eq_Suc)
  moreover have "length ?i = 20" using num(2) by simp
  ultimately show ?thesis using heart_numbered_answer [OF h _ assms(6)] h w1(2) by auto
qed

lemma heart_refines:
  assumes "represents (kv (ext w)) b" and "message_ok (Device_heart d x)"
    and data: "data = 0x48 # d @ x @ old" and len: "length data = 1024"
    and out: "output_buffer client \<noteq> None"
    and spec: "respond width (localtime_now w) (Device_heart d x) b = (a, b')"
  shows "\<exists>r i w1. deviceHeartPacket E data 32 (replicate 20 0) w = Some (r, i, w1)
    \<and> on_device_heart E client data 32 w = Some (send_answer E client a w1)
    \<and> represents (kv (ext w1)) b'"
proof -
  have d: "length d = 8" and x: "length x = 23" using assms(2) by auto
  note f = device_fields(1,2) [OF data d x]
  note rd = represents_reads [OF assms(1)] and ok = represents_ok [OF assms(1), unfolded broker_ok_def]
  have dev: "plain (hex_text d)" "length (hex_text d) < 252"
    using d by (auto simp: plain_clean simp flip: length_0_conv)
  show ?thesis
  proof (cases "owner b d")
    case None
    then have "kv (ext w) (bytes ''R_'' @ dev_id data) = None" using rd(1) [OF d] f by simp
    then obtain w1 where h: "deviceHeartPacket E data 32 (replicate 20 0) w = Some (-1, replicate 20 0, w1)"
        "kv (ext w1) = kv (ext w)"
      using heart_unbound [OF len] by blast
    have "on_device_heart E client data 32 w = Some (send_answer E client (time_answer (localtime_now w)) w1)"
      using heart_time_answer [OF h(1) _ out] heart_time [OF h(1)] by simp
    then show ?thesis using h spec assms(1) None by auto
  next
    case (Some u)
    have u: "u < 10 ^ 8" using ok Some by auto
    let ?user = "dec (int u)" and ?b1 = "b\<lparr>report := (report b)(u \<mapsto> state_report x)\<rparr>"
    have usr: "plain ?user" "length ?user < 200" using length_dec_user [OF u] by (simp_all add: plain_clean)
    have "kv (ext w) (bytes ''R_'' @ dev_id data) = Some ?user" using rd(1) [OF d] f Some by simp
    then obtain w1 where h: "deviceHeartPacket E data 32 (replicate 20 0) w = heart_command E (hex_text d) (replicate 20 0) w1"
        "kv (ext w1) = (kv (ext w))(?user \<mapsto> state_report x)"
      using heart_bound [OF len _ usr, of w "replicate 20 0"] f by auto
    have "clean (state_report x)" "length (state_report x) \<le> 254"
      using clean_heart_info [of data] length_heart_info [of data] len f(2) by simp_all
    then have r1: "represents (kv (ext w1)) ?b1"
      unfolding h(2) by (intro represents_report assms(1) u)
    have k: "kv (ext w1) (hex_text d) = map_option command_text (waiting b d)"
      using represents_reads(2) [OF r1 d] by simp
    show ?thesis
    proof (cases "waiting b d")
      case None
      then obtain w2 where c: "heart_command E (hex_text d) (replicate 20 0) w1 = Some (0, replicate 20 0, w2)"
          "kv (ext w2) = kv (ext w1)"
        using heart_command_none [OF dev, of w1 "replicate 20 0"] k by auto
      then have hp: "deviceHeartPacket E data 32 (replicate 20 0) w = Some (0, replicate 20 0, w2)" using h by simp
      have "on_device_heart E client data 32 w = Some (send_answer E client (time_answer (localtime_now w)) w2)"
        using heart_time_answer [OF hp _ out] heart_time [OF hp] by simp
      then show ?thesis using hp c(2) r1 spec Some None by auto
    next
      case (Some c)
      then have "kv (ext w1) (hex_text d) = Some (command_text c)" and cok: "command_ok c"
        using k ok by auto
      from heart_delivers [OF dev this, where v = w and data = data and n = 32 and client = client]
      obtain r i w2 where w2: "deviceHeartPacket E data 32 (replicate 20 0) w = Some (r, i, w2)"
          "on_device_heart E client data 32 w = Some (send_answer E client (command_answer c) w2)"
          "kv (ext w2) = (kv (ext w1))(hex_text d := None)"
        using h(1) out by auto
      have "represents (kv (ext w2)) (?b1\<lparr>waiting := (waiting ?b1)(d := None)\<rparr>)"
        unfolding w2(3) using r1 d by (rule represents_delivered)
      then show ?thesis using w2(1,2) spec Some \<open>owner b d = Some u\<close> by auto
    qed
  qed
qed

lemma phone_heart_refines:
  assumes "represents (kv (ext w)) b" and "message_ok (Phone_heart p x)"
    and data: "data = 0x50 # p @ x @ old" and len: "length data = 1024"
    and out: "output_buffer client \<noteq> None"
    and spec: "respond width t (Phone_heart p x) b = (a, b')"
  shows "\<exists>r i w1. phoneHeaderPacket E data 8 (replicate 260 0) 4 w = Some (r, i, w1)
    \<and> on_phone_heart E client data 8 w = Some (send_answer E client a w1)
    \<and> represents (kv (ext w1)) b'"
proof -
  have p: "length p = 4" using assms(2) by simp
  note f = phone_fields [OF data p]
  have k: "kv (ext w) (dec (phone_number data)) = report b (number_of p)"
    using represents_reads(4) [OF assms(1) f(2)] f(1) by simp
  show ?thesis
  proof (cases "report b (number_of p)")
    case None
    then obtain w1 where h: "phoneHeaderPacket E data 8 (replicate 260 0) 4 w = Some (0, replicate 260 0, w1)"
        "kv (ext w1) = kv (ext w)"
      using phone_reads_nothing [OF len] k by metis
    have "take 4 (bytes ''RET:'' @ replicate 256 0) = bytes ''RET:''"
      and "blit (replicate 260 0) 0 (bytes ''RET:'') = Some (bytes ''RET:'' @ replicate 256 0)"
      by (simp_all add: blit_def)
    then have "on_phone_heart E client data 8 w = Some (send_answer E client (bytes ''RET:'') w1)"
      using h(1) out by (simp add: on_phone_heart_def return_answer)
    then show ?thesis using h spec assms(1) None by auto
  next
    case (Some v)
    have v: "clean v" "length v \<le> 254"
      using Some represents_ok [OF assms(1)] by (auto simp: broker_ok_def)
    let ?i = "replicate 4 0 @ v @ replicate (256 - length v) 0"
    obtain w1 where h: "phoneHeaderPacket E data 8 (replicate 260 0) 4 w = Some (int (length v), ?i, w1)"
        "kv (ext w1) = kv (ext w)"
      using phone_reads [OF len _ v] k Some by metis
    have "blit ?i 0 (bytes ''RET:'') = Some (bytes ''RET:'' @ v @ replicate (256 - length v) 0)"
      by (simp add: blit_def)
    moreover have "nat (int (length v)) + 4 = length (bytes ''RET:'' @ v)" by simp
    then have "take (nat (int (length v)) + 4) (bytes ''RET:'' @ v @ replicate (256 - length v) 0) = bytes ''RET:'' @ v"
      by (metis append.assoc append_eq_conv_conj)
    ultimately have "on_phone_heart E client data 8 w = Some (send_answer E client (bytes ''RET:'' @ v) w1)"
      using h(1) out v(2) by (simp add: on_phone_heart_def return_answer)
    then show ?thesis using h spec assms(1) Some by auto
  qed
qed

text \<open>Commands that are not for devices are accepted and dropped.\<close>

lemma phone_ignored:
  assumes "length pkt = 1024" and "kv (ext w) (bytes ''RP_'' @ dec (phone_number pkt)) = Some dev"
    and "plain dev" and "length dev < 17" and "command_of (pkt ! 5) i num = None"
    and "pkt ! 5 \<noteq> CMD_PHONE_DEVICE_REALTIME_LOCATION"
  shows "\<exists>w'. phoneCommandPacket E pkt 16 w = Some (0, w') \<and> kv (ext w') = kv (ext w)"
proof -
  have nul: "0 \<notin> set dev" using assms(3) by (simp add: plain_def)
  have five: "5 \<le> length pkt" using assms(1) by simp
  note num = phone_number_atoi [OF five]
  obtain w1 where w1: "phone_device E (phone_number pkt) w =
      Some (Some (dev @ replicate (17 - length dev) 0), w1)" "kv (ext w1) = kv (ext w)"
    using phone_device_some [OF num(2,3) assms(2) nul assms(4)] by blast
  have "checkPhoneCommand (pkt ! 5) \<noteq> 4"
    using assms(5) by (auto simp: command_of_def numbered_def checkPhoneCommand_def split: if_splits)
  moreover have "checkPhoneCommand (pkt ! 5) \<notin> {0, 1, 2, 5, 6, 8}"
    using assms(5,6) by (auto simp: command_of_def single_def split: if_splits)
  ultimately have "checkPhoneCommand (pkt ! 5) \<in> {-1, 3, 7}" using check_range [of "pkt ! 5"] by auto
  then show ?thesis
    using assms(1) w1 num(1) [unfolded One_nat_def]
    by (auto simp: phoneCommandPacket_def phone_text_eq [OF five])
qed

lemma command_accepted:
  assumes "represents (kv (ext w)) b" and "message_ok (Phone_command p k i x)"
    and data: "data = 0x43 # p @ [k, i] @ x @ old" and len: "length data = 1024"
    and "watch b (number_of p) = Some d" and "command_of k i (take 8 x) = Some cmd"
  shows "\<exists>w1. phoneCommandPacket E data 16 w = Some (0, w1)
    \<and> represents (kv (ext w1)) (b\<lparr>waiting := (waiting b)(d \<mapsto> cmd)\<rparr>)"
proof -
  have p: "length p = 4" and x: "length x = 9" using assms(2) by auto
  note f = phone_fields [OF data p] and g = command_fields [OF data p x]
  have d: "length d = 8" using assms(5) represents_ok [OF assms(1)] by (auto simp: broker_ok_def)
  then have dev: "plain (hex_text d)" "length (hex_text d) < 17"
    by (auto simp: plain_clean simp flip: length_0_conv)
  have kd: "kv (ext w) (bytes ''RP_'' @ dec (phone_number data)) = Some (hex_text d)"
    using represents_reads(3) [OF assms(1) f(2)] f(1) assms(5) by simp
  have cok: "command_ok cmd" using assms(6) x by (auto simp: command_of_def split: if_splits)
  obtain w1 where w1: "phoneCommandPacket E data 16 w = Some (0, w1)"
      "kv (ext w1) = (kv (ext w))(hex_text d \<mapsto> command_text cmd)"
    using assms(6) phone_stores [OF len kd dev] g by (auto simp: command_of_def split: if_splits)
  have "represents (kv (ext w1)) (b\<lparr>waiting := (waiting b)(d \<mapsto> cmd)\<rparr>)"
    unfolding w1(2) by (intro represents_waiting assms(1) d cok)
  then show ?thesis using w1(1) by blast
qed

lemma command_refines:
  assumes "represents (kv (ext w)) b" and "message_ok (Phone_command p k i x)"
    and data: "data = 0x43 # p @ [k, i] @ x @ old" and len: "length data = 1024"
    and spec: "respond width t (Phone_command p k i x) b = (a, b')"
  shows "a = [] \<and> (\<exists>r w1. phoneCommandPacket E data 16 w = Some (r, w1) \<and> represents (kv (ext w1)) b')"
proof -
  have p: "length p = 4" and x: "length x = 9" and k: "k \<noteq> CMD_PHONE_DEVICE_REALTIME_LOCATION"
    using assms(2) by auto
  note f = phone_fields [OF data p] and g = command_fields [OF data p x]
  have kq: "kv (ext w) (bytes ''RP_'' @ dec (phone_number data)) = map_option hex_text (watch b (number_of p))"
    using represents_reads(3) [OF assms(1) f(2)] f(1) by simp
  have "\<exists>r w1. phoneCommandPacket E data 16 w = Some (r, w1) \<and> represents (kv (ext w1)) b'"
  proof (cases "watch b (number_of p)")
    case None
    then obtain w1 where "phoneCommandPacket E data 16 w = Some (-1, w1)" "kv (ext w1) = kv (ext w)"
      using phone_unbound [OF len] kq by auto
    then show ?thesis using spec assms(1) None by auto
  next
    case (Some d)
    have d: "length d = 8" using Some represents_ok [OF assms(1)] by (auto simp: broker_ok_def)
    then have dev: "plain (hex_text d)" "length (hex_text d) < 17"
      by (auto simp: plain_clean simp flip: length_0_conv)
    have kd: "kv (ext w) (bytes ''RP_'' @ dec (phone_number data)) = Some (hex_text d)" using kq Some by simp
    show ?thesis
    proof (cases "command_of k i (take 8 x)")
      case None
      then obtain w1 where "phoneCommandPacket E data 16 w = Some (0, w1)" "kv (ext w1) = kv (ext w)"
        using phone_ignored [OF len kd dev] g k by auto
      then show ?thesis using spec assms(1) Some None by auto
    next
      case (Some cmd)
      then show ?thesis
        using command_accepted [OF assms(1,2) data len \<open>watch b (number_of p) = Some d\<close> Some] spec
          \<open>watch b (number_of p) = Some d\<close> by auto
    qed
  qed
  then show ?thesis using spec by simp
qed

end

context backend
begin

lemma location_unbound:
  assumes "length pkt = 1024" and "kv (ext w) (bytes ''R_'' @ dev_id pkt) = None"
  shows "\<exists>w'. deviceLocationPacket E pkt 32 w = Some (-1, w') \<and> kv (ext w') = kv (ext w)
    \<and> idle (ext w') = idle (ext w)"
proof -
  have k: "plain (bytes ''R_'' @ dev_id pkt)" "length (bytes ''R_'' @ dev_id pkt) < 252"
    using assms(1) by (simp_all add: plain_clean bytes_def)
  obtain w' where w': "get_value_fromredis E (bytes ''R_'' @ dev_id pkt) (replicate 256 0) 0 w =
      Some (-1, replicate 256 0, w')" "kv (ext w') = kv (ext w)"
    using get_none [OF k assms(2), of "replicate 256 0" 0] by blast
  then show ?thesis
    using assms(1) pool.get_obs [OF w'(1)]
    by (auto simp: deviceLocationPacket_def device_text_eq relationship_key_eq)
qed

lemma location_refines:
  assumes "represents (kv (ext w)) b" and "message_ok (Device_location d x)"
    and data: "data = 0x47 # d @ x @ old" and len: "length data = 1024"
    and out: "output_buffer client \<noteq> None"
    and width: "sizeof_long E = 4 \<or> sizeof_long E = 8"
    and "\<And>e. idle e = idle (ext w) \<Longrightarrow> fst (ConnectionPool_getConnection E e) \<noteq> None"
    and "\<And>c s a e. Connection_execute E c s a e \<noteq> None"
    and spec: "respond (sizeof_long E) t (Device_location d x) b = (a, b')"
  shows "\<exists>r w1. deviceLocationPacket E data 32 w = Some (r, w1)
    \<and> on_location E client data 32 w = Some (send_answer E client a w1)
    \<and> represents (kv (ext w1)) b' \<and> idle (ext w1) = idle (ext w)"
proof -
  have d: "length d = 8" and x: "length x = 23" using assms(2) by auto
  note f = device_fields [OF data d x]
  have answer: "on_location E client data 32 w = Some (send_answer E client a w1)"
    if "deviceLocationPacket E data 32 w = Some (r, w1)" for r w1
  proof -
    have "length retTOK = 6" and "a = retTOK" using spec by (auto simp: retTOK_def)
    then show ?thesis using that out by (simp add: on_location_def return_answer)
  qed
  show ?thesis
  proof (cases "owner b d")
    case None
    then have "kv (ext w) (bytes ''R_'' @ dev_id data) = None"
      using represents_reads(1) [OF assms(1) d] f(1) by simp
    then obtain w1 where "deviceLocationPacket E data 32 w = Some (-1, w1)" "kv (ext w1) = kv (ext w)"
        "idle (ext w1) = idle (ext w)"
      using location_unbound [OF len] by blast
    then show ?thesis using answer spec assms(1) None by auto
  next
    case (Some u)
    have u: "u < 10 ^ 8" using Some represents_ok [OF assms(1)] by (auto simp: broker_ok_def)
    have usr: "plain (dec (int u))" "length (dec (int u)) < 190"
      using length_dec_user [OF u] by (simp_all add: plain_clean)
    have "kv (ext w) (bytes ''R_'' @ dev_id data) = Some (dec (int u))"
      using represents_reads(1) [OF assms(1) d] f(1) Some by simp
    from location_published [OF len width this usr assms(7,8)] obtain w1 where
        w1: "deviceLocationPacket E data 32 w = Some (0, w1)"
        "kv (ext w1) = (kv (ext w))(dec (int u) \<mapsto> location_info (sizeof_long E) data)"
        "idle (ext w1) = idle (ext w)"
      by blast
    have w8: "sizeof_long E \<le> 8" using width by auto
    note fits = location_info_fits [OF len width]
    have "represents (kv (ext w1)) (b\<lparr>report := (report b)(u \<mapsto> location_info (sizeof_long E) data)\<rparr>)"
      unfolding w1(2) using fits by (intro represents_report assms(1) u) (simp_all add: plain_clean)
    then show ?thesis using w1(1,3) answer spec Some f(3) [OF w8] by auto
  qed
qed

end

end
