(* ===== verification/Robot_Startup.thy ===== *)
theory Robot_Startup
  imports Robot_Protocol
begin

text \<open>
  What the server knows when it starts to serve: \<open>main_init\<close> loads the users and the
  relationships of phones and devices from the database into Redis, which then represents the
  broker with exactly these relationships.
\<close>

definition no_broker :: broker where
  "no_broker = \<lparr>owner = Map.empty, watch = Map.empty, waiting = Map.empty, report = Map.empty\<rparr>"

definition bind_pair :: "broker \<Rightarrow> nat \<times> byte list \<Rightarrow> broker" where
  "bind_pair b nd = b\<lparr>owner := (owner b)(snd nd \<mapsto> fst nd), watch := (watch b)(fst nd \<mapsto> snd nd)\<rparr>"

definition pair_ok :: "nat \<times> byte list \<Rightarrow> bool" where
  "pair_ok nd \<longleftrightarrow> fst nd < 10 ^ 8 \<and> length (snd nd) = 8"

text \<open>The row the database holds for a phone and its device.\<close>

definition pair_row :: "nat \<times> byte list \<Rightarrow> sql_row" where
  "pair_row nd = [Some (dec (int (fst nd))), Some (hex_text (snd nd))]"

lemma pair_row_ok:
  assumes "pair_ok nd"
  shows "relationship_row_ok (pair_row nd)"
proof -
  have "length (dec (int (fst nd))) < 17" "length (hex_text (snd nd)) = 16"
    using assms length_dec_user [of "fst nd"] by (simp_all add: pair_ok_def)
  moreover from this(2) have "hex_text (snd nd) \<noteq> []" by (metis list.size(3) zero_neq_numeral)
  ultimately show ?thesis by (simp add: pair_row_def relationship_row_ok_def plain_clean)
qed

lemma represents_empty: "represents Map.empty no_broker"
  by (simp add: represents_def broker_ok_def no_broker_def)

lemma represents_pair:
  assumes "represents m b" and "pair_ok nd"
  shows "represents (put_relationship m (pair_row nd)) (bind_pair b nd)"
  using assms
  by (auto simp: represents_def broker_ok_def put_relationship_def pair_row_def bind_pair_def pair_ok_def
      key_simps split: if_splits)

lemma represents_pairs:
  assumes "represents m b" and "list_all pair_ok rel"
  shows "represents (foldl put_relationship m (map pair_row rel)) (foldl bind_pair b rel)"
  using assms by (induction rel arbitrary: m b) (simp_all add: represents_pair)

text \<open>Neither a prefixed key nor a bare number or device starts with \<open>U\<close>.\<close>

lemma hex_digit_no_letter: "hex_digit (hi_nibble x) \<noteq> 85 \<and> hex_digit (lo_nibble x) \<noteq> 85"
  by (intro conjI; rule nibble_all) code_simp+

lemma user_keys:
  "bytes ''U_'' @ s \<noteq> bytes ''R_'' @ t" "bytes ''U_'' @ s \<noteq> bytes ''RP_'' @ t"
  "bytes ''U_'' @ s \<noteq> hex_text d" "bytes ''U_'' @ s \<noteq> dec (int n)"
proof -
  show "bytes ''U_'' @ s \<noteq> bytes ''R_'' @ t" "bytes ''U_'' @ s \<noteq> bytes ''RP_'' @ t"
    by (simp_all add: bytes_def)
  have "85 \<in> set (bytes ''U_'' @ s)" by (simp add: bytes_def)
  moreover have "85 \<notin> set (hex_text d)" using hex_digit_no_letter by (induction d) auto
  moreover have "85 \<notin> set (dec (int n))" using dec_nat_digits [of 85 n] by (auto simp: dec_def isdigit_def)
  ultimately show "bytes ''U_'' @ s \<noteq> hex_text d" "bytes ''U_'' @ s \<noteq> dec (int n)" by metis+
qed

lemma represents_user:
  assumes "represents m b"
  shows "represents (put_user m r) b"
proof -
  have "bytes ''R_'' \<noteq> bytes ''U_''" by (simp add: bytes_def)
  then show ?thesis using assms user_keys [THEN not_sym] by (simp add: represents_def put_user_def)
qed

lemma represents_users: "represents m b \<Longrightarrow> represents (foldl put_user m rows) b"
  by (induction rows arbitrary: m) (simp_all add: represents_user)

context backend
begin

lemma startup_represents:
  assumes "represents (kv (ext w)) b" and "idle (ext w) \<noteq> {#}"
    and "\<And>e. idle e \<noteq> {#} \<Longrightarrow> fst (ConnectionPool_getConnection E e) \<noteq> None"
    and "\<And>c e. \<exists>e'. Connection_executeQuery E c SQL_SELECT_USERINFO_LIST [] e = Some (Some users, e')"
    and "\<And>c e. \<exists>e'. Connection_executeQuery E c SQL_SELECT_RELATIONSHIP_LIST [] e = Some (Some (map pair_row rel), e')"
    and "\<forall>r \<in> set users. user_row_ok r" and "list_all pair_ok rel"
  shows "\<exists>w'. main_init E w = Some w' \<and> represents (kv (ext w')) (foldl bind_pair b rel)
    \<and> idle (ext w') = idle (ext w)"
proof -
  obtain c e1 where c: "ConnectionPool_getConnection E (ext w) = (Some c, e1)"
    using assms(3) [OF assms(2)] by (metis not_None_eq prod.collapse)
  obtain e2 where e2: "Connection_executeQuery E c SQL_SELECT_USERINFO_LIST [] e1 = Some (Some users, e2)"
    using assms(4) by blast
  obtain w1 where w1: "initUserInfoList E w = Some w1" "kv (ext w1) = foldl put_user (kv (ext w)) users"
      "idle (ext w1) = idle (ext w)"
    using initUserInfoList_loads [OF c e2 assms(6)] by blast
  have "idle (ext w1) \<noteq> {#}" using w1(3) assms(2) by simp
  from assms(3) [OF this] obtain d e3 where d: "ConnectionPool_getConnection E (ext w1) = (Some d, e3)"
    by (metis not_None_eq prod.collapse)
  obtain e4 where e4: "Connection_executeQuery E d SQL_SELECT_RELATIONSHIP_LIST [] e3 = Some (Some (map pair_row rel), e4)"
    using assms(5) by blast
  have ok: "\<forall>r \<in> set (map pair_row rel). relationship_row_ok r"
    using assms(7) pair_row_ok by (auto simp: list_all_iff)
  obtain w2 where w2: "initUserAndDeviceRelationshipList E w1 = Some w2"
      "kv (ext w2) = foldl put_relationship (kv (ext w1)) (map pair_row rel)" "idle (ext w2) = idle (ext w1)"
    using initRelationship_loads [OF d e4 ok] by blast
  have "represents (kv (ext w2)) (foldl bind_pair b rel)"
    unfolding w2(2) w1(2) by (intro represents_pairs represents_users assms(1,7))
  then show ?thesis
    using w1 w2 by (simp add: main_init_def StartApolloSyner_def pthread_create_def)
qed

end

end
