(* ===== verification/Robot_Scenario.thy ===== *)
theory Robot_Scenario
  imports Robot_Server
begin

text \<open>
  A concrete deployment for closed evaluations: one phone (user 7) bound to one device, the
  packets of the comments in \<open>ApolloProtocol.c\<close>, and a world over the reference services.
\<close>

section \<open>Packets\<close>

definition in_buffer :: "byte list \<Rightarrow> byte list" where
  "in_buffer xs = xs @ replicate (1024 - length xs) 0"

definition demo_dev :: "byte list" where
  "demo_dev = [0x20, 0x16, 0x01, 0x05, 0x00, 0x00, 0x00, 0x07]"

definition demo_heart :: "byte list" where
  "demo_heart = in_buffer ([0x48] @ demo_dev @ [0x08, 0x30, 0x56, 0x67, 0x78, 0x21, 0x48, 0x20, 0x16,
     0x01, 0x05, 0x00, 0x00, 0x00, 0x00, 0x07, 0x08, 0x34, 0x56, 0x67, 0x78, 0x21, 0x98])"

definition demo_family :: "byte list" where
  "demo_family = in_buffer [0x43, 0x00, 0x00, 0x00, 0x07, 0x41, 0x01, 0x00, 0x86, 0x18, 0x87, 0x41,
     0x87, 0x42, 0x90, 0x43]"

definition demo_freq :: "byte list" where
  "demo_freq = in_buffer [0x43, 0x00, 0x00, 0x00, 0x07, 0x44, 0x02, 0x00, 0x86, 0x18, 0x87, 0x41,
     0x87, 0x42, 0x90, 0x43]"

definition demo_alarm :: "byte list" where
  "demo_alarm = in_buffer [0x43, 0x00, 0x00, 0x00, 0x07, 0x08, 0x00, 0x86, 0x18, 0x87, 0x41, 0x87,
     0x42, 0x90, 0x43, 0x01]"

definition demo_phone :: "byte list" where
  "demo_phone = in_buffer [0x50, 0x00, 0x00, 0x00, 0x07, 0x25, 0x25, 0x25]"

definition demo_location :: "byte list" where
  "demo_location = in_buffer ([0x47] @ demo_dev @ [0x01, 0x11, 0x30, 0x91, 0x27, 0x16, 0x02, 0x20, 0x64,
     0x64, 0x26, 0x03, 0x45, 0x65, 0x23, 0x00, 0x34, 0x32, 0x25, 0x25, 0x25, 0x25, 0x25])"

section \<open>State\<close>

definition demo_kv :: "byte list \<rightharpoonup> byte list" where
  "demo_kv = [bytes ''RP_7'' \<mapsto> bytes ''2016010500000007'', bytes ''R_2016010500000007'' \<mapsto> bytes ''7'']"

definition demo_state :: ref_state where
  "demo_state = \<lparr>ref_kv = demo_kv, ref_free = [1, 2], ref_log = [],
     ref_rows = [[Some (bytes ''7''), Some (bytes ''2016010500000007'')]], ref_input = [], ref_output = []\<rparr>"

definition demo_tm :: tm where
  "demo_tm = \<lparr>tm_sec = 59, tm_min = 30, tm_hour = 12, tm_mday = 9, tm_mon = 4, tm_year = 116, tm_wday = 1\<rparr>"

definition demo_world :: "ref_state world" where
  "demo_world = \<lparr>ext = demo_state, files = Map.empty, creatable = (\<lambda>_. True), localtime_now = demo_tm,
     started = [], closed_fds = []\<rparr>"

abbreviation demo_E :: "ref_state externals" where
  "demo_E \<equiv> ref_externals DISK_FILE_SAVE"

definition demo_client :: client where
  "demo_client = \<lparr>fd = 5, evbase = Some 1, buf_ev = Some 1, output_buffer = Some 1, pBlock = Some fresh_block\<rparr>"

definition demo_file :: "byte list \<Rightarrow> ref_state world" where
  "demo_file p = demo_world\<lparr>files := [p \<mapsto> replicate 2000 7]\<rparr>"

section \<open>Facts\<close>

lemma length_in_buffer: "length xs \<le> 1024 \<Longrightarrow> length (in_buffer xs) = 1024"
  by (simp add: in_buffer_def)

lemma demo_lengths [simp]:
  "length demo_heart = 1024" "length demo_family = 1024" "length demo_freq = 1024"
  "length demo_alarm = 1024" "length demo_phone = 1024" "length demo_location = 1024"
  "length demo_dev = 8"
  by (simp_all add: length_in_buffer demo_heart_def demo_family_def demo_freq_def demo_alarm_def
    demo_phone_def demo_location_def demo_dev_def)

lemma demo_id:
  "dev_id demo_heart = bytes ''2016010500000007''" "dev_id demo_location = bytes ''2016010500000007''"
  by (code_simp)+

lemma demo_number:
  "phone_number demo_family = 7" "phone_number demo_freq = 7" "phone_number demo_alarm = 7"
  "phone_number demo_phone = 7"
  by (code_simp)+

lemma demo_texts: "bytes ''RP_'' @ dec 7 = bytes ''RP_7''" "dec 7 = bytes ''7''"
    "bytes ''R_'' @ bytes ''2016010500000007'' = bytes ''R_2016010500000007''"
  by (code_simp)+

lemma demo_bound:
  "bound demo_kv demo_family demo_heart (bytes ''7'')" "bound demo_kv demo_freq demo_heart (bytes ''7'')"
  "bound demo_kv demo_alarm demo_heart (bytes ''7'')"
  unfolding bound_def demo_number demo_id demo_texts
  by (simp_all add: demo_kv_def plain_def bytes_def)

lemma demo_world_simps [simp]:
  "ext demo_world = demo_state" "creatable demo_world p" "files demo_world = Map.empty"
  "ref_kv demo_state = demo_kv" "ref_free demo_state = [1, 2]" "ref_input demo_state = []"
  "localtime_now demo_world = demo_tm" "started demo_world = []"
  "ext (demo_file p) = demo_state" "files (demo_file p) q = (if q = p then Some (replicate 2000 7) else None)"
  by (simp_all add: demo_world_def demo_state_def demo_file_def)

lemma demo_dev_bcd: "list_all bcd demo_dev"
  by code_simp

end
