(* ===== verification/Robot_Sessions.thy ===== *)
theory Robot_Sessions
  imports Robot_Startup Robot_Scenario
begin

text \<open>
  Many connections over one store. \<open>net\<close> is what the libraries show of their state: the Redis
  store, the idle database connections, and for every connection the bytes that arrived, the
  bytes queued in its output buffer and the bytes handed to the peer. The locale \<open>connections\<close>
  states what libevent does with them. \<open>serve_all\<close> serves events of any number of connections
  in the order in which their callbacks run; it refines the broker.
\<close>

unbundle bit_operations_syntax

section \<open>The events of all connections\<close>

primrec serve_all ::
    "('c \<Rightarrow> 'w externals) \<Rightarrow> ('c \<Rightarrow> byte list \<Rightarrow> 'w \<Rightarrow> 'w) \<Rightarrow> ('c \<times> conn_event) list
      \<Rightarrow> ('c \<Rightarrow> client) \<Rightarrow> 'w world \<Rightarrow> (('c \<Rightarrow> client) \<times> 'w world) option" where
  "serve_all E arrive [] clients w = Some (clients, w)"
| "serve_all E arrive (e # es) clients w = do {
     (c', w') \<leftarrow> serve (E (fst e)) (arrive (fst e)) [snd e] (clients (fst e)) w;
     serve_all E arrive es (clients(fst e := c')) w' }"

text \<open>A client between two messages, as \<open>on_accept\<close> leaves it.\<close>

definition ready :: "client \<Rightarrow> bool" where
  "ready client \<longleftrightarrow> output_buffer client \<noteq> None \<and> (\<exists>pb. pBlock client = Some pb
     \<and> length (bb_packet pb) = 1024 \<and> bb_index pb = 0)"

lemma ready_accepted: "on_accept a r = (Some c, r') \<Longrightarrow> ready c"
  using on_accept_client(4,5) by (fastforce simp: ready_def fresh_block_def)

text \<open>One message that arrives in one piece.\<close>

definition deliver_message :: "'c \<times> message \<Rightarrow> 'c \<times> conn_event" where
  "deliver_message e = (fst e, Readable (encode (snd e)))"

section \<open>What libevent does with the connections\<close>

record 'c net =
  net_kv :: "byte list \<rightharpoonup> byte list"
  net_idle :: "nat multiset"
  incoming :: "'c \<Rightarrow> byte list"
  staged :: "'c \<Rightarrow> byte list"
  sent :: "'c \<Rightarrow> byte list"

text \<open>
  \<open>services\<close> and \<open>quiet\<close>: Redis and the database behave as documented and leave the
  connections alone; \<open>receive\<close>, \<open>stage\<close>, \<open>transmit\<close>: the buffers of a connection are queues
  and a write succeeds; \<open>free\<close> and \<open>executes\<close>: the pool gives a connection while it has one, and
  statements raise no exception.
\<close>

locale connections =
  fixes E :: "'c \<Rightarrow> 'w externals" and view :: "'w \<Rightarrow> 'c net"
    and arrive :: "'c \<Rightarrow> byte list \<Rightarrow> 'w \<Rightarrow> 'w" and width :: nat
  assumes services: "backend (E c) (\<lambda>e. net_kv (view e)) (\<lambda>e. net_idle (view e))"
    and quiet: "library_quiet (E c) (\<lambda>e. (incoming (view e), staged (view e), sent (view e)))"
    and widths: "sizeof_long (E c) = width" and width_of_long: "width = 4 \<or> width = 8"
    and free: "net_idle (view e) \<noteq> {#} \<Longrightarrow> fst (ConnectionPool_getConnection (E c) e) \<noteq> None"
    and executes: "Connection_execute (E c) k s a e \<noteq> None"
    and receive: "evbuffer_remove (E c) n e = (xs, e') \<Longrightarrow> xs = take n (incoming (view e) c)
      \<and> view e' = (view e)\<lparr>incoming := (incoming (view e))(c := drop n (incoming (view e) c))\<rparr>"
    and stage: "view (evbuffer_add (E c) xs e) =
      (view e)\<lparr>staged := (staged (view e))(c := staged (view e) c @ xs)\<rparr>"
    and transmit: "bufferevent_write_buffer (E c) e = (b, e') \<Longrightarrow> \<not> b \<and> view e' = (view e)\<lparr>
      staged := (staged (view e))(c := []), sent := (sent (view e))(c := sent (view e) c @ staged (view e) c)\<rparr>"
    and arrival: "view (arrive c xs e) = (view e)\<lparr>incoming := (incoming (view e))(c := incoming (view e) c @ xs)\<rparr>"

sublocale connections \<subseteq> service: backend "E c" "\<lambda>e. net_kv (view e)" "\<lambda>e. net_idle (view e)" for c
  by (rule services)

sublocale connections \<subseteq> others: library_quiet "E c" "\<lambda>e. (incoming (view e), staged (view e), sent (view e))" for c
  by (rule quiet)

sublocale connections \<subseteq> link: connection_input "E c" "\<lambda>e. incoming (view e) c" for c
  by unfold_locales (auto simp: stage dest: receive transmit)

context connections
begin

lemma answer_sent:
  assumes "staged (view (ext w)) c = []"
  shows "\<exists>e. send_answer (E c) client a w = (client, w\<lparr>ext := e\<rparr>)
    \<and> view e = (view (ext w))\<lparr>sent := (sent (view (ext w)))(c := sent (view (ext w)) c @ a)\<rparr>"
proof -
  obtain b e where b: "bufferevent_write_buffer (E c) (evbuffer_add (E c) a (ext w)) = (b, e)" by fastforce
  have "(staged (view (ext w)))(c := []) = staged (view (ext w))" using assms by auto
  then show ?thesis
    using transmit [OF b] b assms
    by (intro exI [of _ e]) (simp add: send_answer_def flush_output_def with_ext_def stage)
qed

text \<open>A callback that finds a piece which fits behind what the packet buffer already holds.\<close>

lemma read_piece:
  assumes "pBlock client = Some pb" and "length (bb_packet pb) = 1024" and "unat (bb_index pb) + length xs \<le> 1024"
    and "incoming (view (ext w)) c = []" and "xs \<noteq> []"
  shows "\<exists>e1. view e1 = view (ext w)
    \<and> (\<forall>c1 bi w1 pb1. upload_chunk (E c) xs client (bb_index pb) (w\<lparr>ext := e1\<rparr>) = Some (c1, bi, w1)
        \<and> pBlock c1 = Some pb1 \<and> length (bb_packet pb1) = 1024 \<and> unat bi \<le> 1024 \<and> incoming (view (ext w1)) c = []
      \<longrightarrow> (\<exists>e2. serve (E c) (arrive c) [Readable xs] client w = Some (c1, w1\<lparr>ext := e2\<rparr>) \<and> view e2 = view (ext w1)))"
proof -
  let ?a = "arrive c xs (ext w)" and ?n = "unat (bb_index pb)"
  have inp: "incoming (view ?a) c = xs" using assms(4) by (simp add: arrival)
  obtain ys e1 where rm: "evbuffer_remove (E c) (1024 - ?n) ?a = (ys, e1)" by fastforce
  have ys: "ys = xs" and e1: "view e1 = view (ext w)"
    using receive [OF rm] inp assms(3,4) by (auto simp: arrival fun_upd_idem)
  have rd: "read_chunk (E c) client (bb_index pb) (w\<lparr>ext := ?a\<rparr>) =
      Some (client\<lparr>pBlock := Some (pb\<lparr>bb_packet := take ?n (bb_packet pb) @ xs @ drop (?n + length xs) (bb_packet pb)\<rparr>)\<rparr>,
        length xs, w\<lparr>ext := e1\<rparr>)"
    using assms(1-3) rm ys by (simp add: read_chunk_def with_ext_def blit_def)
  have nb: "\<not> 1024 < bb_index pb" using assms(3) by (simp add: word_less_nat_alt)
  have "\<exists>e2. serve (E c) (arrive c) [Readable xs] client w = Some (c1, w1\<lparr>ext := e2\<rparr>) \<and> view e2 = view (ext w1)"
    if u: "upload_chunk (E c) xs client (bb_index pb) (w\<lparr>ext := e1\<rparr>) = Some (c1, bi, w1)"
      and c1: "pBlock c1 = Some pb1" "length (bb_packet pb1) = 1024" "unat bi \<le> 1024" "incoming (view (ext w1)) c = []"
    for c1 bi w1 pb1
  proof -
    obtain zs e2 where rm2: "evbuffer_remove (E c) (1024 - unat bi) (ext w1) = (zs, e2)" by fastforce
    have zs: "zs = []" and e2: "view e2 = view (ext w1)"
      using receive [OF rm2] c1(4) by (auto simp: fun_upd_idem)
    have "read_chunk (E c) c1 bi w1 = Some (c1, 0, w1\<lparr>ext := e2\<rparr>)"
      using c1(1-3) zs rm2 by (simp add: read_chunk_def with_ext_def blit_def)
    then have "parse_loop (E c) c1 bi w1 = Some (c1, w1\<lparr>ext := e2\<rparr>)"
      by (subst parse_loop.simps) simp
    moreover have "dispatch (E c) (client\<lparr>pBlock := Some (pb\<lparr>bb_packet :=
        take ?n (bb_packet pb) @ xs @ drop (?n + length xs) (bb_packet pb)\<rparr>)\<rparr>) (bb_index pb) (length xs)
        (w\<lparr>ext := e1\<rparr>) = Some (c1, bi, w1)"
      using u assms(1-3) by (simp add: upload_chunk_def blit_def)
    ultimately have "parse_loop (E c) client (bb_index pb) (w\<lparr>ext := ?a\<rparr>) = Some (c1, w1\<lparr>ext := e2\<rparr>)"
      using assms(5) by (subst parse_loop.simps) (simp add: rd)
    then show ?thesis
      using assms(1) nb e2 by (intro exI [of _ e2]) (simp add: buffered_on_read_def apolloParsePacket_def)
  qed
  then show ?thesis using e1 by blast
qed

text \<open>A callback that finds \<open>xs\<close> and whose handler leaves the client ready handles \<open>xs\<close> once.\<close>

lemma read_once:
  assumes "pBlock client = Some pb" and "length (bb_packet pb) = 1024" and "bb_index pb = 0"
    and "incoming (view (ext w)) c = []" and "xs \<noteq> []" and "length xs \<le> 1024"
  shows "\<exists>e1. view e1 = view (ext w)
    \<and> (\<forall>c1 w1 pb1. dispatch (E c) (client\<lparr>pBlock := Some (pb\<lparr>bb_packet := xs @ drop (length xs) (bb_packet pb)\<rparr>)\<rparr>)
          0 (length xs) (w\<lparr>ext := e1\<rparr>) = Some (c1, 0, w1)
        \<and> pBlock c1 = Some pb1 \<and> length (bb_packet pb1) = 1024 \<and> incoming (view (ext w1)) c = []
      \<longrightarrow> (\<exists>e2. serve (E c) (arrive c) [Readable xs] client w = Some (c1, w1\<lparr>ext := e2\<rparr>) \<and> view e2 = view (ext w1)))"
proof -
  obtain e1 where e1: "view e1 = view (ext w)"
    and once: "\<And>c1 bi w1 pb1. upload_chunk (E c) xs client 0 (w\<lparr>ext := e1\<rparr>) = Some (c1, bi, w1)
        \<Longrightarrow> pBlock c1 = Some pb1 \<Longrightarrow> length (bb_packet pb1) = 1024 \<Longrightarrow> unat bi \<le> 1024
        \<Longrightarrow> incoming (view (ext w1)) c = []
      \<Longrightarrow> \<exists>e2. serve (E c) (arrive c) [Readable xs] client w = Some (c1, w1\<lparr>ext := e2\<rparr>) \<and> view e2 = view (ext w1)"
    using read_piece [OF assms(1,2) _ assms(4,5)] assms(3,6) by auto
  have "upload_chunk (E c) xs client 0 (w\<lparr>ext := e1\<rparr>) = dispatch (E c)
      (client\<lparr>pBlock := Some (pb\<lparr>bb_packet := xs @ drop (length xs) (bb_packet pb)\<rparr>)\<rparr>) 0 (length xs) (w\<lparr>ext := e1\<rparr>)"
    using assms(1,2,6) by (simp add: upload_chunk_def blit_def)
  then show ?thesis using once e1 by (intro exI [of _ e1]) auto
qed

end

lemma net_kv_only:
  assumes "(incoming v', staged v', sent v') = (incoming v, staged v, sent v)" and "net_idle v' = net_idle v"
  shows "v' = v\<lparr>net_kv := net_kv (v' :: 'c net)\<rparr>"
  using assms by (cases v; cases v') simp

text \<open>The handler a message is dispatched to.\<close>

definition handler_of :: "'w externals \<Rightarrow> client \<Rightarrow> byte list \<Rightarrow> nat \<Rightarrow> message \<Rightarrow> 'w world \<Rightarrow> (client \<times> 'w world) option" where
  "handler_of E client data n m w =
     (case m of
        Device_heart d x \<Rightarrow> on_device_heart E client data (int n) w
      | Device_location d x \<Rightarrow> on_location E client data (int n) w
      | Phone_heart p x \<Rightarrow> on_phone_heart E client data (int n) w
      | Phone_command p c i x \<Rightarrow> do { (r, w') \<leftarrow> phoneCommandPacket E data (int n) w; Some (client, w') })"

lemma dispatch_message:
  assumes "pBlock client = Some pb" and "bb_packet pb = encode m @ old"
  shows "dispatch E client bi n w = do {
     (c, w') \<leftarrow> handler_of E client (encode m @ old) n m w; Some (c, bi, w') }"
  using assms by (cases m) (auto simp: dispatch_def handler_of_def Let_def peek_def split: bind_splits)

lemma message_length:
  assumes "message_ok m"
  shows "length (encode m) = (case m of Device_heart d x \<Rightarrow> 32 | Device_location d x \<Rightarrow> 32
    | Phone_heart p x \<Rightarrow> 8 | Phone_command p c i x \<Rightarrow> 16)"
  using assms by (cases m) auto

text \<open>The threads that two messages in one read start.\<close>

definition coalesced_threads :: "broker \<Rightarrow> message \<Rightarrow> message \<Rightarrow> thread_start list" where
  "coalesced_threads b m m2 = (case (m, m2) of
      (Device_location d x, Phone_command p k i y) \<Rightarrow> if owner b d = None then [] else [Start_http_post]
    | _ \<Rightarrow> [])"

context connections
begin

lemma handled:
  assumes "represents (net_kv (view (ext w))) b" and "message_ok m" and "length (encode m @ old) = 1024"
    and "output_buffer client \<noteq> None" and "net_idle (view (ext w)) \<noteq> {#}"
    and spec: "respond width (localtime_now w) m b = (a, b')"
  shows "\<exists>w1 k. view (ext w1) = (view (ext w))\<lparr>net_kv := k\<rparr>
    \<and> represents k b' \<and> localtime_now w1 = localtime_now w
    \<and> (handler_of (E c) client (encode m @ old) (length (encode m)) m w = Some (send_answer (E c) client a w1)
       \<or> a = [] \<and> handler_of (E c) client (encode m @ old) (length (encode m)) m w = Some (client, w1))"
proof (cases m)
  case (Device_heart d x)
  have data: "encode m @ old = 0x48 # d @ x @ old" by (simp add: Device_heart)
  obtain r i w1 where h: "deviceHeartPacket (E c) (encode m @ old) 32 (replicate 20 0) w = Some (r, i, w1)"
      "on_device_heart (E c) client (encode m @ old) 32 w = Some (send_answer (E c) client a w1)"
      "represents (net_kv (view (ext w1))) b'"
    using service.heart_refines [where c = c, OF assms(1) assms(2) [unfolded Device_heart] data assms(3,4)
      spec [unfolded Device_heart]] by blast
  have "view (ext w1) = (view (ext w))\<lparr>net_kv := net_kv (view (ext w1))\<rparr>"
    by (intro net_kv_only others.heart_obs [OF h(1)] service.pool.heart_obs [OF h(1)])
  then show ?thesis
    using h heart_time [OF h(1)] message_length [OF assms(2)] Device_heart
    by (intro exI [of _ w1] exI [of _ "net_kv (view (ext w1))"]) (simp add: handler_of_def)
next
  case (Device_location d x)
  have data: "encode m @ old = 0x47 # d @ x @ old" by (simp add: Device_location)
  have ok: "\<And>e. net_idle (view e) = net_idle (view (ext w)) \<Longrightarrow> fst (ConnectionPool_getConnection (E c) e) \<noteq> None"
    using assms(5) free by metis
  have wd: "sizeof_long (E c) = 4 \<or> sizeof_long (E c) = 8" using widths width_of_long by simp
  obtain r w1 where h: "deviceLocationPacket (E c) (encode m @ old) 32 w = Some (r, w1)"
      "on_location (E c) client (encode m @ old) 32 w = Some (send_answer (E c) client a w1)"
      "represents (net_kv (view (ext w1))) b'" "net_idle (view (ext w1)) = net_idle (view (ext w))"
    using service.location_refines [where c = c, OF assms(1) assms(2) [unfolded Device_location] data assms(3,4)
      wd ok executes spec [folded widths [of c], unfolded Device_location]] by blast
  have "view (ext w1) = (view (ext w))\<lparr>net_kv := net_kv (view (ext w1))\<rparr>"
    by (intro net_kv_only others.location_obs [OF h(1)] h(4))
  then show ?thesis
    using h location_time [OF h(1)] message_length [OF assms(2)] Device_location
    by (intro exI [of _ w1] exI [of _ "net_kv (view (ext w1))"]) (simp add: handler_of_def)
next
  case (Phone_heart p x)
  have data: "encode m @ old = 0x50 # p @ x @ old" by (simp add: Phone_heart)
  obtain r i w1 where h: "phoneHeaderPacket (E c) (encode m @ old) 8 (replicate 260 0) 4 w = Some (r, i, w1)"
      "on_phone_heart (E c) client (encode m @ old) 8 w = Some (send_answer (E c) client a w1)"
      "represents (net_kv (view (ext w1))) b'"
    using service.phone_heart_refines [where c = c, OF assms(1) assms(2) [unfolded Phone_heart] data assms(3,4)
      spec [unfolded Phone_heart]] by blast
  have "view (ext w1) = (view (ext w))\<lparr>net_kv := net_kv (view (ext w1))\<rparr>"
    by (intro net_kv_only others.phone_heart_obs [OF h(1)] service.pool.phone_heart_obs [OF h(1)])
  then show ?thesis
    using h phone_heart_time [OF h(1)] message_length [OF assms(2)] Phone_heart
    by (intro exI [of _ w1] exI [of _ "net_kv (view (ext w1))"]) (simp add: handler_of_def)
next
  case (Phone_command p k i x)
  have data: "encode m @ old = 0x43 # p @ [k, i] @ x @ old" by (simp add: Phone_command)
  obtain r w1 where h: "a = []" "phoneCommandPacket (E c) (encode m @ old) 16 w = Some (r, w1)"
      "represents (net_kv (view (ext w1))) b'"
    using service.command_refines [where c = c, OF assms(1) assms(2) [unfolded Phone_command] data assms(3)
      spec [unfolded Phone_command]] by blast
  have "view (ext w1) = (view (ext w))\<lparr>net_kv := net_kv (view (ext w1))\<rparr>"
    by (intro net_kv_only others.command_obs [OF h(2)] service.command_idle [OF h(2)])
  then show ?thesis
    using h command_time [OF h(2)] message_length [OF assms(2)] Phone_command
    by (intro exI [of _ w1] exI [of _ "net_kv (view (ext w1))"]) (simp add: handler_of_def)
qed

text \<open>One message: the answer is sent, the store follows the broker, nothing else changes.\<close>

lemma message_served:
  assumes "ready client" and "represents (net_kv (view (ext w))) b" and "message_ok m"
    and "net_idle (view (ext w)) \<noteq> {#}" and "incoming (view (ext w)) c = []" and "staged (view (ext w)) c = []"
    and spec: "respond width (localtime_now w) m b = (a, b')"
  shows "\<exists>client' w'. serve (E c) (arrive c) [Readable (encode m)] client w = Some (client', w')
    \<and> ready client' \<and> localtime_now w' = localtime_now w
    \<and> view (ext w') = (view (ext w))\<lparr>net_kv := net_kv (view (ext w')),
        sent := (sent (view (ext w)))(c := sent (view (ext w)) c @ a)\<rparr>
    \<and> represents (net_kv (view (ext w'))) b'"
proof -
  obtain pb where pb: "pBlock client = Some pb" "length (bb_packet pb) = 1024" "bb_index pb = 0"
    and out: "output_buffer client \<noteq> None"
    using assms(1) by (auto simp: ready_def)
  let ?n = "length (encode m)" and ?old = "drop (length (encode m)) (bb_packet pb)"
  define client1 where "client1 = client\<lparr>pBlock := Some (pb\<lparr>bb_packet := encode m @ ?old\<rparr>)\<rparr>"
  have n: "encode m \<noteq> []" "?n \<le> 1024" and len: "length (encode m @ ?old) = 1024"
    using message_length [OF assms(3)] pb(2) by (cases m; simp)+
  obtain e1 where e1: "view e1 = view (ext w)"
    and once: "\<And>c1 w1 pb1. dispatch (E c) client1 0 ?n (w\<lparr>ext := e1\<rparr>) = Some (c1, 0, w1)
        \<Longrightarrow> pBlock c1 = Some pb1 \<Longrightarrow> length (bb_packet pb1) = 1024 \<Longrightarrow> incoming (view (ext w1)) c = []
      \<Longrightarrow> \<exists>e2. serve (E c) (arrive c) [Readable (encode m)] client w = Some (c1, w1\<lparr>ext := e2\<rparr>) \<and> view e2 = view (ext w1)"
    using read_once [OF pb assms(5) n] unfolding client1_def by blast
  let ?w = "w\<lparr>ext := e1\<rparr>"
  have out1: "output_buffer client1 \<noteq> None" using out by (simp add: client1_def)
  have "\<exists>w1 k. view (ext w1) = (view (ext ?w))\<lparr>net_kv := k\<rparr>
    \<and> represents k b' \<and> localtime_now w1 = localtime_now ?w
    \<and> (handler_of (E c) client1 (encode m @ ?old) ?n m ?w = Some (send_answer (E c) client1 a w1)
       \<or> a = [] \<and> handler_of (E c) client1 (encode m @ ?old) ?n m ?w = Some (client1, w1))"
    using assms(2,4) e1 spec by (intro handled assms(3) len out1) simp_all
  then obtain w1 kv1 where v: "view (ext w1) = (view (ext w))\<lparr>net_kv := kv1\<rparr>"
      "represents kv1 b'" "localtime_now w1 = localtime_now w"
    and h: "handler_of (E c) client1 (encode m @ ?old) ?n m ?w = Some (send_answer (E c) client1 a w1)
       \<or> a = [] \<and> handler_of (E c) client1 (encode m @ ?old) ?n m ?w = Some (client1, w1)"
    using e1 by auto
  have io: "incoming (view (ext w1)) c = []" "staged (view (ext w1)) c = []"
      "sent (view (ext w1)) = sent (view (ext w))"
    using assms(5,6) by (simp_all add: v(1))
  obtain e3 where e3: "handler_of (E c) client1 (encode m @ ?old) ?n m ?w = Some (client1, w1\<lparr>ext := e3\<rparr>)"
      "view e3 = (view (ext w1))\<lparr>sent := (sent (view (ext w)))(c := sent (view (ext w)) c @ a)\<rparr>"
  proof -
    obtain e where e: "send_answer (E c) client1 a w1 = (client1, w1\<lparr>ext := e\<rparr>)"
        "view e = (view (ext w1))\<lparr>sent := (sent (view (ext w)))(c := sent (view (ext w)) c @ a)\<rparr>"
      using answer_sent [OF io(2), of client1 a] unfolding io(3) by blast
    show ?thesis
    proof (cases "handler_of (E c) client1 (encode m @ ?old) ?n m ?w = Some (send_answer (E c) client1 a w1)")
      case True
      then show ?thesis using e that by simp
    next
      case False
      then have "a = []" "handler_of (E c) client1 (encode m @ ?old) ?n m ?w = Some (client1, w1\<lparr>ext := ext w1\<rparr>)"
        using h by auto
      moreover have "view (ext w1) = (view (ext w1))\<lparr>sent := (sent (view (ext w)))(c := sent (view (ext w)) c @ [])\<rparr>"
        by (simp add: v(1))
      ultimately show ?thesis using that by blast
    qed
  qed
  have d: "dispatch (E c) client1 0 ?n ?w = Some (client1, 0, w1\<lparr>ext := e3\<rparr>)"
    using dispatch_message [of client1 "pb\<lparr>bb_packet := encode m @ ?old\<rparr>" m ?old "E c" 0 ?n ?w] e3(1)
    by (simp add: client1_def)
  have blk: "pBlock client1 = Some (pb\<lparr>bb_packet := encode m @ ?old\<rparr>)" by (simp add: client1_def)
  obtain e4 where e4: "serve (E c) (arrive c) [Readable (encode m)] client w = Some (client1, w1\<lparr>ext := e4\<rparr>)"
      "view e4 = view e3"
    using once [OF d blk] len e3(2) io(1) by (auto simp del: append_Nil2)
  have "ready client1" using out1 blk len pb(3) by (simp add: ready_def)
  then show ?thesis
    using e4 e3(2) v by (intro exI [of _ client1] exI [of _ "w1\<lparr>ext := e4\<rparr>"]) (simp add: v(1))
qed

lemma session_served:
  assumes "\<forall>c. ready (clients c)" and "represents (net_kv (view (ext w))) b"
    and "list_all (\<lambda>e. message_ok (snd e)) es" and "net_idle (view (ext w)) \<noteq> {#}"
    and "\<forall>c. incoming (view (ext w)) c = [] \<and> staged (view (ext w)) c = []"
    and "converse_with width (localtime_now w) es b = (as, b')"
  shows "\<exists>clients' w'. serve_all E arrive (map deliver_message es) clients w = Some (clients', w')
    \<and> (\<forall>c. ready (clients' c)) \<and> represents (net_kv (view (ext w'))) b'
    \<and> (\<forall>c. sent (view (ext w')) c = sent (view (ext w)) c @ answers_to c as)
    \<and> (\<forall>c. incoming (view (ext w')) c = [] \<and> staged (view (ext w')) c = [])"
  using assms
proof (induction es arbitrary: clients w b as)
  case Nil
  then show ?case by simp
next
  case (Cons e es)
  obtain c m where e: "e = (c, m)" by fastforce
  obtain a b1 where r: "respond width (localtime_now w) m b = (a, b1)" by fastforce
  obtain as1 where as1: "converse_with width (localtime_now w) es b1 = (as1, b')" "as = (c, a) # as1"
    using Cons.prems(6) e r by (auto split: prod.splits)
  have m: "message_ok m" and es: "list_all (\<lambda>e. message_ok (snd e)) es" using Cons.prems(3) e by auto
  have rc: "ready (clients c)" and io: "incoming (view (ext w)) c = []" "staged (view (ext w)) c = []"
    using Cons.prems(1,5) by auto
  obtain client1 w1 where s: "serve (E c) (arrive c) [Readable (encode m)] (clients c) w = Some (client1, w1)"
      "ready client1" "localtime_now w1 = localtime_now w" "represents (net_kv (view (ext w1))) b1"
    and v: "view (ext w1) = (view (ext w))\<lparr>net_kv := net_kv (view (ext w1)),
        sent := (sent (view (ext w)))(c := sent (view (ext w)) c @ a)\<rparr>"
    using message_served [OF rc Cons.prems(2) m Cons.prems(4) io r] by blast
  obtain k where k: "view (ext w1) = (view (ext w))\<lparr>net_kv := k,
      sent := (sent (view (ext w)))(c := sent (view (ext w)) c @ a)\<rparr>"
    using v by blast
  have "\<exists>clients' w'. serve_all E arrive (map deliver_message es) (clients(c := client1)) w1 = Some (clients', w')
    \<and> (\<forall>d. ready (clients' d)) \<and> represents (net_kv (view (ext w'))) b'
    \<and> (\<forall>d. sent (view (ext w')) d = sent (view (ext w1)) d @ answers_to d as1)
    \<and> (\<forall>d. incoming (view (ext w')) d = [] \<and> staged (view (ext w')) d = [])"
    using Cons.prems(1,4,5) s as1(1) by (intro Cons.IH [OF _ s(4) es]) (simp_all add: k)
  then obtain clients' w' where t: "serve_all E arrive (map deliver_message es) (clients(c := client1)) w1 = Some (clients', w')"
    "\<forall>d. ready (clients' d)" "represents (net_kv (view (ext w'))) b'"
    "\<forall>d. sent (view (ext w')) d = sent (view (ext w1)) d @ answers_to d as1"
    "\<forall>d. incoming (view (ext w')) d = [] \<and> staged (view (ext w')) d = []" by blast
  have "serve_all E arrive (map deliver_message (e # es)) clients w = Some (clients', w')"
    using s(1) t(1) e by (simp add: deliver_message_def del: serve.simps)
  moreover have "\<forall>d. sent (view (ext w')) d = sent (view (ext w)) d @ answers_to d as"
    using t(4) by (simp add: k as1(2))
  ultimately show ?case using t(2,3,5) by blast
qed

text \<open>
  Two messages in one read are taken for one packet, of a length that no handler accepts. A
  location and a phone command make a packet of base stations: for a device with an owner it
  starts a location query.
\<close>

lemma owner_read:
  assumes "represents (net_kv (view (ext w))) b" and "length d = 8"
  shows "\<exists>r buf w1. get_value_fromredis (E c) (bytes ''R_'' @ hex_text d) (replicate 256 0) 0 w = Some (r, buf, w1)
    \<and> view (ext w1) = view (ext w) \<and> same_but_ext w w1 \<and> (r = -1 \<longleftrightarrow> owner b d = None)"
proof -
  let ?k = "bytes ''R_'' @ hex_text d"
  have k: "plain ?k" "length ?k < 252" using assms(2) by (simp_all add: plain_clean bytes_def)
  have "\<exists>r buf w1. get_value_fromredis (E c) ?k (replicate 256 0) 0 w = Some (r, buf, w1)
    \<and> net_kv (view (ext w1)) = net_kv (view (ext w)) \<and> same_but_ext w w1 \<and> (r = -1 \<longleftrightarrow> owner b d = None)"
  proof (cases "owner b d")
    case None
    then have "net_kv (view (ext w)) ?k = None" using represents_reads(1) [OF assms] by simp
    then obtain w1 where "get_value_fromredis (E c) ?k (replicate 256 0) 0 w = Some (-1, replicate 256 0, w1)"
        "net_kv (view (ext w1)) = net_kv (view (ext w))" "same_but_ext w w1"
      using service.get_none [OF k] by blast
    then show ?thesis using None by auto
  next
    case (Some u)
    have u: "u < 10 ^ 8" using Some represents_ok [OF assms(1)] by (auto simp: broker_ok_def)
    have "net_kv (view (ext w)) ?k = Some (dec (int u))"
      using represents_reads(1) [OF assms] Some by simp
    moreover have "plain (dec (int u))" "length (dec (int u)) < 255"
      using length_dec_user [OF u] by (simp_all add: plain_clean)
    ultimately obtain w1 where "get_value_fromredis (E c) ?k (replicate 256 0) 0 w =
        Some (int (length (dec (int u))), dec (int u) @ replicate (256 - length (dec (int u))) 0, w1)"
        "net_kv (view (ext w1)) = net_kv (view (ext w))" "same_but_ext w w1"
      using service.user_read [OF k] by blast
    then show ?thesis using Some by auto
  qed
  then obtain r buf w1 where g: "get_value_fromredis (E c) ?k (replicate 256 0) 0 w = Some (r, buf, w1)"
    "net_kv (view (ext w1)) = net_kv (view (ext w))" "same_but_ext w w1" "r = -1 \<longleftrightarrow> owner b d = None" by (elim exE conjE)
  have "view (ext w1) = (view (ext w))\<lparr>net_kv := net_kv (view (ext w1))\<rparr>"
    by (intro net_kv_only others.get_obs [OF g(1)] service.pool.get_obs [OF g(1)])
  then show ?thesis using g by (intro exI [of _ r] exI [of _ buf] exI [of _ w1]) simp
qed

lemma coalesced_dispatch:
  assumes "message_ok m" and "message_ok m2" and "length (encode m @ old) = 1024"
    and "output_buffer client \<noteq> None" and "represents (net_kv (view (ext w))) b"
  shows "\<exists>w1. view (ext w1) = view (ext w) \<and> files w1 = files w \<and> started w1 = started w @ coalesced_threads b m m2
    \<and> handler_of (E c) client (encode m @ old) (length (encode m @ encode m2)) m w =
      (case m of Device_location d x \<Rightarrow> Some (send_answer (E c) client retTOK w1) | _ \<Rightarrow> Some (client, w1))"
proof (cases m)
  case (Device_heart d x)
  then show ?thesis
    using message_length [OF assms(1)] message_length [OF assms(2)]
    by (intro exI [of _ w]) (auto simp: handler_of_def coalesced_threads_def on_device_heart_def deviceHeartPacket_def split: message.splits)
next
  case (Phone_heart p x)
  then show ?thesis
    using message_length [OF assms(1)] message_length [OF assms(2)]
    by (intro exI [of _ w]) (auto simp: handler_of_def coalesced_threads_def on_phone_heart_def phoneHeaderPacket_def split: message.splits)
next
  case (Phone_command p k i x)
  then show ?thesis
    using message_length [OF assms(1)] message_length [OF assms(2)]
    by (intro exI [of _ w]) (auto simp: handler_of_def coalesced_threads_def phoneCommandPacket_def split: message.splits)
next
  case (Device_location d x)
  let ?data = "encode m @ old"
  have n: "length (encode m @ encode m2) \<in> {40, 48, 64}"
    using message_length [OF assms(1)] message_length [OF assms(2)] Device_location by (cases m2) auto
  have "\<exists>r w1. deviceLocationPacket (E c) ?data (int (length (encode m @ encode m2))) w = Some (r, w1)
      \<and> view (ext w1) = view (ext w) \<and> files w1 = files w \<and> started w1 = started w @ coalesced_threads b m m2"
  proof (cases "length (encode m @ encode m2) = 48")
    case False
    then have "coalesced_threads b m m2 = []"
      using message_length [OF assms(1)] message_length [OF assms(2)] Device_location
      by (cases m2) (auto simp: coalesced_threads_def)
    then show ?thesis using n False by (intro exI [of _ "-3"] exI [of _ w]) (auto simp: deviceLocationPacket_def)
  next
    case True
    have d: "length d = 8" "length x = 23" and nine: "9 \<le> length ?data"
      using assms(1,3) Device_location by auto
    have "?data = 0x47 # d @ x @ old" by (simp add: Device_location)
    note id = device_fields(1) [OF this d]
    obtain r buf w1 where g: "get_value_fromredis (E c) (bytes ''R_'' @ hex_text d) (replicate 256 0) 0 w = Some (r, buf, w1)"
        "view (ext w1) = view (ext w)" "same_but_ext w w1" "r = -1 \<longleftrightarrow> owner b d = None"
      using owner_read [OF assms(5) d(1), of c] by (elim exE conjE)
    have "\<exists>p k i y. m2 = Phone_command p k i y"
      using True message_length [OF assms(1)] message_length [OF assms(2)] Device_location by (cases m2) auto
    then show ?thesis
      using g True d(1) id device_text_eq [OF nine] same_but_ext_fields [OF g(3)]
      by (cases "r = -1")
        (auto simp: deviceLocationPacket_def relationship_key_eq pthread_create_def coalesced_threads_def Device_location)
  qed
  then obtain r w1 where "deviceLocationPacket (E c) ?data (int (length (encode m @ encode m2))) w = Some (r, w1)"
      "view (ext w1) = view (ext w)" "files w1 = files w" "started w1 = started w @ coalesced_threads b m m2" by blast
  moreover have "length retTOK = 6" by (simp add: retTOK_def)
  ultimately show ?thesis
    using assms(4) Device_location by (intro exI [of _ w1]) (simp add: handler_of_def on_location_def return_answer)
qed

lemma coalesced_lost:
  assumes "ready client" and "represents (net_kv (view (ext w))) b" and "message_ok m" and "message_ok m2"
    and "incoming (view (ext w)) c = []" and "staged (view (ext w)) c = []"
  shows "\<exists>client' w'. serve (E c) (arrive c) [Readable (encode m @ encode m2)] client w = Some (client', w')
    \<and> ready client' \<and> view (ext w') = (view (ext w))\<lparr>sent := (sent (view (ext w)))(c := sent (view (ext w)) c
        @ (case m of Device_location d x \<Rightarrow> bytes ''RETOK%'' | _ \<Rightarrow> []))\<rparr>
    \<and> files w' = files w \<and> started w' = started w @ coalesced_threads b m m2"
proof -
  obtain pb where pb: "pBlock client = Some pb" "length (bb_packet pb) = 1024" "bb_index pb = 0"
    and out: "output_buffer client \<noteq> None"
    using assms(1) by (auto simp: ready_def)
  let ?n = "length (encode m @ encode m2)"
  let ?old = "encode m2 @ drop (length (encode m @ encode m2)) (bb_packet pb)"
  let ?a = "case m of Device_location d x \<Rightarrow> bytes ''RETOK%'' | _ \<Rightarrow> []"
  define client1 where "client1 = client\<lparr>pBlock := Some (pb\<lparr>bb_packet := encode m @ ?old\<rparr>)\<rparr>"
  have n: "encode m @ encode m2 \<noteq> []" "?n \<le> 1024"
    using message_length [OF assms(3)] message_length [OF assms(4)] by (cases m; cases m2; simp)+
  have len: "length (encode m @ ?old) = 1024" using n(2) pb(2) by simp
  have blk: "pBlock client1 = Some (pb\<lparr>bb_packet := encode m @ ?old\<rparr>)"
    and out1: "output_buffer client1 \<noteq> None" using out by (simp_all add: client1_def)
  obtain e1 where e1: "view e1 = view (ext w)"
    and once: "\<And>c1 w1 pb1. dispatch (E c) client1 0 ?n (w\<lparr>ext := e1\<rparr>) = Some (c1, 0, w1)
        \<Longrightarrow> pBlock c1 = Some pb1 \<Longrightarrow> length (bb_packet pb1) = 1024 \<Longrightarrow> incoming (view (ext w1)) c = []
      \<Longrightarrow> \<exists>e2. serve (E c) (arrive c) [Readable (encode m @ encode m2)] client w = Some (c1, w1\<lparr>ext := e2\<rparr>)
        \<and> view e2 = view (ext w1)"
    using read_once [OF pb assms(5) n] unfolding client1_def append_assoc by blast
  let ?w = "w\<lparr>ext := e1\<rparr>"
  have "represents (net_kv (view (ext ?w))) b" using assms(2) e1 by simp
  from coalesced_dispatch [OF assms(3,4) len out1 this]
  obtain w1 where v: "view (ext w1) = view (ext w)"
    and fs: "files w1 = files w" "started w1 = started w @ coalesced_threads b m m2"
    and h: "handler_of (E c) client1 (encode m @ ?old) ?n m ?w =
      (case m of Device_location d x \<Rightarrow> Some (send_answer (E c) client1 retTOK w1) | _ \<Rightarrow> Some (client1, w1))"
    using e1 by auto
  obtain e2 where e2: "send_answer (E c) client1 retTOK w1 = (client1, w1\<lparr>ext := e2\<rparr>)"
      "view e2 = (view (ext w))\<lparr>sent := (sent (view (ext w)))(c := sent (view (ext w)) c @ bytes ''RETOK%'')\<rparr>"
    using answer_sent [of w1 c client1 retTOK] assms(6) by (auto simp: v retTOK_def)
  have "view (ext w) = (view (ext w))\<lparr>sent := (sent (view (ext w)))(c := sent (view (ext w)) c @ [])\<rparr>" by simp
  then obtain e3 where e3: "handler_of (E c) client1 (encode m @ ?old) ?n m ?w = Some (client1, w1\<lparr>ext := e3\<rparr>)"
      "view e3 = (view (ext w))\<lparr>sent := (sent (view (ext w)))(c := sent (view (ext w)) c @ ?a)\<rparr>"
    using h e2 v by (cases m) (auto intro!: that [of "ext w1"])
  have d: "dispatch (E c) client1 0 ?n ?w = Some (client1, 0, w1\<lparr>ext := e3\<rparr>)"
    using dispatch_message [OF blk, of m ?old "E c" 0 ?n ?w] e3(1) by simp
  obtain e4 where "serve (E c) (arrive c) [Readable (encode m @ encode m2)] client w = Some (client1, w1\<lparr>ext := e4\<rparr>)"
      "view e4 = view e3"
    using once [OF d blk] len assms(5) by (auto simp: e3(2))
  moreover have "ready client1" using out1 blk len pb(3) by (simp add: ready_def)
  ultimately show ?thesis using e3(2) fs by auto
qed

end

section \<open>A network for closed evaluations\<close>

text \<open>The reference services, and per connection (a number) three queues.\<close>

record ref_net =
  base :: ref_state
  port_in :: "nat \<Rightarrow> byte list"
  port_staged :: "nat \<Rightarrow> byte list"
  port_out :: "nat \<Rightarrow> byte list"

definition on_base :: "(ref_state \<Rightarrow> 'a \<times> ref_state) \<Rightarrow> ref_net \<Rightarrow> 'a \<times> ref_net" where
  "on_base f e = (case f (base e) of (r, s) \<Rightarrow> (r, e\<lparr>base := s\<rparr>))"

definition net_externals :: "data_save_type \<Rightarrow> nat \<Rightarrow> ref_net externals" where
  "net_externals st c =
    \<lparr>save_type = st, sizeof_long = 4,
     redisCommand = (\<lambda>cmd. on_base (redisCommand (ref_externals st) cmd)),
     ConnectionPool_getConnection = on_base (ConnectionPool_getConnection (ref_externals st)),
     Connection_execute = (\<lambda>k s a e. map_option (\<lambda>b. e\<lparr>base := b\<rparr>) (Connection_execute (ref_externals st) k s a (base e))),
     Connection_executeQuery = (\<lambda>k s a e. map_option (\<lambda>(q, b). (q, e\<lparr>base := b\<rparr>))
       (Connection_executeQuery (ref_externals st) k s a (base e))),
     Connection_close = (\<lambda>k e. e\<lparr>base := Connection_close (ref_externals st) k (base e)\<rparr>),
     evbuffer_remove = (\<lambda>n e. (take n (port_in e c), e\<lparr>port_in := (port_in e)(c := drop n (port_in e c))\<rparr>)),
     evbuffer_add = (\<lambda>xs e. e\<lparr>port_staged := (port_staged e)(c := port_staged e c @ xs)\<rparr>),
     bufferevent_write_buffer = (\<lambda>e. (False, e\<lparr>port_staged := (port_staged e)(c := []),
       port_out := (port_out e)(c := port_out e c @ port_staged e c)\<rparr>))\<rparr>"

definition net_arrive :: "nat \<Rightarrow> byte list \<Rightarrow> ref_net \<Rightarrow> ref_net" where
  "net_arrive c xs e = e\<lparr>port_in := (port_in e)(c := port_in e c @ xs)\<rparr>"

definition net_view :: "ref_net \<Rightarrow> nat net" where
  "net_view e = \<lparr>net_kv = ref_kv (base e), net_idle = mset (ref_free (base e)), incoming = port_in e,
     staged = port_staged e, sent = port_out e\<rparr>"

lemma on_base_eq: "on_base f e = (r, e') \<longleftrightarrow> (\<exists>s. f (base e) = (r, s) \<and> e' = e\<lparr>base := s\<rparr>)"
  by (auto simp: on_base_def split: prod.splits)

lemma on_base_some: "\<exists>s. f (base e) = (r, s) \<and> P s \<Longrightarrow> \<exists>e'. on_base f e = (r, e') \<and> P (base e')"
  by (auto simp: on_base_def)

lemma net_backend: "backend (net_externals st c) (\<lambda>e. net_kv (net_view e)) (\<lambda>e. net_idle (net_view e))"
proof
  fix k v and e :: ref_net
  assume k: "plain k"
  show "\<exists>e'. redisCommand (net_externals st c) (bytes ''set '' @ k @ bytes '' '' @ v) e =
      (Some \<lparr>reply_type = REDIS_REPLY_STATUS, reply_str = Some (bytes ''OK'')\<rparr>, e')
      \<and> net_kv (net_view e') = (net_kv (net_view e))(k \<mapsto> v)" if v: "plain v"
    using ref.redis_set [where e = "base e" and st = st, OF k v] by (auto simp: net_externals_def net_view_def on_base_def)
  show "\<exists>e'. redisCommand (net_externals st c) (bytes ''get '' @ k) e =
      (Some \<lparr>reply_type = REDIS_REPLY_STRING, reply_str = Some v\<rparr>, e') \<and> net_kv (net_view e') = net_kv (net_view e)"
    if "net_kv (net_view e) k = Some v"
    using that ref.redis_get_some [where e = "base e" and st = st and v = v, OF k] by (auto simp: net_externals_def net_view_def on_base_def)
  show "\<exists>e'. redisCommand (net_externals st c) (bytes ''get '' @ k) e =
      (Some \<lparr>reply_type = REDIS_REPLY_NIL, reply_str = None\<rparr>, e') \<and> net_kv (net_view e') = net_kv (net_view e)"
    if "net_kv (net_view e) k = None"
    using that ref.redis_get_none [where e = "base e" and st = st, OF k] by (auto simp: net_externals_def net_view_def on_base_def)
  show "\<exists>r e'. redisCommand (net_externals st c) (bytes ''del '' @ k) e = (r, e')
      \<and> net_kv (net_view e') = (net_kv (net_view e))(k := None)"
    using ref.redis_del [where e = "base e" and st = st, OF k] by (auto simp: net_externals_def net_view_def on_base_def)
qed (auto simp: net_externals_def net_view_def on_base_eq
    dest: ref_backend.pool_take ref_backend.sql_execute ref_backend.sql_query ref_backend.redis_idle
    simp: ref_backend.pool_give)

lemma net_quiet: "library_quiet (net_externals st c)
    (\<lambda>e. (incoming (net_view e), staged (net_view e), sent (net_view e)))"
  by unfold_locales (auto simp: net_externals_def net_view_def on_base_eq)

interpretation ref_net: connections "net_externals st" net_view net_arrive 4
  by (rule connections.intro) (simp_all add: net_backend net_quiet,
    auto simp: net_externals_def net_view_def net_arrive_def on_base_def ref_externals_def split: list.splits prod.splits)

text \<open>
  A deployment: the database holds one pair, phone 7 and the device of \<^const>\<open>demo_dev\<close>; the phone
  speaks on connection 1, the device on connection 2.
\<close>

definition net_world :: "ref_net world" where
  "net_world = \<lparr>ext = \<lparr>base = demo_state\<lparr>ref_kv := foldl put_relationship Map.empty (map pair_row [(7, demo_dev)])\<rparr>,
       port_in = (\<lambda>_. []), port_staged = (\<lambda>_. []), port_out = (\<lambda>_. [])\<rparr>,
     files = Map.empty, creatable = (\<lambda>_. True), localtime_now = demo_tm, started = [], closed_fds = []\<rparr>"

definition demo_broker :: broker where
  "demo_broker = foldl bind_pair no_broker [(7, demo_dev)]"

definition demo_alarm_on :: message where
  "demo_alarm_on = Phone_command [0, 0, 0, 7] 0x08 0 (replicate 9 0)"

definition demo_beat :: message where
  "demo_beat = Device_heart demo_dev (replicate 23 0)"

lemma demo_broker_represented: "represents (net_kv (net_view (ext net_world))) demo_broker"
  using represents_pairs [OF represents_empty, of "[(7, demo_dev)]"]
  by (simp add: net_world_def net_view_def demo_broker_def pair_ok_def)

lemma net_world_simps [simp]:
  "net_idle (net_view (ext net_world)) \<noteq> {#}" "incoming (net_view (ext net_world)) c = []"
  "staged (net_view (ext net_world)) c = []" "sent (net_view (ext net_world)) c = []"
  "localtime_now net_world = demo_tm"
  by (simp_all add: net_world_def net_view_def)

lemma demo_broker_simps [simp]:
  "owner demo_broker = [demo_dev \<mapsto> 7]" "watch demo_broker = [7 \<mapsto> demo_dev]"
  "waiting demo_broker = Map.empty" "report demo_broker = Map.empty"
  by (simp_all add: demo_broker_def no_broker_def bind_pair_def)

lemma demo_ready: "ready demo_client"
  by (simp add: ready_def demo_client_def fresh_block_def)

lemma demo_messages: "message_ok demo_alarm_on" "message_ok demo_beat" "number_of [0, 0, 0, 7] = 7"
proof -
  show "number_of [0, 0, 0, 7] = 7" by code_simp
qed (simp_all add: demo_alarm_on_def demo_beat_def)

lemma demo_alarm_command: "command_of 0x08 0 num = Some (Plain 0x08)"
  by (simp add: command_of_def numbered_def single_def checkPhoneCommand_def)

end
