(* ===== verification/Robot_Main.thy ===== *)
theory Robot_Main
  imports Robot_Startup
begin

text \<open>
  \<open>main\<close> and what surrounds it: the table of handlers that \<open>initApolloProtocol\<close> fills, the
  connection pool of the process, the multicast receiver that runs beside the server in the same
  process, the signal handler, and \<open>test.c\<close>, a trial program.
\<close>

section \<open>The table of handlers\<close>

text \<open>
  The pointers of \<open>struct ApolloProtocolProcess\<close>. The info buffer of the phone heart beat is passed
  as a buffer and an offset, and the receiving handler of blocks gets its two uninitialised arrays.
\<close>

record 'w ApolloProtocolProcess =
  deviceHeartPacket_Proc :: "byte list \<Rightarrow> int \<Rightarrow> byte list \<Rightarrow> 'w world \<Rightarrow> (int \<times> byte list \<times> 'w world) option"
  phoneHeaderPacket_Proc :: "byte list \<Rightarrow> int \<Rightarrow> byte list \<Rightarrow> nat \<Rightarrow> 'w world \<Rightarrow> (int \<times> byte list \<times> 'w world) option"
  phoneCommandPacket_Proc :: "byte list \<Rightarrow> int \<Rightarrow> 'w world \<Rightarrow> (int \<times> 'w world) option"
  deviceLocationPacket_Proc :: "byte list \<Rightarrow> int \<Rightarrow> 'w world \<Rightarrow> (int \<times> 'w world) option"
  deviceBaseStation_Proc :: "byte list \<Rightarrow> int \<Rightarrow> 'w world \<Rightarrow> int \<times> 'w world"
  phoneAddDevice_Proc :: "byte list \<Rightarrow> int \<Rightarrow> 'w world \<Rightarrow> int \<times> 'w world"
  phoneOperatorUserInfo_Proc :: "client \<Rightarrow> byte list \<Rightarrow> int \<Rightarrow> 'w world \<Rightarrow> (int \<times> client \<times> 'w world) option"
  deviceBlockDataRecvPacket_Proc :: "byte list \<Rightarrow> byte list \<Rightarrow> BlockBuffer \<Rightarrow> byte list \<Rightarrow> int \<Rightarrow> 'w world
    \<Rightarrow> (int \<times> BlockBuffer \<times> byte list \<times> 'w world) option"
  deviceBlockDataSendPacket_Proc :: "client \<Rightarrow> byte list \<Rightarrow> int \<Rightarrow> 'w world \<Rightarrow> (int \<times> client \<times> 'w world) option"

definition initApolloProtocol :: "'w externals \<Rightarrow> 'w ApolloProtocolProcess" where
  "initApolloProtocol E =
    \<lparr>deviceHeartPacket_Proc = deviceHeartPacket E,
     phoneHeaderPacket_Proc = phoneHeaderPacket E,
     phoneCommandPacket_Proc = phoneCommandPacket E,
     deviceLocationPacket_Proc = deviceLocationPacket E,
     deviceBaseStation_Proc = deviceBaseStation,
     phoneAddDevice_Proc = phoneAddDevice,
     phoneOperatorUserInfo_Proc = phoneOperatorUserInfo E,
     deviceBlockDataRecvPacket_Proc = deviceBlockDataRecvPacket (save_type E),
     deviceBlockDataSendPacket_Proc = deviceBlockDataSendPacket E\<rparr>"

text \<open>
  The part of the \<open>switch\<close> that calls a handler through the table without looking at its result;
  \<open>table\<close> is the pointer \<open>ApolloProtocolInstance\<close>, null before \<open>initApolloProtocol\<close>.
\<close>

definition dispatch_by_table ::
    "'w ApolloProtocolProcess option \<Rightarrow> client \<Rightarrow> byte list \<Rightarrow> int \<Rightarrow> 'w world \<Rightarrow> (client \<times> 'w world) option" where
  "dispatch_by_table table client data nbytes w = do {
     T \<leftarrow> table;
     hdr \<leftarrow> peek data 0;
     if hdr = HDR_COMMAND_PACKET then do { (r, w') \<leftarrow> phoneCommandPacket_Proc T data nbytes w; Some (client, w') }
     else if hdr = HDR_ADD_DEVICE then Some (client, snd (phoneAddDevice_Proc T data nbytes w))
     else if hdr = HDR_OPERATOR_USER_INFO then do {
       (r, c, w') \<leftarrow> phoneOperatorUserInfo_Proc T client data nbytes w; Some (c, w') }
     else if hdr = HDR_BASE_STATION_DEVICE then Some (client, snd (deviceBaseStation_Proc T data nbytes w))
     else if hdr = HDR_BLOCK_DATA_SEND then do {
       (r, c, w') \<leftarrow> deviceBlockDataSendPacket_Proc T client data nbytes w; Some (c, w') }
     else Some (client, w) }"

lemma table_dispatches:
  assumes "pBlock client = Some pb" and "peek (bb_packet pb) 0 = Some h"
    and "h \<in> {HDR_COMMAND_PACKET, HDR_ADD_DEVICE, HDR_OPERATOR_USER_INFO, HDR_BASE_STATION_DEVICE, HDR_BLOCK_DATA_SEND}"
  shows "dispatch E client bi n w = do {
    (c, w') \<leftarrow> dispatch_by_table (Some (initApolloProtocol E)) client (bb_packet pb) (int n) w; Some (c, bi, w') }"
  using assms
  by (auto simp: dispatch_def dispatch_by_table_def initApolloProtocol_def Let_def case_prod_unfold)

section \<open>The process\<close>

record 'w process =
  ApolloProtocolInstance :: "'w ApolloProtocolProcess option"
  ConnectionPool_Instance :: "nat option"

text \<open>\<open>new_pool\<close> is the pool libzdb makes for the address of the database and starts.\<close>

definition ConnectionPoolInstanceInit :: "nat \<Rightarrow> 'w process \<Rightarrow> 'w process" where
  "ConnectionPoolInstanceInit new_pool p =
     (if ConnectionPool_Instance p = None then p\<lparr>ConnectionPool_Instance := Some new_pool\<rparr> else p)"

text \<open>
  \<open>main\<close> up to the loop of the server, and what the process ends with: the thread of the
  multicast receiver, when its set-up fails, calls \<open>exit\<close> for all.
\<close>

definition main_process ::
    "'w externals \<Rightarrow> nat \<Rightarrow> 'w process \<Rightarrow> 'w world \<Rightarrow> ('w process \<times> 'w world) option" where
  "main_process E new_pool p w = do {
     let p1 = p\<lparr>ApolloProtocolInstance := Some (initApolloProtocol E)\<rparr>;
     let p2 = ConnectionPoolInstanceInit new_pool p1;
     w1 \<leftarrow> main_init E w;
     Some (p2, w1) }"

definition main_end :: "syner_setup \<Rightarrow> start_outcome \<Rightarrow> server_end" where
  "main_end so o' = (case ApolloSyner_setup so of Some code \<Rightarrow> Exited code | None \<Rightarrow> runServer o')"

definition sighandler :: "int \<Rightarrow> int \<Rightarrow> nat \<Rightarrow> (bool, 'j) workqueue \<Rightarrow> (bool, 'j) workqueue option" where
  "sighandler sig loopexit_result fuel q = killServer loopexit_result fuel q"

lemma pool_made_once:
  "ConnectionPoolInstanceInit b (ConnectionPoolInstanceInit a p) = ConnectionPoolInstanceInit a p"
  by (auto simp: ConnectionPoolInstanceInit_def)

text \<open>
  A server whose multicast group cannot be joined, or whose multicast port is taken, is ended by
  its own synchronisation thread, in the latter case with the code of success.
\<close>

lemma multicast_ends_server:
  assumes "0 \<le> syn_sockfd so"
  shows "\<not> membership_ok so \<Longrightarrow> main_end so o' = Exited (-1)"
    and "membership_ok so \<Longrightarrow> \<not> syn_bind_ok so \<Longrightarrow> main_end so o' = Exited 0"
    and "membership_ok so \<Longrightarrow> syn_bind_ok so \<Longrightarrow> main_end so o' = runServer o'"
  using assms by (simp_all add: main_end_def ApolloSyner_setup_def)

context backend
begin

text \<open>The state the first connection meets: the table is filled, the pool exists, Redis is loaded.\<close>

lemma main_ready:
  assumes "represents (kv (ext w)) b" and "idle (ext w) \<noteq> {#}"
    and "\<And>e. idle e \<noteq> {#} \<Longrightarrow> fst (ConnectionPool_getConnection E e) \<noteq> None"
    and "\<And>c e. \<exists>e'. Connection_executeQuery E c SQL_SELECT_USERINFO_LIST [] e = Some (Some users, e')"
    and "\<And>c e. \<exists>e'. Connection_executeQuery E c SQL_SELECT_RELATIONSHIP_LIST [] e = Some (Some (map pair_row rel), e')"
    and "\<forall>r \<in> set users. user_row_ok r" and "list_all pair_ok rel"
  shows "\<exists>p' w'. main_process E new_pool p w = Some (p', w')
    \<and> ApolloProtocolInstance p' = Some (initApolloProtocol E) \<and> ConnectionPool_Instance p' \<noteq> None
    \<and> represents (kv (ext w')) (foldl bind_pair b rel) \<and> idle (ext w') = idle (ext w)"
  using startup_represents [OF assms]
  by (auto simp: main_process_def ConnectionPoolInstanceInit_def Let_def)

end

section \<open>The trial program\<close>

text \<open>
  \<open>test.c\<close> prints a number cut to a character, and \<open>atoi\<close> of six characters. The array has no room
  for a terminator, so the call reads beyond it.
\<close>

definition test_main :: "int list option" where
  "test_main = do {
     let a = 32;
     let buf = bytes ''000320'';
     let b = sint (word_of_int a :: byte);
     s \<leftarrow> cstr buf 0;
     n \<leftarrow> atoi s;
     Some [b, n] }"

lemma test_main_undefined: "test_main = None"
  by (simp add: test_main_def cstr_def bytes_def)

end
