(* ===== verification/Sync_Redis.thy ===== *)
theory Sync_Redis
  imports Apollo_Sql
begin

text \<open>
  The gearman worker of \<open>SyncDataToRedis.c\<close>, which keeps Redis in step with the database: a job
  carries a JSON text, and its handler stores the pairs that the server's own start-up would
  store for the same row. json-c is a parameter with the contract \<open>json_library\<close>; a gearman job
  is the memory at its workload pointer and the workload size.
\<close>

section \<open>json-c\<close>

text \<open>\<open>json_null\<close> is the null object pointer the two local variables start with.\<close>

record 'j json =
  json_tokener_parse :: "byte list \<Rightarrow> 'j"
  is_error :: "'j \<Rightarrow> bool"
  json_object_object_get :: "'j \<Rightarrow> byte list \<Rightarrow> 'j"
  json_object_to_json_string :: "'j \<Rightarrow> byte list"
  json_null :: 'j

definition EAGLE_USER_ID :: "byte list" where "EAGLE_USER_ID = bytes ''UserId''"
definition EAGLE_USER_NAME :: "byte list" where "EAGLE_USER_NAME = bytes ''UserName''"
definition EAGLE_DEVICE_ID :: "byte list" where "EAGLE_DEVICE_ID = bytes ''DeviceId''"
definition CMD_LENGTH :: nat where [simp]: "CMD_LENGTH = 128"

definition USERINFO :: int where [simp]: "USERINFO = 0"
definition USERANDDEVICERELATIONSHIP :: int where [simp]: "USERANDDEVICERELATIONSHIP = 1"

section \<open>parserJsonTokener\<close>

text \<open>
  The loop that moves the characters behind the opening quote one place down, with at most \<open>m\<close>
  turns left: where it stops, and the array.
\<close>

primrec quote_loop :: "byte list \<Rightarrow> nat \<Rightarrow> nat \<Rightarrow> (nat \<times> byte list) option" where
  "quote_loop valueName i 0 = Some (i, valueName)"
| "quote_loop valueName i (Suc m) = do {
     c \<leftarrow> peek valueName i;
     if c = of_char CHR ''\"'' then Some (i, valueName)
     else do {
       valueName' \<leftarrow> poke valueName (i - 1) c;
       quote_loop valueName' (Suc i) m } }"

definition strip_quotes :: "byte list \<Rightarrow> byte list option" where
  "strip_quotes valueName = do {
     (i, v) \<leftarrow> quote_loop valueName 1 19;
     v1 \<leftarrow> poke v (i - 1) 0;
     poke v1 i 0 }"

text \<open>The name of the user or the device, and the user id, by the type of the job.\<close>

definition tokeners :: "'j json \<Rightarrow> 'j \<Rightarrow> int \<Rightarrow> 'j \<times> 'j" where
  "tokeners J obj type =
     (if type = USERINFO then
        (json_object_object_get J obj EAGLE_USER_NAME, json_object_object_get J obj EAGLE_USER_ID)
      else if type = USERANDDEVICERELATIONSHIP then
        (json_object_object_get J obj EAGLE_DEVICE_ID, json_object_object_get J obj EAGLE_USER_ID)
      else (json_null J, json_null J))"

definition parserJsonTokener ::
    "'j json \<Rightarrow> byte list \<Rightarrow> byte list \<Rightarrow> byte list \<Rightarrow> int \<Rightarrow> (int \<times> byte list \<times> byte list) option" where
  "parserJsonTokener J json valueId valueName type = do {
     text \<leftarrow> cstr json 0;
     let obj = json_tokener_parse J text;
     if is_error J obj then Some (-1, valueId, valueName)
     else do {
       valueName1 \<leftarrow> sprintf_at valueName 0 (json_object_to_json_string J (fst (tokeners J obj type)));
       valueId1 \<leftarrow> sprintf_at valueId 0 (json_object_to_json_string J (snd (tokeners J obj type)));
       valueName2 \<leftarrow> strip_quotes valueName1;
       Some (0, valueId1, valueName2) } }"

section \<open>The handlers\<close>

text \<open>
  The copy loop counts in an unsigned character. It may run for ever, and overruns the buffer
  first.
\<close>

partial_function (option) copy_workload ::
    "byte list \<Rightarrow> nat \<Rightarrow> byte \<Rightarrow> byte list \<Rightarrow> byte list option" where
  "copy_workload mem result_size i json_buffer =
     (if unat i < result_size then
        Option.bind (peek mem (unat i)) (\<lambda>c.
          Option.bind (poke json_buffer (unat i) c) (\<lambda>json_buffer'.
            copy_workload mem result_size (i + 1) json_buffer'))
      else Some json_buffer)"

record job =
  workload :: "byte list"
  workload_size :: nat

text \<open>
  A handler answers the size of its result (whose content it never sets), whether it reported
  \<open>GEARMAN_SUCCESS\<close>, and the world. The result of \<open>parserJsonTokener\<close> is ignored; printing the
  workload reads it as a string.
\<close>

definition sync_UserInfo ::
    "'j json \<Rightarrow> 'w externals \<Rightarrow> job \<Rightarrow> 'w world \<Rightarrow> (nat \<times> bool \<times> 'w world) option" where
  "sync_UserInfo J E job w = do {
     printed \<leftarrow> cstr (workload job) 0;
     json_buffer \<leftarrow> copy_workload (workload job) (workload_size job) 0 (replicate CMD_LENGTH 0);
     (r, userIdBuf, userNameBuf) \<leftarrow>
       parserJsonTokener J json_buffer (replicate 20 0) (replicate 20 0) USERINFO;
     userId \<leftarrow> cstr userIdBuf 0;
     userName \<leftarrow> cstr userNameBuf 0;
     b \<leftarrow> sprintf_at (replicate 20 0) 0 (bytes ''U_'' @ userName);
     UUserName \<leftarrow> cstr b 0;
     (s, w1) \<leftarrow> set_key_toredis E UUserName userId w;
     Some (workload_size job, s \<noteq> -1, w1) }"

definition sync_UserAndDeviceRelationShip ::
    "'j json \<Rightarrow> 'w externals \<Rightarrow> job \<Rightarrow> 'w world \<Rightarrow> (nat \<times> bool \<times> 'w world) option" where
  "sync_UserAndDeviceRelationShip J E job w = do {
     printed \<leftarrow> cstr (workload job) 0;
     json_buffer \<leftarrow> copy_workload (workload job) (workload_size job) 0 (replicate CMD_LENGTH 0);
     (r, userIdBuf, deviceIdBuf) \<leftarrow>
       parserJsonTokener J json_buffer (replicate 20 0) (replicate 20 0) USERANDDEVICERELATIONSHIP;
     userId \<leftarrow> cstr userIdBuf 0;
     deviceId \<leftarrow> cstr deviceIdBuf 0;
     b \<leftarrow> sprintf_at (replicate 20 0) 0 (bytes ''RP_'' @ userId);
     RPUserId \<leftarrow> cstr b 0;
     (s, w1) \<leftarrow> set_key_toredis E RPUserId deviceId w;
     if s = -1 then Some (workload_size job, False, w1)
     else do {
       c \<leftarrow> sprintf_at (replicate 20 0) 0 (bytes ''R_'' @ deviceId);
       RDeviceId \<leftarrow> cstr c 0;
       (t, w2) \<leftarrow> set_key_toredis E RDeviceId userId w1;
       Some (workload_size job, t \<noteq> -1, w2) } }"

definition syncToRedis :: "job \<Rightarrow> 'w world \<Rightarrow> (nat \<times> bool \<times> 'w world) option" where
  "syncToRedis job w = do {
     printed \<leftarrow> cstr (workload job) 0;
     Some (workload_size job, False, w) }"

text \<open>
  The worker: each call of \<open>gearman_worker_work\<close> runs the function a job is for and answers
  whether it succeeded; the first failure ends the loop, and the list of calls is what gearman
  delivers.
\<close>

datatype gearman_function = F_syncToRedis | F_sync_UserInfo | F_sync_UserAndDeviceRelationShip

definition run_job ::
    "'j json \<Rightarrow> 'w externals \<Rightarrow> gearman_function \<Rightarrow> job \<Rightarrow> 'w world \<Rightarrow> (nat \<times> bool \<times> 'w world) option" where
  "run_job J E f job w = (case f of
      F_syncToRedis \<Rightarrow> syncToRedis job w
    | F_sync_UserInfo \<Rightarrow> sync_UserInfo J E job w
    | F_sync_UserAndDeviceRelationShip \<Rightarrow> sync_UserAndDeviceRelationShip J E job w)"

fun sync_main ::
    "'j json \<Rightarrow> 'w externals \<Rightarrow> ((gearman_function \<times> job) option \<times> bool) list \<Rightarrow> 'w world \<Rightarrow> 'w world option" where
  "sync_main J E [] w = Some w"
| "sync_main J E ((None, success) # calls) w = (if success then sync_main J E calls w else Some w)"
| "sync_main J E ((Some (f, job), success) # calls) w = do {
     (n, r, w1) \<leftarrow> run_job J E f job w;
     if success then sync_main J E calls w1 else Some w1 }"

section \<open>The quotes\<close>

lemma quote_loop_shift:
  assumes "34 \<notin> set s" and "length s < m"
  shows "\<exists>y. quote_loop (pre @ x # s @ 34 # rest) (Suc (length pre)) m =
    Some (Suc (length pre) + length s, pre @ s @ y # 34 # rest)"
  using assms
proof (induction s arbitrary: pre x m)
  case Nil
  then obtain m' where "m = Suc m'" by (cases m) auto
  then show ?case by (simp add: nth_append)
next
  case (Cons c s)
  obtain m' where m: "m = Suc m'" using Cons.prems(2) by (cases m) auto
  obtain y where "quote_loop ((pre @ [c]) @ c # s @ 34 # rest) (Suc (length (pre @ [c]))) m' =
      Some (Suc (length (pre @ [c])) + length s, (pre @ [c]) @ s @ y # 34 # rest)"
    using Cons.IH [of m' "pre @ [c]" c] Cons.prems m by auto
  then show ?case using Cons.prems m by (simp add: nth_append list_update_append)
qed

lemma strip_quotes_quoted:
  assumes "34 \<notin> set s" and "length s < 19" and "0 \<notin> set s"
  shows "\<exists>b. strip_quotes (34 # s @ 34 # rest) = Some b \<and> cstr b 0 = Some s"
proof -
  obtain y where "quote_loop (34 # s @ 34 # rest) 1 19 = Some (1 + length s, s @ y # 34 # rest)"
    using quote_loop_shift [OF assms(1,2), of "[]"] by auto
  then have "strip_quotes (34 # s @ 34 # rest) = Some (s @ 0 # 0 # rest)"
    by (simp add: strip_quotes_def list_update_append)
  then show ?thesis using cstr_prefix [OF assms(3)] by auto
qed

text \<open>Without a second quote the loop runs to the end and the last store lies outside.\<close>

lemma quote_loop_no_quote:
  assumes "34 \<notin> set (drop i v)" and "0 < i" and "i + m = length v"
  shows "\<exists>v'. quote_loop v i m = Some (length v, v') \<and> length v' = length v"
  using assms
proof (induction m arbitrary: i v)
  case 0
  then show ?case by simp
next
  case (Suc m)
  then have "drop i v = v ! i # drop (Suc i) v" by (simp add: Cons_nth_drop_Suc)
  then have "v ! i \<noteq> 34" "34 \<notin> set (drop (Suc i) (v[i - 1 := v ! i]))" using Suc.prems by auto
  then show ?case using Suc.IH [of "Suc i" "v[i - 1 := v ! i]"] Suc.prems by auto
qed

lemma strip_quotes_unquoted: "34 \<notin> set (drop 1 v) \<Longrightarrow> length v = 20 \<Longrightarrow> strip_quotes v = None"
  using quote_loop_no_quote [of 1 v 19] by (auto simp: strip_quotes_def split: bind_splits)

section \<open>The copy\<close>

lemma copy_workload_run:
  assumes "unat i + n = result_size" and "result_size \<le> 128" and "result_size \<le> length mem" and "length b = 128"
  shows "copy_workload mem result_size i b = copy_loop b (unat i) mem (unat i) n"
  using assms
proof (induction n arbitrary: i b)
  case 0
  then show ?case by (simp add: copy_workload.simps)
next
  case (Suc n)
  then have "unat i < 128" by simp
  then have i: "unat (i + 1) = Suc (unat i)"
    by (simp add: unat_word_ariths)
  then show ?case using Suc by (subst copy_workload.simps) simp
qed

lemma copy_workload_fits:
  assumes "n \<le> 128" and "n \<le> length mem"
  shows "copy_workload mem n 0 (replicate 128 0) = Some (take n mem @ replicate (128 - n) 0)"
  using assms copy_workload_run [of 0 n n mem "replicate 128 0"]
  by (simp add: copy_loop_blit blit_def)

lemma copy_workload_overflow_run:
  assumes "unat i + n = 128" and "128 < result_size" and "length b = 128"
  shows "copy_workload mem result_size i b = None"
  using assms
proof (induction n arbitrary: i b)
  case 0
  then show ?case by (cases "peek mem 128") (simp_all add: copy_workload.simps)
next
  case (Suc n)
  then have "unat i < 128" by simp
  then have i: "unat (i + 1) = Suc (unat i)"
    by (simp add: unat_word_ariths)
  then show ?case using Suc
    by (subst copy_workload.simps) (auto split: bind_splits)
qed

lemma copy_workload_overflow: "128 < n \<Longrightarrow> copy_workload mem n 0 (replicate 128 0) = None"
  by (rule copy_workload_overflow_run [of _ 128]) simp_all

section \<open>Jobs that describe a row\<close>

text \<open>
  The JSON text of a row: the number of the user in decimal, without leading zeros and within 64
  bits, and a name of letters and digits. json-c reads such a text back; a string prints with
  its quotes, a number without. (Of other digits json-c makes another text: it drops leading
  zeros and clamps what does not fit 64 bits.)
\<close>

definition alnum :: "byte \<Rightarrow> bool" where
  "alnum c \<longleftrightarrow> isdigit c \<or> 65 \<le> c \<and> c \<le> 90 \<or> 97 \<le> c \<and> c \<le> 122"

definition json_text :: "byte list \<Rightarrow> byte list \<Rightarrow> byte list \<Rightarrow> byte list" where
  "json_text uid key name = bytes ''{\"UserId\":'' @ uid @ bytes '',\"'' @ key @ bytes ''\":\"'' @ name @ bytes ''\"}''"

definition json_row :: "byte list \<Rightarrow> byte list \<Rightarrow> bool" where
  "json_row uid name \<longleftrightarrow> uid = dec (int (scan_digits 0 uid)) \<and> scan_digits 0 uid < 2 ^ 63
     \<and> name \<noteq> [] \<and> list_all alnum name"

lemma json_row_small:
  assumes "n < 2 ^ 63" and "name \<noteq> []" and "list_all alnum name"
  shows "json_row (dec (int n)) name"
  using assms scan_dec_nat [of 0 n "[]"] by (simp add: json_row_def dec_def)

locale json_library =
  fixes J :: "'j json"
  assumes json_ok: "json_row uid name \<Longrightarrow> key = EAGLE_USER_NAME \<or> key = EAGLE_DEVICE_ID \<Longrightarrow>
      \<not> is_error J (json_tokener_parse J (json_text uid key name))"
    and json_uid: "json_row uid name \<Longrightarrow> key = EAGLE_USER_NAME \<or> key = EAGLE_DEVICE_ID \<Longrightarrow>
      json_object_to_json_string J (json_object_object_get J (json_tokener_parse J (json_text uid key name))
        EAGLE_USER_ID) = uid"
    and json_name: "json_row uid name \<Longrightarrow> key = EAGLE_USER_NAME \<or> key = EAGLE_DEVICE_ID \<Longrightarrow>
      json_object_to_json_string J (json_object_object_get J (json_tokener_parse J (json_text uid key name))
        key) = 34 # name @ [34]"

lemma alnum_not:
  assumes "alnum c"
  shows "c \<noteq> 0 \<and> c \<noteq> 32 \<and> c \<noteq> 34 \<and> c \<noteq> 37"
  using assms by (auto simp: alnum_def isdigit_def)

lemma json_row_plain:
  assumes "json_row uid name"
  shows "plain uid" and "plain name" and "34 \<notin> set name" and "34 \<notin> set uid"
proof -
  have "uid = dec_nat (scan_digits 0 uid)" using assms by (simp add: json_row_def dec_def)
  then have uid: "\<forall>c \<in> set uid. isdigit c" "uid \<noteq> []" by (metis dec_nat_digits, metis dec_nat_not_Nil)
  then have "\<forall>c \<in> set uid. alnum c" "\<forall>c \<in> set name. alnum c"
    using assms by (auto simp: json_row_def list_all_iff alnum_def)
  then have "\<forall>c \<in> set uid. c \<noteq> 0 \<and> c \<noteq> 32 \<and> c \<noteq> 34 \<and> c \<noteq> 37"
    "\<forall>c \<in> set name. c \<noteq> 0 \<and> c \<noteq> 32 \<and> c \<noteq> 34 \<and> c \<noteq> 37"
    using alnum_not by blast+
  then show "plain uid" and "plain name" and "34 \<notin> set name" and "34 \<notin> set uid"
    using assms uid(2) by (auto simp: plain_def json_row_def)
qed

lemma json_text_no_nul:
  assumes "json_row uid name" and "0 \<notin> set key"
  shows "0 \<notin> set (json_text uid key name)"
  using json_row_plain [OF assms(1)] assms(2) by (auto simp: json_text_def bytes_def plain_def)

definition row_job :: "byte list \<Rightarrow> byte list \<Rightarrow> byte list \<Rightarrow> job" where
  "row_job uid key name = \<lparr>workload = json_text uid key name @ [0], workload_size = length (json_text uid key name)\<rparr>"

lemma keys [simp]: "length EAGLE_USER_NAME = 8" "length EAGLE_DEVICE_ID = 8"
    "0 \<notin> set EAGLE_USER_NAME" "0 \<notin> set EAGLE_DEVICE_ID"
  by (simp_all add: EAGLE_USER_NAME_def EAGLE_DEVICE_ID_def bytes_def)

lemma row_job_buffer:
  assumes "json_row uid name" and "length uid < 20" and "length name < 18" and "0 \<notin> set key" and "length key = 8"
  shows "\<exists>b. copy_workload (workload (row_job uid key name)) (workload_size (row_job uid key name)) 0 (replicate 128 0) = Some b
    \<and> cstr b 0 = Some (json_text uid key name)
    \<and> cstr (workload (row_job uid key name)) 0 = Some (json_text uid key name)"
proof -
  let ?t = "json_text uid key name"
  have t: "length ?t < 128" "0 \<notin> set ?t"
    using assms json_text_no_nul [OF assms(1,4)] by (simp_all add: json_text_def)
  then have "copy_workload (?t @ [0]) (length ?t) 0 (replicate 128 0) = Some (?t @ replicate (128 - length ?t) 0)"
    using copy_workload_fits [of "length ?t" "?t @ [0]"] by simp
  then show ?thesis
    using cstr_blit_zeros(2) [OF t(2,1)] cstr_prefix [OF t(2), of "[]"] by (auto simp: row_job_def)
qed

text \<open>A call of the worker that runs the job of a relationship row and succeeds.\<close>

definition relationship_call :: "byte list \<times> byte list \<Rightarrow> (gearman_function \<times> job) option \<times> bool" where
  "relationship_call r = (Some (F_sync_UserAndDeviceRelationShip, row_job (fst r) EAGLE_DEVICE_ID (snd r)), True)"

context json_library
begin

lemma parser_row:
  assumes "json_row uid name" and "length uid < 20" and "length name < 18" and "cstr b 0 = Some (json_text uid key name)"
    and "type = 0 \<and> key = EAGLE_USER_NAME \<or> type = 1 \<and> key = EAGLE_DEVICE_ID"
  shows "\<exists>vi vn. parserJsonTokener J b (replicate 20 0) (replicate 20 0) type = Some (0, vi, vn)
    \<and> cstr vi 0 = Some uid \<and> cstr vn 0 = Some name"
proof -
  have key: "key = EAGLE_USER_NAME \<or> key = EAGLE_DEVICE_ID" using assms(5) by auto
  note p = json_row_plain [OF assms(1)]
  have tk: "json_object_to_json_string J (fst (tokeners J (json_tokener_parse J (json_text uid key name)) type)) = 34 # name @ [34]"
    "json_object_to_json_string J (snd (tokeners J (json_tokener_parse J (json_text uid key name)) type)) = uid"
    using assms(5) json_name [OF assms(1) key] json_uid [OF assms(1) key] by (auto simp: tokeners_def)
  obtain vi where vi: "sprintf_at (replicate 20 0) 0 uid = Some vi" "cstr vi 0 = Some uid"
    using sprintf_ok [of uid 0 "replicate 20 0"] p(1) assms(2) by (auto simp: plain_def)
  have "sprintf_at (replicate 20 0) 0 (34 # name @ [34]) = Some (34 # name @ 34 # 0 # replicate (17 - length name) 0)"
    using assms(3) by (simp add: sprintf_at_def blit_def)
  moreover obtain vn where "strip_quotes (34 # name @ 34 # 0 # replicate (17 - length name) 0) = Some vn" "cstr vn 0 = Some name"
    using strip_quotes_quoted [of name] p(2,3) assms(3) by (auto simp: plain_def)
  ultimately show ?thesis
    using json_ok [OF assms(1) key] assms(4) vi tk by (simp add: parserJsonTokener_def)
qed

lemma user_job:
  assumes "redis_server E kv" and "json_row uid name" and "length uid < 20" and "length name < 18"
  shows "\<exists>w'. sync_UserInfo J E (row_job uid EAGLE_USER_NAME name) w =
      Some (length (json_text uid EAGLE_USER_NAME name), True, w')
    \<and> kv (ext w') = put_user (kv (ext w)) [Some uid, Some name]"
proof -
  note p = json_row_plain [OF assms(2)]
  obtain b where b: "copy_workload (workload (row_job uid EAGLE_USER_NAME name))
      (workload_size (row_job uid EAGLE_USER_NAME name)) 0 (replicate 128 0) = Some b"
      "cstr b 0 = Some (json_text uid EAGLE_USER_NAME name)"
      "cstr (workload (row_job uid EAGLE_USER_NAME name)) 0 = Some (json_text uid EAGLE_USER_NAME name)"
    using row_job_buffer [OF assms(2-4), of EAGLE_USER_NAME] by auto
  obtain vi vn where v: "parserJsonTokener J b (replicate 20 0) (replicate 20 0) 0 = Some (0, vi, vn)"
      "cstr vi 0 = Some uid" "cstr vn 0 = Some name"
    using parser_row [OF assms(2-4) b(2), of 0] by auto
  obtain k where k: "sprintf_at (replicate 20 0) 0 (bytes ''U_'' @ name) = Some k" "cstr k 0 = Some (bytes ''U_'' @ name)"
    using sprintf_ok [of "bytes ''U_'' @ name" 0 "replicate 20 0"] p(2) assms(4) by (auto simp: plain_def bytes_def)
  obtain w' where "set_key_toredis E (bytes ''U_'' @ name) uid w = Some (0, w')"
      "kv (ext w') = (kv (ext w))(bytes ''U_'' @ name \<mapsto> uid)"
    using redis_server.set_ok [OF assms(1), of "bytes ''U_'' @ name" uid w] p assms(3,4) by (auto simp: plain_def bytes_def)
  then show ?thesis
    using b(1,3) v k by (simp add: sync_UserInfo_def put_user_def row_job_def)
qed

lemma relationship_job:
  assumes "redis_server E kv" and "json_row uid name" and "length uid < 17" and "length name < 18"
  shows "\<exists>w'. sync_UserAndDeviceRelationShip J E (row_job uid EAGLE_DEVICE_ID name) w =
      Some (length (json_text uid EAGLE_DEVICE_ID name), True, w')
    \<and> kv (ext w') = put_relationship (kv (ext w)) [Some uid, Some name]"
proof -
  note p = json_row_plain [OF assms(2)]
  have l: "length uid < 20" using assms(3) by simp
  obtain b where b: "copy_workload (workload (row_job uid EAGLE_DEVICE_ID name))
      (workload_size (row_job uid EAGLE_DEVICE_ID name)) 0 (replicate 128 0) = Some b"
      "cstr b 0 = Some (json_text uid EAGLE_DEVICE_ID name)"
      "cstr (workload (row_job uid EAGLE_DEVICE_ID name)) 0 = Some (json_text uid EAGLE_DEVICE_ID name)"
    using row_job_buffer [OF assms(2) l assms(4), of EAGLE_DEVICE_ID] by auto
  obtain vi vn where v: "parserJsonTokener J b (replicate 20 0) (replicate 20 0) 1 = Some (0, vi, vn)"
      "cstr vi 0 = Some uid" "cstr vn 0 = Some name"
    using parser_row [OF assms(2) l assms(4) b(2), of 1] by auto
  obtain k where k: "sprintf_at (replicate 20 0) 0 (bytes ''RP_'' @ uid) = Some k" "cstr k 0 = Some (bytes ''RP_'' @ uid)"
    using sprintf_ok [of "bytes ''RP_'' @ uid" 0 "replicate 20 0"] p(1) assms(3) by (auto simp: plain_def bytes_def)
  obtain m where m: "sprintf_at (replicate 20 0) 0 (bytes ''R_'' @ name) = Some m" "cstr m 0 = Some (bytes ''R_'' @ name)"
    using sprintf_ok [of "bytes ''R_'' @ name" 0 "replicate 20 0"] p(2) assms(4) by (auto simp: plain_def bytes_def)
  obtain w1 where w1: "set_key_toredis E (bytes ''RP_'' @ uid) name w = Some (0, w1)"
      "kv (ext w1) = (kv (ext w))(bytes ''RP_'' @ uid \<mapsto> name)"
    using redis_server.set_ok [OF assms(1), of "bytes ''RP_'' @ uid" name w] p assms(3,4) by (auto simp: plain_def bytes_def)
  obtain w2 where "set_key_toredis E (bytes ''R_'' @ name) uid w1 = Some (0, w2)"
      "kv (ext w2) = (kv (ext w1))(bytes ''R_'' @ name \<mapsto> uid)"
    using redis_server.set_ok [OF assms(1), of "bytes ''R_'' @ name" uid w1] p assms(3,4) by (auto simp: plain_def bytes_def)
  then show ?thesis
    using b(1,3) v k m w1 by (simp add: sync_UserAndDeviceRelationShip_def put_relationship_def row_job_def)
qed

text \<open>A run of the worker over jobs that all succeed does what the loaders of the server do.\<close>

lemma worker_loads_relationships:
  assumes "redis_server E kv" and "\<forall>(u, d) \<in> set rows. json_row u d \<and> length u < 17 \<and> length d < 18"
  shows "\<exists>w'. sync_main J E (map relationship_call rows) w = Some w'
    \<and> kv (ext w') = foldl put_relationship (kv (ext w)) (map (\<lambda>(u, d). [Some u, Some d]) rows)"
  using assms(2)
proof (induction rows arbitrary: w)
  case Nil
  then show ?case by simp
next
  case (Cons r rows)
  obtain u d where r: "r = (u, d)" by (cases r)
  obtain w1 where w1: "sync_UserAndDeviceRelationShip J E (row_job u EAGLE_DEVICE_ID d) w =
      Some (length (json_text u EAGLE_DEVICE_ID d), True, w1)"
      "kv (ext w1) = put_relationship (kv (ext w)) [Some u, Some d]"
    using relationship_job [OF assms(1), of u d w] Cons.prems r by auto
  obtain w' where "sync_main J E (map relationship_call rows) w1 = Some w'"
    "kv (ext w') = foldl put_relationship (kv (ext w1)) (map (\<lambda>(u, d). [Some u, Some d]) rows)"
    using Cons.IH [of w1] Cons.prems by auto
  moreover have "relationship_call r = (Some (F_sync_UserAndDeviceRelationShip, row_job u EAGLE_DEVICE_ID d), True)"
    by (simp add: relationship_call_def r)
  ultimately show ?case using w1 r by (simp add: run_job_def)
qed

end

section \<open>Texts that do not fit\<close>

text \<open>A long job, and a name that is no JSON string, write outside their buffers.\<close>

lemma long_job_overflows: "128 < workload_size job \<Longrightarrow>
    sync_UserInfo J E job w = None \<and> sync_UserAndDeviceRelationShip J E job w = None"
  by (auto simp: sync_UserInfo_def sync_UserAndDeviceRelationShip_def copy_workload_overflow split: bind_splits)

lemma unquoted_name_overflows:
  assumes "cstr b 0 = Some t" and "\<not> is_error J (json_tokener_parse J t)"
    and "34 \<notin> set (json_object_to_json_string J (fst (tokeners J (json_tokener_parse J t) type)))"
  shows "parserJsonTokener J b vi (replicate 20 0) type = None"
proof -
  let ?s = "json_object_to_json_string J (fst (tokeners J (json_tokener_parse J t) type))"
  have "strip_quotes v = None" if "sprintf_at (replicate 20 0) 0 ?s = Some v" for v
  proof (rule strip_quotes_unquoted)
    show "length v = 20" using that blit_length unfolding sprintf_at_def by fastforce
    have "34 \<notin> set v" using that assms(3) by (auto simp: sprintf_at_def blit_def split: if_splits)
    then show "34 \<notin> set (drop 1 v)" by (auto dest: in_set_dropD)
  qed
  then show ?thesis using assms(1,2) by (auto simp: parserJsonTokener_def Let_def split: bind_splits)
qed

section \<open>A reference library\<close>

text \<open>
  An object is what was read of a row; any other text is an error. A number is read to 64 bits,
  with clamping, and printed in decimal.
\<close>

datatype ref_object = Ref_Error | Ref_Null | Ref_Row int "byte list" "byte list" | Ref_Number int | Ref_Text "byte list"

definition ref_number :: "byte list \<Rightarrow> int" where
  "ref_number t = min (2 ^ 63 - 1) (int (scan_digits 0 t))"

definition ref_parse :: "byte list \<Rightarrow> ref_object" where
  "ref_parse t = (case split_on 34 t of
      [a, b, c, key, d, name, e] \<Rightarrow> Ref_Row (ref_number (drop 1 c)) key name
    | _ \<Rightarrow> Ref_Error)"

definition ref_get :: "ref_object \<Rightarrow> byte list \<Rightarrow> ref_object" where
  "ref_get obj key = (case obj of
      Ref_Row uid k name \<Rightarrow> (if key = EAGLE_USER_ID then Ref_Number uid
        else if key = k then Ref_Text name else Ref_Null)
    | _ \<Rightarrow> Ref_Null)"

definition ref_print :: "ref_object \<Rightarrow> byte list" where
  "ref_print x = (case x of
      Ref_Number i \<Rightarrow> dec i
    | Ref_Text t \<Rightarrow> 34 # t @ [34]
    | _ \<Rightarrow> bytes ''null'')"

definition ref_json :: "ref_object json" where
  "ref_json = \<lparr>json_tokener_parse = ref_parse, is_error = (\<lambda>x. x = Ref_Error), json_object_object_get = ref_get,
     json_object_to_json_string = ref_print, json_null = Ref_Null\<rparr>"

text \<open>Leading zeros are lost, and a large number is clamped.\<close>

lemma ref_number_forgets: "ref_number (bytes ''007'') = 7"
    "ref_number (bytes ''99999999999999999999'') = 9223372036854775807"
  by (simp_all add: ref_number_def bytes_def isdigit_def)

lemma ref_number_row:
  assumes "json_row uid name"
  shows "dec (ref_number (uid @ [44])) = uid"
proof -
  define n where "n = scan_digits 0 uid"
  have u: "uid = dec_nat n" and n: "n < 2 ^ 63" using assms by (simp_all add: json_row_def dec_def n_def)
  have "scan_digits 0 (dec_nat n @ [44]) = n" by (simp add: scan_dec_nat isdigit_def)
  then show ?thesis using n by (simp add: u ref_number_def dec_def)
qed

lemma ref_parse_row:
  assumes "json_row uid name" and "34 \<notin> set key"
  shows "ref_parse (json_text uid key name) = Ref_Row (ref_number (uid @ [44])) key name"
proof -
  note q = json_row_plain(3,4) [OF assms(1)]
  have u: "split_on 34 (uid @ 44 # 34 # r) = (uid @ [44]) # split_on 34 r" for r
    using split_on_append_sep [of 34 "uid @ [44]" r] q(2) by simp
  have "json_text uid key name = bytes ''{\"UserId\":'' @ uid @ 44 # 34 # key @ 34 # 58 # 34 # name @ 34 # [125]"
    by (simp add: json_text_def bytes_def)
  then have "split_on 34 (json_text uid key name) =
      [[123], bytes ''UserId'', 58 # uid @ [44], key, [58], name, [125]]"
    using q assms(2) by (simp add: u split_on_append_sep bytes_def)
  then show ?thesis by (simp add: ref_parse_def)
qed

interpretation ref_json: json_library ref_json
proof
  fix uid name key
  assume row: "json_row uid name" and key: "key = EAGLE_USER_NAME \<or> key = EAGLE_DEVICE_ID"
  have "34 \<notin> set key" "key \<noteq> EAGLE_USER_ID"
    using key by (auto simp: EAGLE_USER_NAME_def EAGLE_DEVICE_ID_def EAGLE_USER_ID_def bytes_def)
  note r = ref_parse_row [OF row this(1)] this(2)
  show "\<not> is_error ref_json (json_tokener_parse ref_json (json_text uid key name))"
    by (simp add: ref_json_def r)
  show "json_object_to_json_string ref_json (json_object_object_get ref_json
      (json_tokener_parse ref_json (json_text uid key name)) EAGLE_USER_ID) = uid"
    by (simp add: ref_json_def ref_get_def ref_print_def r ref_number_row [OF row])
  show "json_object_to_json_string ref_json (json_object_object_get ref_json
      (json_tokener_parse ref_json (json_text uid key name)) key) = 34 # name @ [34]"
    using r(2) by (simp add: ref_json_def ref_get_def ref_print_def r)
qed

end
