(* ===== verification/Syner_Tool.thy ===== *)
theory Syner_Tool
  imports Apollo_Syner
begin

text \<open>
  The test program \<open>ApolloSynerAction.c\<close>: its own copies of the file and packet routines of
  \<open>ApolloUtil.c\<close>, and a \<open>main\<close> that multicasts the satellite data file of one fixed device. The
  lemmas relate the copies to the originals and the program to the servers that receive.
\<close>

section \<open>The copies\<close>

text \<open>A null stream of \<open>fopen\<close> reaches \<open>fread\<close> as in the original.\<close>

definition tool_read_dat :: "byte list \<Rightarrow> byte list \<Rightarrow> nat \<Rightarrow> 'w world \<Rightarrow> (nat \<times> byte list) option" where
  "tool_read_dat filename data len w = do {
     path \<leftarrow> cstr filename 0;
     content \<leftarrow> files w path;
     data' \<leftarrow> blit data 0 (take len content);
     Some (length (take len content), data') }"

definition tool_agps_path :: "byte list \<Rightarrow> byte list" where
  "tool_agps_path name = bytes ''./agps_data/'' @ name @ bytes ''_agps.dat''"

definition tool_genAgpsFilePathName :: "byte list \<Rightarrow> byte list \<Rightarrow> byte list option" where
  "tool_genAgpsFilePathName filename pathname = do {
     name \<leftarrow> cstr filename 0; sprintf_at pathname 0 (tool_agps_path name) }"

definition tool_takeDataPacket ::
    "byte list \<Rightarrow> byte list \<Rightarrow> byte list \<Rightarrow> 'w world \<Rightarrow> (nat \<times> byte list) option" where
  "tool_takeDataPacket filename data pkt w = do {
     (size, buffer0) \<leftarrow> tool_read_dat filename (replicate LEN_BLOCK_BUFFER 0) LEN_BLOCK_BUFFER w;
     let buffer = take size buffer0;
     header1 \<leftarrow> copy_loop block_header 1 pkt 0 LEN_DEVICE_ID;
     header2 \<leftarrow> poke header1 29
       (if size mod LEN_BLOCK_DATA \<noteq> 0 then of_nat (size div LEN_BLOCK_DATA + 1)
        else of_nat (size div LEN_BLOCK_DATA));
     (header3, data1, index) \<leftarrow> block_loop 0 (size div LEN_BLOCK_DATA) header2 data 0 buffer;
     if size mod LEN_BLOCK_DATA \<noteq> 0 then do {
       (header4, data2, index2) \<leftarrow>
         emit_block (size div LEN_BLOCK_DATA) (size mod LEN_BLOCK_DATA) header3 data1 index buffer;
       Some (index2, data2) }
     else Some (index, data1) }"

function tool_takeDataPacketFlag :: "byte list \<Rightarrow> nat \<Rightarrow> nat \<Rightarrow> byte \<Rightarrow> byte list option" where
  "tool_takeDataPacketFlag data i len flag =
     (if i * LEN_BLOCK_PACKET < len then do {
        data' \<leftarrow> poke data (i * LEN_BLOCK_PACKET + 20) flag;
        tool_takeDataPacketFlag data' (i + 1) len flag }
      else Some data)"
  by pat_completeness auto
termination
  by (relation "measure (\<lambda>(data, i, len, flag). len - i * LEN_BLOCK_PACKET)") auto

declare tool_takeDataPacketFlag.simps [simp del]

section \<open>The program\<close>

text \<open>
  The datagrams that are sent, or the status of an \<open>exit\<close>. The loop over \<open>sendLength\<close> is
  \<open>send_loop\<close>.
\<close>

datatype tool_end = Exited int | Sent "byte list list"

definition tool_devId :: "byte list" where
  "tool_devId = [0x20, 0x16, 0x01, 0x05, 0x00, 0x00, 0x00, 0x14]"

definition tool_main :: "bool \<Rightarrow> bool \<Rightarrow> 'w world \<Rightarrow> tool_end option" where
  "tool_main sock_ok bind_ok w =
     (if \<not> sock_ok then Some (Exited 1)
      else if \<not> bind_ok then Some (Exited 0)
      else do {
        fileName \<leftarrow> sprintf_at (replicate 128 0) 0 (bytes ''2016010500000014'');
        pathName \<leftarrow> tool_genAgpsFilePathName fileName (replicate 128 0);
        (totalLength, sendBuf) \<leftarrow> tool_takeDataPacket pathName (replicate LEN_BLOCK_BUFFER 0) tool_devId w;
        sendBuf' \<leftarrow> tool_takeDataPacketFlag sendBuf 0 totalLength 0x32;
        ds \<leftarrow> send_loop sendBuf' 0 totalLength;
        Some (Sent ds) })"

section \<open>The copies do what the originals do\<close>

lemma tool_read_dat_eq: "tool_read_dat filename data len w = read_dat filename data len w"
  by (simp add: tool_read_dat_def read_dat_def)

lemma tool_takeDataPacket_eq: "tool_takeDataPacket filename data pkt w = takeDataPacket filename data pkt 0 w"
  by (simp add: tool_takeDataPacket_def takeDataPacket_def tool_read_dat_eq)

lemma tool_flag_eq: "tool_takeDataPacketFlag data i len flag = takeDataPacketFlag_loop data i len flag"
proof (induction data i len flag rule: tool_takeDataPacketFlag.induct)
  case (1 data i len flag)
  then show ?case
    by (subst tool_takeDataPacketFlag.simps, subst takeDataPacketFlag_loop.simps)
      (auto split: bind_splits)
qed

lemma tool_dev: "length tool_devId = 8" "hex_text tool_devId = bytes ''2016010500000014''"
  by (simp add: tool_devId_def) code_simp

lemma tool_main_sends:
  assumes "files w (tool_agps_path (hex_text tool_devId)) = Some content" and "block_need content \<le> 32768"
  shows "tool_main True True w = Some (Sent (map (flagged MULTICAST_TYPE_AGPS) (packets tool_devId content)))"
proof -
  let ?H = "hex_text tool_devId" and ?p = "tool_agps_path (hex_text tool_devId)"
  obtain fb where fb: "sprintf_at (replicate 128 0) 0 ?H = Some fb" "cstr fb 0 = Some ?H"
    using sprintf_ok [of ?H 0 "replicate 128 0"] tool_dev(1) by auto
  have "0 \<notin> set ?p" "length ?p < 128" using tool_dev(1) by (auto simp: tool_agps_path_def bytes_def)
  then obtain pb where pb: "sprintf_at (replicate 128 0) 0 ?p = Some pb" "cstr pb 0 = Some ?p"
    using sprintf_ok [of ?p 0 "replicate 128 0"] by auto
  have "tool_genAgpsFilePathName fb (replicate 128 0) = Some pb"
    using fb pb by (simp add: tool_genAgpsFilePathName_def)
  moreover have "do { (totalLength, sendBuf) \<leftarrow> takeDataPacket pb (replicate 32768 0) tool_devId 0 w;
      sendBuf' \<leftarrow> takeDataPacketFlag_loop sendBuf 0 totalLength MULTICAST_TYPE_AGPS;
      send_loop sendBuf' 0 totalLength } = Some (map (flagged MULTICAST_TYPE_AGPS) (packets tool_devId content))"
    using cut_mark_send [OF tool_dev(1) pb(2) assms, of MULTICAST_TYPE_AGPS] by (simp add: takeDataPacketFlag_def)
  ultimately show ?thesis
    using fb(1) tool_dev(2)
    by (auto simp: tool_main_def tool_takeDataPacket_eq tool_flag_eq bind_eq_Some_conv)
qed

text \<open>A server that receives the datagrams stores the file of the tool for the device.\<close>

lemma tool_reaches_server:
  assumes "files wa (tool_agps_path (hex_text tool_devId)) = Some content" and "block_need content \<le> 32768"
    and "content \<noteq> []" and "syner_wf st" and "creatable wb (agps_path save (hex_text tool_devId))"
  shows "\<exists>ds. tool_main True True wa = Some (Sent ds)
    \<and> syner_run save st (map Some ds) wb = Some (\<lparr>u8DevId = tool_devId, u8SynerBlockData = replicate 32768 0\<rparr>,
        wb\<lparr>files := (files wb)(agps_path save (hex_text tool_devId) \<mapsto> content)\<rparr>)"
proof -
  have "n_packets (length content) \<le> 32"
    using assms(2) by (auto simp: block_need_def n_packets_def)
  then show ?thesis
    using tool_main_sends [OF assms(1,2)] syner_receives_file [OF tool_dev(1) _ assms(3-5)] by simp
qed

end
