(* ===== verification/Sql_Pool.thy ===== *)
theory Sql_Pool
  imports Apollo_Sql
begin

text \<open>
  The other configuration of \<open>ApolloSqlOperator.c\<close>: a pool of MySQL connections of its own
  (\<open>TYPE_APOLLO_MYSQL_CONNECTIONPOOL\<close>). The operations are the branches of that configuration.
  The MySQL client library is a parameter; its state is part of the external state of the
  world. An operation waits until the pool has a connection; it is watched for a number of
  turns of its waiting loop, one a second, and \<open>outcome\<close> tells a call that is still waiting
  then, or that is blocked by the lock of the pool, from undefined behaviour and from a return.
\<close>

section \<open>Outcomes\<close>

datatype 'a outcome = Undefined | Waiting | Returns 'a

fun and_then :: "'a outcome \<Rightarrow> ('a \<Rightarrow> 'b outcome) \<Rightarrow> 'b outcome" where
  "and_then Undefined f = Undefined"
| "and_then Waiting f = Waiting"
| "and_then (Returns x) f = f x"

text \<open>A computation that does not wait.\<close>

definition at_once :: "'a option \<Rightarrow> 'a outcome" where
  "at_once x = (case x of None \<Rightarrow> Undefined | Some y \<Rightarrow> Returns y)"

lemma at_once_simps [simp]: "at_once None = Undefined" "at_once (Some y) = Returns y"
  by (simp_all add: at_once_def)

lemma and_then_returns: "and_then x f = Returns y \<longleftrightarrow> (\<exists>z. x = Returns z \<and> f z = Returns y)"
  by (cases x) auto

lemma at_once_returns: "at_once x = Returns y \<longleftrightarrow> x = Some y"
  by (cases x) auto

lemmas returns_simps = and_then_returns at_once_returns bind_eq_Some_conv

section \<open>The pool\<close>

record 'w mysql =
  mysql_init :: "'w \<Rightarrow> nat option \<times> 'w"
  mysql_real_connect :: "nat \<Rightarrow> 'w \<Rightarrow> bool \<times> 'w"
  thread_id :: "nat \<Rightarrow> 'w \<Rightarrow> nat"
  mysql_query :: "nat \<Rightarrow> byte list \<Rightarrow> 'w \<Rightarrow> int \<times> 'w"
  mysql_store_result :: "nat \<Rightarrow> 'w \<Rightarrow> sql_row list option \<times> 'w"

definition CONNECTION_POOL_SIZE :: nat where [simp]: "CONNECTION_POOL_SIZE = 50"
definition SQL_LANGUAGE_LENGTH :: nat where [simp]: "SQL_LANGUAGE_LENGTH = 512"

datatype ConnectionType = CONNECT_CLOSE | CONNECT_ON | CONNECT_OFF

record MySqlConnectionItem =
  Conn :: "nat option"
  Status :: ConnectionType

record MySqlConnectionPool =
  ConnQueue :: "MySqlConnectionItem list"
  PoolLock :: bool

text \<open>The instance is allocated once and cleared; a failed allocation yields the null pointer.\<close>

definition getMySqlConnectionPool_Instance ::
    "bool \<Rightarrow> MySqlConnectionPool option \<Rightarrow> MySqlConnectionPool option" where
  "getMySqlConnectionPool_Instance malloc_ok ConnectionPool_Instance =
     (if ConnectionPool_Instance = None then
        (if \<not> malloc_ok then None
         else Some \<lparr>ConnQueue = replicate CONNECTION_POOL_SIZE \<lparr>Conn = None, Status = CONNECT_CLOSE\<rparr>,
                PoolLock = False\<rparr>)
      else ConnectionPool_Instance)"

text \<open>
  Opening the connection of a slot. After a failed \<open>mysql_real_connect\<close> the slot holds the null
  pointer, \<open>mysql_close\<close> gets that null pointer and does nothing, and the handle is lost.
\<close>

definition connect_slot ::
    "'w mysql \<Rightarrow> MySqlConnectionItem \<Rightarrow> 'w \<Rightarrow> MySqlConnectionItem \<times> 'w" where
  "connect_slot M it e =
     (case mysql_init M e of
        (None, e1) \<Rightarrow> (it\<lparr>Conn := None\<rparr>, e1)
      | (Some h, e1) \<Rightarrow>
          (case mysql_real_connect M h e1 of
             (True, e2) \<Rightarrow> (it\<lparr>Conn := Some h, Status := CONNECT_OFF\<rparr>, e2)
           | (False, e2) \<Rightarrow> (it\<lparr>Conn := None, Status := CONNECT_CLOSE\<rparr>, e2)))"

primrec init_items ::
    "'w mysql \<Rightarrow> MySqlConnectionItem list \<Rightarrow> 'w \<Rightarrow> MySqlConnectionItem list \<times> 'w" where
  "init_items M [] e = ([], e)"
| "init_items M (it # its) e =
     (let (it', e1) = connect_slot M it e; (its', e2) = init_items M its e1 in (it' # its', e2))"

definition init_mysql_pool ::
    "'w mysql \<Rightarrow> bool \<Rightarrow> MySqlConnectionPool option \<Rightarrow> 'w \<Rightarrow> (int \<times> MySqlConnectionPool \<times> 'w) option" where
  "init_mysql_pool M malloc_ok inst e = do {
     p \<leftarrow> getMySqlConnectionPool_Instance malloc_ok inst;
     let (its, e') = init_items M (ConnQueue p) e;
     Some (OK, p\<lparr>ConnQueue := its, PoolLock := False\<rparr>, e') }"

text \<open>
  The search for an idle connection. A slot that is opened on the way is not handed out by
  this call. The condition of the last branch assigns \<open>CONNECT_ON\<close> to the status.
\<close>

primrec get_items ::
    "'w mysql \<Rightarrow> MySqlConnectionItem list \<Rightarrow> 'w \<Rightarrow> nat option \<times> MySqlConnectionItem list \<times> 'w" where
  "get_items M [] e = (None, [], e)"
| "get_items M (it # its) e =
     (case Status it of
        CONNECT_OFF \<Rightarrow> (Conn it, it\<lparr>Status := CONNECT_ON\<rparr> # its, e)
      | CONNECT_CLOSE \<Rightarrow>
          (let (it', e1) = connect_slot M it e; (c, its', e2) = get_items M its e1 in (c, it' # its', e2))
      | CONNECT_ON \<Rightarrow>
          (let (c, its', e2) = get_items M its e in (c, it\<lparr>Status := CONNECT_ON\<rparr> # its', e2)))"

definition get_connection_from_pool ::
    "'w mysql \<Rightarrow> MySqlConnectionPool \<Rightarrow> 'w \<Rightarrow> (nat option \<times> MySqlConnectionPool \<times> 'w) outcome" where
  "get_connection_from_pool M p e =
     (if PoolLock p then Waiting
      else let (c, its, e') = get_items M (ConnQueue p) e in Returns (c, p\<lparr>ConnQueue := its\<rparr>, e'))"

primrec return_items ::
    "'w mysql \<Rightarrow> nat \<Rightarrow> MySqlConnectionItem list \<Rightarrow> 'w \<Rightarrow> (bool \<times> MySqlConnectionItem list) option" where
  "return_items M con [] e = Some (False, [])"
| "return_items M con (it # its) e = do {
     c \<leftarrow> Conn it;
     if thread_id M con e \<noteq> thread_id M c e then do {
       (found, its') \<leftarrow> return_items M con its e;
       Some (found, it # its') }
     else Some (True, it\<lparr>Status := CONNECT_OFF\<rparr> # its) }"

text \<open>When no slot matches, the lock is kept.\<close>

definition return_connection_to_pool ::
    "'w mysql \<Rightarrow> nat \<Rightarrow> MySqlConnectionPool \<Rightarrow> 'w \<Rightarrow> (int \<times> MySqlConnectionPool) outcome" where
  "return_connection_to_pool M con p e =
     (if PoolLock p then Waiting
      else and_then (at_once (return_items M con (ConnQueue p) e)) (\<lambda>(found, its).
        Returns (if \<not> found then (NOEXIST, p\<lparr>ConnQueue := its, PoolLock := True\<rparr>)
          else (OK, p\<lparr>ConnQueue := its\<rparr>))))"

section \<open>The operations\<close>

text \<open>
  The loop that every operation starts with: it asks once a second until a connection is idle;
  here for at most \<open>n\<close> turns.
\<close>

primrec wait_connection ::
    "nat \<Rightarrow> 'w mysql \<Rightarrow> MySqlConnectionPool \<Rightarrow> 'w \<Rightarrow> (nat \<times> MySqlConnectionPool \<times> 'w) outcome" where
  "wait_connection 0 M p e = Waiting"
| "wait_connection (Suc n) M p e =
     and_then (get_connection_from_pool M p e) (\<lambda>(Conn, p', e').
       case Conn of Some con \<Rightarrow> Returns (con, p', e') | None \<Rightarrow> wait_connection n M p' e')"

text \<open>\<open>sprintf\<close> with \<open>%s\<close> directives only.\<close>

fun format_s :: "byte list \<Rightarrow> byte list list \<Rightarrow> byte list" where
  "format_s [] args = []"
| "format_s (c # cs) args =
     (case (cs, args) of
        (d # ds, a # as) \<Rightarrow> if c = 37 \<and> d = 115 then a @ format_s ds as else c # format_s cs args
      | _ \<Rightarrow> c # format_s cs args)"

definition pool_statement :: "byte list \<Rightarrow> byte list list \<Rightarrow> byte list option" where
  "pool_statement stmt args = do {
     b \<leftarrow> sprintf_at (replicate SQL_LANGUAGE_LENGTH 0) 0 (format_s stmt args);
     cstr b 0 }"

text \<open>A statement is printed, a connection awaited, and the query made.\<close>

definition pool_query ::
    "nat \<Rightarrow> 'w mysql \<Rightarrow> byte list \<Rightarrow> byte list list \<Rightarrow> MySqlConnectionPool \<Rightarrow> 'w world
      \<Rightarrow> (int \<times> nat \<times> MySqlConnectionPool \<times> 'w world) outcome" where
  "pool_query n M stmt args p w =
     and_then (at_once (pool_statement stmt args)) (\<lambda>sql.
       and_then (wait_connection n M p (ext w)) (\<lambda>(con, p1, e1).
         let (res, e2) = mysql_query M con sql e1 in Returns (res, con, p1, w\<lparr>ext := e2\<rparr>)))"

definition pool_insertDeviceGps ::
    "nat \<Rightarrow> 'w mysql \<Rightarrow> byte list \<Rightarrow> byte list \<Rightarrow> byte list \<Rightarrow> byte list \<Rightarrow> MySqlConnectionPool \<Rightarrow> 'w world
      \<Rightarrow> (int \<times> MySqlConnectionPool \<times> 'w world) outcome" where
  "pool_insertDeviceGps n M longitude latitude high device_id p w =
     and_then (pool_query n M SQL_INSERT_DEVICE_GPS [longitude, latitude, high, device_id] p w)
       (\<lambda>(res, con, p1, w1). Returns (if res \<noteq> 0 then NOINSERT else OK, p1, w1))"

definition pool_insertUser ::
    "nat \<Rightarrow> 'w mysql \<Rightarrow> byte list \<Rightarrow> byte list \<Rightarrow> MySqlConnectionPool \<Rightarrow> 'w world
      \<Rightarrow> (int \<times> MySqlConnectionPool \<times> 'w world) outcome" where
  "pool_insertUser n M userName password p w =
     and_then (pool_query n M SQL_INSERT_USER [userName, password] p w)
       (\<lambda>(res, con, p1, w1). Returns (if res \<noteq> 0 then NOINSERT else OK, p1, w1))"

text \<open>The id of the last row is left in the variable of the caller.\<close>

fun pool_user_id :: "sql_row list \<Rightarrow> 32 word \<Rightarrow> 32 word option" where
  "pool_user_id [] userId = Some userId"
| "pool_user_id (row # rows) userId = do {
     s \<leftarrow> get_column row 1;
     v \<leftarrow> atoi s;
     pool_user_id rows (word_of_int v) }"

definition pool_selectUserId ::
    "nat \<Rightarrow> 'w mysql \<Rightarrow> byte list \<Rightarrow> byte list \<Rightarrow> 32 word \<Rightarrow> MySqlConnectionPool \<Rightarrow> 'w world
      \<Rightarrow> (int \<times> 32 word \<times> MySqlConnectionPool \<times> 'w world) outcome" where
  "pool_selectUserId n M userName password userId p w =
     and_then (pool_query n M SQL_SELECT_USERID [userName, password] p w) (\<lambda>(res, con, p1, w1).
       if res = 0 then
         (case mysql_store_result M con (ext w1) of
            (None, e2) \<Rightarrow> Returns (NOEXIST, userId, p1, w1\<lparr>ext := e2\<rparr>)
          | (Some rows, e2) \<Rightarrow>
              and_then (at_once (pool_user_id rows userId)) (\<lambda>u. Returns (OK, u, p1, w1\<lparr>ext := e2\<rparr>)))
       else Returns (OK, userId, p1, w1))"

text \<open>The test of the result is the wrong way round.\<close>

definition pool_updatePassword ::
    "nat \<Rightarrow> 'w mysql \<Rightarrow> byte list \<Rightarrow> byte list \<Rightarrow> MySqlConnectionPool \<Rightarrow> 'w world
      \<Rightarrow> (int \<times> MySqlConnectionPool \<times> 'w world) outcome" where
  "pool_updatePassword n M userName password p w =
     and_then (pool_query n M SQL_SELECT_UPDATE_PASSWORD [password, userName] p w)
       (\<lambda>(res, con, p1, w1). Returns (if res = 0 then NOUPDATE else OK, p1, w1))"

definition pool_selectLocationNewItem ::
    "nat \<Rightarrow> 'w mysql \<Rightarrow> 'w externals \<Rightarrow> byte list \<Rightarrow> int \<Rightarrow> MySqlConnectionPool \<Rightarrow> 'w world
      \<Rightarrow> (int \<times> MySqlConnectionPool \<times> 'w world) outcome" where
  "pool_selectLocationNewItem n M E u8DeviceId UserId p w =
     and_then (pool_query n M SQL_SELECT_LOCATION_NEWINFO [u8DeviceId] p w) (\<lambda>(res, con, p1, w1).
       if res = 0 then
         (case mysql_store_result M con (ext w1) of
            (None, e2) \<Rightarrow> Returns (NOEXIST, p1, w1\<lparr>ext := e2\<rparr>)
          | (Some [], e2) \<Rightarrow> Returns (NOEXIST, p1, w1\<lparr>ext := e2\<rparr>)
          | (Some (row # rows), e2) \<Rightarrow>
              and_then (at_once (publish_location E row UserId (w1\<lparr>ext := e2\<rparr>)))
                (\<lambda>(r, w2). Returns (if r = -1 then -2 else OK, p1, w2)))
       else Returns (OK, p1, w1))"

text \<open>The loaders give the connection back, unless the result or a Redis command fails.\<close>

fun pool_user_rows ::
    "'w externals \<Rightarrow> byte list \<Rightarrow> sql_row list \<Rightarrow> 'w world \<Rightarrow> (bool \<times> 'w world) option" where
  "pool_user_rows E UUserName [] w = Some (True, w)"
| "pool_user_rows E UUserName (row # rows) w = do {
     ident \<leftarrow> get_column row 1;
     name \<leftarrow> get_column row 2;
     UUserName' \<leftarrow> sprintf_at UUserName 0 (bytes ''U_'' @ name);
     key \<leftarrow> cstr UUserName' 0;
     (r, w1) \<leftarrow> set_key_toredis E key ident w;
     if r = -1 then Some (False, w1) else pool_user_rows E UUserName' rows w1 }"

fun pool_relationship_rows ::
    "'w externals \<Rightarrow> byte list \<Rightarrow> byte list \<Rightarrow> sql_row list \<Rightarrow> 'w world \<Rightarrow> (bool \<times> 'w world) option" where
  "pool_relationship_rows E RPUserId RDeviceId [] w = Some (True, w)"
| "pool_relationship_rows E RPUserId RDeviceId (row # rows) w = do {
     UserId \<leftarrow> get_column row 1;
     DeviceId \<leftarrow> get_column row 2;
     RPUserId' \<leftarrow> sprintf_at RPUserId 0 (bytes ''RP_'' @ UserId);
     key1 \<leftarrow> cstr RPUserId' 0;
     (r1, w1) \<leftarrow> set_key_toredis E key1 DeviceId w;
     if r1 = -1 then Some (False, w1) else do {
       RDeviceId' \<leftarrow> sprintf_at RDeviceId 0 (bytes ''R_'' @ DeviceId);
       key2 \<leftarrow> cstr RDeviceId' 0;
       (r2, w2) \<leftarrow> set_key_toredis E key2 UserId w1;
       if r2 = -1 then Some (False, w2) else pool_relationship_rows E RPUserId' RDeviceId' rows w2 } }"

definition pool_load ::
    "nat \<Rightarrow> 'w mysql \<Rightarrow> byte list \<Rightarrow> (sql_row list \<Rightarrow> 'w world \<Rightarrow> (bool \<times> 'w world) option)
      \<Rightarrow> MySqlConnectionPool \<Rightarrow> 'w world \<Rightarrow> (MySqlConnectionPool \<times> 'w world) outcome" where
  "pool_load n M stmt loop p w =
     and_then (wait_connection n M p (ext w)) (\<lambda>(con, p1, e1).
       let (res, e2) = mysql_query M con stmt e1 in
       and_then (if res \<noteq> 0 then Returns (True, w\<lparr>ext := e2\<rparr>)
         else (case mysql_store_result M con e2 of
             (None, e3) \<Rightarrow> Returns (False, w\<lparr>ext := e3\<rparr>)
           | (Some rows, e3) \<Rightarrow> at_once (loop rows (w\<lparr>ext := e3\<rparr>)))) (\<lambda>(finished, w2).
         if \<not> finished then Returns (p1, w2)
         else and_then (return_connection_to_pool M con p1 (ext w2)) (\<lambda>(r, p2). Returns (p2, w2))))"

definition pool_initUserInfoList ::
    "nat \<Rightarrow> 'w mysql \<Rightarrow> 'w externals \<Rightarrow> MySqlConnectionPool \<Rightarrow> 'w world \<Rightarrow> (MySqlConnectionPool \<times> 'w world) outcome" where
  "pool_initUserInfoList n M E p w =
     pool_load n M SQL_SELECT_USERINFO_LIST (pool_user_rows E (replicate 20 0)) p w"

definition pool_initUserAndDeviceRelationshipList ::
    "nat \<Rightarrow> 'w mysql \<Rightarrow> 'w externals \<Rightarrow> MySqlConnectionPool \<Rightarrow> 'w world \<Rightarrow> (MySqlConnectionPool \<times> 'w world) outcome" where
  "pool_initUserAndDeviceRelationshipList n M E p w =
     pool_load n M SQL_SELECT_RELATIONSHIP_LIST
       (pool_relationship_rows E (replicate 20 0) (replicate 20 0)) p w"

section \<open>The invariant\<close>

text \<open>Fifty slots; a slot that is idle or in use holds a connection.\<close>

definition slot_ok :: "MySqlConnectionItem \<Rightarrow> bool" where
  "slot_ok it \<longleftrightarrow> (Status it \<noteq> CONNECT_CLOSE \<longrightarrow> Conn it \<noteq> None)"

definition pool_ok :: "MySqlConnectionPool \<Rightarrow> bool" where
  "pool_ok p \<longleftrightarrow> length (ConnQueue p) = 50 \<and> list_all slot_ok (ConnQueue p)"

definition items_in_use :: "MySqlConnectionItem list \<Rightarrow> nat" where
  "items_in_use its = length (filter (\<lambda>it. Status it = CONNECT_ON) its)"

abbreviation in_use :: "MySqlConnectionPool \<Rightarrow> nat" where
  "in_use p \<equiv> items_in_use (ConnQueue p)"

lemma items_in_use_simps [simp]:
  "items_in_use [] = 0"
  "items_in_use (it # its) = (if Status it = CONNECT_ON then 1 else 0) + items_in_use its"
  by (simp_all add: items_in_use_def)

lemma items_in_use_bound: "items_in_use its \<le> length its"
  by (simp add: items_in_use_def)

lemma connect_slot_ok:
  assumes "connect_slot M it e = (it', e')" and "Status it = CONNECT_CLOSE"
  shows "slot_ok it'" and "Status it' \<noteq> CONNECT_ON"
  using assms by (auto simp: connect_slot_def slot_ok_def split: option.splits prod.splits bool.splits)

lemma init_items_ok:
  assumes "init_items M its e = (its', e')" and "\<forall>it \<in> set its. Status it = CONNECT_CLOSE"
  shows "length its' = length its \<and> list_all slot_ok its' \<and> items_in_use its' = 0"
  using assms
proof (induction its arbitrary: its' e e')
  case Nil
  then show ?case by simp
next
  case (Cons it its)
  then show ?case by (auto simp: Let_def split: prod.splits dest: connect_slot_ok)
qed

lemma get_items_ok:
  assumes "get_items M its e = (c, its', e')" and "list_all slot_ok its"
  shows "length its' = length its \<and> list_all slot_ok its'
    \<and> items_in_use its' = items_in_use its + (if c = None then 0 else 1)"
  using assms
proof (induction its arbitrary: its' e c e')
  case Nil
  then show ?case by simp
next
  case (Cons it its)
  obtain c1 its1 e1 where r: "get_items M its (snd (connect_slot M it e)) = (c1, its1, e1)" by (metis surj_pair)
  obtain c2 its2 e2 where s: "get_items M its e = (c2, its2, e2)" by (metis surj_pair)
  note i = Cons.IH [OF r] Cons.IH [OF s]
  obtain it3 e3 where t: "connect_slot M it e = (it3, e3)" by (metis surj_pair)
  show ?case
    using Cons.prems i r s t connect_slot_ok [OF t]
    by (cases "Status it") (auto simp: slot_ok_def Let_def)
qed

lemma init_pool_ok:
  assumes "init_mysql_pool M malloc_ok None e = Some (r, p, e')"
  shows "pool_ok p \<and> in_use p = 0 \<and> \<not> PoolLock p"
  using assms init_items_ok [of M "replicate 50 \<lparr>Conn = None, Status = CONNECT_CLOSE\<rparr>" e]
  by (auto simp: init_mysql_pool_def getMySqlConnectionPool_Instance_def pool_ok_def bind_eq_Some_conv
    split: if_splits prod.splits)

lemma get_connection_ok:
  assumes "get_connection_from_pool M p e = Returns (c, p', e')" and "pool_ok p"
  shows "pool_ok p' \<and> PoolLock p' = PoolLock p \<and> in_use p' = in_use p + (if c = None then 0 else 1)"
  using assms get_items_ok [of M "ConnQueue p" e]
  by (auto simp: get_connection_from_pool_def pool_ok_def split: if_splits prod.splits)

lemma get_connection_defined: "get_connection_from_pool M p e \<noteq> Undefined"
  by (simp add: get_connection_from_pool_def split: prod.split)

lemma return_items_ok:
  assumes "return_items M con its e = Some (found, its')" and "list_all slot_ok its"
  shows "length its' = length its \<and> list_all slot_ok its' \<and> items_in_use its' \<le> items_in_use its"
  using assms
proof (induction its arbitrary: its')
  case Nil
  then show ?case by simp
next
  case (Cons it its)
  then show ?case by (force simp: bind_eq_Some_conv slot_ok_def split: if_splits)
qed

lemma return_connection_ok:
  assumes "return_connection_to_pool M con p e = Returns (r, p')" and "pool_ok p"
  shows "pool_ok p' \<and> in_use p' \<le> in_use p \<and> (PoolLock p' \<longleftrightarrow> r = NOEXIST)"
  using assms return_items_ok [of M con "ConnQueue p" e]
  by (auto simp: return_connection_to_pool_def pool_ok_def returns_simps split: if_splits)

text \<open>Waiting ends only with a connection, which is then in use.\<close>

lemma wait_connection_ok: "wait_connection n M p e = Returns (con, p', e') \<Longrightarrow> pool_ok p \<Longrightarrow>
    pool_ok p' \<and> in_use p' = in_use p + 1"
proof (induction n arbitrary: p e)
  case 0
  then show ?case by simp
next
  case (Suc n)
  obtain c p1 e1 where g: "get_connection_from_pool M p e = Returns (c, p1, e1)"
    and r: "(case c of Some con \<Rightarrow> Returns (con, p1, e1) | None \<Rightarrow> wait_connection n M p1 e1) = Returns (con, p', e')"
    using Suc.prems(1) by (auto simp: returns_simps)
  show ?case using get_connection_ok [OF g Suc.prems(2)] r Suc.IH [of p1 e1] by (cases c) auto
qed

text \<open>With fifty connections in use it goes on for ever.\<close>

lemma wait_for_ever: "pool_ok p \<Longrightarrow> in_use p = 50 \<Longrightarrow> wait_connection n M p e = Waiting"
proof (induction n arbitrary: p e)
  case 0
  then show ?case by simp
next
  case (Suc n)
  show ?case
  proof (cases "get_connection_from_pool M p e")
    case (Returns y)
    obtain c p1 e1 where y: "y = (c, p1, e1)" by (rule prod_cases3)
    note ok = get_connection_ok [OF Returns [unfolded y] Suc.prems(1)]
    have "in_use p1 \<le> 50" using ok items_in_use_bound [of "ConnQueue p1"] by (simp add: pool_ok_def)
    then have "c = None" using ok Suc.prems(2) by (auto split: if_splits)
    then show ?thesis using Returns y ok Suc.IH [of p1 e1] Suc.prems(2) by simp
  qed (simp_all add: get_connection_defined)
qed

section \<open>Every operation keeps its connection\<close>

lemma pool_query_ok: "pool_query n M stmt args p w = Returns (res, con, p', w') \<Longrightarrow> pool_ok p \<Longrightarrow>
    pool_ok p' \<and> in_use p' = in_use p + 1"
  by (auto simp: pool_query_def returns_simps split_def Let_def dest: wait_connection_ok)

lemma pool_query_waits: "pool_statement stmt args \<noteq> None \<Longrightarrow> pool_ok p \<Longrightarrow> in_use p = 50 \<Longrightarrow>
    pool_query n M stmt args p w = Waiting"
  by (auto simp: pool_query_def wait_for_ever)

text \<open>The five operations as commands, and a session of them.\<close>

datatype pool_op =
    Insert_gps "byte list" "byte list" "byte list" "byte list"
  | Insert_user "byte list" "byte list"
  | Select_user "byte list" "byte list" "32 word"
  | Update_password "byte list" "byte list"
  | Select_location "byte list" int

definition op_statement :: "pool_op \<Rightarrow> byte list option" where
  "op_statement op' = (case op' of
      Insert_gps lon lat high dev \<Rightarrow> pool_statement SQL_INSERT_DEVICE_GPS [lon, lat, high, dev]
    | Insert_user name pwd \<Rightarrow> pool_statement SQL_INSERT_USER [name, pwd]
    | Select_user name pwd u \<Rightarrow> pool_statement SQL_SELECT_USERID [name, pwd]
    | Update_password name pwd \<Rightarrow> pool_statement SQL_SELECT_UPDATE_PASSWORD [pwd, name]
    | Select_location dev u \<Rightarrow> pool_statement SQL_SELECT_LOCATION_NEWINFO [dev])"

definition run_op ::
    "nat \<Rightarrow> 'w mysql \<Rightarrow> 'w externals \<Rightarrow> pool_op \<Rightarrow> MySqlConnectionPool \<Rightarrow> 'w world
      \<Rightarrow> (int \<times> MySqlConnectionPool \<times> 'w world) outcome" where
  "run_op n M E op' p w = (case op' of
      Insert_gps lon lat high dev \<Rightarrow> pool_insertDeviceGps n M lon lat high dev p w
    | Insert_user name pwd \<Rightarrow> pool_insertUser n M name pwd p w
    | Select_user name pwd u \<Rightarrow>
        and_then (pool_selectUserId n M name pwd u p w) (\<lambda>(r, u', p', w'). Returns (r, p', w'))
    | Update_password name pwd \<Rightarrow> pool_updatePassword n M name pwd p w
    | Select_location dev u \<Rightarrow> pool_selectLocationNewItem n M E dev u p w)"

fun run_ops ::
    "nat \<Rightarrow> 'w mysql \<Rightarrow> 'w externals \<Rightarrow> pool_op list \<Rightarrow> MySqlConnectionPool \<Rightarrow> 'w world
      \<Rightarrow> (int list \<times> MySqlConnectionPool \<times> 'w world) outcome" where
  "run_ops n M E [] p w = Returns ([], p, w)"
| "run_ops n M E (x # xs) p w =
     and_then (run_op n M E x p w) (\<lambda>(r, p1, w1).
       and_then (run_ops n M E xs p1 w1) (\<lambda>(rs, p2, w2). Returns (r # rs, p2, w2)))"

lemmas pool_op_defs = run_op_def pool_insertDeviceGps_def pool_insertUser_def pool_selectUserId_def
  pool_updatePassword_def pool_selectLocationNewItem_def

lemma run_op_keeps:
  assumes "run_op n M E x p w = Returns (r, p', w')" and "pool_ok p"
  shows "pool_ok p' \<and> in_use p' = in_use p + 1"
proof -
  have "\<exists>stmt args res con w1. pool_query n M stmt args p w = Returns (res, con, p', w1)"
    using assms(1)
    by (cases x)
      (auto simp: pool_op_defs returns_simps split: if_splits option.splits prod.splits list.splits, (blast | fastforce)+)
  then show ?thesis using pool_query_ok assms(2) by blast
qed

lemma run_op_waits:
  assumes "op_statement x \<noteq> None" and "pool_ok p" and "in_use p = 50"
  shows "run_op n M E x p w = Waiting"
  using assms pool_query_waits [OF _ assms(2,3), of _ _ n M w]
  by (cases x) (simp_all add: op_statement_def pool_op_defs)

lemma run_ops_keep: "run_ops n M E xs p w = Returns (rs, p', w') \<Longrightarrow> pool_ok p \<Longrightarrow>
    pool_ok p' \<and> in_use p' = in_use p + length xs"
proof (induction xs arbitrary: p w rs)
  case Nil
  then show ?case by simp
next
  case (Cons x xs)
  obtain r p1 w1 rs1 where a: "run_op n M E x p w = Returns (r, p1, w1)" "run_ops n M E xs p1 w1 = Returns (rs1, p', w')"
    using Cons.prems(1) by (auto simp: returns_simps)
  show ?case using run_op_keeps [OF a(1) Cons.prems(2)] Cons.IH [OF a(2)] by simp
qed

lemma run_ops_at_most:
  assumes "run_ops n M E xs p w = Returns (rs, p', w')" and "pool_ok p"
  shows "in_use p + length xs \<le> 50"
  using run_ops_keep [OF assms] items_in_use_bound [of "ConnQueue p'"] by (simp add: pool_ok_def)

lemma run_ops_go_on:
  "run_ops n M E xs p w = Returns (rs, p1, w1) \<Longrightarrow> run_op n M E x p1 w1 = Waiting \<Longrightarrow>
    run_ops n M E (xs @ x # ys) p w = Waiting"
  by (induction xs arbitrary: p w rs) (auto simp: returns_simps)

text \<open>With every slot open and fewer than fifty in use, the first turn ends the waiting.\<close>

definition all_open :: "MySqlConnectionItem list \<Rightarrow> bool" where
  "all_open its \<longleftrightarrow> (\<forall>it \<in> set its. Status it \<noteq> CONNECT_CLOSE \<and> Conn it \<noteq> None)"

lemma get_items_open: "all_open its \<Longrightarrow> items_in_use its < length its \<Longrightarrow>
    \<exists>con its'. get_items M its e = (Some con, its', e) \<and> all_open its'"
proof (induction its)
  case Nil
  then show ?case by simp
next
  case (Cons it its)
  then show ?case by (cases "Status it") (auto simp: all_open_def)
qed

lemma wait_connection_open:
  assumes "pool_ok p" and "\<not> PoolLock p" and "all_open (ConnQueue p)" and "in_use p < 50"
  shows "\<exists>con p'. wait_connection (Suc n) M p e = Returns (con, p', e) \<and> pool_ok p' \<and> \<not> PoolLock p'
    \<and> all_open (ConnQueue p') \<and> in_use p' = in_use p + 1"
proof -
  obtain con its' where g: "get_items M (ConnQueue p) e = (Some con, its', e)" "all_open its'"
    using get_items_open [OF assms(3), of M e] assms(1,4) by (auto simp: pool_ok_def)
  then have "get_connection_from_pool M p e = Returns (Some con, p\<lparr>ConnQueue := its'\<rparr>, e)"
    using assms(2) by (simp add: get_connection_from_pool_def)
  then show ?thesis using get_connection_ok [of M p e "Some con"] assms(1,2) g(2) by auto
qed

lemma inserts_return:
  assumes "pool_statement SQL_INSERT_USER [name, pwd] = Some sql"
  shows "pool_ok p \<Longrightarrow> \<not> PoolLock p \<Longrightarrow> all_open (ConnQueue p) \<Longrightarrow> in_use p + k \<le> 50 \<Longrightarrow>
    \<exists>rs p' w'. run_ops (Suc n) M E (replicate k (Insert_user name pwd)) p w = Returns (rs, p', w')"
proof (induction k arbitrary: p w)
  case 0
  then show ?case by simp
next
  case (Suc k)
  obtain con p1 where p1: "wait_connection (Suc n) M p (ext w) = Returns (con, p1, ext w)" "pool_ok p1" "\<not> PoolLock p1"
      "all_open (ConnQueue p1)" "in_use p1 = in_use p + 1"
    using wait_connection_open [OF Suc.prems(1-3), of n M "ext w"] Suc.prems(4) by (auto simp del: wait_connection.simps)
  obtain res e2 where "mysql_query M con sql (ext w) = (res, e2)" by fastforce
  then have one: "run_op (Suc n) M E (Insert_user name pwd) p w =
      Returns (if res \<noteq> 0 then NOINSERT else OK, p1, w\<lparr>ext := e2\<rparr>)"
    using assms p1(1) by (simp add: run_op_def pool_insertUser_def pool_query_def del: wait_connection.simps)
  then show ?case using Suc.IH [OF p1(2-4), of "w\<lparr>ext := e2\<rparr>"] p1(5) Suc.prems(4) by auto
qed

text \<open>A connection that the pool does not know locks it for ever.\<close>

lemma unknown_connection_locks:
  assumes "return_connection_to_pool M con p e = Returns (NOEXIST, p')" and "pool_ok p"
  shows "get_connection_from_pool M p' e1 = Waiting" and "wait_connection n M p' e1 = Waiting"
proof -
  have "PoolLock p'" using return_connection_ok [OF assms] by simp
  then show get: "get_connection_from_pool M p' e1 = Waiting" by (simp add: get_connection_from_pool_def)
  then show "wait_connection n M p' e1 = Waiting" by (cases n) simp_all
qed

section \<open>Results\<close>

lemma updatePassword_inverted:
  assumes "pool_query n M SQL_SELECT_UPDATE_PASSWORD [password, userName] p w = Returns (res, con, p1, w1)"
  shows "pool_updatePassword n M userName password p w = Returns (if res = 0 then NOUPDATE else OK, p1, w1)"
  using assms by (simp add: pool_updatePassword_def)

section \<open>Giving a connection back\<close>

text \<open>
  With a connection in every slot and distinct thread ids the slot is found and freed; an
  empty slot in front of it is a null pointer that is followed.
\<close>

lemma get_items_held:
  assumes "get_items M its e = (Some con, its', e')" and "list_all slot_ok its"
  shows "\<exists>it \<in> set its'. Conn it = Some con \<and> Status it = CONNECT_ON"
  using assms
proof (induction its arbitrary: its' e)
  case Nil
  then show ?case by simp
next
  case (Cons it its)
  then show ?case by (auto simp: Let_def split: ConnectionType.splits prod.splits)
qed

lemma return_items_frees:
  assumes "it \<in> set its" and "Conn it = Some con" and "Status it = CONNECT_ON"
    and "\<forall>i \<in> set its. Conn i \<noteq> None" and "distinct (map (\<lambda>i. thread_id M (the (Conn i)) e) its)"
  shows "\<exists>its'. return_items M con its e = Some (True, its') \<and> items_in_use its = items_in_use its' + 1"
  using assms
proof (induction its)
  case Nil
  then show ?case by simp
next
  case (Cons i its)
  obtain c where c: "Conn i = Some c" using Cons.prems(4) by auto
  show ?case
  proof (cases "i = it")
    case True
    then show ?thesis using Cons.prems(2,3) c by simp
  next
    case False
    then have it: "it \<in> set its" using Cons.prems(1) by simp
    then have "thread_id M con e \<noteq> thread_id M c e"
      using Cons.prems(2,5) c by (auto simp: image_iff)
    moreover obtain its' where "return_items M con its e = Some (True, its')"
        "items_in_use its = items_in_use its' + 1"
      using Cons.IH [OF it] Cons.prems by auto
    ultimately show ?thesis using c by simp
  qed
qed

lemma return_items_null:
  assumes "Conn it = None" and "\<forall>i \<in> set pre. \<forall>c. Conn i = Some c \<longrightarrow> thread_id M con e \<noteq> thread_id M c e"
  shows "return_items M con (pre @ it # its) e = None"
  using assms by (induction pre) (auto split: bind_splits)

lemma get_then_return:
  assumes "get_connection_from_pool M p e = Returns (Some con, p1, e1)" and "pool_ok p"
    and "\<forall>i \<in> set (ConnQueue p1). Conn i \<noteq> None"
    and "distinct (map (\<lambda>i. thread_id M (the (Conn i)) e2) (ConnQueue p1))"
  shows "\<exists>p2. return_connection_to_pool M con p1 e2 = Returns (OK, p2) \<and> in_use p2 = in_use p \<and> \<not> PoolLock p2"
proof -
  have get: "get_items M (ConnQueue p) e = (Some con, ConnQueue p1, e1)" "\<not> PoolLock p1"
    using assms(1) by (auto simp: get_connection_from_pool_def split: if_splits prod.splits)
  have "list_all slot_ok (ConnQueue p)" using assms(2) by (simp add: pool_ok_def)
  then obtain it where it: "it \<in> set (ConnQueue p1)" "Conn it = Some con" "Status it = CONNECT_ON"
    using get_items_held [OF get(1)] by blast
  obtain its' where its': "return_items M con (ConnQueue p1) e2 = Some (True, its')" "in_use p1 = items_in_use its' + 1"
    using return_items_frees [OF it assms(3,4)] by auto
  have "return_connection_to_pool M con p1 e2 = Returns (OK, p1\<lparr>ConnQueue := its'\<rparr>)"
    by (simp add: return_connection_to_pool_def get(2) its'(1))
  moreover have "in_use p1 = in_use p + 1" using get_connection_ok [OF assms(1,2)] by simp
  ultimately show ?thesis using get(2) its'(2) by simp
qed

end
