(* ===== verification/Design_Observer.thy ===== *)
theory Design_Observer
  imports Robot_Prelude
begin

text \<open>
  The observer pattern of \<open>DesignPattern/Observer.c\<close>: classes as tables of functions, objects on
  a heap, the observers of a subject in a list behind a sentinel node. The lemmas follow an
  attached observer through notification, and show what \<open>Remove\<close> and \<open>Delete\<close> do to it.
\<close>

section \<open>Objects\<close>

text \<open>
  An address stands for a pointer, \<open>None\<close> for the null pointer, and a text for a pointer to it.
  Allocation takes the next address and does not fail. \<open>out\<close> lists what was printed.
\<close>

datatype obs_class = ChatObserver | SheetObserver | WordObserver | SingleList | DataSubject

record obs_node =
  nd_data :: "nat option"
  nd_next :: "nat option"

record obs_subject =
  obvs :: "nat option"
  sub_st :: "string option"

record obs_observer =
  obs_of :: obs_class
  obs_st :: "string option"
  obs_sub :: "nat option"

record obs_heap =
  single_lists :: "nat \<rightharpoonup> nat option"
  nodes :: "nat \<rightharpoonup> obs_node"
  subjects :: "nat \<rightharpoonup> obs_subject"
  observers :: "nat \<rightharpoonup> obs_observer"
  next_addr :: nat
  out :: "(string \<times> string) list"

definition free :: "nat option \<Rightarrow> obs_heap \<Rightarrow> obs_heap option" where
  "free p h = (case p of
      None \<Rightarrow> Some h
    | Some a \<Rightarrow>
        if observers h a \<noteq> None then Some (h\<lparr>observers := (observers h)(a := None)\<rparr>)
        else if subjects h a \<noteq> None then Some (h\<lparr>subjects := (subjects h)(a := None)\<rparr>)
        else if single_lists h a \<noteq> None then Some (h\<lparr>single_lists := (single_lists h)(a := None)\<rparr>)
        else None)"

definition free_node :: "nat \<Rightarrow> obs_heap \<Rightarrow> obs_heap option" where
  "free_node n h = (if nodes h n = None then None else Some (h\<lparr>nodes := (nodes h)(n := None)\<rparr>))"

section \<open>The list\<close>

text \<open>A \<open>Node**\<close> points to the head of a list or to the next pointer of a node.\<close>

datatype link = At_head nat | At_next nat

definition read_link :: "obs_heap \<Rightarrow> link \<Rightarrow> nat option option" where
  "read_link h l = (case l of
      At_head a \<Rightarrow> single_lists h a
    | At_next n \<Rightarrow> map_option nd_next (nodes h n))"

definition write_link :: "link \<Rightarrow> nat option \<Rightarrow> obs_heap \<Rightarrow> obs_heap option" where
  "write_link l v h = (case l of
      At_head a \<Rightarrow> do { p \<leftarrow> single_lists h a; Some (h\<lparr>single_lists := (single_lists h)(a \<mapsto> v)\<rparr>) }
    | At_next n \<Rightarrow> do { nd \<leftarrow> nodes h n; Some (h\<lparr>nodes := (nodes h)(n \<mapsto> nd\<lparr>nd_next := v\<rparr>)\<rparr>) })"

definition singleListCtor :: "nat \<Rightarrow> obs_heap \<Rightarrow> obs_heap option" where
  "singleListCtor self h = do {
     p \<leftarrow> single_lists h self;
     Some (h\<lparr>nodes := (nodes h)(next_addr h \<mapsto> \<lparr>nd_data = None, nd_next = None\<rparr>),
       single_lists := (single_lists h)(self \<mapsto> Some (next_addr h)), next_addr := next_addr h + 1\<rparr>) }"

text \<open>The destructor has no return statement.\<close>

partial_function (option) singleListDtor :: "nat \<Rightarrow> obs_heap \<Rightarrow> obs_heap option" where
  "singleListDtor self h =
     Option.bind (single_lists h self) (\<lambda>p. case p of
        None \<Rightarrow> Some h
      | Some n \<Rightarrow> Option.bind (nodes h n) (\<lambda>nd.
          Option.bind (write_link (At_head self) (nd_next nd) h) (\<lambda>h1.
            Option.bind (free_node n h1) (\<lambda>h2. singleListDtor self h2))))"

definition singleListInsert :: "nat \<Rightarrow> nat option \<Rightarrow> obs_heap \<Rightarrow> obs_heap option" where
  "singleListInsert self data h = do {
     p \<leftarrow> single_lists h self;
     s \<leftarrow> p;
     sentinel \<leftarrow> nodes h s;
     let node = next_addr h;
     Some (h\<lparr>nodes := (nodes h)(node \<mapsto> \<lparr>nd_data = data, nd_next = nd_next sentinel\<rparr>,
       s \<mapsto> sentinel\<lparr>nd_next := Some node\<rparr>), next_addr := next_addr h + 1\<rparr>) }"

text \<open>A removed element is freed together with what it points to.\<close>

partial_function (option) remove_loop :: "nat option \<Rightarrow> link \<Rightarrow> obs_heap \<Rightarrow> obs_heap option" where
  "remove_loop data l h =
     Option.bind (read_link h l) (\<lambda>p. case p of
        None \<Rightarrow> Some h
      | Some n \<Rightarrow> Option.bind (nodes h n) (\<lambda>nd.
          if nd_data nd = data then
            Option.bind (write_link l (nd_next nd) h) (\<lambda>h1.
              Option.bind (free (nd_data nd) h1) (\<lambda>h2.
                Option.bind (free_node n h2) (\<lambda>h3. remove_loop data l h3)))
          else remove_loop data (At_next n) h))"

definition singleListRemove :: "nat \<Rightarrow> nat option \<Rightarrow> obs_heap \<Rightarrow> obs_heap option" where
  "singleListRemove self data h = remove_loop data (At_head self) h"

partial_function (option) iterate ::
    "(nat option \<Rightarrow> obs_heap \<Rightarrow> obs_heap option) \<Rightarrow> link \<Rightarrow> obs_heap \<Rightarrow> obs_heap option" where
  "iterate handle_fn l h =
     Option.bind (read_link h l) (\<lambda>p. case p of
        None \<Rightarrow> Some h
      | Some n \<Rightarrow> Option.bind (nodes h n) (\<lambda>nd.
          Option.bind (handle_fn (nd_data nd) h) (\<lambda>h1.
            Option.bind (read_link h1 l) (\<lambda>q. Option.bind q (\<lambda>m. iterate handle_fn (At_next m) h1)))))"

definition singleListIterator ::
    "nat \<Rightarrow> (nat option \<Rightarrow> obs_heap \<Rightarrow> obs_heap option) \<Rightarrow> obs_heap \<Rightarrow> obs_heap option" where
  "singleListIterator self handle_fn h = do {
     p \<leftarrow> single_lists h self; s \<leftarrow> p; iterate handle_fn (At_next s) h }"

definition singleListPrint ::
    "nat \<Rightarrow> (nat option \<Rightarrow> obs_heap \<Rightarrow> obs_heap option) \<Rightarrow> obs_heap \<Rightarrow> obs_heap option" where
  "singleListPrint self print_fn h = do {
     p \<leftarrow> single_lists h self; s \<leftarrow> p; iterate print_fn (At_next s) h }"

text \<open>
  The class of lists: its table of functions. The member \<open>size\<close>, the number of bytes that \<open>New\<close>
  allocates, has no counterpart on a heap of records, here and in the other classes.
\<close>

record List_class =
  l_ctor :: "nat \<Rightarrow> obs_heap \<Rightarrow> obs_heap option"
  l_dtor :: "nat \<Rightarrow> obs_heap \<Rightarrow> obs_heap option"
  l_insert :: "nat \<Rightarrow> nat option \<Rightarrow> obs_heap \<Rightarrow> obs_heap option"
  l_remove :: "nat \<Rightarrow> nat option \<Rightarrow> obs_heap \<Rightarrow> obs_heap option"
  l_iterator :: "nat \<Rightarrow> (nat option \<Rightarrow> obs_heap \<Rightarrow> obs_heap option) \<Rightarrow> obs_heap \<Rightarrow> obs_heap option"
  l_print :: "nat \<Rightarrow> (nat option \<Rightarrow> obs_heap \<Rightarrow> obs_heap option) \<Rightarrow> obs_heap \<Rightarrow> obs_heap option"

definition singleList_table :: List_class where
  "singleList_table = \<lparr>l_ctor = singleListCtor, l_dtor = singleListDtor, l_insert = singleListInsert,
     l_remove = singleListRemove, l_iterator = singleListIterator, l_print = singleListPrint\<rparr>"

lemma singleList_functions [simp]:
  "l_ctor singleList_table = singleListCtor" "l_insert singleList_table = singleListInsert"
  "l_remove singleList_table = singleListRemove" "l_iterator singleList_table = singleListIterator"
  "l_print singleList_table = singleListPrint"
  by (simp_all add: singleList_table_def)

definition Insert :: "nat option \<Rightarrow> nat option \<Rightarrow> obs_heap \<Rightarrow> obs_heap option" where
  "Insert lst item h = do { self \<leftarrow> lst; l_insert singleList_table self item h }"

definition Remove :: "nat option \<Rightarrow> nat option \<Rightarrow> obs_heap \<Rightarrow> obs_heap option" where
  "Remove lst item h = do { self \<leftarrow> lst; l_remove singleList_table self item h }"

definition Iterator ::
    "nat option \<Rightarrow> (nat option \<Rightarrow> obs_heap \<Rightarrow> obs_heap option) \<Rightarrow> obs_heap \<Rightarrow> obs_heap option" where
  "Iterator lst handle_fn h = do { self \<leftarrow> lst; l_iterator singleList_table self handle_fn h }"

definition Print ::
    "nat option \<Rightarrow> (nat option \<Rightarrow> obs_heap \<Rightarrow> obs_heap option) \<Rightarrow> obs_heap \<Rightarrow> obs_heap option" where
  "Print lst print_fn h = do { self \<leftarrow> lst; l_print singleList_table self print_fn h }"

section \<open>Subjects\<close>

text \<open>
  \<open>calloc\<close> of an object of a class. \<open>Delete\<close> takes the object itself for its class: the
  "destructor" is the third word of the object, the subject of an observer or the state of a
  subject, and calling it is undefined; a list has only two words.
\<close>

definition calloc_object :: "obs_class \<Rightarrow> obs_heap \<Rightarrow> obs_heap" where
  "calloc_object c h = (case c of
      SingleList \<Rightarrow> h\<lparr>single_lists := (single_lists h)(next_addr h \<mapsto> None), next_addr := next_addr h + 1\<rparr>
    | DataSubject \<Rightarrow> h\<lparr>subjects := (subjects h)(next_addr h \<mapsto> \<lparr>obvs = None, sub_st = None\<rparr>),
        next_addr := next_addr h + 1\<rparr>
    | _ \<Rightarrow> h\<lparr>observers := (observers h)(next_addr h \<mapsto> \<lparr>obs_of = c, obs_st = None, obs_sub = None\<rparr>),
        next_addr := next_addr h + 1\<rparr>)"

definition Delete :: "nat option \<Rightarrow> obs_heap \<Rightarrow> obs_heap option" where
  "Delete p h = (case p of
      None \<Rightarrow> free None h
    | Some a \<Rightarrow>
        (case (observers h a, subjects h a) of
           (Some ob, _) \<Rightarrow> if obs_sub ob \<noteq> None then None else free p h
         | (None, Some sb) \<Rightarrow> if sub_st sb \<noteq> None then None else free p h
         | (None, None) \<Rightarrow> None))"

definition dataSubjectCtor :: "nat \<Rightarrow> obs_heap \<Rightarrow> obs_heap option" where
  "dataSubjectCtor self h = do {
     let lst = next_addr h;
     h1 \<leftarrow> l_ctor singleList_table lst (calloc_object SingleList h);
     sb \<leftarrow> subjects h1 self;
     Some (h1\<lparr>subjects := (subjects h1)(self \<mapsto> sb\<lparr>obvs := Some lst\<rparr>)\<rparr>) }"

definition dataSubjectDtor :: "nat \<Rightarrow> obs_heap \<Rightarrow> obs_heap option" where
  "dataSubjectDtor self h = do {
     sb \<leftarrow> subjects h self;
     h1 \<leftarrow> Delete (obvs sb) h;
     sb1 \<leftarrow> subjects h1 self;
     Some (h1\<lparr>subjects := (subjects h1)(self \<mapsto> sb1\<lparr>obvs := None\<rparr>)\<rparr>) }"

definition dataSubjectAttach :: "nat \<Rightarrow> nat option \<Rightarrow> obs_heap \<Rightarrow> obs_heap option" where
  "dataSubjectAttach self obv h = do { sb \<leftarrow> subjects h self; Insert (obvs sb) obv h }"

definition dataSubjectDetach :: "nat \<Rightarrow> nat option \<Rightarrow> obs_heap \<Rightarrow> obs_heap option" where
  "dataSubjectDetach self obv h = do { sb \<leftarrow> subjects h self; Remove (obvs sb) obv h }"

definition dataSubjectSetState :: "nat \<Rightarrow> string option \<Rightarrow> obs_heap \<Rightarrow> obs_heap option" where
  "dataSubjectSetState self st h = do {
     sb \<leftarrow> subjects h self;
     Some (h\<lparr>subjects := (subjects h)(self \<mapsto> sb\<lparr>sub_st := st\<rparr>)\<rparr>) }"

definition dataSubjectGetState :: "nat \<Rightarrow> obs_heap \<Rightarrow> string option option" where
  "dataSubjectGetState self h = do { sb \<leftarrow> subjects h self; Some (sub_st sb) }"

section \<open>Observers\<close>

text \<open>
  What the three classes do alike: the constructor stores the subject and attaches itself; the
  destructor detaches itself; the update takes over the state of the subject. A failed \<open>assert\<close>
  is \<open>None\<close>.
\<close>

definition attach_self :: "nat \<Rightarrow> nat option \<Rightarrow> obs_heap \<Rightarrow> obs_heap option" where
  "attach_self self sub h = do {
     ob \<leftarrow> observers h self;
     let h1 = h\<lparr>observers := (observers h)(self \<mapsto> ob\<lparr>obs_sub := sub\<rparr>)\<rparr>;
     s \<leftarrow> sub;
     dataSubjectAttach s (Some self) h1 }"

definition detach_self :: "nat \<Rightarrow> obs_heap \<Rightarrow> obs_heap option" where
  "detach_self self h = do {
     ob \<leftarrow> observers h self;
     s \<leftarrow> obs_sub ob;
     dataSubjectDetach s (Some self) h }"

definition take_state :: "nat \<Rightarrow> nat option \<Rightarrow> obs_heap \<Rightarrow> obs_heap option" where
  "take_state self sub h = do {
     s \<leftarrow> sub;
     st \<leftarrow> dataSubjectGetState s h;
     ob \<leftarrow> observers h self;
     Some (h\<lparr>observers := (observers h)(self \<mapsto> ob\<lparr>obs_st := st\<rparr>)\<rparr>) }"

definition show_state :: "string \<Rightarrow> nat \<Rightarrow> obs_heap \<Rightarrow> obs_heap option" where
  "show_state label self h = do {
     ob \<leftarrow> observers h self;
     st \<leftarrow> obs_st ob;
     Some (h\<lparr>out := out h @ [(label, st)]\<rparr>) }"

definition chatObserverCtor :: "nat \<Rightarrow> nat option \<Rightarrow> obs_heap \<Rightarrow> obs_heap option" where
  "chatObserverCtor self sub h = attach_self self sub h"

definition chatObserverDtor :: "nat \<Rightarrow> obs_heap \<Rightarrow> obs_heap option" where
  "chatObserverDtor self h = do {
     h1 \<leftarrow> detach_self self h;
     ob \<leftarrow> observers h1 self;
     Some (h1\<lparr>observers := (observers h1)(self \<mapsto> ob\<lparr>obs_sub := None\<rparr>)\<rparr>) }"

definition chatObserverPrintInfo :: "nat \<Rightarrow> obs_heap \<Rightarrow> obs_heap option" where
  "chatObserverPrintInfo self h = show_state ''ChatObserver'' self h"

definition chatObserverUpdate :: "nat \<Rightarrow> nat option \<Rightarrow> obs_heap \<Rightarrow> obs_heap option" where
  "chatObserverUpdate self sub h = do { h1 \<leftarrow> take_state self sub h; chatObserverPrintInfo self h1 }"

definition sheetObserverCtor :: "nat \<Rightarrow> nat option \<Rightarrow> obs_heap \<Rightarrow> obs_heap option" where
  "sheetObserverCtor self sub h = attach_self self sub h"

definition sheetObserverDtor :: "nat \<Rightarrow> obs_heap \<Rightarrow> obs_heap option" where
  "sheetObserverDtor self h = detach_self self h"

definition sheetObserverPrintInfo :: "nat \<Rightarrow> obs_heap \<Rightarrow> obs_heap option" where
  "sheetObserverPrintInfo self h = show_state ''sheetObserver'' self h"

definition sheetObserverUpdate :: "nat \<Rightarrow> nat option \<Rightarrow> obs_heap \<Rightarrow> obs_heap option" where
  "sheetObserverUpdate self sub h = do { h1 \<leftarrow> take_state self sub h; sheetObserverPrintInfo self h1 }"

definition wordObserverCtor :: "nat \<Rightarrow> nat option \<Rightarrow> obs_heap \<Rightarrow> obs_heap option" where
  "wordObserverCtor self sub h = attach_self self sub h"

definition wordObserverDtor :: "nat \<Rightarrow> obs_heap \<Rightarrow> obs_heap option" where
  "wordObserverDtor self h = detach_self self h"

definition wordObserverPrintInfo :: "nat \<Rightarrow> obs_heap \<Rightarrow> obs_heap option" where
  "wordObserverPrintInfo self h = show_state ''wordObserver'' self h"

definition wordObserverUpdate :: "nat \<Rightarrow> nat option \<Rightarrow> obs_heap \<Rightarrow> obs_heap option" where
  "wordObserverUpdate self sub h = do { h1 \<leftarrow> take_state self sub h; wordObserverPrintInfo self h1 }"

section \<open>The functions of the interface\<close>

text \<open>The classes of observers: their tables of functions.\<close>

record Observer_class =
  o_ctor :: "nat \<Rightarrow> nat option \<Rightarrow> obs_heap \<Rightarrow> obs_heap option"
  o_dtor :: "nat \<Rightarrow> obs_heap \<Rightarrow> obs_heap option"
  o_update :: "nat \<Rightarrow> nat option \<Rightarrow> obs_heap \<Rightarrow> obs_heap option"
  o_printinfo :: "nat \<Rightarrow> obs_heap \<Rightarrow> obs_heap option"

definition chatObserver_table :: Observer_class where
  "chatObserver_table = \<lparr>o_ctor = chatObserverCtor, o_dtor = chatObserverDtor,
     o_update = chatObserverUpdate, o_printinfo = chatObserverPrintInfo\<rparr>"

definition sheetObserver_table :: Observer_class where
  "sheetObserver_table = \<lparr>o_ctor = sheetObserverCtor, o_dtor = sheetObserverDtor,
     o_update = sheetObserverUpdate, o_printinfo = sheetObserverPrintInfo\<rparr>"

definition wordObserver_table :: Observer_class where
  "wordObserver_table = \<lparr>o_ctor = wordObserverCtor, o_dtor = wordObserverDtor,
     o_update = wordObserverUpdate, o_printinfo = wordObserverPrintInfo\<rparr>"

lemma observer_functions [simp]:
  "o_ctor chatObserver_table = chatObserverCtor" "o_update chatObserver_table = chatObserverUpdate"
  "o_ctor sheetObserver_table = sheetObserverCtor" "o_update sheetObserver_table = sheetObserverUpdate"
  "o_ctor wordObserver_table = wordObserverCtor" "o_update wordObserver_table = wordObserverUpdate"
  by (simp_all add: chatObserver_table_def sheetObserver_table_def wordObserver_table_def)

text \<open>The call of \<open>update\<close> through an object: the function of its class.\<close>

definition call_update :: "nat \<Rightarrow> nat option \<Rightarrow> obs_heap \<Rightarrow> obs_heap option" where
  "call_update obv sub h = do {
     ob \<leftarrow> observers h obv;
     (case obs_of ob of
        ChatObserver \<Rightarrow> o_update chatObserver_table obv sub h
      | SheetObserver \<Rightarrow> o_update sheetObserver_table obv sub h
      | WordObserver \<Rightarrow> o_update wordObserver_table obv sub h
      | _ \<Rightarrow> None) }"

definition update :: "nat option \<Rightarrow> nat option \<Rightarrow> obs_heap \<Rightarrow> obs_heap option" where
  "update sub obv h = do { a \<leftarrow> obv; call_update a sub h }"

definition dataSubjectNotify :: "nat \<Rightarrow> obs_heap \<Rightarrow> obs_heap option" where
  "dataSubjectNotify self h = do { sb \<leftarrow> subjects h self; Iterator (obvs sb) (update (Some self)) h }"

text \<open>The class of subjects.\<close>

record Subject_class =
  s_ctor :: "nat \<Rightarrow> obs_heap \<Rightarrow> obs_heap option"
  s_dtor :: "nat \<Rightarrow> obs_heap \<Rightarrow> obs_heap option"
  s_attach :: "nat \<Rightarrow> nat option \<Rightarrow> obs_heap \<Rightarrow> obs_heap option"
  s_detach :: "nat \<Rightarrow> nat option \<Rightarrow> obs_heap \<Rightarrow> obs_heap option"
  s_notify :: "nat \<Rightarrow> obs_heap \<Rightarrow> obs_heap option"
  s_setstate :: "nat \<Rightarrow> string option \<Rightarrow> obs_heap \<Rightarrow> obs_heap option"
  s_getstate :: "nat \<Rightarrow> obs_heap \<Rightarrow> string option option"

definition dataSubject_table :: Subject_class where
  "dataSubject_table = \<lparr>s_ctor = dataSubjectCtor, s_dtor = dataSubjectDtor, s_attach = dataSubjectAttach,
     s_detach = dataSubjectDetach, s_notify = dataSubjectNotify, s_setstate = dataSubjectSetState,
     s_getstate = dataSubjectGetState\<rparr>"

lemma dataSubject_functions [simp]:
  "s_ctor dataSubject_table = dataSubjectCtor" "s_notify dataSubject_table = dataSubjectNotify"
  "s_setstate dataSubject_table = dataSubjectSetState"
  by (simp_all add: dataSubject_table_def)

definition New :: "obs_class \<Rightarrow> nat option \<Rightarrow> obs_heap \<Rightarrow> (nat \<times> obs_heap) option" where
  "New c param h = do {
     let p = next_addr h;
     let h1 = calloc_object c h;
     h2 \<leftarrow> (case c of
         ChatObserver \<Rightarrow> o_ctor chatObserver_table p param h1
       | SheetObserver \<Rightarrow> o_ctor sheetObserver_table p param h1
       | WordObserver \<Rightarrow> o_ctor wordObserver_table p param h1
       | SingleList \<Rightarrow> l_ctor singleList_table p h1
       | DataSubject \<Rightarrow> s_ctor dataSubject_table p h1);
     Some (p, h2) }"

definition SetState :: "nat option \<Rightarrow> string option \<Rightarrow> obs_heap \<Rightarrow> obs_heap option" where
  "SetState subject st h = (case subject of None \<Rightarrow> Some h | Some s \<Rightarrow> s_setstate dataSubject_table s st h)"

definition Notify :: "nat option \<Rightarrow> obs_heap \<Rightarrow> obs_heap option" where
  "Notify subject h = (case subject of None \<Rightarrow> Some h | Some s \<Rightarrow> s_notify dataSubject_table s h)"

definition Update :: "nat option \<Rightarrow> nat option \<Rightarrow> obs_heap \<Rightarrow> obs_heap option" where
  "Update observer subject h = (case observer of None \<Rightarrow> Some h | Some a \<Rightarrow> call_update a subject h)"

definition empty_heap :: obs_heap where
  "empty_heap = \<lparr>single_lists = Map.empty, nodes = Map.empty, subjects = Map.empty, observers = Map.empty,
     next_addr = 1, out = []\<rparr>"

definition observer_main :: "obs_heap \<Rightarrow> obs_heap option" where
  "observer_main h = do {
     (sub, h1) \<leftarrow> New DataSubject None h;
     (o1, h2) \<leftarrow> New SheetObserver (Some sub) h1;
     (o2, h3) \<leftarrow> New ChatObserver (Some sub) h2;
     (o3, h4) \<leftarrow> New WordObserver (Some sub) h3;
     h5 \<leftarrow> SetState (Some sub) (Some ''old data'') h4;
     h6 \<leftarrow> Notify (Some sub) h5;
     h7 \<leftarrow> SetState (Some sub) (Some ''new data'') h6;
     Notify (Some sub) h7 }"

section \<open>The observers of a subject\<close>

text \<open>
  \<open>node_path N p ns\<close>: from \<open>p\<close> the next pointers lead through the nodes of \<open>ns\<close> (pairs of a node
  and its datum) to the null pointer. A well-formed heap has no object at an address that is
  still to be given out.
\<close>

fun node_path :: "(nat \<rightharpoonup> obs_node) \<Rightarrow> nat option \<Rightarrow> (nat \<times> nat) list \<Rightarrow> bool" where
  "node_path N p [] \<longleftrightarrow> p = None"
| "node_path N p ((n, d) # ns) \<longleftrightarrow> p = Some n \<and> (\<exists>q. N n = Some \<lparr>nd_data = Some d, nd_next = q\<rparr> \<and> node_path N q ns)"

definition attached :: "obs_heap \<Rightarrow> nat \<Rightarrow> nat list \<Rightarrow> bool" where
  "attached h s xs \<longleftrightarrow> (\<exists>sb l hd sn ns. subjects h s = Some sb \<and> obvs sb = Some l \<and> single_lists h l = Some (Some hd)
     \<and> nodes h hd = Some sn \<and> nd_data sn = None \<and> node_path (nodes h) (nd_next sn) ns \<and> map snd ns = xs
     \<and> hd \<notin> fst ` set ns \<and> distinct (map fst ns))"

definition obs_wf :: "obs_heap \<Rightarrow> bool" where
  "obs_wf h \<longleftrightarrow> (\<forall>a \<ge> next_addr h. nodes h a = None \<and> subjects h a = None \<and> single_lists h a = None
     \<and> observers h a = None)"

lemma node_path_frame: "a \<notin> fst ` set ns \<Longrightarrow> node_path (N(a \<mapsto> x)) p ns = node_path N p ns"
  by (induction ns arbitrary: p) auto

lemma node_path_unset: "a \<notin> fst ` set ns \<Longrightarrow> node_path (N(a := None)) p ns = node_path N p ns"
  by (induction ns arbitrary: p) auto

lemma node_path_dom: "node_path N p ns \<Longrightarrow> (n, d) \<in> set ns \<Longrightarrow> N n \<noteq> None"
  by (induction ns arbitrary: p) auto

text \<open>Attaching puts an observer in front.\<close>

lemma attach_front:
  assumes "attached h s xs" and "obs_wf h"
  shows "\<exists>h'. dataSubjectAttach s (Some x) h = Some h' \<and> attached h' s (x # xs) \<and> obs_wf h'
    \<and> subjects h' = subjects h \<and> observers h' = observers h \<and> out h' = out h"
proof -
  obtain sb l hd sn ns where a: "subjects h s = Some sb" "obvs sb = Some l" "single_lists h l = Some (Some hd)"
      "nodes h hd = Some sn" "nd_data sn = None" "node_path (nodes h) (nd_next sn) ns" "map snd ns = xs"
      "hd \<notin> fst ` set ns" "distinct (map fst ns)"
    using assms(1) by (auto simp: attached_def)
  let ?n = "next_addr h"
  have fresh: "nodes h ?n = None" using assms(2) by (simp add: obs_wf_def)
  then have ne: "?n \<noteq> hd" "?n \<notin> fst ` set ns"
    using a(4) by (auto dest!: node_path_dom [OF a(6)])
  define h' where "h' = h\<lparr>nodes := (nodes h)(?n \<mapsto> \<lparr>nd_data = Some x, nd_next = nd_next sn\<rparr>,
      hd \<mapsto> sn\<lparr>nd_next := Some ?n\<rparr>), next_addr := ?n + 1\<rparr>"
  have "dataSubjectAttach s (Some x) h = Some h'"
    using a(1-4) by (simp add: dataSubjectAttach_def Insert_def singleListInsert_def Let_def h'_def)
  moreover have "attached h' s (x # xs)"
    unfolding attached_def using a ne
    by (intro exI [of _ sb] exI [of _ l] exI [of _ hd] exI [of _ "sn\<lparr>nd_next := Some ?n\<rparr>"]
        exI [of _ "(?n, x) # ns"]) (auto simp: h'_def node_path_frame)
  moreover have "hd < ?n" using assms(2) a(4) by (metis linorder_not_le obs_wf_def option.distinct(1))
  then have "obs_wf h'" using assms(2) by (auto simp: h'_def obs_wf_def)
  ultimately show ?thesis by (auto simp: h'_def)
qed

section \<open>Notification\<close>

text \<open>What a notification leaves alone.\<close>

definition class_label :: "obs_class \<Rightarrow> string" where
  "class_label c = (case c of ChatObserver \<Rightarrow> ''ChatObserver'' | SheetObserver \<Rightarrow> ''sheetObserver''
     | WordObserver \<Rightarrow> ''wordObserver'' | _ \<Rightarrow> [])"

definition observer_class :: "obs_class \<Rightarrow> bool" where
  "observer_class c \<longleftrightarrow> c \<noteq> SingleList \<and> c \<noteq> DataSubject"

definition same_objects :: "obs_heap \<Rightarrow> obs_heap \<Rightarrow> bool" where
  "same_objects h h' \<longleftrightarrow> nodes h' = nodes h \<and> single_lists h' = single_lists h \<and> subjects h' = subjects h
    \<and> next_addr h' = next_addr h \<and> (\<forall>a. map_option obs_of (observers h' a) = map_option obs_of (observers h a))"

lemma same_objects_trans: "same_objects h h1 \<Longrightarrow> same_objects h1 h2 \<Longrightarrow> same_objects h h2"
  by (simp add: same_objects_def)

lemma same_objects_class:
  assumes "same_objects h h'" and "observers h x = Some ob"
  shows "\<exists>ob'. observers h' x = Some ob' \<and> obs_of ob' = obs_of ob"
proof -
  have "map_option obs_of (observers h' x) = Some (obs_of ob)" using assms by (simp add: same_objects_def)
  then show ?thesis by auto
qed

lemma call_update_shows:
  assumes "subjects h s = Some sb" and "sub_st sb = Some t" and "observers h x = Some ob" and "observer_class (obs_of ob)"
  shows "\<exists>h'. call_update x (Some s) h = Some h' \<and> same_objects h h' \<and> out h' = out h @ [(class_label (obs_of ob), t)]
    \<and> observers h' = (observers h)(x \<mapsto> ob\<lparr>obs_st := Some t\<rparr>)"
  using assms
  by (cases "obs_of ob")
    (auto simp: call_update_def chatObserverUpdate_def sheetObserverUpdate_def wordObserverUpdate_def
      chatObserverPrintInfo_def sheetObserverPrintInfo_def wordObserverPrintInfo_def take_state_def show_state_def
      dataSubjectGetState_def class_label_def observer_class_def same_objects_def)

text \<open>Going through the nodes behind a link: each observer shows the state, front first.\<close>

definition showing :: "obs_heap \<Rightarrow> string \<Rightarrow> nat list \<Rightarrow> (string \<times> string) list" where
  "showing h t xs = map (\<lambda>x. (class_label (obs_of (the (observers h x))), t)) xs"

lemma showing_same: "same_objects h h' \<Longrightarrow> \<forall>x \<in> set xs. observers h x \<noteq> None \<Longrightarrow> showing h' t xs = showing h t xs"
  using same_objects_class by (fastforce simp: showing_def)

lemma iterate_update:
  assumes "read_link h l = Some p" and "node_path (nodes h) p ns" and "subjects h s = Some sb" and "sub_st sb = Some t"
    and "\<forall>x \<in> set (map snd ns). \<exists>ob. observers h x = Some ob \<and> observer_class (obs_of ob)"
  shows "\<exists>h'. iterate (update (Some s)) l h = Some h' \<and> same_objects h h' \<and> out h' = out h @ showing h t (map snd ns)
    \<and> (\<forall>x. observers h' x = (if x \<in> set (map snd ns) then map_option (\<lambda>ob. ob\<lparr>obs_st := Some t\<rparr>) (observers h x)
        else observers h x))"
  using assms
proof (induction ns arbitrary: h l p)
  case Nil
  then show ?case
    by (subst iterate.simps) (auto simp: same_objects_def showing_def)
next
  case (Cons n ns)
  obtain a x where n: "n = (a, x)" by (cases n)
  obtain q where q: "p = Some a" "nodes h a = Some \<lparr>nd_data = Some x, nd_next = q\<rparr>" "node_path (nodes h) q ns"
    using Cons.prems(2) n by auto
  obtain ob where ob: "observers h x = Some ob" "observer_class (obs_of ob)" using Cons.prems(5) n by auto
  obtain h1 where h1: "call_update x (Some s) h = Some h1" "same_objects h h1"
      "out h1 = out h @ [(class_label (obs_of ob), t)]" "observers h1 = (observers h)(x \<mapsto> ob\<lparr>obs_st := Some t\<rparr>)"
    using call_update_shows [OF Cons.prems(3,4) ob] by blast
  have link: "read_link h1 l = Some (Some a)" "read_link h1 (At_next a) = Some q"
    using Cons.prems(1) q(1,2) h1(2) by (cases l; simp add: read_link_def same_objects_def)+
  have more: "\<forall>y \<in> set (map snd ns). \<exists>ob'. observers h1 y = Some ob' \<and> observer_class (obs_of ob')"
    using Cons.prems(5) ob(2) by (auto simp: h1(4))
  obtain h' where h': "iterate (update (Some s)) (At_next a) h1 = Some h'" "same_objects h1 h'"
      "out h' = out h1 @ showing h1 t (map snd ns)"
      "\<forall>y. observers h' y = (if y \<in> set (map snd ns) then map_option (\<lambda>ob. ob\<lparr>obs_st := Some t\<rparr>) (observers h1 y)
        else observers h1 y)"
    using Cons.IH [OF link(2) _ _ Cons.prems(4) more] q(3) Cons.prems(3) h1(2) by (auto simp: same_objects_def)
  have "iterate (update (Some s)) l h = Some h'"
    using Cons.prems(1) q(1,2) h1(1) link(1) h'(1) by (subst iterate.simps) (simp add: update_def)
  moreover have "showing h1 t (map snd ns) = showing h t (map snd ns)"
    using Cons.prems(5) by (intro showing_same [OF h1(2)]) auto
  then have "out h' = out h @ showing h t (map snd (n # ns))"
    using h1(3) h'(3) n ob(1) by (simp add: showing_def)
  moreover have "observers h' y = (if y \<in> set (map snd (n # ns)) then map_option (\<lambda>ob. ob\<lparr>obs_st := Some t\<rparr>) (observers h y)
        else observers h y)" for y
    using h'(4) h1(4) ob(1) n by auto
  ultimately show ?case using same_objects_trans [OF h1(2) h'(2)] by blast
qed

lemma notify_shows:
  assumes "attached h s xs" and "subjects h s = Some sb" and "sub_st sb = Some t"
    and "\<forall>x \<in> set xs. \<exists>ob. observers h x = Some ob \<and> observer_class (obs_of ob)"
  shows "\<exists>h'. Notify (Some s) h = Some h' \<and> attached h' s xs \<and> same_objects h h'
    \<and> out h' = out h @ showing h t xs \<and> (\<forall>x \<in> set xs. map_option obs_st (observers h' x) = Some (Some t))"
proof -
  obtain l hd sn ns where a: "obvs sb = Some l" "single_lists h l = Some (Some hd)"
      "nodes h hd = Some sn" "node_path (nodes h) (nd_next sn) ns" "map snd ns = xs"
    using assms(1,2) by (auto simp: attached_def)
  have "read_link h (At_next hd) = Some (nd_next sn)" using a(3) by (simp add: read_link_def)
  from iterate_update [OF this a(4) assms(2,3)] assms(4) a(5)
  obtain h' where h': "iterate (update (Some s)) (At_next hd) h = Some h'" "same_objects h h'"
      "out h' = out h @ showing h t xs"
      "\<forall>x. observers h' x = (if x \<in> set xs then map_option (\<lambda>ob. ob\<lparr>obs_st := Some t\<rparr>) (observers h x)
        else observers h x)" by auto
  have "Notify (Some s) h = Some h'"
    using assms(2) a(1,2) h'(1) by (simp add: Notify_def dataSubjectNotify_def Iterator_def singleListIterator_def)
  moreover have "attached h' s xs" using assms(1) h'(2) by (simp add: attached_def same_objects_def)
  moreover have "\<forall>x \<in> set xs. map_option obs_st (observers h' x) = Some (Some t)" using h'(4) assms(4) by fastforce
  ultimately show ?thesis using h'(2,3) by blast
qed

section \<open>Attaching and notifying as a contract\<close>

text \<open>
  A publisher: attaching puts an observer in front of those it has, and notification runs an
  action once for each, in that order. \<open>able\<close> are the observers that can be notified.
\<close>

locale publisher =
  fixes put :: "'o \<Rightarrow> 's \<Rightarrow> 's option"
    and notify :: "'s \<Rightarrow> 's option"
    and view :: "'s \<Rightarrow> 'o list \<Rightarrow> bool"
    and able :: "'s \<Rightarrow> 'o \<Rightarrow> bool"
    and entry :: "'s \<Rightarrow> 'o \<Rightarrow> 'e"
    and log :: "'s \<Rightarrow> 'e list"
  assumes put_law: "view s xs \<Longrightarrow> \<exists>s'. put x s = Some s' \<and> view s' (x # xs) \<and> log s' = log s
      \<and> (\<forall>y. able s y \<longrightarrow> able s' y \<and> entry s' y = entry s y)"
    and notify_law: "view s xs \<Longrightarrow> (\<And>x. x \<in> set xs \<Longrightarrow> able s x) \<Longrightarrow>
      \<exists>s'. notify s = Some s' \<and> view s' xs \<and> log s' = log s @ map (entry s) xs
        \<and> (\<forall>y. able s y \<longrightarrow> able s' y \<and> entry s' y = entry s y)"
begin

primrec put_all :: "'o list \<Rightarrow> 's \<Rightarrow> 's option" where
  "put_all [] s = Some s"
| "put_all (x # xs) s = Option.bind (put x s) (put_all xs)"

lemma put_all_view:
  "view s ys \<Longrightarrow> \<exists>s'. put_all xs s = Some s' \<and> view s' (rev xs @ ys) \<and> log s' = log s
    \<and> (\<forall>y. able s y \<longrightarrow> able s' y \<and> entry s' y = entry s y)"
proof (induction xs arbitrary: s ys)
  case Nil
  then show ?case by auto
next
  case (Cons x xs)
  obtain s1 where s1: "put x s = Some s1" "view s1 (x # ys)" "log s1 = log s"
      "\<forall>y. able s y \<longrightarrow> able s1 y \<and> entry s1 y = entry s y"
    using put_law [OF Cons.prems] by blast
  obtain s' where "put_all xs s1 = Some s'" "view s' (rev xs @ x # ys)" "log s' = log s1"
      "\<forall>y. able s1 y \<longrightarrow> able s' y \<and> entry s' y = entry s1 y"
    using Cons.IH [OF s1(2)] by blast
  then show ?case using s1 by auto
qed

text \<open>Whoever attached last is notified first.\<close>

lemma newest_first:
  assumes "view s []" and "\<And>x. x \<in> set xs \<Longrightarrow> able s x"
  shows "\<exists>s'. Option.bind (put_all xs s) notify = Some s' \<and> log s' = log s @ map (entry s) (rev xs)"
proof -
  obtain s1 where s1: "put_all xs s = Some s1" "view s1 (rev xs)" "log s1 = log s"
      "\<forall>y. able s y \<longrightarrow> able s1 y \<and> entry s1 y = entry s y"
    using put_all_view [OF assms(1), of xs] by auto
  obtain s' where "notify s1 = Some s'" "log s' = log s1 @ map (entry s1) (rev xs)"
    using notify_law [OF s1(2)] s1(4) assms(2) by auto
  moreover have "map (entry s1) (rev xs) = map (entry s) (rev xs)" using s1(4) assms(2) by simp
  ultimately show ?thesis using s1(1,3) by auto
qed

end

text \<open>The heap with a subject whose state is set, and the observers there are.\<close>

definition subject_view :: "nat \<Rightarrow> obs_heap \<Rightarrow> nat list \<Rightarrow> bool" where
  "subject_view s h xs \<longleftrightarrow> attached h s xs \<and> obs_wf h \<and> (\<exists>sb t. subjects h s = Some sb \<and> sub_st sb = Some t)"

definition can_update :: "obs_heap \<Rightarrow> nat \<Rightarrow> bool" where
  "can_update h x \<longleftrightarrow> (\<exists>ob. observers h x = Some ob \<and> observer_class (obs_of ob))"

definition shown_by :: "nat \<Rightarrow> obs_heap \<Rightarrow> nat \<Rightarrow> string \<times> string" where
  "shown_by s h x = (class_label (obs_of (the (observers h x))), the (sub_st (the (subjects h s))))"

definition attach_to :: "nat \<Rightarrow> nat \<Rightarrow> obs_heap \<Rightarrow> obs_heap option" where
  "attach_to s x h = dataSubjectAttach s (Some x) h"

definition notify_all :: "nat \<Rightarrow> obs_heap \<Rightarrow> obs_heap option" where
  "notify_all s h = Notify (Some s) h"

lemma same_objects_wf:
  assumes "same_objects h h'" and "obs_wf h"
  shows "obs_wf h'"
proof -
  have "observers h' a = None" if "observers h a = None" for a
  proof -
    have "map_option obs_of (observers h' a) = map_option obs_of (observers h a)"
      using assms(1) by (simp add: same_objects_def)
    with that show ?thesis by simp
  qed
  then show ?thesis using assms by (simp add: obs_wf_def same_objects_def)
qed

lemma shown_by_same:
  assumes "same_objects h h'" and "can_update h y"
  shows "can_update h' y" and "shown_by s h' y = shown_by s h y"
proof -
  obtain ob where ob: "observers h y = Some ob" "observer_class (obs_of ob)" using assms(2) by (auto simp: can_update_def)
  then obtain ob' where "observers h' y = Some ob'" "obs_of ob' = obs_of ob"
    using same_objects_class [OF assms(1)] by blast
  moreover have "subjects h' = subjects h" using assms(1) by (simp add: same_objects_def)
  ultimately show "can_update h' y" and "shown_by s h' y = shown_by s h y"
    using ob by (simp_all add: can_update_def shown_by_def)
qed

interpretation subject: publisher "attach_to s" "notify_all s" "subject_view s" can_update "shown_by s" out
proof
  fix h xs and x :: nat
  assume v: "subject_view s h xs"
  then obtain h' where "dataSubjectAttach s (Some x) h = Some h'" "attached h' s (x # xs)" "obs_wf h'"
      "subjects h' = subjects h" "observers h' = observers h" "out h' = out h"
    using attach_front [of h s xs x] by (auto simp: subject_view_def)
  then show "\<exists>h'. attach_to s x h = Some h' \<and> subject_view s h' (x # xs) \<and> out h' = out h
      \<and> (\<forall>y. can_update h y \<longrightarrow> can_update h' y \<and> shown_by s h' y = shown_by s h y)"
    using v by (auto simp: attach_to_def subject_view_def can_update_def shown_by_def)
next
  fix h xs
  assume v: "subject_view s h xs" and able: "\<And>x. x \<in> set xs \<Longrightarrow> can_update h x"
  then obtain sb t where st: "subjects h s = Some sb" "sub_st sb = Some t" by (auto simp: subject_view_def)
  obtain h' where h': "Notify (Some s) h = Some h'" "attached h' s xs" "same_objects h h'" "out h' = out h @ showing h t xs"
    using notify_shows [of h s xs sb t] v st able by (auto simp: subject_view_def can_update_def)
  have "showing h t xs = map (shown_by s h) xs" using st by (simp add: showing_def shown_by_def)
  moreover have "subject_view s h' xs"
    using h'(2,3) v st same_objects_wf [OF h'(3)] by (auto simp: subject_view_def same_objects_def)
  ultimately show "\<exists>h'. notify_all s h = Some h' \<and> subject_view s h' xs \<and> out h' = out h @ map (shown_by s h) xs
      \<and> (\<forall>y. can_update h y \<longrightarrow> can_update h' y \<and> shown_by s h' y = shown_by s h y)"
    using h'(1,4) shown_by_same [OF h'(3)] by (auto simp: notify_all_def)
qed

lemmas last_attached_first = subject.newest_first

primrec attach_all :: "nat \<Rightarrow> nat list \<Rightarrow> obs_heap \<Rightarrow> obs_heap option" where
  "attach_all s [] h = Some h"
| "attach_all s (x # xs) h = do { h1 \<leftarrow> dataSubjectAttach s (Some x) h; attach_all s xs h1 }"

lemma attach_all_put: "attach_all s xs h = subject.put_all s xs h"
  by (induction xs arbitrary: h) (simp_all add: attach_to_def)

section \<open>Removal and deletion\<close>

text \<open>
  \<open>Remove\<close> frees the observer it takes out of the list; \<open>Delete\<close> of an attached observer calls a
  pointer that is no function.
\<close>

lemma delete_attached_undefined:
  assumes "observers h a = Some ob" and "obs_sub ob \<noteq> None"
  shows "Delete (Some a) h = None"
  using assms by (simp add: Delete_def)

lemma dataSubjectDtor_undefined:
  assumes "subjects h s = Some sb" and "obvs sb = Some l" and "observers h l = None" and "subjects h l = None"
  shows "dataSubjectDtor s h = None"
  using assms by (simp add: dataSubjectDtor_def Delete_def)

lemma remove_loop_absent:
  assumes "read_link h l = Some p" and "node_path (nodes h) p ns" and "x \<notin> set (map snd ns)"
  shows "remove_loop (Some x) l h = Some h"
  using assms
proof (induction ns arbitrary: l p)
  case Nil
  then show ?case by (simp add: remove_loop.simps)
next
  case (Cons n ns)
  obtain a y where n: "n = (a, y)" by (cases n)
  obtain q where q: "p = Some a" "nodes h a = Some \<lparr>nd_data = Some y, nd_next = q\<rparr>" "node_path (nodes h) q ns"
    using Cons.prems(2) n by auto
  have "remove_loop (Some x) (At_next a) h = Some h"
    using Cons.prems(3) n q(2) by (intro Cons.IH [OF _ q(3)]) (simp_all add: read_link_def)
  then show ?case using Cons.prems(1,3) q(1,2) n by (subst remove_loop.simps) auto
qed

text \<open>Detaching the newest observer takes it out of the list and off the heap.\<close>

lemma detach_frees:
  assumes "attached h s (x # xs)" and "x \<notin> set xs" and "observers h x = Some ob"
  shows "\<exists>h'. dataSubjectDetach s (Some x) h = Some h' \<and> attached h' s xs \<and> observers h' = (observers h)(x := None)"
proof -
  obtain sb l hd sn ms where m: "subjects h s = Some sb" "obvs sb = Some l" "single_lists h l = Some (Some hd)"
      "nodes h hd = Some sn" "nd_data sn = None" "node_path (nodes h) (nd_next sn) ms" "map snd ms = x # xs"
      "hd \<notin> fst ` set ms" "distinct (map fst ms)"
    using assms(1) unfolding attached_def by (elim exE conjE) (rule that)
  obtain n ns where ms: "ms = (n, x) # ns" "map snd ns = xs" using m(7) by (cases ms) auto
  note a = m(1-5) m(6) [unfolded ms(1)] ms(2) m(8,9) [unfolded ms(1)]
  obtain q where q: "nd_next sn = Some n" "nodes h n = Some \<lparr>nd_data = Some x, nd_next = q\<rparr>" "node_path (nodes h) q ns"
    using a(6) by auto
  define h1 where "h1 = h\<lparr>observers := (observers h)(x := None), nodes := ((nodes h)(hd \<mapsto> sn\<lparr>nd_next := q\<rparr>))(n := None)\<rparr>"
  have ne: "hd \<noteq> n" "hd \<notin> fst ` set ns" "n \<notin> fst ` set ns" using a(8,9) by auto
  have path: "node_path (nodes h1) q ns"
    using q(3) ne(2,3) node_path_frame [of hd ns] by (simp add: h1_def node_path_unset)
  have "read_link h1 (At_next hd) = Some q" using ne(1) by (simp add: h1_def read_link_def)
  then have "remove_loop (Some x) (At_next hd) h1 = Some h1"
    using assms(2) [folded a(7)] by (intro remove_loop_absent [OF _ path])
  moreover have "remove_loop (Some x) (At_next hd) h = remove_loop (Some x) (At_next hd) h1"
    using a(4) q(1,2) ne(1) assms(3)
    by (subst remove_loop.simps) (simp add: read_link_def write_link_def free_def free_node_def h1_def)
  moreover have "remove_loop (Some x) (At_head l) h = remove_loop (Some x) (At_next hd) h"
    using a(3-5) by (subst remove_loop.simps) (simp add: read_link_def)
  ultimately have "dataSubjectDetach s (Some x) h = Some h1"
    using a(1,2) by (simp add: dataSubjectDetach_def Remove_def singleListRemove_def)
  moreover have "attached h1 s xs"
    unfolding attached_def using a ne path
    by (intro exI [of _ sb] exI [of _ l] exI [of _ hd] exI [of _ "sn\<lparr>nd_next := q\<rparr>"] exI [of _ ns]) (auto simp: h1_def)
  ultimately show ?thesis by (auto simp: h1_def)
qed

text \<open>The destructor of a chat observer then writes into the freed object.\<close>

lemma chat_dtor_use_after_free:
  assumes "attached h s (x # xs)" and "x \<notin> set xs" and "observers h x = Some ob" and "obs_sub ob = Some s"
  shows "chatObserverDtor x h = None"
  using detach_frees [OF assms(1-3)] assms(3,4) by (auto simp: chatObserverDtor_def detach_self_def)

section \<open>The program\<close>

lemma new_subject:
  assumes "obs_wf h"
  shows "\<exists>s h'. New DataSubject None h = Some (s, h') \<and> attached h' s [] \<and> obs_wf h' \<and> out h' = out h
    \<and> subjects h' s \<noteq> None"
proof -
  let ?n = "next_addr h"
  have f: "nodes h a = None" "subjects h a = None" "single_lists h a = None" "observers h a = None" if "?n \<le> a" for a
    using assms that by (simp_all add: obs_wf_def)
  define h' where "h' = h\<lparr>subjects := (subjects h)(?n \<mapsto> \<lparr>obvs = Some (?n + 1), sub_st = None\<rparr>),
      single_lists := (single_lists h)(?n + 1 \<mapsto> Some (?n + 2)),
      nodes := (nodes h)(?n + 2 \<mapsto> \<lparr>nd_data = None, nd_next = None\<rparr>), next_addr := ?n + 3\<rparr>"
  have "New DataSubject None h = Some (?n, h')"
    by (simp add: New_def calloc_object_def dataSubjectCtor_def singleListCtor_def Let_def h'_def)
  moreover have "attached h' ?n []"
    unfolding attached_def by (auto simp: h'_def)
  moreover have "obs_wf h'" using f by (auto simp: obs_wf_def h'_def)
  ultimately show ?thesis by (auto simp: h'_def)
qed

lemma new_observer:
  assumes "attached h s xs" and "obs_wf h" and "observer_class c"
  shows "\<exists>x h'. New c (Some s) h = Some (x, h') \<and> attached h' s (x # xs) \<and> obs_wf h' \<and> out h' = out h
    \<and> subjects h' = subjects h \<and> observers h x = None
    \<and> observers h' = (observers h)(x \<mapsto> \<lparr>obs_of = c, obs_st = None, obs_sub = Some s\<rparr>)"
proof -
  let ?x = "next_addr h"
  define h1 where "h1 = h\<lparr>next_addr := ?x + 1,
      observers := (observers h)(?x \<mapsto> \<lparr>obs_of = c, obs_st = None, obs_sub = Some s\<rparr>)\<rparr>"
  have "attached h1 s xs" using assms(1) by (simp add: attached_def h1_def)
  moreover have "obs_wf h1" using assms(2) by (auto simp: obs_wf_def h1_def)
  ultimately obtain h' where h': "dataSubjectAttach s (Some ?x) h1 = Some h'" "attached h' s (?x # xs)" "obs_wf h'"
      "subjects h' = subjects h1" "observers h' = observers h1" "out h' = out h1"
    using attach_front by blast
  have "attach_self ?x (Some s) (calloc_object c h) = Some h'"
    using h'(1) assms(3)
    by (cases c) (simp_all add: attach_self_def calloc_object_def observer_class_def h1_def)
  then have "New c (Some s) h = Some (?x, h')"
    using assms(3)
    by (cases c) (simp_all add: New_def observer_class_def chatObserverCtor_def sheetObserverCtor_def wordObserverCtor_def)
  moreover have "observers h ?x = None" using assms(2) by (simp add: obs_wf_def)
  ultimately show ?thesis using h' by (auto simp: h1_def)
qed

text \<open>Setting a state and notifying: every observer shows it, front first.\<close>

lemma set_and_notify:
  assumes "attached h s xs" and "\<forall>x \<in> set xs. can_update h x"
  shows "\<exists>h1 h2. SetState (Some s) (Some t) h = Some h1 \<and> Notify (Some s) h1 = Some h2 \<and> attached h2 s xs
    \<and> (\<forall>x \<in> set xs. can_update h2 x) \<and> out h2 = out h @ showing h t xs \<and> (\<forall>u. showing h2 u xs = showing h u xs)"
proof -
  obtain sb where sb: "subjects h s = Some sb" using assms(1) by (auto simp: attached_def)
  define h1 where "h1 = h\<lparr>subjects := (subjects h)(s \<mapsto> sb\<lparr>sub_st := Some t\<rparr>)\<rparr>"
  have set: "SetState (Some s) (Some t) h = Some h1" "attached h1 s xs"
    using sb assms(1) by (auto simp: SetState_def dataSubjectSetState_def h1_def attached_def)
  have able: "\<forall>x \<in> set xs. can_update h1 x" "\<And>u. showing h1 u xs = showing h u xs" "out h1 = out h"
    using assms(2) by (simp_all add: can_update_def h1_def showing_def)
  obtain h2 where h2: "Notify (Some s) h1 = Some h2" "attached h2 s xs" "same_objects h1 h2" "out h2 = out h1 @ showing h1 t xs"
    using notify_shows [OF set(2), of "sb\<lparr>sub_st := Some t\<rparr>" t] able(1) by (auto simp: can_update_def h1_def)
  have "\<forall>x \<in> set xs. can_update h2 x" using able(1) shown_by_same(1) [OF h2(3)] by blast
  moreover have "showing h2 u xs = showing h1 u xs" for u
    using able(1) by (intro showing_same [OF h2(3)]) (auto simp: can_update_def)
  ultimately show ?thesis using set(1) h2(1,2,4) able(2,3) by auto
qed

lemma observer_main_output:
  "\<exists>h. observer_main empty_heap = Some h \<and> out h =
    [(''wordObserver'', ''old data''), (''ChatObserver'', ''old data''), (''sheetObserver'', ''old data''),
     (''wordObserver'', ''new data''), (''ChatObserver'', ''new data''), (''sheetObserver'', ''new data'')]"
proof -
  have "obs_wf empty_heap" by (simp add: obs_wf_def empty_heap_def)
  then obtain s h1 where 1: "New DataSubject None empty_heap = Some (s, h1)" "attached h1 s []" "obs_wf h1" "out h1 = []"
    using new_subject [of empty_heap] by (auto simp: empty_heap_def)
  obtain a h2 where 2: "New SheetObserver (Some s) h1 = Some (a, h2)" "attached h2 s [a]" "obs_wf h2" "out h2 = []"
      "observers h2 = (observers h1)(a \<mapsto> \<lparr>obs_of = SheetObserver, obs_st = None, obs_sub = Some s\<rparr>)"
    using new_observer [OF 1(2,3), of SheetObserver] 1(4) by (auto simp: observer_class_def)
  obtain b h3 where 3: "New ChatObserver (Some s) h2 = Some (b, h3)" "attached h3 s [b, a]" "obs_wf h3" "out h3 = []"
      "observers h2 b = None"
      "observers h3 = (observers h2)(b \<mapsto> \<lparr>obs_of = ChatObserver, obs_st = None, obs_sub = Some s\<rparr>)"
    using new_observer [OF 2(2,3), of ChatObserver] 2(4) by (auto simp: observer_class_def)
  obtain c h4 where 4: "New WordObserver (Some s) h3 = Some (c, h4)" "attached h4 s [c, b, a]" "out h4 = []"
      "observers h3 c = None"
      "observers h4 = (observers h3)(c \<mapsto> \<lparr>obs_of = WordObserver, obs_st = None, obs_sub = Some s\<rparr>)"
    using new_observer [OF 3(2,3), of WordObserver] 3(4) by (auto simp: observer_class_def)
  have dist: "a \<noteq> b" "c \<noteq> a" "c \<noteq> b" using 2(5) 3(5,6) 4(4) by (auto split: if_splits)
  have able: "\<forall>x \<in> set [c, b, a]. can_update h4 x"
    using 2(5) 3(6) 4(5) dist by (auto simp: observer_class_def can_update_def)
  have lab: "showing h4 t [c, b, a] = [(''wordObserver'', t), (''ChatObserver'', t), (''sheetObserver'', t)]" for t
    using 2(5) 3(6) 4(5) dist by (simp add: showing_def class_label_def)
  obtain h5 h6 where 6: "SetState (Some s) (Some ''old data'') h4 = Some h5" "Notify (Some s) h5 = Some h6"
      "attached h6 s [c, b, a]" "\<forall>x \<in> set [c, b, a]. can_update h6 x" "out h6 = out h4 @ showing h4 ''old data'' [c, b, a]"
      "\<forall>u. showing h6 u [c, b, a] = showing h4 u [c, b, a]"
    using set_and_notify [OF 4(2) able] by blast
  obtain h7 h8 where "SetState (Some s) (Some ''new data'') h6 = Some h7" "Notify (Some s) h7 = Some h8"
      "out h8 = out h6 @ showing h6 ''new data'' [c, b, a]"
    using set_and_notify [OF 6(3,4)] by blast
  then show ?thesis
    using 1(1) 2(1) 3(1) 4(1,3) 6 lab by (simp add: observer_main_def)
qed

end
