(* ===== verification/Design_Chain.thy ===== *)
theory Design_Chain
  imports Robot_Prelude
begin

text \<open>
  The chain of responsibility of \<open>DesignPattern/concreteHandle.c\<close>: three classes of handles on a
  heap, each with its range of requests and a successor. The reference is a search for the first
  class whose range has the request.
\<close>

section \<open>Objects and classes\<close>

text \<open>
  An object is the pointer to its class and its successor. The functions of a class act on the
  heap; the result of \<open>handleRequest\<close> is either the line that is printed or the call it makes.
\<close>

datatype handle_class = ConcreteHandleA | ConcreteHandleB | ConcreteHandleC

record concrete_handle =
  class_ptr :: handle_class
  succ :: "nat option"

record handle_heap =
  handles :: "nat \<rightharpoonup> concrete_handle"
  next_handle :: nat

datatype chain_line = Deal_with handle_class int | Cannot_deal_with int

datatype chain_step = Printed chain_line | Passed nat

record Handle =
  h_ctor :: "nat \<Rightarrow> handle_heap \<Rightarrow> handle_heap option"
  h_dtor :: "nat \<Rightarrow> handle_heap \<Rightarrow> handle_heap option"
  setSuccessor :: "nat \<Rightarrow> nat option \<Rightarrow> handle_heap \<Rightarrow> handle_heap option"
  getSuccessor :: "nat \<Rightarrow> handle_heap \<Rightarrow> nat option option"
  handleRequest :: "nat \<Rightarrow> int \<Rightarrow> handle_heap \<Rightarrow> chain_step option"

definition write_succ :: "nat \<Rightarrow> nat option \<Rightarrow> handle_heap \<Rightarrow> handle_heap option" where
  "write_succ self s h = do {
     ob \<leftarrow> handles h self;
     Some (h\<lparr>handles := (handles h)(self \<mapsto> ob\<lparr>succ := s\<rparr>)\<rparr>) }"

section \<open>Class A\<close>

definition concreteHandleACtor :: "nat \<Rightarrow> handle_heap \<Rightarrow> handle_heap option" where
  "concreteHandleACtor self h = Some h"

definition concreteHandleADtor :: "nat \<Rightarrow> handle_heap \<Rightarrow> handle_heap option" where
  "concreteHandleADtor self h = write_succ self None h"

definition concreteHandleASetSuccessor :: "nat \<Rightarrow> nat option \<Rightarrow> handle_heap \<Rightarrow> handle_heap option" where
  "concreteHandleASetSuccessor self s h = write_succ self s h"

definition concreteHandleAGetSuccessor :: "nat \<Rightarrow> handle_heap \<Rightarrow> nat option option" where
  "concreteHandleAGetSuccessor self h = do { ob \<leftarrow> handles h self; Some (succ ob) }"

definition concreteHandleAhandleRequest :: "nat \<Rightarrow> int \<Rightarrow> handle_heap \<Rightarrow> chain_step option" where
  "concreteHandleAhandleRequest self request h =
     (if request \<ge> 0 \<and> request < 500 then Some (Printed (Deal_with ConcreteHandleA request))
      else do {
        s \<leftarrow> concreteHandleAGetSuccessor self h;
        (case s of Some a \<Rightarrow> Some (Passed a) | None \<Rightarrow> Some (Printed (Cannot_deal_with request))) })"

definition concreteHandleA_table :: Handle where
  "concreteHandleA_table = \<lparr>h_ctor = concreteHandleACtor, h_dtor = concreteHandleADtor,
     setSuccessor = concreteHandleASetSuccessor, getSuccessor = concreteHandleAGetSuccessor,
     handleRequest = concreteHandleAhandleRequest\<rparr>"

section \<open>Class B\<close>

definition concreteHandleBCtor :: "nat \<Rightarrow> handle_heap \<Rightarrow> handle_heap option" where
  "concreteHandleBCtor self h = Some h"

definition concreteHandleBDtor :: "nat \<Rightarrow> handle_heap \<Rightarrow> handle_heap option" where
  "concreteHandleBDtor self h = write_succ self None h"

definition concreteHandleBSetSuccessor :: "nat \<Rightarrow> nat option \<Rightarrow> handle_heap \<Rightarrow> handle_heap option" where
  "concreteHandleBSetSuccessor self s h = write_succ self s h"

definition concreteHandleBGetSuccessor :: "nat \<Rightarrow> handle_heap \<Rightarrow> nat option option" where
  "concreteHandleBGetSuccessor self h = do { ob \<leftarrow> handles h self; Some (succ ob) }"

definition concreteHandleBhandleRequest :: "nat \<Rightarrow> int \<Rightarrow> handle_heap \<Rightarrow> chain_step option" where
  "concreteHandleBhandleRequest self request h =
     (if request \<ge> 500 \<and> request < 1000 then Some (Printed (Deal_with ConcreteHandleB request))
      else do {
        s \<leftarrow> concreteHandleBGetSuccessor self h;
        (case s of Some a \<Rightarrow> Some (Passed a) | None \<Rightarrow> Some (Printed (Cannot_deal_with request))) })"

definition concreteHandleB_table :: Handle where
  "concreteHandleB_table = \<lparr>h_ctor = concreteHandleBCtor, h_dtor = concreteHandleBDtor,
     setSuccessor = concreteHandleBSetSuccessor, getSuccessor = concreteHandleBGetSuccessor,
     handleRequest = concreteHandleBhandleRequest\<rparr>"

section \<open>Class C\<close>

definition concreteHandleCCtor :: "nat \<Rightarrow> handle_heap \<Rightarrow> handle_heap option" where
  "concreteHandleCCtor self h = Some h"

definition concreteHandleCDtor :: "nat \<Rightarrow> handle_heap \<Rightarrow> handle_heap option" where
  "concreteHandleCDtor self h = write_succ self None h"

definition concreteHandleCSetSuccessor :: "nat \<Rightarrow> nat option \<Rightarrow> handle_heap \<Rightarrow> handle_heap option" where
  "concreteHandleCSetSuccessor self s h = write_succ self s h"

definition concreteHandleCGetSuccessor :: "nat \<Rightarrow> handle_heap \<Rightarrow> nat option option" where
  "concreteHandleCGetSuccessor self h = do { ob \<leftarrow> handles h self; Some (succ ob) }"

definition concreteHandleChandleRequest :: "nat \<Rightarrow> int \<Rightarrow> handle_heap \<Rightarrow> chain_step option" where
  "concreteHandleChandleRequest self request h =
     (if request \<ge> 1000 then Some (Printed (Deal_with ConcreteHandleC request))
      else do {
        s \<leftarrow> concreteHandleCGetSuccessor self h;
        (case s of Some a \<Rightarrow> Some (Passed a) | None \<Rightarrow> Some (Printed (Cannot_deal_with request))) })"

definition concreteHandleC_table :: Handle where
  "concreteHandleC_table = \<lparr>h_ctor = concreteHandleCCtor, h_dtor = concreteHandleCDtor,
     setSuccessor = concreteHandleCSetSuccessor, getSuccessor = concreteHandleCGetSuccessor,
     handleRequest = concreteHandleChandleRequest\<rparr>"

definition class_table :: "handle_class \<Rightarrow> Handle" where
  "class_table c = (case c of ConcreteHandleA \<Rightarrow> concreteHandleA_table
     | ConcreteHandleB \<Rightarrow> concreteHandleB_table | ConcreteHandleC \<Rightarrow> concreteHandleC_table)"

section \<open>The functions of the interface\<close>

definition New :: "handle_class \<Rightarrow> handle_heap \<Rightarrow> (nat \<times> handle_heap) option" where
  "New c h = do {
     let p = next_handle h;
     let h1 = h\<lparr>handles := (handles h)(p \<mapsto> \<lparr>class_ptr = c, succ = None\<rparr>), next_handle := p + 1\<rparr>;
     h2 \<leftarrow> h_ctor (class_table c) p h1;
     Some (p, h2) }"

definition Delete :: "nat option \<Rightarrow> handle_heap \<Rightarrow> handle_heap option" where
  "Delete p h = (case p of None \<Rightarrow> Some h | Some a \<Rightarrow> do {
     ob \<leftarrow> handles h a;
     h1 \<leftarrow> h_dtor (class_table (class_ptr ob)) a h;
     Some (h1\<lparr>handles := (handles h1)(a := None)\<rparr>) })"

definition SetSuccessor :: "nat option \<Rightarrow> nat option \<Rightarrow> handle_heap \<Rightarrow> handle_heap option" where
  "SetSuccessor handle s h = (case handle of None \<Rightarrow> Some h | Some a \<Rightarrow> do {
     ob \<leftarrow> handles h a;
     setSuccessor (class_table (class_ptr ob)) a s h })"

text \<open>The calls from handle to handle; on a cycle of handles they never end.\<close>

partial_function (option) call_handleRequest :: "nat \<Rightarrow> int \<Rightarrow> handle_heap \<Rightarrow> chain_line option" where
  "call_handleRequest self request h =
     Option.bind (handles h self) (\<lambda>ob.
       Option.bind (handleRequest (class_table (class_ptr ob)) self request h) (\<lambda>r. case r of
          Printed l \<Rightarrow> Some l
        | Passed a \<Rightarrow> call_handleRequest a request h))"

definition HandleRequest :: "nat option \<Rightarrow> int \<Rightarrow> handle_heap \<Rightarrow> chain_line list option" where
  "HandleRequest handle request h = (case handle of None \<Rightarrow> Some []
     | Some a \<Rightarrow> do { l \<leftarrow> call_handleRequest a request h; Some [l] })"

definition chain_main :: "handle_heap \<Rightarrow> (chain_line list \<times> handle_heap) option" where
  "chain_main h = do {
     (h1, s1) \<leftarrow> New ConcreteHandleA h;
     (h2, s2) \<leftarrow> New ConcreteHandleB s1;
     (h3, s3) \<leftarrow> New ConcreteHandleC s2;
     s4 \<leftarrow> SetSuccessor (Some h1) (Some h2) s3;
     s5 \<leftarrow> SetSuccessor (Some h2) (Some h3) s4;
     l1 \<leftarrow> HandleRequest (Some h1) 300 s5;
     l2 \<leftarrow> HandleRequest (Some h1) 600 s5;
     l3 \<leftarrow> HandleRequest (Some h1) 800 s5;
     l4 \<leftarrow> HandleRequest (Some h1) 1500 s5;
     s6 \<leftarrow> Delete (Some h1) s5;
     s7 \<leftarrow> Delete (Some h2) s6;
     s8 \<leftarrow> Delete (Some h3) s7;
     Some (l1 @ l2 @ l3 @ l4, s8) }"

section \<open>The reference\<close>

definition in_range :: "handle_class \<Rightarrow> int \<Rightarrow> bool" where
  "in_range c r = (case c of ConcreteHandleA \<Rightarrow> 0 \<le> r \<and> r < 500
     | ConcreteHandleB \<Rightarrow> 500 \<le> r \<and> r < 1000 | ConcreteHandleC \<Rightarrow> 1000 \<le> r)"

definition deal :: "handle_class list \<Rightarrow> int \<Rightarrow> chain_line" where
  "deal cs r = (case List.find (\<lambda>c. in_range c r) cs of Some c \<Rightarrow> Deal_with c r | None \<Rightarrow> Cannot_deal_with r)"

fun chain :: "handle_heap \<Rightarrow> nat option \<Rightarrow> (nat \<times> handle_class) list \<Rightarrow> bool" where
  "chain h p [] \<longleftrightarrow> p = None"
| "chain h p ((a, c) # cs) \<longleftrightarrow> p = Some a \<and> (\<exists>q. handles h a = Some \<lparr>class_ptr = c, succ = q\<rparr> \<and> chain h q cs)"

lemma handleRequest_step:
  assumes "handles h a = Some \<lparr>class_ptr = c, succ = q\<rparr>"
  shows "handleRequest (class_table c) a r h = Some (if in_range c r then Printed (Deal_with c r)
    else case q of Some b \<Rightarrow> Passed b | None \<Rightarrow> Printed (Cannot_deal_with r))"
  using assms
  by (cases c; cases q)
    (auto simp: class_table_def concreteHandleA_table_def concreteHandleB_table_def concreteHandleC_table_def
      concreteHandleAhandleRequest_def concreteHandleBhandleRequest_def concreteHandleChandleRequest_def
      concreteHandleAGetSuccessor_def concreteHandleBGetSuccessor_def concreteHandleCGetSuccessor_def in_range_def)

lemma chain_deals:
  assumes "chain h (Some a) cs"
  shows "call_handleRequest a r h = Some (deal (map snd cs) r)"
  using assms
proof (induction cs arbitrary: a)
  case Nil
  then show ?case by simp
next
  case (Cons c cs)
  obtain k where c: "c = (a, k)" using Cons.prems by (cases c) auto
  obtain q where q: "handles h a = Some \<lparr>class_ptr = k, succ = q\<rparr>" "chain h q cs" using Cons.prems c by auto
  note step = handleRequest_step [OF q(1), of r]
  show ?case
  proof (cases q)
    case None
    then have "cs = []" using q(2) by (cases cs) auto
    then show ?thesis
      using None c q(1) step by (subst call_handleRequest.simps) (simp add: deal_def)
  next
    case (Some b)
    then show ?thesis
      using Cons.IH [of b] c q step by (subst call_handleRequest.simps) (simp add: deal_def)
  qed
qed

text \<open>The three classes divide the requests that are not negative.\<close>

lemma deal_in_range:
  "deal [ConcreteHandleA, ConcreteHandleB, ConcreteHandleC] r =
    (if r < 0 then Cannot_deal_with r else if r < 500 then Deal_with ConcreteHandleA r
     else if r < 1000 then Deal_with ConcreteHandleB r else Deal_with ConcreteHandleC r)"
  by (simp add: deal_def in_range_def)

text \<open>On a cycle a request that no class has in its range is passed on for ever.\<close>

lemma cycle_never_returns:
  assumes step: "\<And>a. a \<in> A \<Longrightarrow> \<exists>c b. handles h a = Some \<lparr>class_ptr = c, succ = Some b\<rparr> \<and> b \<in> A \<and> \<not> in_range c r"
    and "a \<in> A"
  shows "call_handleRequest a r h = None"
proof (rule ccontr)
  assume "call_handleRequest a r h \<noteq> None"
  then obtain l where "call_handleRequest a r h = Some l" by auto
  then have "r = r \<longrightarrow> h = h \<longrightarrow> a \<notin> A"
  proof (rule call_handleRequest.raw_induct [rotated, where P = "\<lambda>b q g l. q = r \<longrightarrow> g = h \<longrightarrow> b \<notin> A"])
    fix call :: "nat \<Rightarrow> int \<Rightarrow> handle_heap \<Rightarrow> chain_line option" and b q g l
    assume IH: "\<And>b q g l. call b q g = Some l \<Longrightarrow> q = r \<longrightarrow> g = h \<longrightarrow> b \<notin> A"
      and body: "Option.bind (handles g b) (\<lambda>ob.
         Option.bind (handleRequest (class_table (class_ptr ob)) b q g) (\<lambda>r. case r of
            Printed l \<Rightarrow> Some l | Passed a \<Rightarrow> call a q g)) = Some l"
    show "q = r \<longrightarrow> g = h \<longrightarrow> b \<notin> A"
    proof (intro impI notI)
      assume "q = r" "g = h" "b \<in> A"
      then obtain c d where d: "handles h b = Some \<lparr>class_ptr = c, succ = Some d\<rparr>" "d \<in> A" "\<not> in_range c r"
        using step by blast
      then have "call d r h = Some l"
        using body handleRequest_step [OF d(1), of r] \<open>q = r\<close> \<open>g = h\<close> by simp
      then show False using IH [of d r h l] d(2) by simp
    qed
  qed
  then show False using assms(2) by simp
qed

lemma chain_main_result:
  assumes "\<forall>a \<ge> next_handle h. handles h a = None"
  shows "\<exists>h'. chain_main h = Some ([Deal_with ConcreteHandleA 300, Deal_with ConcreteHandleB 600,
      Deal_with ConcreteHandleB 800, Deal_with ConcreteHandleC 1500], h') \<and> handles h' = handles h"
proof -
  let ?n = "next_handle h"
  define s5 where "s5 = \<lparr>handles = (handles h)(?n \<mapsto> \<lparr>class_ptr = ConcreteHandleA, succ = Some (?n + 1)\<rparr>,
      ?n + 1 \<mapsto> \<lparr>class_ptr = ConcreteHandleB, succ = Some (?n + 2)\<rparr>,
      ?n + 2 \<mapsto> \<lparr>class_ptr = ConcreteHandleC, succ = None\<rparr>), next_handle = ?n + 3\<rparr>"
  have "chain s5 (Some ?n) [(?n, ConcreteHandleA), (?n + 1, ConcreteHandleB), (?n + 2, ConcreteHandleC)]"
    by (simp add: s5_def)
  from chain_deals [OF this] have r: "HandleRequest (Some ?n) r s5 =
      Some [deal [ConcreteHandleA, ConcreteHandleB, ConcreteHandleC] r]" for r
    by (simp add: HandleRequest_def)
  note tables = class_table_def concreteHandleA_table_def concreteHandleB_table_def concreteHandleC_table_def
    concreteHandleACtor_def concreteHandleBCtor_def concreteHandleCCtor_def concreteHandleADtor_def
    concreteHandleBDtor_def concreteHandleCDtor_def concreteHandleASetSuccessor_def concreteHandleBSetSuccessor_def
    concreteHandleCSetSuccessor_def write_succ_def
  have made: "do { (h1, s1) \<leftarrow> New ConcreteHandleA h; (h2, s2) \<leftarrow> New ConcreteHandleB s1;
      (h3, s3) \<leftarrow> New ConcreteHandleC s2; s4 \<leftarrow> SetSuccessor (Some h1) (Some h2) s3;
      s5 \<leftarrow> SetSuccessor (Some h2) (Some h3) s4; Some (h1, h2, h3, s5) } = Some (?n, ?n + 1, ?n + 2, s5)"
    by (simp add: New_def SetSuccessor_def tables Let_def s5_def fun_upd_twist)
  define h' where "h' = \<lparr>handles = handles h, next_handle = ?n + 3\<rparr>"
  have gone: "do { s6 \<leftarrow> Delete (Some ?n) s5; s7 \<leftarrow> Delete (Some (?n + 1)) s6; Delete (Some (?n + 2)) s7 } = Some h'"
    using assms by (simp add: Delete_def tables s5_def h'_def) (auto simp: fun_eq_iff)
  have "chain_main h = Some ([deal [ConcreteHandleA, ConcreteHandleB, ConcreteHandleC] 300,
      deal [ConcreteHandleA, ConcreteHandleB, ConcreteHandleC] 600, deal [ConcreteHandleA, ConcreteHandleB, ConcreteHandleC] 800,
      deal [ConcreteHandleA, ConcreteHandleB, ConcreteHandleC] 1500], h')"
    using made gone r by (auto simp: chain_main_def bind_eq_Some_conv)
  then show ?thesis by (simp add: deal_in_range h'_def)
qed

end
