(* ===== verification/Apollo_Log.thy ===== *)
theory Apollo_Log
  imports Apollo_World
begin

text \<open>
  The log of \<open>ApolloUtil.c\<close>: \<open>get_logs_handler\<close> and \<open>dbg_printf\<close>, which \<open>apollo_printf\<close> stands for
  when \<open>DEBUG\<close> is not defined. The committed configuration defines it and prints to the terminal.
\<close>

section \<open>The log file\<close>

definition PRINTF_CHAR_MAX :: nat where [simp]: "PRINTF_CHAR_MAX = 256"

definition log_path :: "data_save_type \<Rightarrow> tm \<Rightarrow> byte list" where
  "log_path save t = (let name = dec (tm_year t) @ bytes ''-'' @ dec (tm_mon t) @ bytes ''-'' @ dec (tm_mday t)
       @ bytes ''-'' @ dec (tm_hour t) @ bytes ''-'' @ dec (tm_min t) @ bytes ''.log'' in
     case save of DISTRBUTE_SAVE \<Rightarrow> bytes ''/usr/RServer/log_data/'' @ name
       | DISK_FILE_SAVE \<Rightarrow> bytes ''log_data/'' @ name)"

text \<open>
  The stream stays open once it is: \<open>pLogFiles\<close> is the path it writes to. The first part of
  \<open>get_logs_handler\<close> answers whether there is a stream.
\<close>

definition open_log ::
    "data_save_type \<Rightarrow> byte list option \<Rightarrow> 'w world \<Rightarrow> (byte list option \<times> 'w world) option" where
  "open_log save pLogFiles w = do {
     b \<leftarrow> sprintf_at (replicate 128 0) 0 (log_path save (localtime_now w));
     path \<leftarrow> cstr b 0;
     (case pLogFiles of
       Some p \<Rightarrow> Some (Some p, w)
     | None \<Rightarrow> if creatable w path then Some (Some path, w\<lparr>files := (files w)(path \<mapsto> [])\<rparr>) else Some (None, w)) }"

text \<open>
  \<open>vsnprintf\<close> writes the text over the last character of the time stamp and answers its full length;
  so many characters from the start of the array go to the file.
\<close>

definition print_log :: "byte list \<Rightarrow> byte list \<Rightarrow> 'w world \<Rightarrow> (nat \<times> 'w world) option" where
  "print_log formatted path w = do {
     (szPrint, len) \<leftarrow> writeLogFileTimeStamp (localtime_now w) (replicate PRINTF_CHAR_MAX 0);
     at \<leftarrow> to_index (int len - 1);
     szPrint1 \<leftarrow> blit szPrint at (take (PRINTF_CHAR_MAX - len - 1) formatted @ [0]);
     xs \<leftarrow> fetch szPrint1 0 (length formatted);
     let old = (case files w path of Some c \<Rightarrow> c | None \<Rightarrow> []);
     Some (length formatted, w\<lparr>files := (files w)(path \<mapsto> old @ xs)\<rparr>) }"

text \<open>
  Without a stream \<open>get_logs_handler\<close> reports the error with \<open>apollo_printf\<close>: with \<open>DEBUG\<close> that is
  \<open>printf\<close>, otherwise this function again. A call that returns writes to the null stream.
\<close>

partial_function (option) dbg_printf ::
    "bool \<Rightarrow> data_save_type \<Rightarrow> byte list \<Rightarrow> byte list option \<Rightarrow> 'w world
      \<Rightarrow> (nat \<times> byte list option \<times> 'w world) option" where
  "dbg_printf debug save formatted pLogFiles w =
     Option.bind (open_log save pLogFiles w) (\<lambda>(stream, w1). case stream of
         Some path \<Rightarrow> Option.bind (print_log formatted path w1) (\<lambda>(n, w2). Some (n, Some path, w2))
       | None \<Rightarrow>
           if debug then None
           else Option.bind (dbg_printf debug save (bytes ''Error: can not create .log'' @ [10]) None w1) (\<lambda>r. None))"

section \<open>What is logged\<close>

lemma writeLogFileTimeStamp_eq:
  assumes "writeLogFileTimeStamp t (replicate PRINTF_CHAR_MAX 0) = Some (sz, len)"
  obtains stamp where "length stamp = len" and "1 \<le> len" and "len < PRINTF_CHAR_MAX"
    and "sz = stamp @ replicate (PRINTF_CHAR_MAX - len) 0"
proof -
  define s where "s = bytes '' ['' @ dec (c_mod (tm_year t) 100) @ bytes ''-'' @ dec (tm_mon t) @ bytes ''-''
       @ dec (tm_mday t) @ bytes '' '' @ dec (tm_hour t) @ bytes '':'' @ dec (tm_min t)
       @ bytes '':'' @ dec (tm_sec t) @ bytes ''] ''"
  have "sprintf_at (replicate PRINTF_CHAR_MAX 0) 0 s = Some sz" and len: "len = length s"
    using assms by (auto simp: writeLogFileTimeStamp_def Let_def bind_eq_Some_conv s_def)
  then have l: "length s < PRINTF_CHAR_MAX" and sz: "sz = s @ 0 # replicate (PRINTF_CHAR_MAX - Suc (length s)) 0"
    by (auto simp: sprintf_at_def blit_def split: if_splits)
  have "0 # replicate (PRINTF_CHAR_MAX - Suc (length s)) 0 = replicate (PRINTF_CHAR_MAX - length s) (0 :: byte)"
    using l by (metis Suc_diff_Suc replicate_Suc)
  then have "sz = s @ replicate (PRINTF_CHAR_MAX - len) 0" using sz len by (simp only:)
  moreover have "1 \<le> len" by (simp add: len s_def)
  ultimately show ?thesis using l len that by blast
qed

text \<open>
  A text that fits loses as many characters at its end as the time stamp puts before it; one longer
  than the array reads behind the array.
\<close>

lemma print_log_truncates:
  assumes "writeLogFileTimeStamp (localtime_now w) (replicate PRINTF_CHAR_MAX 0) = Some (sz, len)"
    and "length formatted + len < PRINTF_CHAR_MAX"
  shows "\<exists>stamp. length stamp = len - 1 \<and> print_log formatted path w = Some (length formatted,
    w\<lparr>files := (files w)(path \<mapsto> (case files w path of Some c \<Rightarrow> c | None \<Rightarrow> []) @
      take (length formatted) (stamp @ formatted))\<rparr>)"
proof -
  obtain stamp where st: "length stamp = len" "1 \<le> len" "sz = stamp @ replicate (PRINTF_CHAR_MAX - len) 0"
    using writeLogFileTimeStamp_eq [OF assms(1)] by blast
  have "to_index (int len - 1) = Some (len - 1)" using st(2) by (simp add: to_index_def nat_diff_distrib')
  moreover have "take (PRINTF_CHAR_MAX - len - 1) formatted = formatted" using assms(2) by simp
  moreover have "blit sz (len - 1) (formatted @ [0]) =
      Some ((take (len - 1) stamp @ formatted) @ 0 # drop (length formatted) (replicate (PRINTF_CHAR_MAX - len) 0))"
    using st assms(2) by (simp add: blit_def)
  ultimately have "print_log formatted path w = Some (length formatted,
      w\<lparr>files := (files w)(path \<mapsto> (case files w path of Some c \<Rightarrow> c | None \<Rightarrow> []) @
        take (length formatted) (take (len - 1) stamp @ formatted))\<rparr>)"
    using assms st(1,2) by (simp add: print_log_def fetch_def Let_def)
  then show ?thesis using st(1) by (intro exI [of _ "take (len - 1) stamp"]) simp
qed

lemma print_log_overread:
  assumes "PRINTF_CHAR_MAX < length formatted"
  shows "print_log formatted path w = None"
proof (rule ccontr)
  assume "print_log formatted path w \<noteq> None"
  then obtain sz len k s1 xs where t: "writeLogFileTimeStamp (localtime_now w) (replicate PRINTF_CHAR_MAX 0) = Some (sz, len)"
      and s1: "blit sz k (take (PRINTF_CHAR_MAX - len - 1) formatted @ [0]) = Some s1" "fetch s1 0 (length formatted) = Some xs"
    by (auto simp: print_log_def bind_eq_Some_conv)
  have "length sz = PRINTF_CHAR_MAX" using writeLogFileTimeStamp_eq [OF t] by (metis add_diff_inverse_nat length_append length_replicate less_imp_not_less)
  then have "length s1 = PRINTF_CHAR_MAX" using blit_length [OF s1(1)] by simp
  then show False using s1(2) assms by (auto simp: fetch_def split: if_splits)
qed

text \<open>Without \<open>DEBUG\<close>, a log file that cannot be created makes the first message call itself for ever.\<close>

lemma dbg_printf_recursion:
  assumes "\<not> creatable w (log_path save (localtime_now w))"
  shows "dbg_printf debug save formatted None w = None"
proof -
  have "0 \<notin> set (log_path save (localtime_now w))"
    by (cases save) (simp_all add: log_path_def bytes_def)
  then have c: "cstr b 0 = Some (log_path save (localtime_now w))"
    if "sprintf_at (replicate 128 0) 0 (log_path save (localtime_now w)) = Some b" for b
    using that cstr_sprintf by blast
  have "r = (None, w)" if "open_log save None w = Some r" for r
    using that assms c by (auto simp: open_log_def bind_eq_Some_conv)
  moreover have "Option.bind x (\<lambda>r. None) = None" for x :: "(nat \<times> byte list option \<times> 'a world) option"
    by (cases x) simp_all
  ultimately show ?thesis
    by (subst dbg_printf.simps, cases "open_log save None w") auto
qed

end
