(* ===== verification/Agps_Download.thy ===== *)
theory Agps_Download
  imports Robot_Server
begin

text \<open>
  The download of satellite data, \<open>anolclient_china.c\<close>: \<open>getAssistNowOnlineData\<close>, which asks the
  server of the vendor and reads its reply in pieces, and the thread \<open>ubloxDownloadApgs\<close>, which
  stores the reply behind a time header, leaves a command for the device in Redis and starts the
  multicast of the file.
\<close>

section \<open>Searches of the C library\<close>

fun find_sub :: "byte list \<Rightarrow> byte list \<Rightarrow> nat option" where
  "find_sub needle [] = (if needle = [] then Some 0 else None)"
| "find_sub needle (c # cs) = (if take (length needle) (c # cs) = needle then Some 0
     else map_option Suc (find_sub needle cs))"

text \<open>Both arguments of \<open>strstr\<close> are strings: a buffer without a NUL is undefined.\<close>

definition strstr :: "byte list \<Rightarrow> byte list \<Rightarrow> nat option option" where
  "strstr b needle = do { s \<leftarrow> cstr b 0; Some (find_sub needle s) }"

text \<open>
  \<open>sscanf(s, "Content-Length: %u", &contentLength)\<close> for a string that begins with the fourteen
  letters: the result and the value, which stays 0 without a conversion. The directive \<open>%u\<close> takes a
  sign; a number above the 32 bits of \<open>U4\<close> is undefined.
\<close>

definition sscanf_content_length :: "byte list \<Rightarrow> (int \<times> 32 word) option" where
  "sscanf_content_length s =
     (if length s < 15 then Some (-1, 0)
      else if take 15 s \<noteq> bytes ''Content-Length:'' then Some (0, 0)
      else (case dropWhile isspace (drop 15 s) of
          [] \<Rightarrow> Some (-1, 0)
        | c # r \<Rightarrow>
            (let digits = (if c = 45 \<or> c = 43 then r else c # r) in
             case digits of
               [] \<Rightarrow> Some (0, 0)
             | x # xs \<Rightarrow>
                 if \<not> isdigit x then Some (0, 0)
                 else (let n = scan_digits 0 digits in
                   if n < 2 ^ 32 then Some (1, if c = 45 then - of_nat n else of_nat n) else None))))"

section \<open>The network\<close>

definition BUFFER_SIZE :: nat where [simp]: "BUFFER_SIZE = 8192"
definition MAXFIELDLEN :: nat where [simp]: "MAXFIELDLEN = 128"
definition ANOL_UDP :: int where [simp]: "ANOL_UDP = 0"
definition ANOL_TCP :: int where [simp]: "ANOL_TCP = 1"

text \<open>
  What the resolver, the socket and the server answer: whether a name resolves, whether the socket
  is created, connected, given its timeout and written, and what the \<open>k\<close>-th \<open>read\<close> delivers.
  \<open>print_4f\<close> is what \<open>"%.4f"\<close> prints for \<open>atof\<close> of a text.
\<close>

datatype read_result = Got "byte list" | Nothing_read | Read_failed

record agps_net =
  net_lookup :: "byte list \<Rightarrow> bool"
  net_socket :: "int \<Rightarrow> bool"
  net_connect :: "byte list \<Rightarrow> int \<Rightarrow> bool"
  net_timeout :: bool
  net_write :: "byte list \<Rightarrow> bool"
  net_read :: "nat \<Rightarrow> nat \<Rightarrow> read_result"
  print_4f :: "byte list \<Rightarrow> byte list"

definition read_socket :: "agps_net \<Rightarrow> nat \<Rightarrow> nat \<Rightarrow> int \<times> byte list" where
  "read_socket net k capacity = (case net_read net k capacity of
     Got xs \<Rightarrow> (int (length (take capacity xs)), take capacity xs)
   | Nothing_read \<Rightarrow> (0, [])
   | Read_failed \<Rightarrow> (-1, []))"

record REQ_t =
  req_username :: "byte list"
  req_password :: "byte list"
  req_lat :: "byte list"
  req_lon :: "byte list"
  req_accuracy :: int

section \<open>getAssistNowOnlineData\<close>

text \<open>The host is copied to a buffer of 256 bytes; without a colon the port is 46434.\<close>

definition host_port :: "byte list \<Rightarrow> (byte list \<times> int) option" where
  "host_port connectTo =
     (if 58 \<in> set connectTo then do {
        peerName \<leftarrow> sprintf_at (replicate 256 0) 0 (takeWhile (\<lambda>c. c \<noteq> 58) connectTo);
        peer \<leftarrow> cstr peerName 0;
        port \<leftarrow> atoi (drop 1 (dropWhile (\<lambda>c. c \<noteq> 58) connectTo));
        Some (peer, port) }
      else do {
        peerName \<leftarrow> sprintf_at (replicate 256 0) 0 connectTo;
        peer \<leftarrow> cstr peerName 0;
        Some (peer, 46434) })"

definition request_text :: "agps_net \<Rightarrow> byte list \<Rightarrow> REQ_t \<Rightarrow> byte list" where
  "request_text net cmd req = bytes ''user='' @ req_username req @ bytes '';pwd='' @ req_password req
     @ bytes '';cmd='' @ cmd @ bytes '';lat='' @ print_4f net (req_lat req)
     @ bytes '';lon='' @ print_4f net (req_lon req) @ bytes '';pacc='' @ dec (req_accuracy req)"

text \<open>The local variables of the reply loop.\<close>

record reply_state =
  rp_reply :: "byte list"
  rp_total :: nat
  rp_expected :: int
  rp_payload :: int
  rp_pPayload :: "nat option"

definition header_end :: "byte list" where
  "header_end = [13, 10, 13, 10]"

definition parse_header :: "reply_state \<Rightarrow> reply_state option" where
  "parse_header st = do {
     headerEnd \<leftarrow> strstr (rp_reply st) header_end;
     (case headerEnd of
       None \<Rightarrow> Some st
     | Some h \<Rightarrow> do {
         pContentLength \<leftarrow> strstr (rp_reply st) (bytes ''Content-Length'');
         i \<leftarrow> pContentLength;
         s \<leftarrow> cstr (rp_reply st) i;
         (r, contentLength) \<leftarrow> sscanf_content_length s;
         if r \<noteq> 0 \<and> contentLength > 0 then do {
           reply' \<leftarrow> poke (rp_reply st) h 0;
           Some (st\<lparr>rp_expected := sint (of_nat h + contentLength + 4 :: 32 word),
             rp_payload := sint contentLength, rp_reply := reply', rp_pPayload := Some (h + 4)\<rparr>) }
         else Some st }) }"

text \<open>One turn: the value the function returns at once, or the next state.\<close>

definition reply_turn :: "agps_net \<Rightarrow> nat \<Rightarrow> reply_state \<Rightarrow> (int + reply_state) option" where
  "reply_turn net k st =
     (case read_socket net k (BUFFER_SIZE - rp_total st) of (readLength, xs) \<Rightarrow>
        if readLength \<le> 0 then Some (Inl (if readLength = 0 then 0 else -1))
        else do {
          reply' \<leftarrow> blit (rp_reply st) (rp_total st) xs;
          st' \<leftarrow> parse_header (st\<lparr>rp_reply := reply', rp_total := rp_total st + length xs\<rparr>);
          Some (Inr st') })"

definition wants_more :: "reply_state \<Rightarrow> bool" where
  "wants_more st \<longleftrightarrow> int (rp_total st) < rp_expected st \<and> rp_total st < BUFFER_SIZE"

lemma parse_header_total: "parse_header st = Some st' \<Longrightarrow> rp_total st' = rp_total st"
  by (auto simp: parse_header_def run_simps split: option.splits if_splits)

lemma reply_turn_total:
  assumes "reply_turn net k st = Some (Inr st')"
  shows "rp_total st < rp_total st'" and "rp_total st \<le> BUFFER_SIZE \<Longrightarrow> rp_total st' \<le> BUFFER_SIZE"
  using assms
  by (auto simp: reply_turn_def read_socket_def run_simps dest!: parse_header_total
      split: read_result.splits if_splits)

function reply_loop :: "agps_net \<Rightarrow> nat \<Rightarrow> reply_state \<Rightarrow> (int + reply_state) option" where
  "reply_loop net k st =
     (if wants_more st then
        (case reply_turn net k st of
          None \<Rightarrow> None
        | Some (Inl r) \<Rightarrow> Some (Inl r)
        | Some (Inr st') \<Rightarrow> reply_loop net (Suc k) st')
      else Some (Inr st))"
  by pat_completeness auto
termination
  by (relation "measure (\<lambda>(net, k, st). BUFFER_SIZE - rp_total st)")
    (auto simp: wants_more_def dest: reply_turn_total(1))

declare reply_loop.simps [simp del]

text \<open>The checks behind the loop; \<open>buffer\<close> and \<open>off\<close> are the object and the offset of the argument.\<close>

definition check_reply :: "reply_state \<Rightarrow> byte list \<Rightarrow> nat \<Rightarrow> int \<Rightarrow> (int \<times> byte list) option" where
  "check_reply st buffer off bufferLength = (case rp_pPayload st of
     None \<Rightarrow> Some (-5, buffer)
   | Some pPayload \<Rightarrow>
       if rp_expected st = int (rp_total st) \<and> rp_payload st \<noteq> 0 then do {
         ubx \<leftarrow> strstr (rp_reply st) (bytes ''Content-Type: application/ubx'');
         if ubx \<noteq> None then
           if rp_payload st > bufferLength then Some (-2, buffer)
           else do {
             n \<leftarrow> to_index (rp_payload st);
             xs \<leftarrow> fetch (rp_reply st) pPayload n;
             buffer' \<leftarrow> blit buffer off xs;
             Some (rp_payload st, buffer') }
         else do {
           plain_text \<leftarrow> strstr (rp_reply st) (bytes ''Content-Type: text/plain'');
           if plain_text \<noteq> None then do { msg \<leftarrow> cstr (rp_reply st) pPayload; Some (-3, buffer) }
           else Some (-4, buffer) } }
       else Some (-5, buffer))"

definition reply_start :: "byte list \<Rightarrow> reply_state" where
  "reply_start reply0 = \<lparr>rp_reply = reply0, rp_total = 0, rp_expected = 10000000, rp_payload = 0,
     rp_pPayload = None\<rparr>"

text \<open>
  \<open>reply0\<close> is the content of the uninitialised array \<open>reply\<close>. The result is the value returned,
  the buffer, and whether the socket was left open.
\<close>

definition getAssistNowOnlineData ::
    "agps_net \<Rightarrow> byte list \<Rightarrow> byte list \<Rightarrow> int \<Rightarrow> byte list \<Rightarrow> REQ_t \<Rightarrow> byte list \<Rightarrow> nat \<Rightarrow> int
      \<Rightarrow> (int \<times> byte list \<times> bool) option" where
  "getAssistNowOnlineData net reply0 connectTo proto cmd userInfo buffer off bufferLength = do {
     (peerName, peerPort) \<leftarrow> host_port connectTo;
     if \<not> net_lookup net peerName then Some (0, buffer, False)
     else if proto \<noteq> ANOL_UDP \<and> proto \<noteq> ANOL_TCP then Some (0, buffer, False)
     else if \<not> net_socket net proto then Some (0, buffer, False)
     else if \<not> net_connect net peerName (peerPort mod 65536) then Some (0, buffer, True)
     else if \<not> net_timeout net then Some (0, buffer, True)
     else do {
       rb \<leftarrow> sprintf_at (replicate 256 0) 0 (request_text net cmd userInfo);
       request \<leftarrow> cstr rb 0;
       if \<not> net_write net request then Some (0, buffer, True)
       else do {
         r \<leftarrow> reply_loop net 0 (reply_start reply0);
         (case r of
           Inl v \<Rightarrow> Some (v, buffer, True)
         | Inr st \<Rightarrow> do { (v, buffer') \<leftarrow> check_reply st buffer off bufferLength; Some (v, buffer', False) }) } } }"

section \<open>ubloxDownloadApgs\<close>

text \<open>
  The thread: its argument is the device id and the two coordinate texts, \<open>buffer0\<close> the content of
  its uninitialised buffer. The file is opened without truncation and written from its start. The
  result tells whether the argument was freed. The permission change by a shell is not modelled
  beyond its command line.
\<close>

definition ubloxDownloadApgs ::
    "'w externals \<Rightarrow> agps_net \<Rightarrow> byte list \<Rightarrow> byte list \<Rightarrow> byte list \<Rightarrow> byte list \<Rightarrow> byte list \<Rightarrow> 'w world
      \<Rightarrow> ('w world \<times> bool) option" where
  "ubloxDownloadApgs E net reply0 buffer0 u8DeviceId u8Longitude u8Latitude w = do {
     let req = \<lparr>req_username = bytes ''wangbojing1989@foxmail.com'', req_password = bytes ''Iusrpo'',
       req_lat = drop 1 u8Latitude, req_lon = drop 1 u8Longitude, req_accuracy = 1500000\<rparr>;
     fb \<leftarrow> sprintf_at (replicate MAXFIELDLEN 0) 0 (agps_path (save_type E) u8DeviceId);
     fileName \<leftarrow> cstr fb 0;
     if \<not> creatable w fileName then Some (w, False)
     else do {
       let old = (case files w fileName of Some c \<Rightarrow> c | None \<Rightarrow> []);
       (len, buffer, open) \<leftarrow> getAssistNowOnlineData net reply0 (bytes ''agps.u-blox.com:46434'') ANOL_TCP
         (bytes ''aid'') req buffer0 8 (int BUFFER_SIZE);
       content \<leftarrow> (if len > 0 then do {
           b \<leftarrow> writeTimeHeader (localtime_now w) buffer 0;
           xs \<leftarrow> fetch b 0 (nat len + 8);
           Some (xs @ drop (length xs) old) }
         else Some old);
       let w1 = w\<lparr>files := (files w)(fileName \<mapsto> content)\<rparr>;
       cmdShell \<leftarrow> sprintf_at (replicate MAXFIELDLEN 0) 0 (bytes ''chmod 777 '' @ fileName);
       cb \<leftarrow> sprintf_at (replicate 12 0) 0 (dec (uint CMD_PHONE_DEVICE_AGPS_DOWNLOAD));
       u8Cmd \<leftarrow> cstr cb 0;
       (r, w2) \<leftarrow> set_key_toredis E u8DeviceId u8Cmd w1;
       if r = -1 then Some (w2, False)
       else do {
         d \<leftarrow> sprintf_at (replicate (LEN_DEVICE_ID * 2 + 2) 0) 0 u8DeviceId;
         Some (StartApolloSynerAction \<lparr>syn_DeviceId = d, syn_flag = MULTICAST_TYPE_AGPS\<rparr> w2, True) } } }"

section \<open>How often the server can be read\<close>

text \<open>
  Every turn stores at least one byte, so a chain of turns is at most as long as the buffer, however
  the server cuts its reply; the result depends on so many reads only.
\<close>

lemma turns_bounded:
  assumes "\<forall>i < n. wants_more (f i) \<and> reply_turn net i (f i) = Some (Inr (f (Suc i)))"
  shows "rp_total (f 0) + n \<le> rp_total (f n)" and "rp_total (f 0) \<le> BUFFER_SIZE \<Longrightarrow> rp_total (f n) \<le> BUFFER_SIZE"
  using assms
proof (induction n)
  case 0
  { case 1 show ?case by simp }
  { case 2 then show ?case by simp }
next
  case (Suc n)
  { case 1
    then have "rp_total (f n) < rp_total (f (Suc n))" using reply_turn_total(1) by blast
    moreover have "rp_total (f 0) + n \<le> rp_total (f n)" using 1 Suc.IH(1) by simp
    ultimately show ?case by simp }
  { case 2
    then have "reply_turn net n (f n) = Some (Inr (f (Suc n)))" by simp
    then show ?case using 2 Suc.IH(2) reply_turn_total(2) by auto }
qed

lemma reply_loop_agree:
  assumes "\<forall>i < BUFFER_SIZE. net_read net i = net_read net' i" and "k \<le> rp_total st"
  shows "reply_loop net k st = reply_loop net' k st"
  using assms
proof (induction net k st rule: reply_loop.induct)
  case (1 net k st)
  show ?case
  proof (cases "wants_more st")
    case False
    then show ?thesis by (simp add: reply_loop.simps)
  next
    case True
    then have "k < BUFFER_SIZE" using "1.prems"(2) by (simp add: wants_more_def)
    then have turn: "reply_turn net' k st = reply_turn net k st"
      using "1.prems"(1) by (simp add: reply_turn_def read_socket_def)
    show ?thesis
    proof (cases "reply_turn net k st")
      case None
      then show ?thesis using True turn by (simp add: reply_loop.simps)
    next
      case (Some r)
      show ?thesis
      proof (cases r)
        case (Inl v)
        then show ?thesis using True turn Some by (simp add: reply_loop.simps)
      next
        case (Inr st')
        then have "Suc k \<le> rp_total st'" using reply_turn_total(1) Some "1.prems"(2) by fastforce
        then have "reply_loop net (Suc k) st' = reply_loop net' (Suc k) st'"
          using "1.IH" [OF True] "1.prems"(1) Some Inr by simp
        then show ?thesis using True turn Some Inr by (simp add: reply_loop.simps)
      qed
    qed
  qed
qed

section \<open>Facts on the searches\<close>

lemma find_sub_length: "find_sub n s = Some i \<Longrightarrow> i + length n \<le> length s"
proof (induction s arbitrary: i)
  case Nil
  then show ?case by (auto split: if_splits)
next
  case (Cons c cs)
  show ?case
  proof (cases "take (length n) (c # cs) = n")
    case True
    then have "length n \<le> length (c # cs)" by (metis length_take min.cobounded1)
    then show ?thesis using Cons.prems True by simp
  next
    case False
    then show ?thesis using Cons by auto
  qed
qed

lemma find_sub_append: "find_sub n a = Some i \<Longrightarrow> find_sub n (a @ b) = Some i"
proof (induction a arbitrary: i)
  case Nil
  then show ?case by (cases b) (auto split: if_splits)
next
  case (Cons c cs)
  show ?case
  proof (cases "take (length n) (c # cs) = n")
    case True
    then have "length n \<le> length (c # cs)" by (metis length_take min.cobounded1 min_def nat_le_linear)
    then have "take (length n) ((c # cs) @ b) = n" using True by (simp only: take_append) simp
    then show ?thesis using Cons.prems True by simp
  next
    case False
    then obtain j where j: "find_sub n cs = Some j" "i = Suc j" using Cons.prems by auto
    have "length n \<le> length cs" using find_sub_length [OF j(1)] by simp
    then have "take (length n) (c # cs @ b) = take (length n) (c # cs)" by (simp add: take_Cons')
    then have "take (length n) (c # cs @ b) \<noteq> n" using False by simp
    then show ?thesis using Cons.IH [OF j(1)] j(2) by simp
  qed
qed

lemma find_sub_take:
  assumes "find_sub n s = Some i" and "k < i + length n"
  shows "find_sub n (take k s) = None"
proof (rule ccontr)
  assume "find_sub n (take k s) \<noteq> None"
  then obtain j where j: "find_sub n (take k s) = Some j" by auto
  then have "find_sub n (take k s @ drop k s) = Some j" by (rule find_sub_append)
  then have "j = i" using assms(1) by simp
  then show False using find_sub_length [OF j] assms(2) by simp
qed

section \<open>A well-formed reply, in any pieces\<close>

text \<open>
  A header with its length line, the separator and a payload of that length. \<open>reply_view t\<close> is the
  state of the loop when \<open>t\<close> bytes have come, into an array of zeros.
\<close>

definition length_line :: "nat \<Rightarrow> byte list" where
  "length_line n = bytes ''Content-Length: '' @ dec (int n)"

definition good_reply :: "byte list \<Rightarrow> byte list \<Rightarrow> bool" where
  "good_reply H P \<longleftrightarrow> 0 \<notin> set H \<and> find_sub header_end (H @ header_end) = Some (length H) \<and> P \<noteq> []
     \<and> length H + 4 + length P < BUFFER_SIZE
     \<and> (\<exists>a. find_sub (bytes ''Content-Length'') H = Some a
          \<and> (\<exists>B. drop a H = length_line (length P) @ B \<and> digit_end B))"

definition reply_view :: "byte list \<Rightarrow> byte list \<Rightarrow> nat \<Rightarrow> reply_state" where
  "reply_view H P t = (let R = H @ header_end @ P in
     if t < length H + 4
     then \<lparr>rp_reply = take t R @ replicate (BUFFER_SIZE - t) 0, rp_total = t, rp_expected = 10000000,
       rp_payload = 0, rp_pPayload = None\<rparr>
     else \<lparr>rp_reply = (take t R @ replicate (BUFFER_SIZE - t) 0)[length H := 0], rp_total = t,
       rp_expected = int (length R), rp_payload = int (length P), rp_pPayload = Some (length H + 4)\<rparr>)"

lemma header_end_facts [simp]: "length header_end = 4" "0 \<notin> set header_end" "header_end \<noteq> []"
  by (simp_all add: header_end_def)

lemma cstr_zero_tail:
  assumes "0 < m"
  shows "cstr (s @ replicate m 0) 0 = Some (takeWhile (\<lambda>x. x \<noteq> 0) s)"
proof -
  have "takeWhile (\<lambda>x. x \<noteq> (0::byte)) (replicate m 0) = []" using assms by (cases m) auto
  then have "takeWhile (\<lambda>x. x \<noteq> 0) (s @ replicate m 0) = takeWhile (\<lambda>x. x \<noteq> 0) s"
    by (cases "0 \<in> set s") (auto simp: takeWhile_append1 takeWhile_append2 takeWhile_eq_all_conv [THEN iffD2] takeWhile_append)
  then show ?thesis using assms by (simp add: cstr_def)
qed

lemma takeWhile_head: "0 \<notin> set a \<Longrightarrow> takeWhile (\<lambda>x. x \<noteq> 0) (a @ b) = a @ takeWhile (\<lambda>x. x \<noteq> (0::byte)) b"
  by (induction a) auto

lemma blit_zero_tail:
  assumes "length a = t" and "t + length x \<le> N"
  shows "blit (a @ replicate (N - t) 0) t x = Some (a @ x @ replicate (N - (t + length x)) 0)"
  using assms by (simp add: blit_def)

lemma sscanf_length_line:
  assumes "n < 2 ^ 32" and "digit_end r"
  shows "sscanf_content_length (length_line n @ r) = Some (1, of_nat n)"
proof -
  have l: "length (bytes ''Content-Length: '') = 16" by simp
  obtain c d where c: "dec_nat n = c # d" "isdigit c" using dec_nat_hd by blast
  have sp: "\<not> isspace c" "c \<noteq> 45" "c \<noteq> 43" using isdigit_no_space [OF c(2)] by auto
  have line: "length_line n = bytes ''Content-Length:'' @ 32 # dec_nat n"
    by (simp add: length_line_def dec_def bytes_def)
  have "isspace 32" by (simp add: isspace_def)
  moreover have "scan_digits 0 (dec_nat n @ r) = n" using scan_dec_nat scan_digit_end [OF assms(2)] by simp
  ultimately show ?thesis
    using assms(1) c sp by (simp add: sscanf_content_length_def line)
qed

lemma sint_small: "n < 2 ^ 31 \<Longrightarrow> sint (of_nat n :: 32 word) = int n"
  by (simp add: sint_uint unsigned_of_nat take_bit_nat_eq_self signed_take_bit_int_eq_self flip: of_nat_take_bit)

lemma of_nat_positive: "0 < n \<Longrightarrow> n < 2 ^ 31 \<Longrightarrow> 0 < (of_nat n :: 32 word)"
  by (simp add: word_less_nat_alt unsigned_of_nat take_bit_nat_eq_self)

lemma parse_header_absent:
  assumes "cstr (rp_reply st) 0 = Some s" and "find_sub header_end s = None"
  shows "parse_header st = Some st"
  using assms by (simp add: parse_header_def strstr_def)

lemma parse_header_found:
  assumes "cstr (rp_reply st) 0 = Some s" and "find_sub header_end s = Some h"
    and "find_sub (bytes ''Content-Length'') s = Some a" and "cstr (rp_reply st) a = Some u"
    and "sscanf_content_length u = Some (1, of_nat n)" and "0 < n" and "h + n + 4 < 2 ^ 31" and "h < length (rp_reply st)"
  shows "parse_header st = Some (st\<lparr>rp_expected := int (h + n + 4), rp_payload := int n,
    rp_reply := (rp_reply st)[h := 0], rp_pPayload := Some (h + 4)\<rparr>)"
proof -
  have "(of_nat h + of_nat n + 4 :: 32 word) = of_nat (h + n + 4)" by simp
  then have "sint (of_nat h + of_nat n + 4 :: 32 word) = int (h + n + 4)"
    using sint_small [OF assms(7)] by simp
  moreover have "sint (of_nat n :: 32 word) = int n" using assms(7) by (intro sint_small) simp
  moreover have "0 < (of_nat n :: 32 word)" using assms(6,7) by (intro of_nat_positive) simp_all
  ultimately show ?thesis using assms(1-5,8) by (simp add: parse_header_def strstr_def)
qed

lemma good_reply_header:
  assumes "good_reply H P"
  shows "find_sub header_end H = None" and "k < length H + 4 \<Longrightarrow> find_sub header_end (take k (H @ header_end @ P)) = None"
    and "find_sub header_end (H @ header_end @ x) = Some (length H)"
proof -
  have f: "find_sub header_end (H @ header_end) = Some (length H)" using assms by (simp add: good_reply_def)
  show "find_sub header_end H = None" using find_sub_take [OF f, of "length H"] by simp
  show a: "find_sub header_end (H @ header_end @ x) = Some (length H)" for x
    using find_sub_append [OF f, of x] by simp
  show "find_sub header_end (take k (H @ header_end @ P)) = None" if "k < length H + 4"
    using find_sub_take [OF a, of k] that by simp
qed

text \<open>The three outcomes of a search: too early, complete, and after the separator was overwritten.\<close>

lemma parse_header_early:
  assumes g: "good_reply H P" and r: "rp_reply st = take u (H @ header_end @ P) @ replicate m 0"
    and "0 < m" and "u < length H + 4"
  shows "parse_header st = Some st"
proof -
  have "take u (H @ header_end @ P) = take u (H @ header_end)" using assms(4) by simp
  then have "0 \<notin> set (take u (H @ header_end @ P))"
    using g by (metis Un_iff good_reply_def header_end_facts(2) in_set_takeD set_append)
  then have "cstr (rp_reply st) 0 = Some (take u (H @ header_end @ P))"
    using cstr_zero_tail [OF assms(3), of "take u (H @ header_end @ P)"] takeWhile_head [of "take u (H @ header_end @ P)" "[]"]
    unfolding r by simp
  then show ?thesis using good_reply_header(2) [OF g assms(4)] by (rule parse_header_absent)
qed

lemma parse_header_complete:
  assumes g: "good_reply H P" and r: "rp_reply st = (H @ header_end @ y) @ replicate m 0" and m: "0 < m"
  shows "parse_header st = Some (st\<lparr>rp_expected := int (length H + length P + 4), rp_payload := int (length P),
    rp_reply := (rp_reply st)[length H := 0], rp_pPayload := Some (length H + 4)\<rparr>)"
proof -
  have small: "0 \<notin> set H" "P \<noteq> []" "length H + 4 + length P < 8192" using g by (auto simp: good_reply_def)
  obtain a B where a: "find_sub (bytes ''Content-Length'') H = Some a" "drop a H = length_line (length P) @ B" "digit_end B"
    using g by (auto simp: good_reply_def)
  define y' where "y' = takeWhile (\<lambda>x. x \<noteq> 0) y"
  have whole: "cstr (rp_reply st) 0 = Some (H @ header_end @ y')"
    unfolding r cstr_zero_tail [OF m] using small(1) by (simp add: takeWhile_head y'_def)
  have al: "a \<le> length H" using find_sub_length [OF a(1)] by simp
  have "0 \<notin> set (length_line (length P) @ B)" using a(2) small(1) by (metis in_set_dropD)
  then have "cstr ((length_line (length P) @ B @ header_end @ y) @ replicate m 0) 0 = Some (length_line (length P) @ B @ header_end @ y')"
    unfolding cstr_zero_tail [OF m] by (simp add: takeWhile_head y'_def)
  moreover have "drop a (rp_reply st) = (length_line (length P) @ B @ header_end @ y) @ replicate m 0"
    using al a(2) by (simp add: r)
  moreover have "cstr (rp_reply st) a = cstr (drop a (rp_reply st)) 0" by (simp add: cstr_def)
  ultimately have line: "cstr (rp_reply st) a = Some (length_line (length P) @ B @ header_end @ y')"
    by (simp only:)
  have "digit_end (B @ header_end @ y')"
    using a(3) by (cases B) (simp_all add: digit_end_def header_end_def isdigit_def)
  then have "sscanf_content_length (length_line (length P) @ B @ header_end @ y') = Some (1, of_nat (length P))"
    using small(3) by (intro sscanf_length_line) simp_all
  then show ?thesis
    using parse_header_found [OF whole good_reply_header(3) [OF g] find_sub_append [OF a(1)] line, of "length P"] small r
    by (simp add: add.assoc add.commute add.left_commute)
qed

lemma parse_header_again:
  assumes "good_reply H P" and "rp_reply st = H @ 0 # r"
  shows "parse_header st = Some st"
proof -
  have "cstr (rp_reply st) 0 = Some H" using assms cstr_prefix [of H r] by (simp add: good_reply_def)
  then show ?thesis using good_reply_header(1) [OF assms(1)] by (rule parse_header_absent)
qed

lemma view_turn:
  assumes g: "good_reply H P" and le: "t + length x \<le> length (H @ header_end @ P)"
    and x: "take (length x) (drop t (H @ header_end @ P)) = x"
  shows "\<exists>r'. blit (rp_reply (reply_view H P t)) t x = Some r'
    \<and> parse_header ((reply_view H P t)\<lparr>rp_reply := r', rp_total := t + length x\<rparr>) = Some (reply_view H P (t + length x))"
proof -
  define R where "R = H @ header_end @ P"
  define u where "u = t + length x"
  define Z :: "byte list" where "Z = replicate (BUFFER_SIZE - u) 0"
  have R: "length R < BUFFER_SIZE" "length R = length H + length P + 4" using g by (auto simp: good_reply_def R_def)
  have u: "u \<le> length R" "t \<le> length R" "0 < BUFFER_SIZE - u" using le R(1) by (simp_all add: u_def R_def)
  have cat: "take t R @ x = take u R" using x [folded R_def] by (simp add: u_def take_add)
  note view = reply_view_def [of H P, folded R_def, unfolded Let_def]
  have blit: "blit (b @ replicate (BUFFER_SIZE - t) 0) t x = Some (b @ x @ Z)" if "length b = t" for b
    using blit_zero_tail [OF that, of x BUFFER_SIZE] u(3) by (simp add: u_def Z_def)
  consider "u < length H + 4" | "t < length H + 4" "length H + 4 \<le> u" | "length H + 4 \<le> t" by linarith
  then show ?thesis
  proof cases
    case 1
    then have "t < length H + 4" by (simp add: u_def)
    moreover have "parse_header st = Some st" if "rp_reply st = take u R @ Z" for st
      using parse_header_early [OF g _ u(3) 1] that by (simp only: R_def Z_def)
    ultimately show ?thesis
      using 1 blit [of "take t R"] u(2) cat by (simp add: view Z_def flip: u_def append_assoc)
  next
    case 2
    then obtain y where y: "take u R = H @ header_end @ y" by (auto simp: R_def)
    then show ?thesis
      using 2 blit [of "take t R"] u(2,3) cat parse_header_complete [OF g, of _ y "BUFFER_SIZE - u"] R(2)
      by (simp add: view flip: u_def append_assoc) (simp add: Z_def)
  next
    case 3
    then have hu: "length H + 4 \<le> u" by (simp add: u_def)
    obtain y where y: "take t R = H @ header_end @ y" using 3 by (auto simp: R_def)
    have at: "(take s R @ z)[length H := 0] = (take s R)[length H := 0] @ z" if "length H + 4 \<le> s" "s \<le> length R" for s z
      using that by (simp add: list_update_append)
    have new: "(take t R)[length H := 0] @ x @ Z = (take u R @ Z)[length H := 0]"
      using 3 u(2) by (simp add: at flip: cat)
    also have "\<dots> = H @ 0 # drop 1 header_end @ y @ x @ Z"
      using y by (simp add: header_end_def flip: cat)
    finally have "parse_header st = Some st" if "rp_reply st = (take u R @ Z)[length H := 0]" for st
      using that new parse_header_again [OF g] by simp
    then show ?thesis
      using 3 hu blit [of "(take t R)[length H := 0]"] u(2) new by (simp add: view at Z_def flip: u_def)
  qed
qed

text \<open>The loop on such a reply in pieces \<open>ps\<close>.\<close>

lemma reply_loop_good:
  assumes g: "good_reply H P" and "t \<le> length (H @ header_end @ P)"
    and "concat ps = drop t (H @ header_end @ P)" and "[] \<notin> set ps"
    and "\<forall>i < length ps. \<forall>c. net_read net (k + i) c = Got (ps ! i)"
  shows "reply_loop net k (reply_view H P t) = Some (Inr (reply_view H P (length (H @ header_end @ P))))"
  using assms(2-)
proof (induction ps arbitrary: t k)
  case Nil
  have "drop t (H @ header_end @ P) = []" using Nil.prems(2) by simp
  then have "length (H @ header_end @ P) \<le> t" by (simp only: drop_eq_Nil)
  then have t: "t = length (H @ header_end @ P)" using Nil.prems(1) by simp
  then have "\<not> wants_more (reply_view H P t)" by (simp add: reply_view_def wants_more_def)
  then show ?case by (simp add: reply_loop.simps t)
next
  case (Cons x ps)
  define R where "R = H @ header_end @ P"
  have R: "length R < BUFFER_SIZE" "length H + 4 \<le> length R" using g by (auto simp: good_reply_def R_def)
  have x: "x @ concat ps = drop t R" using Cons.prems(2) by (simp add: R_def)
  have ne: "x \<noteq> []" using Cons.prems(3) by auto
  have le: "t + length x \<le> length R"
    using arg_cong [OF x, of length] Cons.prems(1) by (simp add: R_def)
  have fits: "length x \<le> BUFFER_SIZE - t" using le R(1) by simp
  have tl: "rp_total (reply_view H P s) = s" for s by (simp add: reply_view_def Let_def)
  have "0 < length x" using ne by simp
  then have lt: "t < length R" using le by linarith
  have "int t < rp_expected (reply_view H P t)" using lt R by (simp add: reply_view_def R_def Let_def)
  then have wants: "wants_more (reply_view H P t)" using lt R(1) by (simp add: wants_more_def tl)
  have "take (length x) (drop t R) = x" by (simp flip: x)
  then obtain r' where r': "blit (rp_reply (reply_view H P t)) t x = Some r'"
      "parse_header ((reply_view H P t)\<lparr>rp_reply := r', rp_total := t + length x\<rparr>) = Some (reply_view H P (t + length x))"
    using view_turn [OF g, of t x] le by (auto simp: R_def)
  have "net_read net k c = Got x" for c using Cons.prems(4) by auto
  then have "reply_turn net k (reply_view H P t) = Some (Inr (reply_view H P (t + length x)))"
    using r' ne fits by (simp add: reply_turn_def read_socket_def tl)
  moreover have "concat ps = drop (t + length x) R"
    using arg_cong [OF x, of "drop (length x)"] by (simp add: add.commute)
  then have "reply_loop net (Suc k) (reply_view H P (t + length x)) = Some (Inr (reply_view H P (length R)))"
    using Cons.prems(3,4) le unfolding R_def by (intro Cons.IH) force+
  ultimately show ?case using wants by (simp add: reply_loop.simps [of net k] R_def)
qed

text \<open>The reply is accepted, and its payload is copied.\<close>

lemma check_reply_good:
  assumes g: "good_reply H P" and "find_sub (bytes ''Content-Type: application/ubx'') H \<noteq> None"
    and "int (length P) \<le> bufferLength" and "off + length P \<le> length buffer"
  shows "check_reply (reply_view H P (length (H @ header_end @ P))) buffer off bufferLength =
    Some (int (length P), take off buffer @ P @ drop (off + length P) buffer)"
proof -
  let ?n = "length (H @ header_end @ P)"
  define Z :: "byte list" where "Z = replicate (BUFFER_SIZE - ?n) 0"
  have small: "0 \<notin> set H" "P \<noteq> []" using g by (auto simp: good_reply_def)
  have view: "reply_view H P ?n = \<lparr>rp_reply = H @ 0 # drop 1 header_end @ P @ Z, rp_total = ?n, rp_expected = int ?n,
      rp_payload = int (length P), rp_pPayload = Some (length H + 4)\<rparr>"
    by (simp add: reply_view_def Z_def) (simp add: header_end_def)
  have "cstr (H @ 0 # drop 1 header_end @ P @ Z) 0 = Some H" by (rule cstr_prefix [OF small(1)])
  moreover have "fetch (H @ 0 # drop 1 header_end @ P @ Z) (length H + 4) (length P) = Some P"
    by (simp add: fetch_def header_end_def)
  ultimately show ?thesis
    using assms(2-4) small(2) unfolding view check_reply_def by (auto simp: strstr_def blit_def)
qed

section \<open>Any reply, into a clean array\<close>

text \<open>
  Once a length has been accepted the separator lies in what was received and the NUL written over
  it hides it from every later search.
\<close>

definition split_at :: "reply_state \<Rightarrow> nat \<Rightarrow> 32 word \<Rightarrow> bool" where
  "split_at st h c \<longleftrightarrow> rp_pPayload st = Some (h + 4) \<and> h + 4 \<le> rp_total st \<and> rp_reply st ! h = 0
     \<and> 0 \<notin> set (take h (rp_reply st)) \<and> find_sub header_end (take h (rp_reply st)) = None
     \<and> 0 < c \<and> rp_payload st = sint c \<and> rp_expected st = sint (of_nat h + c + 4)"

definition reply_inv :: "reply_state \<Rightarrow> bool" where
  "reply_inv st \<longleftrightarrow> length (rp_reply st) = BUFFER_SIZE \<and> rp_total st \<le> BUFFER_SIZE
     \<and> (\<forall>i. rp_total st \<le> i \<and> i < BUFFER_SIZE \<longrightarrow> rp_reply st ! i = 0)
     \<and> (rp_pPayload st = None \<or> (\<exists>h c. split_at st h c))"

lemma cstr_at:
  assumes "h < length b" and "b ! h = 0" and "0 \<notin> set (take h b)"
  shows "cstr b 0 = Some (take h b)"
  using cstr_prefix [OF assms(3), of "drop (Suc h) b"] assms(1,2) id_take_nth_drop [of h b] by simp

lemma split_at_string:
  assumes "split_at st h c" and "reply_inv st"
  shows "cstr (rp_reply st) 0 = Some (take h (rp_reply st))"
  using assms by (intro cstr_at) (auto simp: split_at_def reply_inv_def)

lemma cstr_before:
  assumes "cstr b 0 = Some s"
  shows "s = take (length s) b" and "length s < length b" and "n < length b \<Longrightarrow> b ! n = 0 \<Longrightarrow> length s \<le> n"
proof -
  have s: "0 \<in> set b" "s = takeWhile (\<lambda>x. x \<noteq> 0) b" using assms by (auto simp: cstr_def split: if_splits)
  obtain u v where b: "b = u @ 0 # v" "0 \<notin> set u" using split_list_first [OF s(1)] by auto
  then have "s = u" using s(2) takeWhile_nonzero_append by simp
  then show "s = take (length s) b" and "length s < length b" using b(1) by simp_all
  show "length s \<le> n" if "n < length b" "b ! n = 0"
    using that b \<open>s = u\<close> by (metis linorder_not_le nth_append nth_mem)
qed

lemma parse_header_inv:
  assumes i: "reply_inv st" and p: "parse_header st = Some st'"
  shows "reply_inv st'"
proof (cases "rp_pPayload st")
  case (Some q)
  then obtain h c where h: "split_at st h c" using i by (auto simp: reply_inv_def)
  then have "st' = st"
    using p split_at_string [OF h i] by (simp add: parse_header_absent split_at_def)
  then show ?thesis using i by simp
next
  case None
  obtain s where s: "cstr (rp_reply st) 0 = Some s" using p by (auto simp: parse_header_def strstr_def run_simps)
  show ?thesis
  proof (cases "find_sub header_end s")
    case None
    then have "st' = st" using p s by (simp add: parse_header_absent)
    then show ?thesis using i by simp
  next
    case (Some h)
    let ?new = "\<lambda>c :: 32 word. st\<lparr>rp_expected := sint (of_nat h + c + 4), rp_payload := sint c,
        rp_reply := (rp_reply st)[h := 0], rp_pPayload := Some (h + 4)\<rparr>"
    obtain a :: int and c :: "32 word" where "(if a \<noteq> 0 \<and> 0 < c then do { r \<leftarrow> poke (rp_reply st) h 0;
          Some (st\<lparr>rp_expected := sint (of_nat h + c + 4), rp_payload := sint c, rp_reply := r, rp_pPayload := Some (h + 4)\<rparr>) }
        else Some st) = Some st'"
      using p s Some by (auto simp: parse_header_def strstr_def bind_eq_Some_conv case_prod_Some_conv)
    then have "st' = st \<or> 0 < c \<and> st' = ?new c" by (auto simp: poke_def split: if_splits)
    then show ?thesis
    proof (elim disjE conjE)
      assume c: "0 < c" and st': "st' = st\<lparr>rp_expected := sint (of_nat h + c + 4),
        rp_payload := sint c, rp_reply := (rp_reply st)[h := 0], rp_pPayload := Some (h + 4)\<rparr>"
      have hl: "h + 4 \<le> length s" using find_sub_length [OF Some] by simp
      have len: "length (rp_reply st) = BUFFER_SIZE" "rp_total st \<le> BUFFER_SIZE"
        and zero: "\<And>j. rp_total st \<le> j \<Longrightarrow> j < BUFFER_SIZE \<Longrightarrow> rp_reply st ! j = 0"
        using i by (auto simp: reply_inv_def)
      note b = cstr_before [OF s]
      have "length s \<le> rp_total st" using b(2,3) zero len by (cases "rp_total st < BUFFER_SIZE") auto
      moreover have hs: "take h (rp_reply st) = take h s" using b(1) hl by (metis add_leD1 min.absorb1 take_take)
      moreover have "0 \<notin> set (take h s)" using cstr_no_nul [OF s] by (meson in_set_takeD)
      moreover have "find_sub header_end (take h s) = None" using find_sub_take [OF Some, of h] by simp
      ultimately have "split_at st' h c" using c hl b(2) by (simp add: split_at_def st')
      then show ?thesis using len zero b(2) hl by (auto simp: reply_inv_def st' nth_list_update)
    qed (use i in simp)
  qed
qed

lemma read_socket_length: "read_socket net k n = (l, xs) \<Longrightarrow> length xs \<le> n"
  by (auto simp: read_socket_def split: read_result.splits)

lemma reply_turn_inv:
  assumes i: "reply_inv st" and t: "reply_turn net k st = Some (Inr st')"
  shows "reply_inv st'"
proof -
  obtain l xs where rd: "read_socket net k (BUFFER_SIZE - rp_total st) = (l, xs)" by (cases "read_socket net k (BUFFER_SIZE - rp_total st)")
  then obtain r where xs: "length xs \<le> BUFFER_SIZE - rp_total st" "blit (rp_reply st) (rp_total st) xs = Some r"
      "parse_header (st\<lparr>rp_reply := r, rp_total := rp_total st + length xs\<rparr>) = Some st'"
    using t read_socket_length [OF rd] by (auto simp: reply_turn_def bind_eq_Some_conv split: if_splits)
  have len: "length (rp_reply st) = BUFFER_SIZE" "rp_total st \<le> BUFFER_SIZE" using i by (auto simp: reply_inv_def)
  note n = nth_blit [OF xs(2)]
  have lr: "length r = BUFFER_SIZE" using blit_length [OF xs(2)] len by simp
  have keep: "take h r = take h (rp_reply st)" if "h \<le> rp_total st" for h
    using that n len lr by (auto simp: list_eq_iff_nth_eq)
  let ?new = "st\<lparr>rp_reply := r, rp_total := rp_total st + length xs\<rparr>"
  have "split_at ?new h c" if "split_at st h c" for h c
    using that keep [of h] n [of h] len by (simp add: split_at_def)
  moreover have "rp_pPayload st = None \<or> (\<exists>h c. split_at st h c)" using i by (simp add: reply_inv_def)
  ultimately have "rp_pPayload ?new = None \<or> (\<exists>h c. split_at ?new h c)" by auto
  moreover have "\<forall>j. rp_total ?new \<le> j \<and> j < BUFFER_SIZE \<longrightarrow> rp_reply ?new ! j = 0"
    using i n len by (simp add: reply_inv_def)
  ultimately have "reply_inv ?new" using lr len xs(1) unfolding reply_inv_def by auto
  then show ?thesis using xs(3) by (rule parse_header_inv)
qed

lemma reply_loop_inv:
  assumes "reply_inv st" and "reply_loop net k st = Some (Inr st')"
  shows "reply_inv st'"
  using assms
proof (induction net k st rule: reply_loop.induct)
  case (1 net k st)
  show ?case
  proof (cases "wants_more st")
    case False
    then show ?thesis using "1.prems" by (simp add: reply_loop.simps)
  next
    case True
    then obtain u where u: "reply_turn net k st = Some (Inr u)" "reply_loop net (Suc k) u = Some (Inr st')"
      using "1.prems"(2) by (subst (asm) reply_loop.simps) (auto split: option.splits sum.splits)
    then show ?thesis using "1.IH" [OF True u(1)] reply_turn_inv [OF "1.prems"(1)] by blast
  qed
qed

lemma reply_start_inv: "reply_inv (reply_start (replicate BUFFER_SIZE 0))"
  by (simp add: reply_inv_def reply_start_def)

text \<open>What an accepted length means: the payload is the rest of what was received.\<close>

lemma accepted_length:
  assumes "reply_inv st" and "rp_pPayload st = Some p" and "rp_expected st = int (rp_total st)"
  shows "4 \<le> p" and "rp_payload st = int (rp_total st - p)" and "p < rp_total st"
    and "cstr (rp_reply st) 0 = Some (take (p - 4) (rp_reply st))"
proof -
  obtain h c where h: "split_at st h c" using assms(1,2) by (auto simp: reply_inv_def)
  then have p: "p = h + 4" using assms(2) by (simp add: split_at_def)
  have le: "rp_total st \<le> 8192" "h + 4 \<le> rp_total st" using assms(1) h by (simp_all add: reply_inv_def split_at_def)
  have "sint (of_nat h + c + 4) = sint (of_nat (rp_total st) :: 32 word)"
    using h assms(3) le(1) sint_small [of "rp_total st"] by (simp add: split_at_def)
  then have "of_nat h + c + 4 = (of_nat (rp_total st) :: 32 word)" by (rule signed_word_eqI)
  then have "c = of_nat (rp_total st) - of_nat (h + 4)" by (simp add: algebra_simps)
  then have c: "c = of_nat (rp_total st - p)" using le(2) by (simp add: p of_nat_diff)
  moreover have "0 < c" using h by (simp add: split_at_def)
  ultimately show "p < rp_total st" by (cases "rp_total st - p") auto
  have "rp_total st - p < 2 ^ 31" using le(1) by simp
  then show "rp_payload st = int (rp_total st - p)" using h c sint_small [of "rp_total st - p"] by (simp add: split_at_def)
  show "4 \<le> p" by (simp add: p)
  show "cstr (rp_reply st) 0 = Some (take (p - 4) (rp_reply st))"
    using split_at_string [OF h assms(1)] by (simp add: p)
qed

text \<open>
  The checks never copy outside the buffer, although the length they are given ignores the eight
  bytes of the time header: the type line leaves no room for so long a payload. The one undefined
  outcome is an error message that is not terminated.
\<close>

lemma check_reply_bounded:
  assumes i: "reply_inv st" and "length buffer = BUFFER_SIZE"
  shows "(\<exists>r buffer'. check_reply st buffer 8 (int BUFFER_SIZE) = Some (r, buffer') \<and> length buffer' = BUFFER_SIZE
      \<and> take 8 buffer' = take 8 buffer \<and> r + 33 \<le> int BUFFER_SIZE)
    \<or> check_reply st buffer 8 (int BUFFER_SIZE) = None \<and> (\<exists>p. rp_pPayload st = Some p \<and> cstr (rp_reply st) p = None)"
proof (cases "\<exists>p. rp_pPayload st = Some p \<and> rp_expected st = int (rp_total st) \<and> rp_payload st \<noteq> 0")
  case False
  then show ?thesis using assms(2) by (auto simp: check_reply_def split: option.splits)
next
  case True
  then obtain p where p: "rp_pPayload st = Some p" "rp_expected st = int (rp_total st)" "rp_payload st \<noteq> 0" by auto
  note a = accepted_length [OF i p(1,2)]
  let ?s = "take (p - 4) (rp_reply st)"
  have le: "rp_total st \<le> BUFFER_SIZE" "length (rp_reply st) = BUFFER_SIZE" using i by (simp_all add: reply_inv_def)
  show ?thesis
  proof (cases "find_sub (bytes ''Content-Type: application/ubx'') ?s")
    case None
    then show ?thesis
      using p a(4) assms(2) by (cases "cstr (rp_reply st) p") (auto simp: check_reply_def strstr_def)
  next
    case (Some k)
    then have "k + 29 \<le> p - 4" using find_sub_length [OF Some] by simp
    then have "rp_total st - p + 33 \<le> BUFFER_SIZE" using le(1) by simp
    then show ?thesis
      using p a(2-4) Some le assms(2)
      by (auto simp: check_reply_def strstr_def fetch_def blit_def)
  qed
qed

section \<open>The thread\<close>

text \<open>
  Whatever the download returns, the device is told to fetch the file and the multicast of the file
  is started; without data the file is what it was before, or empty.
\<close>

definition agps_request :: "byte list \<Rightarrow> byte list \<Rightarrow> REQ_t" where
  "agps_request u8Longitude u8Latitude = \<lparr>req_username = bytes ''wangbojing1989@foxmail.com'',
     req_password = bytes ''Iusrpo'', req_lat = drop 1 u8Latitude, req_lon = drop 1 u8Longitude,
     req_accuracy = 1500000\<rparr>"

definition agps_answer ::
    "agps_net \<Rightarrow> byte list \<Rightarrow> byte list \<Rightarrow> byte list \<Rightarrow> byte list \<Rightarrow> (int \<times> byte list \<times> bool) option" where
  "agps_answer net reply0 buffer0 lon lat = getAssistNowOnlineData net reply0 (bytes ''agps.u-blox.com:46434'')
     ANOL_TCP (bytes ''aid'') (agps_request lon lat) buffer0 8 (int BUFFER_SIZE)"

definition stored_data :: "tm \<Rightarrow> int \<Rightarrow> byte list \<Rightarrow> byte list option \<Rightarrow> byte list" where
  "stored_data t len buffer old = (let c = (case old of Some c \<Rightarrow> c | None \<Rightarrow> []) in
     if len > 0 then time_bytes t @ take (nat len + 1) (drop 7 buffer) @ drop (nat len + 8) c else c)"

definition agps_announcement :: "byte list \<Rightarrow> thread_start" where
  "agps_announcement dev = Start_ApolloSynerAction \<lparr>syn_DeviceId = dev @ [0, 0], syn_flag = MULTICAST_TYPE_AGPS\<rparr>"

lemma time_header_fetch:
  assumes "length buffer = BUFFER_SIZE" and "0 < len" and "len + 8 \<le> int BUFFER_SIZE"
  shows "do { b \<leftarrow> writeTimeHeader t buffer 0; fetch b 0 (nat len + 8) } =
    Some (time_bytes t @ take (nat len + 1) (drop 7 buffer))"
proof -
  have l: "length (time_bytes t) = 7" by (simp add: time_bytes_def)
  have "writeTimeHeader t buffer 0 = Some (time_bytes t @ drop 7 buffer)"
    using writeTimeHeader_blit [of 0 buffer t] assms(1) l by (simp add: blit_def)
  moreover have "nat len + 8 \<le> 8192" using assms(2,3) by simp
  ultimately show ?thesis using assms(1) l by (simp add: fetch_def)
qed

context redis_server
begin

lemma thread_announces:
  assumes a: "agps_answer net reply0 buffer0 lon lat = Some (len, buffer, left)"
    and b: "0 < len \<Longrightarrow> length buffer = BUFFER_SIZE \<and> len + 8 \<le> int BUFFER_SIZE"
    and dev: "plain dev" "length dev = 16" and cr: "creatable w (agps_path (save_type E) dev)"
  shows "\<exists>w'. ubloxDownloadApgs E net reply0 buffer0 dev lon lat w = Some (w', True)
    \<and> kv (ext w') = (kv (ext w))(dev \<mapsto> single_command CMD_PHONE_DEVICE_AGPS_DOWNLOAD)
    \<and> files w' = (files w)(agps_path (save_type E) dev \<mapsto>
        stored_data (localtime_now w) len buffer (files w (agps_path (save_type E) dev)))
    \<and> started w' = started w @ [agps_announcement dev]"
proof -
  let ?p = "agps_path (save_type E) dev"
  have nul: "0 \<notin> set dev" using dev(1) by (simp add: plain_def)
  have pn: "0 \<notin> set ?p" by (rule agps_path_no_nul [OF nul])
  have pl: "length ?p \<le> 50" using dev(2) by (cases "save_type E") (simp_all add: agps_path_def)
  obtain fb where fb: "sprintf_at (replicate 128 0) 0 ?p = Some fb" "cstr fb 0 = Some ?p"
    using sprintf_ok [OF pn, of 0 "replicate 128 0"] pl by auto
  obtain cs where cs: "sprintf_at (replicate 128 0) 0 (bytes ''chmod 777 '' @ ?p) = Some cs"
    using sprintf_ok [of "bytes ''chmod 777 '' @ ?p" 0 "replicate 128 0"] pn pl by (auto simp: bytes_def)
  have cmd: "dec (uint CMD_PHONE_DEVICE_AGPS_DOWNLOAD) = single_command CMD_PHONE_DEVICE_AGPS_DOWNLOAD"
    by (simp add: single_command_def)
  obtain cb where cb: "sprintf_at (replicate 12 0) 0 (single_command 0x2B) = Some cb" "cstr cb 0 = Some (single_command 0x2B)"
    using sprintf_ok [of "single_command 0x2B" 0 "replicate 12 0"] length_single [of "0x2B"]
    by (auto simp: clean_commands(1) [unfolded clean_def])
  define content where "content = stored_data (localtime_now w) len buffer (files w ?p)"
  define w1 where "w1 = w\<lparr>files := (files w)(?p \<mapsto> content)\<rparr>"
  have "single_command 0x2B \<noteq> []" by (simp add: single_command_def dec_def)
  then have "plain (single_command 0x2B)" by (simp add: plain_clean)
  then obtain w2 where w2: "set_key_toredis E dev (single_command 0x2B) w1 = Some (0, w2)"
      "kv (ext w2) = (kv (ext w1))(dev \<mapsto> single_command 0x2B)" "same_but_ext w1 w2"
    using set_ok [OF dev(1), of "single_command 0x2B" w1] length_single [of "0x2B"] dev(2) by auto
  have d: "sprintf_at (replicate 18 0) 0 dev = Some (dev @ [0, 0])"
    using dev(2) by (simp add: sprintf_at_def blit_def)
  let ?old = "case files w ?p of Some c \<Rightarrow> c | None \<Rightarrow> []"
  have st: "(if len > 0 then do { b \<leftarrow> writeTimeHeader (localtime_now w) buffer 0; xs \<leftarrow> fetch b 0 (nat len + 8);
      Some (xs @ drop (length xs) ?old) } else Some ?old) = Some content"
  proof (cases "len > 0")
    case True
    then have b: "length buffer = BUFFER_SIZE" "len + 8 \<le> int BUFFER_SIZE" using b by simp_all
    then have "nat len + 8 \<le> 8192" using True by simp
    then have "length (time_bytes (localtime_now w) @ take (nat len + 1) (drop 7 buffer)) = nat len + 8"
      using b(1) by (simp add: time_bytes_def)
    then show ?thesis
      using True time_header_fetch [OF b(1) True b(2), of "localtime_now w"]
      by (auto simp: content_def stored_data_def bind_eq_Some_conv)
  qed (simp add: content_def stored_data_def)
  define w3 where "w3 = StartApolloSynerAction \<lparr>syn_DeviceId = dev @ [0, 0], syn_flag = MULTICAST_TYPE_AGPS\<rparr> w2"
  have "ubloxDownloadApgs E net reply0 buffer0 dev lon lat w = Some (w3, True)"
    using a fb cs cb w2(1) d cr st cmd unfolding agps_answer_def agps_request_def
    by (simp add: ubloxDownloadApgs_def Let_def w1_def w3_def)
  then show ?thesis
    using w2(2) same_but_ext_fields [OF w2(3)]
    by (intro exI [of _ w3]) (simp add: w3_def w1_def content_def StartApolloSynerAction_def pthread_create_def agps_announcement_def)
qed

end

section \<open>A successful download\<close>

definition online :: "agps_net \<Rightarrow> byte list \<Rightarrow> byte list \<Rightarrow> bool" where
  "online net lon lat \<longleftrightarrow> net_lookup net (bytes ''agps.u-blox.com'') \<and> net_socket net ANOL_TCP
     \<and> net_connect net (bytes ''agps.u-blox.com'') 46434 \<and> net_timeout net
     \<and> net_write net (request_text net (bytes ''aid'') (agps_request lon lat))
     \<and> 0 \<notin> set (print_4f net (drop 1 lat)) \<and> 0 \<notin> set (print_4f net (drop 1 lon))
     \<and> length (print_4f net (drop 1 lat)) + length (print_4f net (drop 1 lon)) \<le> 160"

definition delivers :: "agps_net \<Rightarrow> byte list list \<Rightarrow> bool" where
  "delivers net ps \<longleftrightarrow> [] \<notin> set ps \<and> (\<forall>i < length ps. \<forall>c. net_read net i c = Got (ps ! i))"

lemma host_port_agps: "host_port (bytes ''agps.u-blox.com:46434'') = Some (bytes ''agps.u-blox.com'', 46434)"
proof -
  have "takeWhile (\<lambda>c. c \<noteq> 58) (bytes ''agps.u-blox.com:46434'') = bytes ''agps.u-blox.com''"
      "drop 1 (dropWhile (\<lambda>c. c \<noteq> 58) (bytes ''agps.u-blox.com:46434'')) = bytes ''46434''"
      "58 \<in> set (bytes ''agps.u-blox.com:46434'')" "0 \<notin> set (bytes ''agps.u-blox.com'')"
    by (simp_all add: bytes_def)
  moreover have "atoi (bytes ''46434'') = Some 46434"
    by (simp add: bytes_def atoi_def isspace_def isdigit_def to_int32_def int32_range_def)
  ultimately show ?thesis
    using sprintf_ok [of "bytes ''agps.u-blox.com''" 0 "replicate 256 0"] by (auto simp: host_port_def)
qed

lemma agps_request_fits:
  assumes "online net lon lat"
  shows "\<exists>rb. sprintf_at (replicate 256 0) 0 (request_text net (bytes ''aid'') (agps_request lon lat)) = Some rb
    \<and> cstr rb 0 = Some (request_text net (bytes ''aid'') (agps_request lon lat))"
proof -
  have "dec 1500000 = bytes ''1500000''" by (simp add: dec_def dec_nat.simps bytes_def)
  then have "0 \<notin> set (request_text net (bytes ''aid'') (agps_request lon lat))"
      "length (request_text net (bytes ''aid'') (agps_request lon lat)) < 256"
    using assms by (simp_all add: online_def request_text_def agps_request_def bytes_def)
  then show ?thesis using sprintf_ok [of _ 0 "replicate 256 0"] by fastforce
qed

text \<open>A reply of satellite data arrives whole, however it is cut.\<close>

lemma agps_answer_good:
  assumes on: "online net lon lat" and g: "good_reply H P"
    and ubx: "find_sub (bytes ''Content-Type: application/ubx'') H \<noteq> None"
    and ps: "delivers net ps" "concat ps = H @ header_end @ P" and l: "length buffer0 = BUFFER_SIZE"
  shows "agps_answer net (replicate BUFFER_SIZE 0) buffer0 lon lat =
      Some (int (length P), take 8 buffer0 @ P @ drop (8 + length P) buffer0, False)"
    and "length P + 33 < BUFFER_SIZE"
proof -
  obtain k where k: "find_sub (bytes ''Content-Type: application/ubx'') H = Some k" using ubx by auto
  have "length H + 4 + length P < BUFFER_SIZE" using g by (simp add: good_reply_def)
  then show fits: "length P + 33 < BUFFER_SIZE" using find_sub_length [OF k] by simp
  obtain rb where rb: "sprintf_at (replicate 256 0) 0 (request_text net (bytes ''aid'') (agps_request lon lat)) = Some rb"
      "cstr rb 0 = Some (request_text net (bytes ''aid'') (agps_request lon lat))"
    using agps_request_fits [OF on] by auto
  have "reply_start (replicate BUFFER_SIZE 0) = reply_view H P 0" by (simp add: reply_start_def reply_view_def)
  then have loop: "reply_loop net 0 (reply_start (replicate BUFFER_SIZE 0)) =
      Some (Inr (reply_view H P (length (H @ header_end @ P))))"
    using reply_loop_good [OF g, of 0 ps net 0] ps by (simp add: delivers_def)
  have "check_reply (reply_view H P (length (H @ header_end @ P))) buffer0 8 (int BUFFER_SIZE) =
      Some (int (length P), take 8 buffer0 @ P @ drop (8 + length P) buffer0)"
    using fits l by (intro check_reply_good [OF g ubx]) simp_all
  then show "agps_answer net (replicate BUFFER_SIZE 0) buffer0 lon lat =
      Some (int (length P), take 8 buffer0 @ P @ drop (8 + length P) buffer0, False)"
    using on rb loop unfolding agps_answer_def online_def
    by (simp add: getAssistNowOnlineData_def host_port_agps)
qed

lemma stored_data_good:
  assumes "length buffer0 = BUFFER_SIZE" and "P \<noteq> []"
  shows "stored_data t (int (length P)) (take 8 buffer0 @ P @ drop (8 + length P) buffer0) old =
    time_bytes t @ [buffer0 ! 7] @ P @ drop (8 + length P) (case old of Some c \<Rightarrow> c | None \<Rightarrow> [])"
proof -
  have "drop 7 (take 8 buffer0) = [buffer0 ! 7]" using assms(1) by (simp add: take_Suc_conv_app_nth [of 7 buffer0, simplified])
  then show ?thesis using assms by (simp add: stored_data_def Let_def add.commute)
qed

section \<open>The serial port\<close>

text \<open>
  \<open>setSerialParams\<close> prepares the port of a receiver. The values of \<open>termios.h\<close> are those of Linux;
  \<open>old\<close> holds the settings \<open>tcgetattr\<close> finds (\<open>None\<close>: it fails), the other fields are the outcomes
  of the calls in their order. The result is the return code and the settings left on the port.
\<close>

datatype speed = B4800 | B9600 | B19200 | B38400 | B57600 | B115200

record termios =
  c_iflag :: "32 word"
  c_oflag :: "32 word"
  c_cflag :: "32 word"
  c_lflag :: "32 word"
  c_cc :: "byte list"
  c_ispeed :: speed
  c_ospeed :: speed

record serial_outcome =
  old_termios :: "termios option"
  cfset_ok :: bool
  tcsetattr_ok :: bool
  tcflush_ok :: bool
  fcntl_ok :: bool

abbreviation "CS8 \<equiv> 0x30 :: 32 word"
abbreviation "CREAD \<equiv> 0x80 :: 32 word"
abbreviation "CLOCAL \<equiv> 0x800 :: 32 word"
abbreviation "VTIME \<equiv> 5 :: nat"
abbreviation "VMIN \<equiv> 6 :: nat"
abbreviation "NCCS \<equiv> 32 :: nat"

definition baud_speed :: "int \<Rightarrow> speed" where
  "baud_speed baudrate =
     (if baudrate = 115200 then B115200
      else if baudrate = 57600 then B57600
      else if baudrate = 38400 then B38400
      else if baudrate = 19200 then B19200
      else if baudrate = 4800 then B4800
      else B9600)"

definition serial_settings :: "termios \<Rightarrow> termios" where
  "serial_settings t = t\<lparr>c_iflag := 0, c_oflag := 0, c_cflag := or (or CS8 CLOCAL) CREAD, c_lflag := 0,
     c_cc := (replicate NCCS 255)[VMIN := 100, VTIME := 10], c_ispeed := B115200, c_ospeed := B115200\<rparr>"

definition setSerialParams :: "serial_outcome \<Rightarrow> int \<Rightarrow> termios option \<Rightarrow> int \<times> termios option" where
  "setSerialParams o' baudrate port =
     (let Bbaudrate = baud_speed baudrate in
      case old_termios o' of
        None \<Rightarrow> (0, port)
      | Some t \<Rightarrow>
          if \<not> cfset_ok o' then (0, port)
          else if \<not> tcsetattr_ok o' then (0, port)
          else if \<not> tcflush_ok o' then (0, Some (serial_settings t))
          else if \<not> fcntl_ok o' then (0, Some (serial_settings t))
          else (1, Some (serial_settings t)))"

text \<open>The speed that was asked for is worked out and never used.\<close>

lemma serial_port_any_rate:
  assumes "setSerialParams o' baudrate port = (1, port')"
  shows "\<exists>t. port' = Some t \<and> c_ispeed t = B115200 \<and> c_ospeed t = B115200 \<and> c_cc t ! VMIN = 100
    \<and> setSerialParams o' other port = (1, port')"
  using assms
  by (auto simp: setSerialParams_def serial_settings_def Let_def split: option.splits if_splits)

lemma serial_port_fails:
  assumes "setSerialParams o' baudrate port = (r, port')"
  shows "r \<in> {0, 1} \<and> (r = 1 \<longleftrightarrow> old_termios o' \<noteq> None \<and> cfset_ok o' \<and> tcsetattr_ok o' \<and> tcflush_ok o' \<and> fcntl_ok o')"
  using assms by (auto simp: setSerialParams_def Let_def split: option.splits if_splits)

end
