(* ===== verification/Robot_Activity.thy ===== *)
theory Robot_Activity
  imports Robot_Prelude
begin

text \<open>
  Threads that share a state. An activity is a program cut at its accesses to the shared state;
  between two accesses it computes locally, so a thread can only be overtaken at an access.
  \<open>interleaved\<close> runs any number of activities in any order. The rule at the end is the one of
  rely and guarantee with a common invariant, extended by a stock of things the threads borrow:
  when every activity alone keeps the invariant and returns what it borrowed, no interleaving
  breaks it, none finds the stock empty, and every thread ends.
\<close>

section \<open>Activities\<close>

datatype ('s, 'a) activity = Return 'a | Access "'s \<Rightarrow> (('s, 'a) activity \<times> 's) option"

primrec run_activity :: "('s, 'a) activity \<Rightarrow> 's \<Rightarrow> ('a \<times> 's) option" where
  "run_activity (Return x) = (\<lambda>s. Some (x, s))"
| "run_activity (Access f) = (\<lambda>s. case map_option (map_prod run_activity id) (f s) of
     None \<Rightarrow> None | Some (g, s') \<Rightarrow> g s')"

primrec followed_by :: "('s, 'a) activity \<Rightarrow> ('a \<Rightarrow> ('s, 'b) activity) \<Rightarrow> ('s, 'b) activity" where
  "followed_by (Return x) = (\<lambda>k. k x)"
| "followed_by (Access f) = (\<lambda>k. Access (\<lambda>s. map_option (map_prod (\<lambda>g. g k) id) (map_option (map_prod followed_by id) (f s))))"

text \<open>One access, and a local computation that may be undefined.\<close>

definition access :: "('s \<Rightarrow> ('a \<times> 's) option) \<Rightarrow> ('s, 'a) activity" where
  "access f = Access (\<lambda>s. map_option (map_prod Return id) (f s))"

definition compute :: "'a option \<Rightarrow> ('s, 'a) activity" where
  "compute r = (case r of None \<Rightarrow> Access (\<lambda>s. None) | Some x \<Rightarrow> Return x)"

lemma run_followed_by:
  "run_activity (followed_by a k) s = do { (x, s') \<leftarrow> run_activity a s; run_activity (k x) s' }"
proof (induction a arbitrary: s)
  case (Access f)
  show ?case
  proof (cases "f s")
    case (Some p)
    have "run_activity (followed_by (fst p) k) t = do { (x, s') \<leftarrow> run_activity (fst p) t; run_activity (k x) s' }" for t
      by (rule Access [OF rangeI [of f s]]) (auto simp: Some prod_set_defs)
    then show ?thesis using Some by (cases p) simp
  qed simp
qed simp

lemma run_access: "run_activity (access f) = f"
  by (rule ext) (auto simp: access_def option.map_comp split: option.splits)

lemma run_compute: "run_activity (compute r) s = do { x \<leftarrow> r; Some (x, s) }"
  by (simp add: compute_def split: option.splits)

lemmas run_activity_simps = run_followed_by run_access run_compute

lemma followed_by_access: "followed_by (access f) k = Access (\<lambda>s. map_option (map_prod k id) (f s))"
  by (auto simp: access_def option.map_comp intro!: ext option.map_cong0)

lemma followed_by_compute: "followed_by (compute (Some x)) k = k x"
  by (simp add: compute_def)

lemma followed_by_undefined: "followed_by (compute None) k = compute None"
  by (simp add: compute_def)

lemma followed_by_assoc: "followed_by (followed_by a k) l = followed_by a (\<lambda>x. followed_by (k x) l)"
proof (induction a)
  case (Access f)
  have "map_option (map_prod (\<lambda>g. g l) id) (map_option (map_prod followed_by id)
        (map_option (map_prod (\<lambda>g. g k) id) (map_option (map_prod followed_by id) (f s))))
      = map_option (map_prod (\<lambda>g. g (\<lambda>x. followed_by (k x) l)) id) (map_option (map_prod followed_by id) (f s))" for s
  proof (cases "f s")
    case (Some p)
    have "followed_by (followed_by (fst p) k) l = followed_by (fst p) (\<lambda>x. followed_by (k x) l)"
      by (rule Access.IH [OF rangeI [of f s]]) (auto simp: Some prod_set_defs)
    then show ?thesis using Some by (cases p) simp
  qed simp
  then show ?case by simp
qed simp

section \<open>Interleaving\<close>

inductive interleaved ::
    "nat \<Rightarrow> ('s, 'a) activity list \<times> 's \<Rightarrow> ('s, 'a) activity list \<times> 's \<Rightarrow> bool" where
  start: "interleaved 0 p p"
| access: "interleaved n p (js, s) \<Longrightarrow> i < length js \<Longrightarrow> js ! i = Access f \<Longrightarrow> f s = Some (a, s')
    \<Longrightarrow> interleaved (Suc n) p (js[i := a], s')"

text \<open>A thread whose next access is undefined.\<close>

definition stuck_thread :: "('s, 'a) activity list \<times> 's \<Rightarrow> nat \<Rightarrow> bool" where
  "stuck_thread p i \<longleftrightarrow> i < length (fst p)
     \<and> (case fst p ! i of Return x \<Rightarrow> False | Access f \<Rightarrow> f (snd p) = None)"

definition all_done :: "('s, 'a) activity list \<Rightarrow> bool" where
  "all_done js \<longleftrightarrow> list_all (\<lambda>a. case a of Return x \<Rightarrow> True | Access f \<Rightarrow> False) js"

lemma all_done_simps [simp]: "all_done []" "all_done (a # js) \<longleftrightarrow> (\<exists>x. a = Return x) \<and> all_done js"
  by (auto simp: all_done_def split: activity.splits)

lemma not_all_done: "\<not> all_done js \<Longrightarrow> \<exists>i f. i < length js \<and> js ! i = Access f"
  unfolding all_done_def list_all_length by (metis activity.case(1) activity.exhaust)

text \<open>A thread that runs alone is an interleaving.\<close>

lemma interleaved_trans:
  "interleaved n q r \<Longrightarrow> interleaved m p q \<Longrightarrow> interleaved (m + n) p r"
  by (induction rule: interleaved.induct) (auto intro: interleaved.access)

lemma run_alone:
  assumes "run_activity a s = Some (x, s')" and "i < length js" and "js ! i = a"
  shows "\<exists>n. interleaved n (js, s) (js[i := Return x], s')"
  using assms
proof (induction a arbitrary: js s)
  case (Return y)
  then have "js[i := Return x] = js" "s' = s" by (auto simp: list_update_same_conv)
  then show ?case using interleaved.start by metis
next
  case (Access f)
  obtain b t where b: "f s = Some (b, t)" "run_activity b t = Some (x, s')"
    using Access.prems(1) by (auto split: option.splits)
  then have "(b, t) \<in> set_option (f s)" "b \<in> Basic_BNFs.fsts (b, t)" by (simp_all add: prod_set_defs)
  from Access.IH [OF rangeI this b(2), of "js[i := b]"]
  have "\<exists>n. interleaved n (js[i := b], t) (js[i := b, i := Return x], s')"
    using Access.prems(2) by simp
  moreover have "interleaved 1 (js, s) (js[i := b], t)"
    using interleaved.access [OF interleaved.start Access.prems(2,3) b(1)] by simp
  ultimately show ?case using interleaved_trans by (metis list_update_overwrite)
qed

lemma interleaved_next:
  assumes "interleaved n (js[i := k x], t) q" and "js ! i = followed_by (access f) k" and "i < length js" and "f s = Some (x, t)"
  shows "interleaved (Suc n) (js, s) q"
proof -
  have "interleaved 1 (js, s) (js[i := k x], t)"
    using interleaved.access [OF interleaved.start assms(3), of "\<lambda>s. map_option (map_prod k id) (f s)" s "k x" t] assms(2,4)
    by (simp add: followed_by_access)
  from interleaved_trans [OF assms(1) this] show ?thesis by simp
qed

section \<open>Invariants and a stock\<close>

locale shared_state =
  fixes inv :: "'s \<Rightarrow> bool" and stock :: "'s \<Rightarrow> nat"
begin

text \<open>
  An activity that holds \<open>h\<close> things and makes at most \<open>n\<close> accesses. It may rely on the invariant
  before each access, and on a filled stock when it holds nothing; it keeps the sum of the
  stock and of what it holds, and returns a result in \<open>P\<close> and everything it holds.
\<close>

primrec sound :: "('a \<Rightarrow> bool) \<Rightarrow> nat \<Rightarrow> nat \<Rightarrow> ('s, 'a) activity \<Rightarrow> bool" where
  "sound P 0 h a \<longleftrightarrow> h = 0 \<and> (\<exists>x. a = Return x \<and> P x)"
| "sound P (Suc n) h a \<longleftrightarrow> (case a of
     Return x \<Rightarrow> h = 0 \<and> P x
   | Access f \<Rightarrow> h \<le> 1 \<and> (\<forall>s. inv s \<and> (h = 0 \<longrightarrow> 0 < stock s) \<longrightarrow>
       (\<exists>b s' h'. f s = Some (b, s') \<and> inv s' \<and> stock s' + h' = stock s + h \<and> sound P n h' b)))"

lemma sound_return [simp]: "sound P n h (Return x) \<longleftrightarrow> h = 0 \<and> P x"
  by (cases n) auto

lemma sound_access:
  assumes "sound P n h (Access f)" and "inv s" and "h = 0 \<Longrightarrow> 0 < stock s"
  shows "\<exists>m b s' h'. n = Suc m \<and> f s = Some (b, s') \<and> inv s' \<and> stock s' + h' = stock s + h \<and> sound P m h' b"
  using assms by (cases n) auto

lemma sound_holds: "sound P n h a \<Longrightarrow> h \<le> 1"
  by (cases n; cases a) auto

lemma sound_weaken: "sound P n h a \<Longrightarrow> n \<le> m \<Longrightarrow> sound P m h a"
proof (induction n arbitrary: m h a)
  case (Suc n)
  then obtain k where m: "m = Suc k" "n \<le> k" by (cases m) auto
  show ?case using Suc.prems(1) Suc.IH [OF _ m(2)] m(1) by (fastforce split: activity.splits)
qed auto

text \<open>An access followed by the rest.\<close>

lemma sound_step:
  assumes "h \<le> 1" and "\<And>s. inv s \<Longrightarrow> (h = 0 \<Longrightarrow> 0 < stock s) \<Longrightarrow>
    \<exists>x s' h'. f s = Some (x, s') \<and> inv s' \<and> stock s' + h' = stock s + h \<and> sound P n h' (k x)"
  shows "sound P (Suc n) h (followed_by (access f) k)"
  using assms by (fastforce simp: followed_by_access)

lemma sound_quiet_step:
  assumes "\<And>s. inv s \<Longrightarrow> \<exists>x s'. f s = Some (x, s') \<and> inv s' \<and> stock s' = stock s \<and> sound P n 0 (k x)"
  shows "sound P (Suc n) 0 (followed_by (access f) k)"
  using assms by (intro sound_step) fastforce+

text \<open>All threads: what they hold and the stock add up to as many things as there are threads.\<close>

definition sound_threads ::
    "(nat \<Rightarrow> 'a \<Rightarrow> bool) \<Rightarrow> (nat \<Rightarrow> nat) \<Rightarrow> (nat \<Rightarrow> nat) \<Rightarrow> ('s, 'a) activity list \<times> 's \<Rightarrow> bool" where
  "sound_threads P n h p \<longleftrightarrow> inv (snd p) \<and> length (fst p) \<le> stock (snd p) + (\<Sum>i<length (fst p). h i)
     \<and> (\<forall>i<length (fst p). sound (P i) (n i) (h i) (fst p ! i))"

lemma sum_held:
  assumes "i < (m :: nat)" and "h i = 0" and "\<And>j. j < m \<Longrightarrow> h j \<le> (1::nat)"
  shows "(\<Sum>j<m. h j) < m"
proof -
  have "(\<Sum>j<m. h j) < (\<Sum>j<m. 1)"
    using assms by (intro sum_strict_mono_ex1) auto
  then show ?thesis by simp
qed

lemma sum_update: "i < (m :: nat) \<Longrightarrow> (\<Sum>j<m. (h(i := x)) j) + h i = (\<Sum>j<m. h j) + (x :: nat)"
proof -
  assume i: "i < m"
  then have "(\<Sum>j<m. (h(i := x)) j) = x + (\<Sum>j\<in>{..<m} - {i}. h j)"
    by (subst sum.remove [of "{..<m}" i]) auto
  moreover have "(\<Sum>j<m. h j) = h i + (\<Sum>j\<in>{..<m} - {i}. h j)"
    using i by (intro sum.remove) auto
  ultimately show ?thesis by simp
qed

lemma sound_threads_access:
  assumes st: "sound_threads P n h (js, s)" and i: "i < length js" and f: "js ! i = Access f"
  shows "\<exists>m b s' h'. n i = Suc m \<and> f s = Some (b, s')
    \<and> sound_threads P (n(i := m)) (h(i := h')) (js[i := b], s')"
proof -
  have a: "sound (P i) (n i) (h i) (Access f)" and inv: "inv s" and all: "length js \<le> stock s + (\<Sum>j<length js. h j)"
    using st i f by (auto simp: sound_threads_def)
  have "0 < stock s" if "h i = 0"
  proof -
    have "h j \<le> 1" if "j < length js" for j
    proof (rule sound_holds)
      show "sound (P j) (n j) (h j) (js ! j)" using st that by (simp add: sound_threads_def)
    qed
    then have "(\<Sum>j<length js. h j) < length js" using i that by (intro sum_held [of i]) auto
    then show ?thesis using all by simp
  qed
  from sound_access [OF a inv this] obtain m b s' h' where b: "n i = Suc m" "f s = Some (b, s')" "inv s'"
      "stock s' + h' = stock s + h i" "sound (P i) m h' b"
    by blast
  have "(\<Sum>j<length js. (h(i := h')) j) + h i = (\<Sum>j<length js. h j) + h'" using i by (rule sum_update)
  then have "length js \<le> stock s' + (\<Sum>j<length js. (h(i := h')) j)" using all b(4) by linarith
  then have "sound_threads P (n(i := m)) (h(i := h')) (js[i := b], s')"
    using st b(3,5) i by (auto simp: sound_threads_def nth_list_update)
  then show ?thesis using b by blast
qed

lemma interleaved_sound:
  assumes "interleaved k p q" and "sound_threads P n h p"
  shows "\<exists>m h'. sound_threads P m h' q \<and> length (fst q) = length (fst p)
    \<and> k + (\<Sum>i<length (fst p). m i) = (\<Sum>i<length (fst p). n i)"
  using assms
proof (induction rule: interleaved.induct)
  case (access k p js s i f a s')
  then obtain m h' where m: "sound_threads P m h' (js, s)" "length js = length (fst p)"
      "k + (\<Sum>i<length (fst p). m i) = (\<Sum>i<length (fst p). n i)"
    by auto
  from sound_threads_access [OF m(1) access.hyps(2,3)] access.hyps(4) obtain m' h'' where
      u: "m i = Suc m'" "sound_threads P (m(i := m')) (h'(i := h'')) (js[i := a], s')"
    by auto
  have "(\<Sum>j<length (fst p). (m(i := m')) j) + m i = (\<Sum>j<length (fst p). m j) + m'"
    using access.hyps(2) m(2) by (intro sum_update) simp
  then show ?case
    using u m(2,3) by (intro exI [of _ "m(i := m')"] exI [of _ "h'(i := h'')"]) (simp del: fun_upd_apply)
qed auto

lemma sound_not_stuck: "sound_threads P n h p \<Longrightarrow> \<not> stuck_thread p i"
  using sound_threads_access [of P n h "fst p" "snd p" i]
  by (fastforce simp: stuck_thread_def split: activity.splits)

lemma sound_result: "sound_threads P n h (js, s) \<Longrightarrow> i < length js \<Longrightarrow> js ! i = Return x \<Longrightarrow> P i x"
  by (auto simp: sound_threads_def)

lemma sound_inv: "sound_threads P n h (js, s) \<Longrightarrow> inv s"
  by (simp add: sound_threads_def)

lemma sound_completes:
  assumes "sound_threads P n h p"
  shows "\<exists>k q. interleaved k p q \<and> all_done (fst q)"
  using assms
proof (induction "\<Sum>i<length (fst p). n i" arbitrary: n h p rule: less_induct)
  case less
  obtain js s where p: "p = (js, s)" by fastforce
  show ?case
  proof (cases "all_done js")
    case True
    then show ?thesis using interleaved.start p by (intro exI [of _ 0] exI [of _ p]) auto
  next
    case False
    then obtain i f where i: "i < length js" and f: "js ! i = Access f" using not_all_done by blast
    from sound_threads_access [OF less.prems [unfolded p] i f] obtain m b s' h' where
        b: "n i = Suc m" "f s = Some (b, s')" "sound_threads P (n(i := m)) (h(i := h')) (js[i := b], s')"
      by blast
    have "(\<Sum>j<length js. (n(i := m)) j) + n i = (\<Sum>j<length js. n j) + m" using i by (rule sum_update)
    then have "(\<Sum>j<length js. (n(i := m)) j) < (\<Sum>j<length js. n j)" using b(1) by simp
    then obtain k q where "interleaved k (js[i := b], s') q" "all_done (fst q)"
      using less.hyps [OF _ b(3)] p by auto
    moreover have "interleaved 1 p (js[i := b], s')"
      using interleaved.access [OF interleaved.start i f b(2)] p by simp
    ultimately show ?thesis using interleaved_trans by blast
  qed
qed

declare sound.simps [simp del]

end

end
