(* ===== verification/Robot_Steps.thy ===== *)
theory Robot_Steps
  imports Robot_Activity Robot_Sessions
begin

text \<open>
  The handlers of the messages as activities. Every command of Redis, every use of the pool of
  database connections and every look at the world is one access, in the order of the code, so
  that callbacks of several workers can overtake each other between any two of them. Each
  activity, run alone, is the handler of \<open>Apollo_Handlers\<close>; with the answer the dispatcher
  makes of its result it is the whole callback (\<open>handler_of_steps\<close>).
\<close>

unbundle bit_operations_syntax

section \<open>Accesses\<close>

definition reading :: "'w externals \<Rightarrow> byte list \<Rightarrow> byte list \<Rightarrow> nat \<Rightarrow> ('w world, int \<times> byte list) activity" where
  "reading E key val off = access (\<lambda>w. do {
     (r, b, w') \<leftarrow> get_value_fromredis E key val off w; Some ((r, b), w') })"

definition storing :: "'w externals \<Rightarrow> byte list \<Rightarrow> byte list \<Rightarrow> ('w world, int) activity" where
  "storing E key val = access (set_key_toredis E key val)"

definition deleting :: "'w externals \<Rightarrow> byte list \<Rightarrow> ('w world, int) activity" where
  "deleting E key = access (del_redis_key E key)"

definition changing :: "('w world \<Rightarrow> 'w world option) \<Rightarrow> ('w world, unit) activity" where
  "changing f = access (\<lambda>w. do { w' \<leftarrow> f w; Some ((), w') })"

section \<open>The handlers\<close>

text \<open>What the handler makes of the command it has read.\<close>

definition command_result :: "byte list \<Rightarrow> byte list \<Rightarrow> (int \<times> byte list) option" where
  "command_result u8RedisDeviceInfo info =
     (if length u8RedisDeviceInfo < 4
      then do { cmd \<leftarrow> atoi u8RedisDeviceInfo; Some (if cmd < 0 \<or> cmd > 254 then -4 else cmd, info) }
      else do { (cmd, info') \<leftarrow> heart_param u8RedisDeviceInfo info; Some (cmd AND 0xF0, info') })"

definition heart_command_steps ::
    "'w externals \<Rightarrow> byte list \<Rightarrow> byte list \<Rightarrow> ('w world, int \<times> byte list) activity" where
  "heart_command_steps E u8DeviceId info =
     followed_by (reading E u8DeviceId (replicate REDIS_COMMAND_LENGTH 0) 0) (\<lambda>(r, buf).
       if r = -1 then Return (0, info)
       else followed_by (compute (do { s \<leftarrow> cstr buf 0; command_result s info })) (\<lambda>res.
         followed_by (deleting E u8DeviceId) (\<lambda>d. Return res)))"

definition heart_steps ::
    "'w externals \<Rightarrow> byte list \<Rightarrow> int \<Rightarrow> byte list \<Rightarrow> ('w world, int \<times> byte list) activity" where
  "heart_steps E pkt len info =
     (if len \<noteq> int LEN_HEART_PACKET_DEVICE then Return (-3, info)
      else followed_by (compute (do { d \<leftarrow> device_text pkt; k \<leftarrow> relationship_key d; Some (d, k) }))
        (\<lambda>(u8DeviceId, u8RelationShipDevice).
        followed_by (reading E u8RelationShipDevice (replicate REDIS_COMMAND_LENGTH 0) 0) (\<lambda>(r, userBuf).
          if r = -1 then Return (-1, info)
          else followed_by (changing (falldown_thread pkt)) (\<lambda>_.
            followed_by (compute (do { i \<leftarrow> device_info_text pkt; u \<leftarrow> cstr userBuf 0; Some (i, u) }))
              (\<lambda>(u8RedisDeviceInfo, u8RedisUserValue).
              followed_by (storing E u8RedisUserValue u8RedisDeviceInfo) (\<lambda>s.
                if s = -1 then Return (-2, info) else heart_command_steps E u8DeviceId info))))))"

definition phone_heart_steps ::
    "'w externals \<Rightarrow> byte list \<Rightarrow> int \<Rightarrow> byte list \<Rightarrow> nat \<Rightarrow> ('w world, int \<times> byte list) activity" where
  "phone_heart_steps E pkt len info off =
     (if len \<noteq> int LEN_HEART_PACKET_PHONE then Return (-3, info)
      else followed_by (compute (do {
          u8PhoneId \<leftarrow> phone_text pkt;
          n \<leftarrow> atoi u8PhoneId;
          b \<leftarrow> sprintf_at (replicate (LEN_PHONE_ID * 2 + 1) 0) 0 (dec n);
          cstr b 0 })) (\<lambda>PhoneId.
        followed_by (reading E PhoneId info off) (\<lambda>(r, info').
          followed_by (compute (cstr info' off)) (\<lambda>s. Return (int (length s), info')))))"

text \<open>The request for the newest location is one access: no message of the broker asks for it.\<close>

definition phone_command_steps :: "'w externals \<Rightarrow> byte list \<Rightarrow> int \<Rightarrow> ('w world, int) activity" where
  "phone_command_steps E pkt len =
     (if len \<noteq> int LEN_COMMAND_PACKET then Return (-3)
      else followed_by (compute (do {
          u8PhoneId \<leftarrow> phone_text pkt;
          n \<leftarrow> atoi u8PhoneId;
          kb \<leftarrow> sprintf_at (replicate (LEN_PHONE_ID * 2 + 6) 0) 0 (bytes ''RP_'' @ dec n);
          k \<leftarrow> cstr kb 0;
          Some (n, k) })) (\<lambda>(n, u8RelationShipPhone).
        followed_by (reading E u8RelationShipPhone (replicate (LEN_DEVICE_ID * 2 + 1) 0) 0) (\<lambda>(r, devBuf).
          if r = -1 then Return (-1)
          else followed_by (compute (peek pkt IDX_PHONE_COMMAND)) (\<lambda>c.
            if checkPhoneCommand c = 4 then
              followed_by (compute (do { v \<leftarrow> command_value pkt; d \<leftarrow> cstr devBuf 0; Some (v, d) }))
                (\<lambda>(u8Value, u8DeviceId).
                followed_by (storing E u8DeviceId u8Value) (\<lambda>s. Return (if s = -1 then -2 else 0)))
            else if checkPhoneCommand c = 7 \<or> checkPhoneCommand c = 3 then Return 0
            else if 0 \<le> checkPhoneCommand c then
              followed_by (compute (do {
                  cb \<leftarrow> sprintf_at (replicate 6 0) 0 (dec (uint c));
                  u8Cmd \<leftarrow> cstr cb 0;
                  d \<leftarrow> cstr devBuf 0;
                  Some (u8Cmd, d) })) (\<lambda>(u8Cmd, u8DeviceId).
                followed_by (if c = CMD_PHONE_DEVICE_REALTIME_LOCATION
                  then changing (\<lambda>w. do { (v, w') \<leftarrow> selectLocationNewItem E u8DeviceId n w; Some w' })
                  else Return ()) (\<lambda>_.
                  followed_by (storing E u8DeviceId u8Cmd) (\<lambda>s. Return (if s = -1 then -2 else 0))))
            else Return 0))))"

text \<open>The insertion takes a connection of the pool, executes on it and gives it back.\<close>

definition insert_steps ::
    "'w externals \<Rightarrow> byte list \<Rightarrow> byte list \<Rightarrow> byte list \<Rightarrow> byte list \<Rightarrow> ('w world, int) activity" where
  "insert_steps E longitude latitude high device_id =
     followed_by (access (take_connection E)) (\<lambda>con.
       followed_by (changing (run_execute E con SQL_INSERT_DEVICE_GPS [longitude, latitude, high, device_id])) (\<lambda>_.
         followed_by (changing (\<lambda>w. Some (give_connection E con w))) (\<lambda>_. Return OK)))"

definition location_steps :: "'w externals \<Rightarrow> byte list \<Rightarrow> int \<Rightarrow> ('w world, int) activity" where
  "location_steps E pkt len =
     (if len \<noteq> int LEN_GPS_LOCATION_DATA \<and> len \<noteq> int LEN_LAB_LOCATION_DATA then Return (-3)
      else followed_by (compute (do { d \<leftarrow> device_text pkt; k \<leftarrow> relationship_key d; Some (d, k) }))
        (\<lambda>(u8DeviceId, u8RelationShipDevice).
        followed_by (reading E u8RelationShipDevice (replicate REDIS_COMMAND_LENGTH 0) 0) (\<lambda>(r, userBuf).
          if r = -1 then Return (-1)
          else if len = int LEN_GPS_LOCATION_DATA then
            followed_by (compute (do {
                lon \<leftarrow> coordinate (of_char CHR ''E'') pkt IDX_DEVICE_GPS_LONGITUDE LEN_LONGITUDE_DATA;
                lat \<leftarrow> coordinate (of_char CHR ''N'') pkt IDX_DEVICE_GPS_LATITUDE LEN_LATITUDE_DATA;
                high \<leftarrow> int_at pkt IDX_DEVICE_GPS_HIGH 4;
                hb \<leftarrow> sprintf_at (replicate 12 0) 0 (dec high);
                u8High \<leftarrow> cstr hb 0;
                Some (lon, lat, high, u8High) })) (\<lambda>(u8Longitude, u8Latitude, high, u8High).
              followed_by (changing (location_thread pkt u8DeviceId u8Longitude u8Latitude)) (\<lambda>_.
                followed_by (insert_steps E u8Longitude u8Latitude u8High u8DeviceId) (\<lambda>ins.
                  followed_by (compute (do {
                      stamp \<leftarrow> int_at pkt IDX_DEVICE_GPS_TIMESTAMP (sizeof_long E);
                      gb \<leftarrow> sprintf_at (replicate REDIS_COMMAND_LENGTH 0) 0
                        (bytes ''G_'' @ u8Longitude @ bytes ''_'' @ u8Latitude @ bytes ''_'' @ dec high
                          @ bytes ''_0_'' @ dec stamp);
                      v \<leftarrow> cstr gb 0;
                      u \<leftarrow> cstr userBuf 0;
                      Some (u, v) })) (\<lambda>(u8RedisUserValue, u8RedisDeviceGpsInfo).
                    followed_by (storing E u8RedisUserValue u8RedisDeviceGpsInfo) (\<lambda>s.
                      Return (if s = -1 then -2 else 0))))))
          else followed_by (changing (\<lambda>w. Some (pthread_create Start_http_post w))) (\<lambda>_. Return 0))))"

section \<open>The callbacks\<close>

text \<open>What the dispatcher hands to \<open>apolloReturnPacket\<close>, if anything.\<close>

definition heart_answer :: "int \<Rightarrow> byte list \<Rightarrow> tm \<Rightarrow> byte list option option" where
  "heart_answer result setValueBuf t =
     (if 0 < result then
        (if result AND 0xF0 = uint CMD_PHONE_DEVICE_FAMILYNUMBER_SET AND 0xF0 then do {
           b \<leftarrow> poke setValueBuf 0 (of_char CHR ''C'');
           map_option Some (fetch b 0 LEN_DEVICE_HEARTPACKET_RETURN_BUFFER) }
         else do {
           b1 \<leftarrow> poke retTOK 0 (of_char CHR ''C'');
           b2 \<leftarrow> poke b1 IDX_DEVICE_RETURN_COMMAND (word_of_int result);
           map_option Some (fetch b2 0 LEN_DEVICE_RETURN_BUFFER) })
      else if result = 0 \<or> result = -1 \<or> result = -2 then do {
        b1 \<leftarrow> sprintf_at (replicate (LEN_DEVICE_RETURN_BUFFER * 2 + 2) 0) 0 (bytes ''RETOK'');
        b2 \<leftarrow> writeTimeHeader t b1 6;
        map_option Some (fetch b2 0 (LEN_DEVICE_RETURN_BUFFER * 2 + 2)) }
      else Some None)"

definition phone_heart_answer :: "int \<Rightarrow> byte list \<Rightarrow> byte list option option" where
  "phone_heart_answer n u8DeviceInfo =
     (if n < 0 then Some None
      else do { b \<leftarrow> blit u8DeviceInfo 0 (bytes ''RET:''); map_option Some (fetch b 0 (nat n + 4)) })"

definition heart_reply_steps :: "int \<times> byte list \<Rightarrow> ('w world, int \<times> byte list option) activity" where
  "heart_reply_steps = (\<lambda>(r, i).
     followed_by (access (\<lambda>w. Some (localtime_now w, w))) (\<lambda>t.
       followed_by (compute (heart_answer r i t)) (\<lambda>a. Return (r, a))))"

definition message_steps ::
    "'w externals \<Rightarrow> byte list \<Rightarrow> int \<Rightarrow> message \<Rightarrow> ('w world, int \<times> byte list option) activity" where
  "message_steps E data n m =
     (case m of
        Device_heart d x \<Rightarrow>
          followed_by (heart_steps E data n (replicate LEN_DEVICE_HEARTPACKET_RETURN_BUFFER 0)) heart_reply_steps
      | Device_location d x \<Rightarrow>
          followed_by (location_steps E data n) (\<lambda>r.
            followed_by (compute (fetch retTOK 0 LEN_DEVICE_RETURN_BUFFER)) (\<lambda>a. Return (r, Some a)))
      | Phone_heart p x \<Rightarrow>
          followed_by (phone_heart_steps E data n (replicate (REDIS_COMMAND_LENGTH + 4) 0) 4) (\<lambda>(r, i).
            followed_by (compute (phone_heart_answer r i)) (\<lambda>a. Return (r, a)))
      | Phone_command p c i x \<Rightarrow> followed_by (phone_command_steps E data n) (\<lambda>r. Return (r, None)))"

section \<open>Run alone, an activity is its handler\<close>

lemma run_accesses:
  "run_activity (reading E k v off) w = do { (r, b, w') \<leftarrow> get_value_fromredis E k v off w; Some ((r, b), w') }"
  "run_activity (storing E k u) w = set_key_toredis E k u w"
  "run_activity (deleting E k) w = del_redis_key E k w"
  "run_activity (changing f) w = do { w' \<leftarrow> f w; Some ((), w') }"
  by (simp_all add: reading_def storing_def deleting_def changing_def run_access)

lemma run_if: "run_activity (if c then a else b) s = (if c then run_activity a s else run_activity b s)"
  by simp

lemmas run_steps = run_activity_simps run_accesses run_if

lemma run_heart_command_steps:
  "run_activity (heart_command_steps E d i) w = do { (r, i', w') \<leftarrow> heart_command E d i w; Some ((r, i'), w') }"
  by (auto simp: heart_command_steps_def heart_command_def command_result_def run_steps split: bind_splits)

lemma run_heart_steps:
  "run_activity (heart_steps E p n i) w = do { (r, i', w') \<leftarrow> deviceHeartPacket E p n i w; Some ((r, i'), w') }"
  by (auto simp: heart_steps_def deviceHeartPacket_def run_steps run_heart_command_steps split: bind_splits)

lemma run_phone_heart_steps:
  "run_activity (phone_heart_steps E p n i k) w = do { (r, i', w') \<leftarrow> phoneHeaderPacket E p n i k w; Some ((r, i'), w') }"
  by (auto simp: phone_heart_steps_def phoneHeaderPacket_def run_steps split: bind_splits)

lemma run_phone_command_steps: "run_activity (phone_command_steps E p n) w = phoneCommandPacket E p n w"
  by (auto simp: phone_command_steps_def phoneCommandPacket_def phone_device_def run_steps
      split: bind_splits)

lemma run_insert_steps: "run_activity (insert_steps E a b c d) w = insertDeviceGps E a b c d w"
  by (auto simp: insert_steps_def insertDeviceGps_def run_steps split: bind_splits)

lemma run_location_steps: "run_activity (location_steps E p n) w = deviceLocationPacket E p n w"
  by (auto simp: location_steps_def deviceLocationPacket_def run_steps run_insert_steps split: bind_splits)

lemma heart_command_step_list:
  "followed_by (heart_command_steps E u8DeviceId info) k =
     followed_by (reading E u8DeviceId (replicate REDIS_COMMAND_LENGTH 0) 0) (\<lambda>(r, buf).
       if r = -1 then k (0, info)
       else followed_by (compute (do { s \<leftarrow> cstr buf 0; command_result s info })) (\<lambda>res.
         followed_by (deleting E u8DeviceId) (\<lambda>_. k res)))"
  by (auto simp: heart_command_steps_def followed_by_assoc intro!: arg_cong [of _ _ "followed_by _"] ext)

lemma return_fetched:
  assumes "output_buffer client \<noteq> None"
  shows "apolloReturnPacket E client b n w = do { x \<leftarrow> fetch b 0 n; Some (send_answer E client x w) }"
  using assms by (auto simp: apolloReturnPacket_def queue_output_def send_answer_def split: bind_splits)

lemma handler_of_steps:
  assumes "output_buffer client \<noteq> None"
  shows "handler_of E client data n m w = do {
     ((r, a), w1) \<leftarrow> run_activity (message_steps E data (int n) m) w;
     Some (case a of None \<Rightarrow> (client, w1) | Some x \<Rightarrow> send_answer E client x w1) }"
proof (cases m)
  case (Device_heart d x)
  then show ?thesis
    using Device_heart assms
    by (auto simp: handler_of_def message_steps_def on_device_heart_def run_steps run_heart_steps heart_reply_steps_def
        heart_answer_def
        return_fetched split: bind_splits)
next
  case (Device_location d x)
  then show ?thesis
    using assms by (auto simp: handler_of_def message_steps_def on_location_def run_steps run_location_steps
        return_fetched split: bind_splits)
next
  case (Phone_heart p x)
  then show ?thesis
    using assms by (auto simp: handler_of_def message_steps_def on_phone_heart_def run_steps run_phone_heart_steps
        phone_heart_answer_def return_fetched split: bind_splits)
next
  case (Phone_command p c i x)
  then show ?thesis
    by (auto simp: handler_of_def message_steps_def run_steps run_phone_command_steps split: bind_splits)
qed

end
