(* ===== verification/Robot_Race.thy ===== *)
theory Robot_Race
  imports Robot_Steps
begin

text \<open>
  Callbacks of several workers at once. The broker of \<open>Robot_Broker\<close> handles one message after
  the other; between two accesses of a callback others may run, so the answers need not be those
  of any such order. \<open>race_ok\<close> is what every access keeps: Redis represents a broker whose
  bindings are the original ones and whose commands and reports came from somewhere.
\<close>

unbundle bit_operations_syntax

section \<open>What a set of messages can bring about\<close>

definition commands_for :: "broker \<Rightarrow> byte list \<Rightarrow> message \<Rightarrow> command list" where
  "commands_for b d m =
     (case m of
        Phone_command p k i x \<Rightarrow>
          (if watch b (number_of p) = Some d
           then (case command_of k i (take 8 x) of None \<Rightarrow> [] | Some c \<Rightarrow> [c]) else [])
      | _ \<Rightarrow> [])"

definition possible_commands :: "broker \<Rightarrow> message list \<Rightarrow> byte list \<Rightarrow> command list" where
  "possible_commands b ms d =
     (case waiting b d of None \<Rightarrow> [] | Some c \<Rightarrow> [c]) @ concat (map (commands_for b d) ms)"

definition reports_for :: "nat \<Rightarrow> broker \<Rightarrow> nat \<Rightarrow> message \<Rightarrow> byte list list" where
  "reports_for width b u m =
     (case m of
        Device_heart d x \<Rightarrow> (if owner b d = Some u then [state_report x] else [])
      | Device_location d x \<Rightarrow> (if owner b d = Some u then [place_report width x] else [])
      | _ \<Rightarrow> [])"

definition possible_reports :: "nat \<Rightarrow> broker \<Rightarrow> message list \<Rightarrow> nat \<Rightarrow> byte list list" where
  "possible_reports width b ms u =
     (case report b u of None \<Rightarrow> [] | Some r \<Rightarrow> [r]) @ concat (map (reports_for width b u) ms)"

text \<open>The answers a message may get while the messages \<open>ms\<close> are handled.\<close>

definition answer_allowed ::
    "nat \<Rightarrow> tm \<Rightarrow> broker \<Rightarrow> message list \<Rightarrow> message \<Rightarrow> byte list option \<Rightarrow> bool" where
  "answer_allowed width t b ms m a \<longleftrightarrow>
     (case m of
        Device_heart d x \<Rightarrow> a = Some (time_answer t)
          \<or> owner b d \<noteq> None \<and> a \<in> set (map (\<lambda>c. Some (command_answer c)) (possible_commands b ms d))
      | Device_location d x \<Rightarrow> a = Some (bytes ''RETOK%'')
      | Phone_heart p x \<Rightarrow> a = Some (bytes ''RET:'') \<and> report b (number_of p) = None
          \<or> a \<in> set (map (\<lambda>r. Some (bytes ''RET:'' @ r)) (possible_reports width b ms (number_of p)))
      | Phone_command p c i x \<Rightarrow> a = None)"

definition reachable_broker :: "nat \<Rightarrow> broker \<Rightarrow> message list \<Rightarrow> broker \<Rightarrow> bool" where
  "reachable_broker width b ms b' \<longleftrightarrow> owner b' = owner b \<and> watch b' = watch b
     \<and> (\<forall>d c. waiting b' d = Some c \<longrightarrow> c \<in> set (possible_commands b ms d))
     \<and> (\<forall>u r. report b' u = Some r \<longrightarrow> r \<in> set (possible_reports width b ms u))
     \<and> (\<forall>u. report b u \<noteq> None \<longrightarrow> report b' u \<noteq> None)"

section \<open>The invariant\<close>

definition race_ok ::
    "('w \<Rightarrow> byte list \<rightharpoonup> byte list) \<Rightarrow> nat \<Rightarrow> tm \<Rightarrow> broker \<Rightarrow> message list \<Rightarrow> 'w world \<Rightarrow> bool" where
  "race_ok kv width t b ms w \<longleftrightarrow> localtime_now w = t
     \<and> (\<exists>b'. represents (kv (ext w)) b' \<and> reachable_broker width b ms b')"

definition pool_size :: "('w \<Rightarrow> nat multiset) \<Rightarrow> 'w world \<Rightarrow> nat" where
  "pool_size idle w = size (idle (ext w))"

interpretation race: shared_state "race_ok kv width t b ms" "pool_size idle" for kv width t b ms idle .

lemma race_ok_start:
  assumes "represents (kv (ext w)) b"
  shows "race_ok kv width (localtime_now w) b ms w"
  using assms by (auto simp: race_ok_def reachable_broker_def possible_commands_def possible_reports_def)

lemma race_ok_frame:
  "race_ok kv width t b ms w \<Longrightarrow> kv (ext w') = kv (ext w) \<Longrightarrow> localtime_now w' = localtime_now w
    \<Longrightarrow> race_ok kv width t b ms w'"
  by (simp add: race_ok_def)

lemma race_okE:
  assumes "race_ok kv width t b ms w"
  obtains b' where "represents (kv (ext w)) b'" and "broker_ok b'" and "owner b' = owner b" and "watch b' = watch b"
    and "reachable_broker width b ms b'" and "localtime_now w = t"
  using assms represents_ok unfolding race_ok_def reachable_broker_def by metis

text \<open>The three changes of the store.\<close>

lemma race_ok_report:
  assumes "race_ok kv width t b ms w" and "kv (ext w') = (kv (ext w))(dec (int u) \<mapsto> r)"
    and "localtime_now w' = localtime_now w" and "u < 10 ^ 8" and "clean r" and "length r \<le> 254"
    and "r \<in> set (possible_reports width b ms u)"
  shows "race_ok kv width t b ms w'"
proof -
  obtain b' where b': "represents (kv (ext w)) b'" "reachable_broker width b ms b'" "localtime_now w = t"
    using assms(1) by (auto elim: race_okE)
  have "represents (kv (ext w')) (b'\<lparr>report := (report b')(u \<mapsto> r)\<rparr>)"
    unfolding assms(2) by (intro represents_report b'(1) assms(4-6))
  moreover have "reachable_broker width b ms (b'\<lparr>report := (report b')(u \<mapsto> r)\<rparr>)"
    using b'(2) assms(7) by (auto simp: reachable_broker_def)
  ultimately show ?thesis using b'(3) assms(3) by (auto simp: race_ok_def)
qed

lemma race_ok_command:
  assumes "race_ok kv width t b ms w" and "kv (ext w') = (kv (ext w))(hex_text d \<mapsto> command_text c)"
    and "localtime_now w' = localtime_now w" and "length d = 8" and "command_ok c"
    and "c \<in> set (possible_commands b ms d)"
  shows "race_ok kv width t b ms w'"
proof -
  obtain b' where b': "represents (kv (ext w)) b'" "reachable_broker width b ms b'" "localtime_now w = t"
    using assms(1) by (auto elim: race_okE)
  have "represents (kv (ext w')) (b'\<lparr>waiting := (waiting b')(d \<mapsto> c)\<rparr>)"
    unfolding assms(2) by (intro represents_waiting b'(1) assms(4,5))
  moreover have "reachable_broker width b ms (b'\<lparr>waiting := (waiting b')(d \<mapsto> c)\<rparr>)"
    using b'(2) assms(6) by (auto simp: reachable_broker_def)
  ultimately show ?thesis using b'(3) assms(3) by (auto simp: race_ok_def)
qed

lemma race_ok_delivered:
  assumes "race_ok kv width t b ms w" and "kv (ext w') = (kv (ext w))(hex_text d := None)"
    and "localtime_now w' = localtime_now w" and "length d = 8"
  shows "race_ok kv width t b ms w'"
proof -
  obtain b' where b': "represents (kv (ext w)) b'" "reachable_broker width b ms b'" "localtime_now w = t"
    using assms(1) by (auto elim: race_okE)
  have "represents (kv (ext w')) (b'\<lparr>waiting := (waiting b')(d := None)\<rparr>)"
    unfolding assms(2) by (intro represents_delivered b'(1) assms(4))
  moreover have "reachable_broker width b ms (b'\<lparr>waiting := (waiting b')(d := None)\<rparr>)"
    using b'(2) by (auto simp: reachable_broker_def)
  ultimately show ?thesis using b'(3) assms(3) by (auto simp: race_ok_def)
qed

section \<open>What the accesses find\<close>

lemma command_text_ok:
  assumes "command_ok c"
  shows "clean (command_text c)" and "length (command_text c) \<le> 200" and "command_text c \<noteq> []"
proof -
  show "clean (command_text c)" by (cases c) simp_all
  show "length (command_text c) \<le> 200"
  proof (cases c)
    case (Plain x)
    then show ?thesis using length_single [of x] by simp
  next
    case (Indexed x)
    then show ?thesis using length_sint [of x] by (simp add: index_command_def dec_def dec_nat.simps)
  next
    case (Numbered x k num)
    then show ?thesis using assms length_sint [of x] length_sint [of k] by (simp add: full_command_def)
  qed
  show "command_text c \<noteq> []" by (cases c) (simp_all add: single_command_def index_command_def full_command_def)
qed

lemma numbered_answer: "length i = 20 \<Longrightarrow> heart_answer 64 i t = Some (Some (i[0 := of_char CHR ''C'']))"
  by (simp add: heart_answer_def poke_def fetch_def)

text \<open>The command a device is sent, from the text the handler reads.\<close>

lemma command_result_answer:
  assumes "command_ok c"
  shows "\<exists>r i. command_result (command_text c) (replicate 20 0) = Some (r, i)
    \<and> heart_answer r i t = Some (Some (command_answer c))"
proof (cases c)
  case (Plain x)
  then have "0 < uint x" "uint x \<le> 254" "uint x AND 0xF0 \<noteq> 64" and l: "length (command_text c) < 4"
    using assms single_uint [of x] single_class [of x] length_single [of x] by auto
  moreover have "atoi (single_command x) = Some (uint x)"
    by (simp add: single_command_def atoi_dec_Nil int32_byte)
  ultimately show ?thesis
    using Plain by (simp add: command_result_def heart_answer_def retTOK_def bytes_def poke_def fetch_def)
next
  case (Indexed x)
  let ?i = "(replicate 20 0)[3 := 0x44, 4 := x] :: byte list"
  have "length (dec 68) = 2" and "1 \<le> length (dec (sint x))"
    by (simp add: dec_def dec_nat.simps) (simp add: Suc_le_eq)
  then have "4 \<le> length (command_text c)" using Indexed by (simp add: index_command_def)
  moreover have "heart_param (index_command 0x44 x) (replicate 20 0) = Some (sint (0x44 :: byte), ?i)"
    by (intro heart_param_index) auto
  moreover have "?i[0 := of_char CHR ''C''] = command_answer c"
    using Indexed by (simp add: bytes_def numeral_eq_Suc)
  ultimately show ?thesis
    using Indexed numbered_answer [of ?i t] by (simp add: command_result_def)
next
  case (Numbered x k num)
  let ?i = "take 3 (replicate 20 0) @ [x, k] @ map recode num @ drop 13 (replicate 20 0) :: byte list"
  have num: "numbered x" "length num = 8" using assms Numbered by simp_all
  have "4 \<le> length (command_text c)" using Numbered num by (simp add: full_command_def)
  moreover have "heart_param (full_command x k num) (replicate 20 0) = Some (sint x, ?i)"
    using check_numbered [OF num(1)] num(2) by (intro heart_param_text) auto
  moreover have "length ?i = 20" using num(2) by simp
  moreover have "?i[0 := of_char CHR ''C''] = command_answer c"
    using Numbered by (simp add: bytes_def numeral_eq_Suc)
  ultimately show ?thesis
    using Numbered check_numbered [OF num(1)] numbered_answer [of ?i t] by (simp add: command_result_def)
qed

context backend
begin

lemma quiet_read: "get_value_fromredis E k v off w = Some (r, v', w') \<Longrightarrow>
    idle (ext w') = idle (ext w) \<and> localtime_now w' = localtime_now w"
  using pool.get_obs same_but_ext_fields(3) [OF get_value_frame] by blast

lemma read_missing:
  assumes "plain k" and "length k < 252" and "kv (ext w) k = None"
  shows "\<exists>w'. get_value_fromredis E k v off w = Some (-1, v, w') \<and> kv (ext w') = kv (ext w)
    \<and> idle (ext w') = idle (ext w) \<and> localtime_now w' = localtime_now w"
  using get_none [OF assms, of v off] quiet_read by metis

lemma read_found:
  assumes "plain k" and "length k < 252" and "kv (ext w) k = Some u" and "clean u" and "length u \<le> 254"
    and "off + length u \<le> length v"
  shows "\<exists>w'. get_value_fromredis E k v off w =
      Some (int (length u), take off v @ u @ drop (off + length u) v, w') \<and> kv (ext w') = kv (ext w)
    \<and> idle (ext w') = idle (ext w) \<and> localtime_now w' = localtime_now w"
proof -
  have "0 \<notin> set u" using assms(4) by (simp add: clean_def)
  then show ?thesis using get_some [OF assms(1-3) _ assms(5,6)] quiet_read by metis
qed

lemma written:
  assumes "plain k" and "plain v" and "length k + length v < 251"
  shows "\<exists>w'. set_key_toredis E k v w = Some (0, w') \<and> kv (ext w') = (kv (ext w))(k \<mapsto> v)
    \<and> idle (ext w') = idle (ext w) \<and> localtime_now w' = localtime_now w"
  using set_ok [OF assms, of w] pool.set_obs same_but_ext_fields(3) by metis

lemma deleted:
  assumes "plain k" and "length k < 252"
  shows "\<exists>w'. del_redis_key E k w = Some (0, w') \<and> kv (ext w') = (kv (ext w))(k := None)
    \<and> idle (ext w') = idle (ext w) \<and> localtime_now w' = localtime_now w"
  using del_ok [OF assms, of w] pool.del_obs same_but_ext_fields(3) by metis

section \<open>The accesses under the invariant\<close>

lemma device_key:
  assumes "length d = 8"
  shows "plain (hex_text d)" and "length (hex_text d) = 16" and "0 \<notin> set (hex_text d)"
    and "plain (bytes ''R_'' @ hex_text d)" and "length (bytes ''R_'' @ hex_text d) < 252"
  using assms by (auto simp: plain_clean bytes_def simp flip: length_0_conv)

lemma owner_step:
  assumes "race_ok kv width t b ms w" and "length d = 8"
  shows "\<exists>w'. race_ok kv width t b ms w' \<and> pool_size idle w' = pool_size idle w
    \<and> get_value_fromredis E (bytes ''R_'' @ hex_text d) (replicate 256 0) 0 w = Some (case owner b d of
        None \<Rightarrow> (-1, replicate 256 0, w')
      | Some u \<Rightarrow> (int (length (dec (int u))), dec (int u) @ replicate (256 - length (dec (int u))) 0, w'))"
proof -
  obtain b' where b': "represents (kv (ext w)) b'" "broker_ok b'" "owner b' = owner b"
    using assms(1) by (rule race_okE)
  note k = device_key(4,5) [OF assms(2)]
  show ?thesis
  proof (cases "owner b d")
    case None
    then have "kv (ext w) (bytes ''R_'' @ hex_text d) = None"
      using represents_reads(1) [OF b'(1) assms(2)] b'(3) by simp
    from read_missing [OF k this] show ?thesis
      using None race_ok_frame [OF assms(1)] by (fastforce simp: pool_size_def)
  next
    case (Some u)
    have l: "length (dec (int u)) \<le> 8" using Some b'(2,3) by (auto simp: broker_ok_def intro: length_dec_user)
    have "kv (ext w) (bytes ''R_'' @ hex_text d) = Some (dec (int u))"
      using represents_reads(1) [OF b'(1) assms(2)] b'(3) Some by simp
    from read_found [OF k this, of 0 "replicate 256 0"] show ?thesis
      using Some l race_ok_frame [OF assms(1)] by (fastforce simp: pool_size_def)
  qed
qed

lemma waiting_step:
  assumes "race_ok kv width t b ms w" and "length d = 8"
  shows "\<exists>w'. race_ok kv width t b ms w' \<and> pool_size idle w' = pool_size idle w
    \<and> (get_value_fromredis E (hex_text d) (replicate 256 0) 0 w = Some (-1, replicate 256 0, w')
       \<or> (\<exists>c \<in> set (possible_commands b ms d). command_ok c
          \<and> get_value_fromredis E (hex_text d) (replicate 256 0) 0 w = Some (int (length (command_text c)),
              command_text c @ replicate (256 - length (command_text c)) 0, w')))"
proof -
  obtain b' where b': "represents (kv (ext w)) b'" "broker_ok b'" "reachable_broker width b ms b'"
    using assms(1) by (rule race_okE)
  have k: "plain (hex_text d)" "length (hex_text d) < 252" using device_key [OF assms(2)] by simp_all
  show ?thesis
  proof (cases "waiting b' d")
    case None
    then have "kv (ext w) (hex_text d) = None" using represents_reads(2) [OF b'(1) assms(2)] by simp
    from read_missing [OF k this] show ?thesis
      using race_ok_frame [OF assms(1)] by (fastforce simp: pool_size_def)
  next
    case (Some c)
    then have c: "command_ok c" "c \<in> set (possible_commands b ms d)"
      using b'(2,3) by (auto simp: broker_ok_def reachable_broker_def)
    have "kv (ext w) (hex_text d) = Some (command_text c)"
      using represents_reads(2) [OF b'(1) assms(2)] Some by simp
    from read_found [OF k this, of 0 "replicate 256 0"] show ?thesis
      using c command_text_ok [OF c(1)] race_ok_frame [OF assms(1)] by (fastforce simp: pool_size_def)
  qed
qed

lemma watch_step:
  assumes "race_ok kv width t b ms w" and "n < 10 ^ 8"
  shows "\<exists>w'. race_ok kv width t b ms w' \<and> pool_size idle w' = pool_size idle w
    \<and> (watch b n \<noteq> None \<longrightarrow> length (the (watch b n)) = 8)
    \<and> get_value_fromredis E (bytes ''RP_'' @ dec (int n)) (replicate 17 0) 0 w = Some (case watch b n of
        None \<Rightarrow> (-1, replicate 17 0, w') | Some d \<Rightarrow> (16, hex_text d @ [0], w'))"
proof -
  obtain b' where b': "represents (kv (ext w)) b'" "broker_ok b'" "watch b' = watch b"
    using assms(1) by (rule race_okE)
  have n: "0 \<le> int n" "int n < 10 ^ 8" using assms(2) by auto
  note k = phone_key(1) [OF n]
  have k2: "length (bytes ''RP_'' @ dec (int n)) < 252" using phone_key(2) [OF n] by simp
  show ?thesis
  proof (cases "watch b n")
    case None
    then have "kv (ext w) (bytes ''RP_'' @ dec (int n)) = None"
      using represents_reads(3) [OF b'(1) assms(2)] b'(3) by simp
    from read_missing [OF k k2 this] show ?thesis
      using None race_ok_frame [OF assms(1)] by (fastforce simp: pool_size_def)
  next
    case (Some d)
    have d: "length d = 8" using Some b'(2,3) by (auto simp: broker_ok_def)
    have "kv (ext w) (bytes ''RP_'' @ dec (int n)) = Some (hex_text d)"
      using represents_reads(3) [OF b'(1) assms(2)] b'(3) Some by simp
    from read_found [OF k k2 this, of 0 "replicate 17 0"] show ?thesis
      using Some d race_ok_frame [OF assms(1)] by (fastforce simp: pool_size_def)
  qed
qed

lemma report_step:
  assumes "race_ok kv width t b ms w" and "n < 10 ^ 8"
  shows "\<exists>w'. race_ok kv width t b ms w' \<and> pool_size idle w' = pool_size idle w
    \<and> (report b n = None \<and> get_value_fromredis E (dec (int n)) (replicate 260 0) 4 w = Some (-1, replicate 260 0, w')
       \<or> (\<exists>r \<in> set (possible_reports width b ms n). clean r \<and> length r \<le> 254
          \<and> get_value_fromredis E (dec (int n)) (replicate 260 0) 4 w =
            Some (int (length r), replicate 4 0 @ r @ replicate (256 - length r) 0, w')))"
proof -
  obtain b' where b': "represents (kv (ext w)) b'" "broker_ok b'" "reachable_broker width b ms b'"
    using assms(1) by (rule race_okE)
  have k: "plain (dec (int n))" "length (dec (int n)) < 252"
    using length_dec_user [OF assms(2)] by (simp_all add: plain_clean)
  show ?thesis
  proof (cases "report b' n")
    case None
    then have "kv (ext w) (dec (int n)) = None" using represents_reads(4) [OF b'(1) assms(2)] by simp
    from read_missing [OF k this] have "\<exists>w'. race_ok kv width t b ms w' \<and> pool_size idle w' = pool_size idle w
        \<and> get_value_fromredis E (dec (int n)) (replicate 260 0) 4 w = Some (-1, replicate 260 0, w')"
      using race_ok_frame [OF assms(1)] by (fastforce simp: pool_size_def)
    moreover have "report b n = None" using None b'(3) by (auto simp: reachable_broker_def)
    ultimately show ?thesis by blast
  next
    case (Some r)
    then have r: "clean r" "length r \<le> 254" "r \<in> set (possible_reports width b ms n)"
      using b'(2,3) by (auto simp: broker_ok_def reachable_broker_def)
    have "kv (ext w) (dec (int n)) = Some r" using represents_reads(4) [OF b'(1) assms(2)] Some by simp
    from read_found [OF k this r(1,2), of 4 "replicate 260 0"] show ?thesis
      using r race_ok_frame [OF assms(1)] by (fastforce simp: pool_size_def)
  qed
qed

text \<open>The same as rules for the callbacks.\<close>

lemma owner_sound:
  assumes "length d = 8" and "owner b d = None \<Longrightarrow> race.sound kv width t b ms idle P n 0 (k (-1, replicate 256 0))"
    and "\<And>u. owner b d = Some u \<Longrightarrow> u < 10 ^ 8 \<Longrightarrow> race.sound kv width t b ms idle P n 0
      (k (int (length (dec (int u))), dec (int u) @ replicate (256 - length (dec (int u))) 0))"
  shows "race.sound kv width t b ms idle P (Suc n) 0
    (followed_by (reading E (bytes ''R_'' @ hex_text d) (replicate 256 0) 0) k)"
  unfolding reading_def
proof (rule race.sound_quiet_step)
  fix w
  assume ok: "race_ok kv width t b ms w"
  have "owner b d = Some u \<Longrightarrow> u < 10 ^ 8" for u
    using ok by (auto elim!: race_okE simp: broker_ok_def)
  then show "\<exists>y s'. do { (r, v, w') \<leftarrow> get_value_fromredis E (bytes ''R_'' @ hex_text d) (replicate 256 0) 0 w;
        Some ((r, v), w') } = Some (y, s') \<and> race_ok kv width t b ms s' \<and> pool_size idle s' = pool_size idle w
      \<and> race.sound kv width t b ms idle P n 0 (k y)"
    using owner_step [OF ok assms(1)] assms(2,3) by (cases "owner b d") auto
qed

lemma report_sound:
  assumes "u < 10 ^ 8" and "clean r" and "r \<noteq> []" and "length r \<le> 200" and "r \<in> set (possible_reports width b ms u)"
    and "race.sound kv width t b ms idle P n 0 (k 0)"
  shows "race.sound kv width t b ms idle P (Suc n) 0 (followed_by (storing E (dec (int u)) r) k)"
  unfolding storing_def
proof (rule race.sound_quiet_step)
  fix w
  assume ok: "race_ok kv width t b ms w"
  have "plain (dec (int u))" "plain r" "length (dec (int u)) + length r < 251"
    using assms(2-4) length_dec_user [OF assms(1)] by (simp_all add: plain_clean)
  then obtain w' where w': "set_key_toredis E (dec (int u)) r w = Some (0, w')"
      "kv (ext w') = (kv (ext w))(dec (int u) \<mapsto> r)" "idle (ext w') = idle (ext w)" "localtime_now w' = localtime_now w"
    using written by blast
  have "race_ok kv width t b ms w'"
    using assms(4) by (intro race_ok_report [OF ok w'(2,4) assms(1,2) _ assms(5)]) simp
  then show "\<exists>y s'. set_key_toredis E (dec (int u)) r w = Some (y, s') \<and> race_ok kv width t b ms s'
      \<and> pool_size idle s' = pool_size idle w \<and> race.sound kv width t b ms idle P n 0 (k y)"
    using w' assms(6) by (auto simp: pool_size_def)
qed

lemma changing_sound:
  assumes "\<And>w. \<exists>w'. f w = Some w' \<and> ext w' = ext w \<and> localtime_now w' = localtime_now w"
    and "race.sound kv width t b ms idle P n 0 (k ())"
  shows "race.sound kv width t b ms idle P (Suc n) 0 (followed_by (changing f) k)"
  unfolding changing_def
proof (rule race.sound_quiet_step)
  fix w
  assume ok: "race_ok kv width t b ms w"
  obtain w' where w': "f w = Some w'" "ext w' = ext w" "localtime_now w' = localtime_now w" using assms(1) by blast
  then show "\<exists>y s'. do { w' \<leftarrow> f w; Some ((), w') } = Some (y, s') \<and> race_ok kv width t b ms s'
      \<and> pool_size idle s' = pool_size idle w \<and> race.sound kv width t b ms idle P n 0 (k y)"
    using race_ok_frame [OF ok] assms(2) by (auto simp: pool_size_def)
qed

section \<open>Each callback keeps the invariant\<close>

lemma answer_sound:
  assumes "heart_answer r i t = Some a" and "answer_allowed width t b ms m a"
  shows "race.sound kv width t b ms idle (\<lambda>(r, a). answer_allowed width t b ms m a) (Suc 0) 0
    (followed_by (access (\<lambda>w. Some (localtime_now w, w))) (\<lambda>t. followed_by (compute (heart_answer r i t)) (\<lambda>a. Return (r, a))))"
  using assms by (intro race.sound_step) (auto simp: race_ok_def followed_by_compute)

lemma time_answer_allowed:
  assumes "r = 0 \<or> r = -1 \<or> r = -2"
  shows "heart_answer r i t = Some (Some (time_answer t))"
proof -
  have "sprintf_at (replicate 14 0) 0 (bytes ''RETOK'') = Some (bytes ''RETOK'' @ replicate 9 0)"
    by (simp add: sprintf_at_def blit_def numeral_eq_Suc)
  moreover have "writeTimeHeader t (bytes ''RETOK'' @ replicate 9 0) 6 = Some (time_answer t)"
    by (simp add: writeTimeHeader_blit blit_def time_answer_def time_bytes_def numeral_eq_Suc)
  moreover have "length (time_answer t) = 14" by (simp add: time_answer_def time_bytes_def)
  ultimately show ?thesis using assms by (auto simp: heart_answer_def fetch_def)
qed

lemma heart_command_sound:
  assumes "length d = 8" and "owner b d \<noteq> None"
  shows "race.sound kv width t b ms idle (\<lambda>(r, a). answer_allowed width t b ms (Device_heart d x) a) 3 0
    (followed_by (heart_command_steps E (hex_text d) (replicate 20 0)) (\<lambda>(r, i).
       followed_by (access (\<lambda>w. Some (localtime_now w, w))) (\<lambda>t. followed_by (compute (heart_answer r i t)) (\<lambda>a. Return (r, a)))))"
  (is "race.sound kv width t b ms idle ?P 3 0 (followed_by _ ?rest)")
proof -
  have k: "plain (hex_text d)" "length (hex_text d) < 252" using device_key [OF assms(1)] by simp_all
  have time: "race.sound kv width t b ms idle ?P 2 0 (?rest (0, replicate 20 0))"
  proof (rule race.sound_weaken)
    show "race.sound kv width t b ms idle ?P (Suc 0) 0 (?rest (0, replicate 20 0))"
      unfolding prod.case by (rule answer_sound [OF time_answer_allowed]) (simp_all add: answer_allowed_def)
  qed simp
  have delete: "race.sound kv width t b ms idle ?P 2 0 (followed_by (deleting E (hex_text d)) (\<lambda>_. ?rest (r, i)))"
    if c: "c \<in> set (possible_commands b ms d)" and a: "heart_answer r i t = Some (Some (command_answer c))" for c r i
  proof -
    have rest: "race.sound kv width t b ms idle ?P (Suc 0) 0 (?rest (r, i))"
      unfolding prod.case using c assms(2) by (intro answer_sound [OF a]) (auto simp: answer_allowed_def)
    show ?thesis
      unfolding deleting_def numeral_2_eq_2
    proof (rule race.sound_step)
      fix w
      assume ok: "race_ok kv width t b ms w"
      obtain w' where w': "del_redis_key E (hex_text d) w = Some (0, w')"
          "kv (ext w') = (kv (ext w))(hex_text d := None)" "idle (ext w') = idle (ext w)" "localtime_now w' = localtime_now w"
        using deleted [OF k, of w] by blast
      then show "\<exists>y s' h'. del_redis_key E (hex_text d) w = Some (y, s') \<and> race_ok kv width t b ms s'
          \<and> pool_size idle s' + h' = pool_size idle w + 0 \<and> race.sound kv width t b ms idle ?P (Suc 0) h' (?rest (r, i))"
        using race_ok_delivered [OF ok w'(2,4) assms(1)] rest by (auto simp: pool_size_def)
    qed simp
  qed
  show ?thesis
    unfolding heart_command_steps_def reading_def followed_by_assoc numeral_3_eq_3
  proof (rule race.sound_step)
    fix w
    assume ok: "race_ok kv width t b ms w"
    show "\<exists>y s' h'. do { (r, b, w') \<leftarrow> get_value_fromredis E (hex_text d) (replicate REDIS_COMMAND_LENGTH 0) 0 w;
          Some ((r, b), w') } = Some (y, s') \<and> race_ok kv width t b ms s'
        \<and> pool_size idle s' + h' = pool_size idle w + 0
        \<and> race.sound kv width t b ms idle ?P (Suc (Suc 0)) h' (followed_by (case y of (r, buf) \<Rightarrow>
            if r = -1 then Return (0, replicate 20 0)
            else followed_by (compute (do { s \<leftarrow> cstr buf 0; command_result s (replicate 20 0) }))
              (\<lambda>res. followed_by (deleting E (hex_text d)) (\<lambda>d. Return res))) ?rest)"
      using waiting_step [OF ok assms(1)]
    proof (elim exE conjE disjE bexE)
      fix w'
      assume "race_ok kv width t b ms w'" "pool_size idle w' = pool_size idle w"
        "get_value_fromredis E (hex_text d) (replicate 256 0) 0 w = Some (-1, replicate 256 0, w')"
      then show ?thesis using time by (simp add: numeral_2_eq_2)
    next
      fix w' c
      assume c: "c \<in> set (possible_commands b ms d)" "command_ok c"
        and g: "race_ok kv width t b ms w'" "pool_size idle w' = pool_size idle w"
          "get_value_fromredis E (hex_text d) (replicate 256 0) 0 w = Some (int (length (command_text c)),
            command_text c @ replicate (256 - length (command_text c)) 0, w')"
      obtain r i where r: "command_result (command_text c) (replicate 20 0) = Some (r, i)"
          "heart_answer r i t = Some (Some (command_answer c))"
        using command_result_answer [OF c(2)] by blast
      have "cstr (command_text c @ replicate (256 - length (command_text c)) 0) 0 = Some (command_text c)"
        using command_text_ok [OF c(2)] by (intro cstr_zeros) (auto simp: clean_def)
      then show ?thesis
        using g r delete [OF c(1) r(2)] by (simp add: followed_by_compute followed_by_assoc numeral_2_eq_2)
    qed
  qed simp
qed

lemma heart_step_list:
  assumes "message_ok (Device_heart d x)" and data: "data = 0x48 # d @ x @ old" and len: "length data = 1024"
  shows "message_steps E data 32 (Device_heart d x) =
    followed_by (reading E (bytes ''R_'' @ hex_text d) (replicate 256 0) 0) (\<lambda>(r, userBuf).
      if r = -1 then heart_reply_steps (-1, replicate 20 0)
      else followed_by (changing (falldown_thread data)) (\<lambda>_.
        followed_by (compute (do { u \<leftarrow> cstr userBuf 0; Some (state_report x, u) })) (\<lambda>(v, u).
          followed_by (storing E u v) (\<lambda>s.
            if s = -1 then heart_reply_steps (-2, replicate 20 0)
            else followed_by (heart_command_steps E (hex_text d) (replicate 20 0)) heart_reply_steps))))"
proof -
  have d: "length d = 8" and x: "length x = 23" using assms(1) by auto
  note f = device_fields(1,2) [OF data d x]
  have texts: "device_text data = Some (hex_text d)" "relationship_key (hex_text d) = Some (bytes ''R_'' @ hex_text d)"
    "device_info_text data = Some (state_report x)"
    using len f device_key(2,3) [OF d]
    by (simp_all add: device_text_eq relationship_key_eq device_info_text_eq)
  then show ?thesis
    by (auto simp: message_steps_def heart_steps_def followed_by_compute followed_by_assoc heart_reply_steps_def
        intro!: arg_cong [of _ _ "followed_by _"] ext)
qed

lemma heart_sound:
  assumes "message_ok (Device_heart d x)" and data: "data = 0x48 # d @ x @ old" and len: "length data = 1024"
    and m: "Device_heart d x \<in> set ms"
  shows "race.sound kv width t b ms idle (\<lambda>(r, a). answer_allowed width t b ms (Device_heart d x) a) 6 0
    (message_steps E data 32 (Device_heart d x))"
proof -
  let ?P = "\<lambda>(r :: int, a). answer_allowed width t b ms (Device_heart d x) a"
  let ?info = "replicate 20 0 :: byte list"
  have d: "length d = 8" and x: "length x = 23" using assms(1) by auto
  note f = device_fields(1,2) [OF data d x]
  have late: "race.sound kv width t b ms idle ?P 5 0 (heart_reply_steps (r, ?info))" if "r = -1" for r
  proof (rule race.sound_weaken)
    show "race.sound kv width t b ms idle ?P (Suc 0) 0 (heart_reply_steps (r, ?info))"
      unfolding heart_reply_steps_def prod.case using that by (intro answer_sound [OF time_answer_allowed]) (simp_all add: answer_allowed_def)
  qed simp
  have thread: "\<exists>w'. falldown_thread data w = Some w' \<and> ext w' = ext w \<and> localtime_now w' = localtime_now w"
    for w :: "'w world"
    using len by (simp add: falldown_thread_def pthread_create_def)
  have found: "race.sound kv width t b ms idle ?P 5 0 (followed_by (changing (falldown_thread data)) (\<lambda>_.
      followed_by (storing E (dec (int u)) (state_report x)) (\<lambda>s.
        if s = -1 then heart_reply_steps (-2, ?info) else followed_by (heart_command_steps E (hex_text d) ?info) heart_reply_steps)))"
    if u: "owner b d = Some u" "u < 10 ^ 8" for u
  proof -
    have "state_report x \<in> set (possible_reports width b ms u)"
      using u(1) m by (force simp: possible_reports_def reports_for_def)
    moreover have "clean (state_report x)" "length (state_report x) \<le> 200" "state_report x \<noteq> []"
      using length_heart_info [of data] len clean_heart_info [of data] heart_info_not_Nil [of data] f(2) by simp_all
    moreover have "race.sound kv width t b ms idle ?P 3 0 (followed_by (heart_command_steps E (hex_text d) ?info) heart_reply_steps)"
      unfolding heart_reply_steps_def using u(1) by (intro heart_command_sound d) simp
    ultimately have "race.sound kv width t b ms idle ?P (Suc (Suc 3)) 0 (followed_by (changing (falldown_thread data)) (\<lambda>_.
      followed_by (storing E (dec (int u)) (state_report x)) (\<lambda>s.
        if s = -1 then heart_reply_steps (-2, ?info) else followed_by (heart_command_steps E (hex_text d) ?info) heart_reply_steps)))"
      using u(2) thread by (intro changing_sound report_sound) simp_all
    moreover have "Suc (Suc 3) = 5" by simp
    ultimately show ?thesis by (simp only:)
  qed
  have "race.sound kv width t b ms idle ?P (Suc 5) 0 (message_steps E data 32 (Device_heart d x))"
    unfolding heart_step_list [OF assms(1) data len]
  proof (rule owner_sound [OF d])
    fix u
    assume u: "owner b d = Some u" "u < 10 ^ 8"
    have "cstr (dec (int u) @ replicate (256 - length (dec (int u))) 0) 0 = Some (dec (int u))"
      using length_dec_user [OF u(2)] by (intro cstr_zeros) auto
    then show "race.sound kv width t b ms idle ?P 5 0
        (case (int (length (dec (int u))), dec (int u) @ replicate (256 - length (dec (int u))) 0) of
          (r, userBuf) \<Rightarrow> if r = -1 then heart_reply_steps (-1, ?info)
            else followed_by (changing (falldown_thread data)) (\<lambda>_.
              followed_by (compute (do { u \<leftarrow> cstr userBuf 0; Some (state_report x, u) })) (\<lambda>(v, u).
                followed_by (storing E u v) (\<lambda>s.
                  if s = -1 then heart_reply_steps (-2, ?info) else followed_by (heart_command_steps E (hex_text d) ?info) heart_reply_steps))))"
      using found [OF u] by (simp add: followed_by_compute)
  qed (use late in simp)
  then show ?thesis by simp
qed

lemma phone_heart_sound:
  assumes "message_ok (Phone_heart p x)" and data: "data = 0x50 # p @ x @ old" and len: "length data = 1024"
  shows "race.sound kv width t b ms idle (\<lambda>(r, a). answer_allowed width t b ms (Phone_heart p x) a) 1 0
    (message_steps E data 8 (Phone_heart p x))"
proof -
  let ?P = "\<lambda>(r :: int, a). answer_allowed width t b ms (Phone_heart p x) a"
  let ?n = "number_of p"
  define rest where "rest = (\<lambda>(r :: int, i). followed_by (compute (cstr i 4)) (\<lambda>s. followed_by
    (compute (phone_heart_answer (int (length s)) i)) (\<lambda>a. Return (int (length s), a) :: ('w world, int \<times> byte list option) activity)))"
  have p: "length p = 4" using assms(1) by simp
  note f = phone_fields [OF data p]
  have five: "5 \<le> length data" using len by simp
  note num = phone_number_atoi [OF five]
  have "length (dec (phone_number data)) < 9" using length_phone_dec [OF five] by simp
  then obtain c where c: "sprintf_at (replicate 9 0) 0 (dec (phone_number data)) = Some c"
      "cstr c 0 = Some (dec (phone_number data))"
    using sprintf_ok [of "dec (phone_number data)" 0 "replicate 9 0"] by auto
  have steps: "message_steps E data 8 (Phone_heart p x) =
      followed_by (reading E (dec (int ?n)) (replicate 260 0) 4) rest"
    using c num(1) f(1)
    by (auto simp: message_steps_def phone_heart_steps_def phone_text_eq [OF five] followed_by_compute followed_by_assoc
        rest_def intro!: arg_cong [of _ _ "followed_by _"] ext)
  have silent: "race.sound kv width t b ms idle ?P 0 0 (rest (r, replicate 260 0))" if "report b ?n = None" for r
  proof -
    have "cstr (replicate 260 0) 4 = Some []" by (simp add: cstr_def)
    moreover have "phone_heart_answer 0 (replicate 260 0) = Some (Some (bytes ''RET:''))"
      by (simp add: phone_heart_answer_def blit_def fetch_def bytes_def)
    ultimately show ?thesis using that by (simp add: rest_def followed_by_compute answer_allowed_def)
  qed
  have found: "race.sound kv width t b ms idle ?P 0 0 (rest (i, replicate 4 0 @ r @ replicate (256 - length r) 0))"
    if r: "r \<in> set (possible_reports width b ms ?n)" "clean r" "length r \<le> 254" for r i
  proof -
    have "0 \<notin> set r" using r(2) by (simp add: clean_def)
    moreover have "replicate (256 - length r) (0::byte) = 0 # replicate (255 - length r) 0"
      using r(3) by (simp add: Suc_diff_le flip: replicate_Suc)
    ultimately have "cstr (replicate 4 0 @ r @ replicate (256 - length r) 0) 4 = Some r"
      using cstr_stored [of r 4 "replicate 4 0" "replicate (255 - length r) 0"] by simp
    moreover have "blit (replicate 4 0 @ r @ replicate (256 - length r) 0) 0 (bytes ''RET:'') =
        Some ((bytes ''RET:'' @ r) @ replicate (256 - length r) 0)"
      by (simp add: blit_def)
    then have "phone_heart_answer (int (length r)) (replicate 4 0 @ r @ replicate (256 - length r) 0) = Some (Some (bytes ''RET:'' @ r))"
      using r(3) by (simp add: phone_heart_answer_def fetch_def)
    ultimately show ?thesis using r(1) by (simp add: rest_def followed_by_compute answer_allowed_def)
  qed
  have "race.sound kv width t b ms idle ?P (Suc 0) 0 (message_steps E data 8 (Phone_heart p x))"
    unfolding steps reading_def
  proof (rule race.sound_quiet_step)
    fix w
    assume "race_ok kv width t b ms w"
    from report_step [OF this f(2)] show "\<exists>y s'. do { (r, v, w') \<leftarrow> get_value_fromredis E (dec (int ?n)) (replicate 260 0) 4 w;
          Some ((r, v), w') } = Some (y, s') \<and> race_ok kv width t b ms s' \<and> pool_size idle s' = pool_size idle w
        \<and> race.sound kv width t b ms idle ?P 0 0 (rest y)"
    proof (elim exE conjE disjE bexE)
      fix w'
      assume r: "report b ?n = None" and "race_ok kv width t b ms w'" "pool_size idle w' = pool_size idle w"
        "get_value_fromredis E (dec (int ?n)) (replicate 260 0) 4 w = Some (-1, replicate 260 0, w')"
      then show ?thesis using silent [OF r, of "-1"] by simp
    next
      fix w' r
      assume "race_ok kv width t b ms w'" "pool_size idle w' = pool_size idle w"
        "r \<in> set (possible_reports width b ms ?n)" "clean r" "length r \<le> 254"
        "get_value_fromredis E (dec (int ?n)) (replicate 260 0) 4 w =
          Some (int (length r), replicate 4 0 @ r @ replicate (256 - length r) 0, w')"
      then show ?thesis
        by (intro exI [of _ "(int (length r), replicate 4 0 @ r @ replicate (256 - length r) 0)"] exI [of _ w']
            conjI found) simp_all
    qed
  qed
  then show ?thesis by simp
qed

lemma command_sound:
  assumes "length d = 8" and "command_ok c" and "c \<in> set (possible_commands b ms d)"
    and "race.sound kv width t b ms idle P n 0 (k 0)"
  shows "race.sound kv width t b ms idle P (Suc n) 0 (followed_by (storing E (hex_text d) (command_text c)) k)"
  unfolding storing_def
proof (rule race.sound_quiet_step)
  fix w
  assume ok: "race_ok kv width t b ms w"
  have "plain (hex_text d)" "plain (command_text c)" "length (hex_text d) + length (command_text c) < 251"
    using device_key [OF assms(1)] command_text_ok [OF assms(2)] by (simp_all add: plain_clean)
  then obtain w' where w': "set_key_toredis E (hex_text d) (command_text c) w = Some (0, w')"
      "kv (ext w') = (kv (ext w))(hex_text d \<mapsto> command_text c)" "idle (ext w') = idle (ext w)"
      "localtime_now w' = localtime_now w"
    using written by blast
  then show "\<exists>y s'. set_key_toredis E (hex_text d) (command_text c) w = Some (y, s') \<and> race_ok kv width t b ms s'
      \<and> pool_size idle s' = pool_size idle w \<and> race.sound kv width t b ms idle P n 0 (k y)"
    using race_ok_command [OF ok w'(2,4) assms(1-3)] assms(4) by (auto simp: pool_size_def)
qed

lemma watch_sound:
  assumes "n < 10 ^ 8" and "watch b n = None \<Longrightarrow> race.sound kv width t b ms idle P j 0 (k (-1, replicate 17 0))"
    and "\<And>d. watch b n = Some d \<Longrightarrow> length d = 8 \<Longrightarrow> race.sound kv width t b ms idle P j 0 (k (16, hex_text d @ [0]))"
  shows "race.sound kv width t b ms idle P (Suc j) 0
    (followed_by (reading E (bytes ''RP_'' @ dec (int n)) (replicate 17 0) 0) k)"
  unfolding reading_def
proof (rule race.sound_quiet_step)
  fix w
  assume ok: "race_ok kv width t b ms w"
  from watch_step [OF ok assms(1)]
  show "\<exists>y s'. do { (r, v, w') \<leftarrow> get_value_fromredis E (bytes ''RP_'' @ dec (int n)) (replicate 17 0) 0 w;
        Some ((r, v), w') } = Some (y, s') \<and> race_ok kv width t b ms s' \<and> pool_size idle s' = pool_size idle w
      \<and> race.sound kv width t b ms idle P j 0 (k y)"
    using assms(2,3) by (cases "watch b n") auto
qed

lemma phone_command_step_list:
  assumes "message_ok (Phone_command p k i x)" and data: "data = 0x43 # p @ [k, i] @ x @ old" and len: "length data = 1024"
  shows "message_steps E data 16 (Phone_command p k i x) =
    followed_by (reading E (bytes ''RP_'' @ dec (int (number_of p))) (replicate 17 0) 0) (\<lambda>(r, devBuf).
      if r = -1 then Return (-1, None)
      else case command_of k i (take 8 x) of
        None \<Rightarrow> Return (0, None)
      | Some c \<Rightarrow> followed_by (compute (cstr devBuf 0)) (\<lambda>dev.
          followed_by (storing E dev (command_text c)) (\<lambda>s. Return (if s = -1 then -2 else 0, None))))"
proof -
  have p: "length p = 4" and x: "length x = 9" and k: "k \<noteq> CMD_PHONE_DEVICE_REALTIME_LOCATION"
    using assms(1) by auto
  note f = phone_fields [OF data p] and g = command_fields [OF data p x]
  have five: "5 \<le> length data" using len by simp
  note num = phone_number_atoi [OF five]
  have "0 \<notin> set (bytes ''RP_'' @ dec (phone_number data))" "length (bytes ''RP_'' @ dec (phone_number data)) < 14"
    using phone_key(1,2) [OF num(2,3)] by (simp_all add: plain_def)
  then obtain kb where kb: "sprintf_at (replicate 14 0) 0 (bytes ''RP_'' @ dec (phone_number data)) = Some kb"
      "cstr kb 0 = Some (bytes ''RP_'' @ dec (phone_number data))"
    using sprintf_ok [of "bytes ''RP_'' @ dec (phone_number data)" 0 "replicate 14 0"] by auto
  have peek: "peek data IDX_PHONE_COMMAND = Some k" using len g(1) by (simp add: peek_def)
  note steps = message_steps_def phone_command_steps_def phone_text_eq [OF five] followed_by_compute followed_by_assoc
  consider (none) "command_of k i (take 8 x) = None" | (full) "numbered k" "command_of k i (take 8 x) = Some (Numbered k i (take 8 x))"
    | (index) "k = 0x44" "command_of k i (take 8 x) = Some (Indexed i)"
    | (plain) "single k" "command_of k i (take 8 x) = Some (Plain k)"
    by (cases "command_of k i (take 8 x)") (auto simp: command_of_def split: if_splits)
  then show ?thesis
  proof cases
    case none
    then have "checkPhoneCommand k \<notin> {0, 1, 2, 4, 5, 6, 8}"
      using k by (auto simp: command_of_def single_def numbered_def checkPhoneCommand_def split: if_splits)
    then have "checkPhoneCommand k \<in> {-1, 3, 7}" using check_range [of k] by auto
    then show ?thesis
      using kb num(1) f(1) peek none by (auto simp: steps intro!: arg_cong [of _ _ "followed_by _"] ext)
  next
    case full
    have "command_value data = Some (full_command k i (take 8 x))"
      using command_value_full [OF len] check_numbered [OF full(1)] g by simp
    then show ?thesis
      using kb num(1) f(1) peek check_numbered [OF full(1)] full(2)
      by (auto simp: steps followed_by_undefined intro!: arg_cong [of _ _ "followed_by _"] ext split: bind_splits)
  next
    case index
    then have "command_value data = Some (index_command 0x44 i)" "checkPhoneCommand k = 4"
      using command_value_index [OF len] g by (simp_all add: checkPhoneCommand_def)
    then show ?thesis
      using kb num(1) f(1) peek index
      by (auto simp: steps followed_by_undefined intro!: arg_cong [of _ _ "followed_by _"] ext split: bind_splits)
  next
    case plain
    obtain cb where "sprintf_at (replicate 6 0) 0 (dec (uint k)) = Some cb" "cstr cb 0 = Some (single_command k)"
      using sprintf_ok [of "single_command k" 0 "replicate 6 0"] length_single [of k] clean_commands(1) [of k]
      by (auto simp: single_command_def clean_def)
    then show ?thesis
      using kb num(1) f(1) peek plain k
      by (auto simp: steps followed_by_undefined single_def intro!: arg_cong [of _ _ "followed_by _"] ext split: bind_splits)
  qed
qed

lemma phone_command_sound:
  assumes "message_ok (Phone_command p k i x)" and data: "data = 0x43 # p @ [k, i] @ x @ old"
    and len: "length data = 1024" and m: "Phone_command p k i x \<in> set ms"
  shows "race.sound kv width t b ms idle (\<lambda>(r, a). answer_allowed width t b ms (Phone_command p k i x) a) 2 0
    (message_steps E data 16 (Phone_command p k i x))"
proof -
  let ?P = "\<lambda>(r :: int, a). answer_allowed width t b ms (Phone_command p k i x) a"
  have p: "length p = 4" and x: "length x = 9" using assms(1) by auto
  show ?thesis
    unfolding phone_command_step_list [OF assms(1) data len] numeral_2_eq_2
  proof (rule watch_sound [OF phone_fields(2) [OF data p]])
    fix d
    assume w: "watch b (number_of p) = Some d" and d: "length d = 8"
    have dev: "cstr (hex_text d @ [0]) 0 = Some (hex_text d)"
      using cstr_zeros [of "hex_text d" 17] device_key(2,3) [OF d] by simp
    have put: "race.sound kv width t b ms idle ?P (Suc 0) 0
        (followed_by (storing E (hex_text d) (command_text c)) (\<lambda>s. Return (if s = -1 then -2 else 0, None)))"
      if c: "command_of k i (take 8 x) = Some c" for c
    proof (rule command_sound [OF d])
      show "command_ok c" using c x by (auto simp: command_of_def split: if_splits)
      have "commands_for b d (Phone_command p k i x) = [c]" using w c by (simp add: commands_for_def)
      then show "c \<in> set (possible_commands b ms d)" using m by (force simp: possible_commands_def)
    qed (simp add: answer_allowed_def)
    then show "race.sound kv width t b ms idle ?P (Suc 0) 0 (case (16 :: int, hex_text d @ [0]) of (r, devBuf) \<Rightarrow>
        if r = -1 then Return (-1, None)
        else case command_of k i (take 8 x) of
          None \<Rightarrow> Return (0, None)
        | Some c \<Rightarrow> followed_by (compute (cstr devBuf 0)) (\<lambda>dev.
            followed_by (storing E dev (command_text c)) (\<lambda>s. Return (if s = -1 then -2 else 0, None))))"
      by (cases "command_of k i (take 8 x)") (simp_all add: dev followed_by_compute answer_allowed_def)
  qed (simp add: answer_allowed_def)
qed

end

text \<open>
  The insertion of a location needs a connection of the pool. \<open>generous\<close>: the pool gives one
  while it has any, and the statement raises no exception.
\<close>

locale generous = backend E kv idle for E :: "'w externals" and kv and idle +
  assumes gives: "idle e \<noteq> {#} \<Longrightarrow> fst (ConnectionPool_getConnection E e) \<noteq> None"
    and runs: "Connection_execute E c s a e \<noteq> None"
begin

lemma insert_sound:
  assumes "race.sound kv width t b ms idle P n 0 (k OK)"
  shows "race.sound kv width t b ms idle P (Suc (Suc (Suc n))) 0 (followed_by (insert_steps E lon lat high d) k)"
proof -
  have give: "race.sound kv width t b ms idle P (Suc n) 1
      (followed_by (changing (\<lambda>w. Some (give_connection E con w))) (\<lambda>_. k OK))" for con
    unfolding changing_def
  proof (rule race.sound_step)
    fix w
    assume ok: "race_ok kv width t b ms w"
    have "race_ok kv width t b ms (give_connection E con w)"
      by (rule race_ok_frame [OF ok]) (simp_all add: give_connection_def pool_give)
    moreover have "pool_size idle (give_connection E con w) + 0 = pool_size idle w + 1" by (simp add: pool_size_def)
    ultimately show "\<exists>y s' h'. do { w' \<leftarrow> Some (give_connection E con w); Some ((), w') } = Some (y, s')
        \<and> race_ok kv width t b ms s' \<and> pool_size idle s' + h' = pool_size idle w + 1 \<and> race.sound kv width t b ms idle P n h' (k OK)"
      using assms by (intro exI [of _ "()"] exI [of _ "give_connection E con w"] exI [of _ 0]) simp
  qed simp
  have execute: "race.sound kv width t b ms idle P (Suc (Suc n)) 1
      (followed_by (changing (run_execute E con stmt args)) (\<lambda>_. followed_by (changing (\<lambda>w. Some (give_connection E con w))) (\<lambda>_. k OK)))"
    for con stmt args
    unfolding changing_def [of "run_execute E con stmt args"]
  proof (rule race.sound_step)
    fix w
    assume ok: "race_ok kv width t b ms w"
    obtain e where e: "Connection_execute E con stmt args (ext w) = Some e" using runs by (metis not_None_eq)
    have w': "run_execute E con stmt args w = Some (w\<lparr>ext := e\<rparr>)" using e by (simp add: run_execute_def)
    have "race_ok kv width t b ms (w\<lparr>ext := e\<rparr>)"
      by (rule race_ok_frame [OF ok]) (use sql_execute [OF e] in simp_all)
    then show "\<exists>y s' h'. do { w' \<leftarrow> run_execute E con stmt args w; Some ((), w') } = Some (y, s')
        \<and> race_ok kv width t b ms s' \<and> pool_size idle s' + h' = pool_size idle w + 1
        \<and> race.sound kv width t b ms idle P (Suc n) h' (followed_by (changing (\<lambda>w. Some (give_connection E con w))) (\<lambda>_. k OK))"
      using give [of con] w' execute_idle [OF w']
      by (intro exI [of _ "()"] exI [of _ "w\<lparr>ext := e\<rparr>"] exI [of _ 1]) (simp add: pool_size_def)
  qed simp
  show ?thesis
    unfolding insert_steps_def followed_by_assoc followed_by.simps(1)
  proof (rule race.sound_step)
    fix w
    assume ok: "race_ok kv width t b ms w" and stock: "(0 :: nat) = 0 \<Longrightarrow> 0 < pool_size idle w"
    then have "idle (ext w) \<noteq> {#}" by (auto simp: pool_size_def)
    then obtain con e where e: "ConnectionPool_getConnection E (ext w) = (Some con, e)"
      using gives by (metis not_None_eq prod.collapse)
    then have w': "take_connection E w = Some (con, w\<lparr>ext := e\<rparr>)" by (simp add: take_connection_def with_ext_def)
    have "race_ok kv width t b ms (w\<lparr>ext := e\<rparr>)"
      by (rule race_ok_frame [OF ok]) (use pool_take [OF e] in simp_all)
    then show "\<exists>y s' h'. take_connection E w = Some (y, s') \<and> race_ok kv width t b ms s'
        \<and> pool_size idle s' + h' = pool_size idle w + 0 \<and> race.sound kv width t b ms idle P (Suc (Suc n)) h'
          (followed_by (changing (run_execute E y SQL_INSERT_DEVICE_GPS [lon, lat, high, d])) (\<lambda>_.
            followed_by (changing (\<lambda>w. Some (give_connection E y w))) (\<lambda>_. k OK)))"
      using execute [of con] w' take_idle [OF w']
      by (intro exI [of _ con] exI [of _ "w\<lparr>ext := e\<rparr>"] exI [of _ 1]) (simp add: pool_size_def)
  qed simp
qed

lemma location_step_list:
  assumes "message_ok (Device_location d x)" and data: "data = 0x47 # d @ x @ old" and len: "length data = 1024"
    and width: "sizeof_long E = width" "width = 4 \<or> width = 8"
  shows "message_steps E data 32 (Device_location d x) =
    followed_by (reading E (bytes ''R_'' @ hex_text d) (replicate 256 0) 0) (\<lambda>(r, userBuf).
      if r = -1 then Return (-1, Some (bytes ''RETOK%''))
      else followed_by (changing (location_thread data (hex_text d) (longitude_of data) (latitude_of data))) (\<lambda>_.
        followed_by (insert_steps E (longitude_of data) (latitude_of data) (dec (signed_le (take 4 (drop 24 data)))) (hex_text d)) (\<lambda>_.
          followed_by (compute (do { u \<leftarrow> cstr userBuf 0; Some (u, place_report width x) })) (\<lambda>(u, v).
            followed_by (storing E u v) (\<lambda>s. Return (if s = -1 then -2 else 0, Some (bytes ''RETOK%'')))))))"
proof -
  let ?lon = "longitude_of data" and ?lat = "latitude_of data" and ?info = "place_report width x"
  let ?high = "signed_le (take 4 (drop 24 data))"
  have d: "length d = 8" and x: "length x = 23" using assms(1) by auto
  have w8: "width \<le> 8" using width(2) by auto
  note f = device_fields(1) [OF data d x] device_fields(3) [OF data d x w8]
  have texts: "device_text data = Some (hex_text d)" "relationship_key (hex_text d) = Some (bytes ''R_'' @ hex_text d)"
    using len f device_key(2,3) [OF d] by (simp_all add: device_text_eq relationship_key_eq)
  note fits = location_info_fits [OF len width(2), unfolded f]
  obtain hb where hb: "sprintf_at (replicate 12 0) 0 (dec ?high) = Some hb" "cstr hb 0 = Some (dec ?high)"
    using sprintf_ok [of "dec ?high" 0 "replicate 12 0"]
      dec_int32_length [OF signed_le_range, of "take 4 (drop 24 data)"] len by auto
  have "0 \<notin> set ?info" using fits(2) by (simp add: plain_def)
  then obtain gb where gb: "sprintf_at (replicate 256 0) 0 ?info = Some gb" "cstr gb 0 = Some ?info"
    using sprintf_ok [of ?info 0 "replicate 256 0"] fits(1) by auto
  have stamp: "int_at data 20 width = Some (signed_le (take width (drop 20 data)))"
    using len width(2) by (auto simp: int_at_def fetch_def)
  have co: "coordinate (of_char CHR ''E'') data 10 5 = Some ?lon" "coordinate (of_char CHR ''N'') data 15 5 = Some ?lat"
    unfolding longitude_of_def latitude_of_def using len by (intro coordinate_eq; simp)+
  have high: "int_at data 24 4 = Some ?high" using len by (simp add: int_at_def fetch_def)
  have info: "?info = bytes ''G_'' @ ?lon @ bytes ''_'' @ ?lat @ bytes ''_'' @ dec ?high @ bytes ''_0_''
      @ dec (signed_le (take width (drop 20 data)))"
    using f(2) by (simp add: location_info_def)
  have "fetch retTOK 0 6 = Some (bytes ''RETOK%'')" by (simp add: retTOK_def fetch_def bytes_def)
  then show ?thesis
    using hb gb stamp [folded width(1)] co high width(1) info
    by (auto simp: message_steps_def location_steps_def texts followed_by_compute followed_by_assoc
        simp del: of_char_of intro!: arg_cong [of _ _ "followed_by _"] ext)
qed

lemma location_sound:
  assumes "message_ok (Device_location d x)" and data: "data = 0x47 # d @ x @ old" and len: "length data = 1024"
    and m: "Device_location d x \<in> set ms" and width: "sizeof_long E = width" "width = 4 \<or> width = 8"
  shows "race.sound kv width t b ms idle (\<lambda>(r, a). answer_allowed width t b ms (Device_location d x) a) 6 0
    (message_steps E data 32 (Device_location d x))"
proof -
  let ?P = "\<lambda>(r :: int, a). answer_allowed width t b ms (Device_location d x) a"
  let ?info = "place_report width x"
  have d: "length d = 8" and x: "length x = 23" using assms(1) by auto
  have w8: "width \<le> 8" using width(2) by auto
  note fits = location_info_fits [OF len width(2), unfolded device_fields(3) [OF data d x w8]]
  have l: "length (longitude_of data) = 11" "length (latitude_of data) = 11"
    using len by (simp_all add: longitude_of_def latitude_of_def length_coord_text)
  have thread: "\<exists>w'. location_thread data (hex_text d) (longitude_of data) (latitude_of data) w = Some w'
      \<and> ext w' = ext w \<and> localtime_now w' = localtime_now w" for w :: "'w world"
    using len l device_key(2) [OF d] by (auto simp: location_thread_def sprintf_at_def blit_def pthread_create_def)
  have "race.sound kv width t b ms idle ?P (Suc (Suc (Suc (Suc (Suc (Suc 0)))))) 0
      (message_steps E data 32 (Device_location d x))"
    unfolding location_step_list [OF assms(1) data len width]
  proof (rule owner_sound [OF d])
    fix u
    assume u: "owner b d = Some u" "u < 10 ^ 8"
    have user: "cstr (dec (int u) @ replicate (256 - length (dec (int u))) 0) 0 = Some (dec (int u))"
      using length_dec_user [OF u(2)] by (intro cstr_zeros) auto
    have "reports_for width b u (Device_location d x) = [?info]" using u(1) by (simp add: reports_for_def)
    then have "?info \<in> set (possible_reports width b ms u)" using m by (force simp: possible_reports_def)
    then have "race.sound kv width t b ms idle ?P (Suc 0) 0 (followed_by (storing E (dec (int u)) ?info)
        (\<lambda>s. Return (if s = -1 then -2 else 0, Some (bytes ''RETOK%''))))"
      using u(2) fits by (intro report_sound) (auto simp: plain_clean answer_allowed_def)
    then have "race.sound kv width t b ms idle ?P (Suc (Suc (Suc (Suc (Suc 0))))) 0
        (followed_by (changing (location_thread data (hex_text d) (longitude_of data) (latitude_of data))) (\<lambda>_.
          followed_by (insert_steps E (longitude_of data) (latitude_of data) (dec (signed_le (take 4 (drop 24 data)))) (hex_text d)) (\<lambda>_.
            followed_by (storing E (dec (int u)) ?info) (\<lambda>s. Return (if s = -1 then -2 else 0, Some (bytes ''RETOK%''))))))"
      by (intro changing_sound thread insert_sound)
    then show "race.sound kv width t b ms idle ?P (Suc (Suc (Suc (Suc (Suc 0))))) 0
      (case (int (length (dec (int u))), dec (int u) @ replicate (256 - length (dec (int u))) 0) of (r, userBuf) \<Rightarrow>
        if r = -1 then Return (-1, Some (bytes ''RETOK%''))
        else followed_by (changing (location_thread data (hex_text d) (longitude_of data) (latitude_of data))) (\<lambda>_.
          followed_by (insert_steps E (longitude_of data) (latitude_of data) (dec (signed_le (take 4 (drop 24 data)))) (hex_text d)) (\<lambda>_.
            followed_by (compute (do { u \<leftarrow> cstr userBuf 0; Some (u, ?info) })) (\<lambda>(u, v).
              followed_by (storing E u v) (\<lambda>s. Return (if s = -1 then -2 else 0, Some (bytes ''RETOK%'')))))))"
      by (simp add: user followed_by_compute)
  qed (simp add: answer_allowed_def)
  then show ?thesis by (simp add: eval_nat_numeral)
qed

lemma message_sound:
  assumes "message_ok m" and "length (encode m @ old) = 1024" and "m \<in> set ms"
    and width: "sizeof_long E = width" "width = 4 \<or> width = 8"
  shows "race.sound kv width t b ms idle (\<lambda>(r, a). answer_allowed width t b ms m a) 6 0
    (message_steps E (encode m @ old) (int (length (encode m))) m)"
proof (cases m)
  case (Device_heart d x)
  then show ?thesis
    using heart_sound [where d = d and x = x and old = old and ms = ms, OF _ HOL.refl] assms message_length [OF assms(1)] by simp
next
  case (Device_location d x)
  then show ?thesis
    using location_sound [where d = d and x = x and old = old and ms = ms, OF _ HOL.refl] assms message_length [OF assms(1)] by simp
next
  case (Phone_heart p x)
  then have "race.sound kv width t b ms idle (\<lambda>(r, a). answer_allowed width t b ms m a) 1 0
      (message_steps E (encode m @ old) (int (length (encode m))) m)"
    using phone_heart_sound [where p = p and x = x and old = old, OF _ HOL.refl] assms message_length [OF assms(1)] by simp
  then show ?thesis by (rule race.sound_weaken) simp
next
  case (Phone_command p k i x)
  then have "race.sound kv width t b ms idle (\<lambda>(r, a). answer_allowed width t b ms m a) 2 0
      (message_steps E (encode m @ old) (int (length (encode m))) m)"
    using phone_command_sound [where p = p and k = k and i = i and x = x and old = old and ms = ms, OF _ HOL.refl]
      assms message_length [OF assms(1)] by simp
  then show ?thesis by (rule race.sound_weaken) simp
qed

end

section \<open>Any number of callbacks at once\<close>

text \<open>
  The callbacks of connections whose messages have been read: the connection, the message and
  what was left in the packet buffer behind it.
\<close>

type_synonym 'c arrived = "'c \<times> message \<times> byte list"

definition callback :: "('c \<Rightarrow> 'w externals) \<Rightarrow> 'c arrived \<Rightarrow> ('w world, int \<times> byte list option) activity" where
  "callback E x = (case x of (c, m, old) \<Rightarrow> message_steps (E c) (encode m @ old) (int (length (encode m))) m)"

definition arrived_ok :: "'c arrived \<Rightarrow> bool" where
  "arrived_ok x = (case x of (c, m, old) \<Rightarrow> message_ok m \<and> length (encode m @ old) = 1024)"

definition arrived_message :: "'c arrived \<Rightarrow> message" where
  "arrived_message x = fst (snd x)"

text \<open>A callback that is done has an allowed answer.\<close>

definition answered_well ::
    "nat \<Rightarrow> tm \<Rightarrow> broker \<Rightarrow> message list \<Rightarrow> 'c arrived \<Rightarrow> ('w world, int \<times> byte list option) activity \<Rightarrow> bool" where
  "answered_well width t b ms x a = (case a of
     Return ra \<Rightarrow> answer_allowed width t b ms (arrived_message x) (snd ra) | Access f \<Rightarrow> True)"

sublocale connections \<subseteq> provider: generous "E c" "\<lambda>e. net_kv (view e)" "\<lambda>e. net_idle (view e)" for c
  by unfold_locales (rule free, assumption, rule executes)

context connections
begin

lemma callbacks_sound:
  assumes "represents (net_kv (view (ext w))) b" and "list_all arrived_ok xs" and "length xs \<le> size (net_idle (view (ext w)))"
  shows "race.sound_threads (\<lambda>e. net_kv (view e)) width (localtime_now w) b (map arrived_message xs) (\<lambda>e. net_idle (view e))
    (\<lambda>i (r, a). answer_allowed width (localtime_now w) b (map arrived_message xs) (arrived_message (xs ! i)) a)
    (\<lambda>_. 6) (\<lambda>_. 0) (map (callback E) xs, w)"
proof -
  have "race.sound (\<lambda>e. net_kv (view e)) width (localtime_now w) b (map arrived_message xs) (\<lambda>e. net_idle (view e))
      (\<lambda>(r, a). answer_allowed width (localtime_now w) b (map arrived_message xs) (arrived_message (xs ! i)) a) 6 0
      (callback E (xs ! i))" if i: "i < length xs" for i
  proof -
    obtain c m old where x: "xs ! i = (c, m, old)" by (metis prod_cases3)
    have "arrived_ok (xs ! i)" using assms(2) i by (simp add: list_all_length)
    then have ok: "message_ok m" "length (encode m @ old) = 1024" by (simp_all add: x arrived_ok_def)
    have "m \<in> set (map arrived_message xs)" using i x by (force simp: arrived_message_def in_set_conv_nth)
    from provider.message_sound [OF ok this widths width_of_long] show ?thesis
      by (simp add: x callback_def arrived_message_def)
  qed
  moreover have "race_ok (\<lambda>e. net_kv (view e)) width (localtime_now w) b (map arrived_message xs) w"
    using assms(1) by (rule race_ok_start)
  ultimately show ?thesis
    using assms(3) by (simp add: race.sound_threads_def pool_size_def)
qed

lemma callbacks_interleaved:
  assumes "represents (net_kv (view (ext w))) b" and "list_all arrived_ok xs" and "length xs \<le> size (net_idle (view (ext w)))"
    and run: "interleaved k (map (callback E) xs, w) (js, w')"
  shows "k \<le> 6 * length xs" and "\<not> stuck_thread (js, w') i"
    and "\<exists>j q. interleaved j (js, w') q \<and> all_done (fst q)"
    and "list_all2 (answered_well width (localtime_now w) b (map arrived_message xs)) xs js"
    and "\<exists>b'. represents (net_kv (view (ext w'))) b' \<and> reachable_broker width b (map arrived_message xs) b'"
proof -
  obtain n h where s: "race.sound_threads (\<lambda>e. net_kv (view e)) width (localtime_now w) b (map arrived_message xs) (\<lambda>e. net_idle (view e))
      (\<lambda>i (r, a). answer_allowed width (localtime_now w) b (map arrived_message xs) (arrived_message (xs ! i)) a) n h (js, w')"
      and len: "length js = length xs" and k: "k + (\<Sum>i<length xs. n i) = (\<Sum>i<length xs. 6)"
    using race.interleaved_sound [OF run callbacks_sound [OF assms(1-3)]] by auto
  show "k \<le> 6 * length xs" using k by simp
  show "\<not> stuck_thread (js, w') i" using s by (rule race.sound_not_stuck)
  show "\<exists>j q. interleaved j (js, w') q \<and> all_done (fst q)" using s by (rule race.sound_completes)
  show "list_all2 (answered_well width (localtime_now w) b (map arrived_message xs)) xs js"
    using race.sound_result [OF s] len
    by (fastforce simp: list_all2_conv_all_nth answered_well_def split: activity.splits prod.splits)
  show "\<exists>b'. represents (net_kv (view (ext w'))) b' \<and> reachable_broker width b (map arrived_message xs) b'"
    using race.sound_inv [OF s] by (auto simp: race_ok_def)
qed

end

end
