(* ===== verification/Robot_Overtaking.thy ===== *)
theory Robot_Overtaking
  imports Robot_Race
begin

text \<open>
  A heart beat and a command for the same device at the same time. The heart beat reads the
  waiting command with GET and removes it with DEL; a command that a phone stores between the
  two is removed unread, although its handler reported success (\<open>command_lost\<close>). When no
  command waits, no interleaving loses the new one (\<open>lone_command_kept\<close>).
\<close>

unbundle bit_operations_syntax

section \<open>The heart beat up to its DEL\<close>

context backend
begin

lemma owner_found:
  assumes "represents (kv (ext w)) b" and "length d = 8" and "owner b d = Some u"
  shows "\<exists>w'. run_activity (reading E (bytes ''R_'' @ hex_text d) (replicate 256 0) 0) w =
      Some ((int (length (dec (int u))), dec (int u) @ replicate (256 - length (dec (int u))) 0), w')
    \<and> kv (ext w') = kv (ext w) \<and> idle (ext w') = idle (ext w) \<and> localtime_now w' = localtime_now w"
proof -
  have l: "length (dec (int u)) \<le> 8"
    using assms(3) represents_ok [OF assms(1)] by (auto simp: broker_ok_def intro: length_dec_user)
  have "kv (ext w) (bytes ''R_'' @ hex_text d) = Some (dec (int u))"
    using represents_reads(1) [OF assms(1,2)] assms(3) by simp
  from read_found [OF device_key(4,5) [OF assms(2)] this, of 0 "replicate 256 0"] l
  show ?thesis by (auto simp: run_accesses)
qed

lemma waiting_found:
  assumes "represents (kv (ext w)) b" and "length d = 8" and "waiting b d = Some c"
  shows "\<exists>w'. run_activity (reading E (hex_text d) (replicate 256 0) 0) w =
      Some ((int (length (command_text c)), command_text c @ replicate (256 - length (command_text c)) 0), w')
    \<and> kv (ext w') = kv (ext w) \<and> idle (ext w') = idle (ext w) \<and> localtime_now w' = localtime_now w"
proof -
  have c: "command_ok c" using assms(3) represents_ok [OF assms(1)] by (auto simp: broker_ok_def)
  have "kv (ext w) (hex_text d) = Some (command_text c)"
    using represents_reads(2) [OF assms(1,2)] assms(3) by simp
  moreover have "length (hex_text d) < 252" using device_key(2) [OF assms(2)] by simp
  ultimately show ?thesis
    using read_found [OF device_key(1) [OF assms(2)], of w "command_text c" 0 "replicate 256 0"] command_text_ok [OF c]
    by (auto simp: run_accesses)
qed

lemma report_written:
  assumes "represents (kv (ext w)) b" and "u < 10 ^ 8" and "clean r" and "r \<noteq> []" and "length r \<le> 200"
  shows "\<exists>w'. run_activity (storing E (dec (int u)) r) w = Some (0, w')
    \<and> represents (kv (ext w')) (b\<lparr>report := (report b)(u \<mapsto> r)\<rparr>)
    \<and> idle (ext w') = idle (ext w) \<and> localtime_now w' = localtime_now w"
proof -
  have "plain (dec (int u))" "plain r" "length (dec (int u)) + length r < 251"
    using assms(3-5) length_dec_user [OF assms(2)] by (simp_all add: plain_clean)
  then obtain w' where "set_key_toredis E (dec (int u)) r w = Some (0, w')"
      "kv (ext w') = (kv (ext w))(dec (int u) \<mapsto> r)" "idle (ext w') = idle (ext w)" "localtime_now w' = localtime_now w"
    using written by blast
  moreover from this(2) have "represents (kv (ext w')) (b\<lparr>report := (report b)(u \<mapsto> r)\<rparr>)"
    using assms(5) by (simp add: represents_report [OF assms(1,2,3)])
  ultimately show ?thesis by (auto simp: run_accesses)
qed

lemma interleaved_run:
  assumes "js ! i = followed_by a k" and "a = access f" and "run_activity a s = Some (x, t)" and "i < length js"
    and "interleaved n (js[i := k x], t) q"
  shows "interleaved (Suc n) (js, s) q"
  using assms by (intro interleaved_next [of n js i k x t q f s]) (simp_all add: run_access)

lemma heart_until_del:
  assumes "represents (kv (ext w)) b" and "message_ok (Device_heart d x)" and data: "data = 0x48 # d @ x @ old"
    and len: "length data = 1024" and "owner b d = Some u" and "waiting b d = Some c"
    and js: "js ! i = message_steps E data 32 (Device_heart d x)" "i < length js"
  shows "\<exists>w1 r info. heart_answer r info (localtime_now w) = Some (Some (command_answer c))
    \<and> represents (kv (ext w1)) (b\<lparr>report := (report b)(u \<mapsto> state_report x)\<rparr>)
    \<and> idle (ext w1) = idle (ext w) \<and> localtime_now w1 = localtime_now w
    \<and> interleaved 4 (js, w) (js[i := followed_by (deleting E (hex_text d)) (\<lambda>_. heart_reply_steps (r, info))], w1)"
proof -
  let ?b1 = "b\<lparr>report := (report b)(u \<mapsto> state_report x)\<rparr>"
  have d: "length d = 8" and x: "length x = 23" using assms(2) by auto
  note f = device_fields(1,2) [OF data d x]
  have u: "u < 10 ^ 8" and c: "command_ok c" using assms(5,6) represents_ok [OF assms(1)] by (auto simp: broker_ok_def)
  obtain r info where r: "command_result (command_text c) (replicate 20 0) = Some (r, info)"
      "heart_answer r info (localtime_now w) = Some (Some (command_answer c))"
    using command_result_answer [OF c] by blast
  let ?u = "dec (int u) @ replicate (256 - length (dec (int u))) 0"
  let ?c = "command_text c @ replicate (256 - length (command_text c)) 0"
  have texts: "cstr ?u 0 = Some (dec (int u))" "cstr ?c 0 = Some (command_text c)"
    using length_dec_user [OF u] command_text_ok [OF c] by (auto intro!: cstr_zeros simp: clean_def)
  obtain w1 where w1: "run_activity (reading E (bytes ''R_'' @ hex_text d) (replicate 256 0) 0) w =
      Some ((int (length (dec (int u))), ?u), w1)"
      "kv (ext w1) = kv (ext w)" "idle (ext w1) = idle (ext w)" "localtime_now w1 = localtime_now w"
    using owner_found [OF assms(1) d assms(5)] by blast
  define w2 where "w2 = (if data ! 10 AND 0x0F \<noteq> 0 then pthread_create Start_http_device_falldown w1 else w1)"
  have w2: "run_activity (changing (falldown_thread data)) w1 = Some ((), w2)" "ext w2 = ext w1" "localtime_now w2 = localtime_now w1"
    using len by (simp_all add: run_accesses falldown_thread_def w2_def pthread_create_def)
  have "clean (state_report x)" "state_report x \<noteq> []" "length (state_report x) \<le> 200"
    using length_heart_info [of data] len clean_heart_info [of data] heart_info_not_Nil [of data] f(2) by simp_all
  then obtain w3 where w3: "run_activity (storing E (dec (int u)) (state_report x)) w2 = Some (0, w3)"
      "represents (kv (ext w3)) ?b1" "idle (ext w3) = idle (ext w2)" "localtime_now w3 = localtime_now w2"
    using report_written [of w2 b u "state_report x"] assms(1) u w1(2) w2(2) by auto
  have "waiting ?b1 d = Some c" using assms(6) by simp
  then obtain w4 where w4: "run_activity (reading E (hex_text d) (replicate 256 0) 0) w3 =
      Some ((int (length (command_text c)), ?c), w4)"
      "kv (ext w4) = kv (ext w3)" "idle (ext w4) = idle (ext w3)" "localtime_now w4 = localtime_now w3"
    using waiting_found [OF w3(2) d] by blast
  let ?fin = "js[i := followed_by (deleting E (hex_text d)) (\<lambda>_. heart_reply_steps (r, info))]"
  have s4: "interleaved 0 (js[i := h3, i := followed_by (deleting E (hex_text d)) (\<lambda>_. heart_reply_steps (r, info))], w4) (?fin, w4)"
    for h3
    by (simp add: interleaved.start)
  let ?h3 = "followed_by (heart_command_steps E (hex_text d) (replicate 20 0)) heart_reply_steps"
  have s3: "interleaved (Suc 0) (js[i := h2, i := ?h3], w3) (?fin, w4)" for h2
  proof (rule interleaved_run [OF _ _ w4(1)])
    show "js[i := h2, i := ?h3] ! i = followed_by (reading E (hex_text d) (replicate 256 0) 0) (\<lambda>(r, buf).
       if r = -1 then heart_reply_steps (0, replicate 20 0)
       else followed_by (compute (do { s \<leftarrow> cstr buf 0; command_result s (replicate 20 0) })) (\<lambda>res.
         followed_by (deleting E (hex_text d)) (\<lambda>_. heart_reply_steps res)))"
      using js(2) by (simp add: heart_command_step_list)
  qed (use js(2) r(1) texts(2) s4 [of ?h3] in \<open>simp_all add: reading_def followed_by_compute\<close>)
  let ?k2 = "\<lambda>s :: int. if s = -1 then heart_reply_steps (-2, replicate 20 0) else ?h3"
  let ?h2 = "followed_by (storing E (dec (int u)) (state_report x)) ?k2"
  have s2: "interleaved (Suc (Suc 0)) (js[i := h1, i := ?h2], w2) (?fin, w4)" for h1
    using js(2) s3 [of ?h2] by (intro interleaved_run [where k = ?k2 and i = i, OF _ _ w3(1)]) (simp_all add: storing_def)
  let ?h1 = "followed_by (changing (falldown_thread data)) (\<lambda>_. ?h2)"
  have s1: "interleaved (Suc (Suc (Suc 0))) (js[i := ?h1], w1) (?fin, w4)"
    using js(2) s2 [of ?h1] by (intro interleaved_run [where k = "\<lambda>_. ?h2" and i = i, OF _ _ w2(1)]) (simp_all add: changing_def)
  have "interleaved (Suc (Suc (Suc (Suc 0)))) (js, w) (?fin, w4)"
    using js(2) s1 texts(1)
    by (intro interleaved_run [OF js(1) [unfolded heart_step_list [OF assms(2) data len]] _ w1(1)])
      (simp_all add: reading_def followed_by_compute)
  then show ?thesis
    using r(2) w3 w4 w1 w2 by (intro exI [of _ w4] exI [of _ r] exI [of _ info]) (simp add: eval_nat_numeral)
qed

lemma heart_from_del:
  assumes "represents (kv (ext w)) b" and "length d = 8" and "heart_answer r info (localtime_now w) = Some (Some a)"
  shows "\<exists>w'. run_activity (followed_by (deleting E (hex_text d)) (\<lambda>_. heart_reply_steps (r, info))) w = Some ((r, Some a), w')
    \<and> represents (kv (ext w')) (b\<lparr>waiting := (waiting b)(d := None)\<rparr>) \<and> localtime_now w' = localtime_now w"
proof -
  have "length (hex_text d) < 252" using device_key(2) [OF assms(2)] by simp
  then obtain w' where "del_redis_key E (hex_text d) w = Some (0, w')" "kv (ext w') = (kv (ext w))(hex_text d := None)"
      "localtime_now w' = localtime_now w"
    using deleted [OF device_key(1) [OF assms(2)]] by blast
  then show ?thesis
    using assms(3) represents_delivered [OF assms(1,2)] by (simp add: heart_reply_steps_def run_steps)
qed

lemma phone_command_run:
  assumes "represents (kv (ext w)) b" and "message_ok (Phone_command p k i y)"
    and "data = 0x43 # p @ [k, i] @ y @ old" and "length data = 1024"
    and "watch b (number_of p) = Some d" and "command_of k i (take 8 y) = Some cmd"
  shows "\<exists>w'. run_activity (message_steps E data 16 (Phone_command p k i y)) w = Some ((0, None), w')
    \<and> represents (kv (ext w')) (b\<lparr>waiting := (waiting b)(d \<mapsto> cmd)\<rparr>) \<and> localtime_now w' = localtime_now w"
proof -
  obtain w' where "phoneCommandPacket E data 16 w = Some (0, w')"
      "represents (kv (ext w')) (b\<lparr>waiting := (waiting b)(d \<mapsto> cmd)\<rparr>)"
    using command_accepted [OF assms] by blast
  moreover from this(1) have "localtime_now w' = localtime_now w" by (rule command_time)
  ultimately show ?thesis by (simp add: message_steps_def run_steps run_phone_command_steps)
qed

end

section \<open>A lost command\<close>

context connections
begin

lemma command_lost:
  assumes "represents (net_kv (view (ext w))) b" and "arrived_ok (c1, Device_heart d x, old1)"
    and "arrived_ok (c2, Phone_command p k i y, old2)" and "owner b d = Some u" and "waiting b d = Some cmd"
    and "watch b (number_of p) = Some d" and "command_of k i (take 8 y) = Some new"
  shows "\<exists>n r w'. interleaved n (map (callback E) [(c1, Device_heart d x, old1), (c2, Phone_command p k i y, old2)], w)
      ([Return (r, Some (command_answer cmd)), Return (0, None)], w')
    \<and> represents (net_kv (view (ext w')))
        (b\<lparr>report := (report b)(u \<mapsto> state_report x), waiting := (waiting b)(d := None)\<rparr>)"
proof -
  let ?m1 = "Device_heart d x" and ?m2 = "Phone_command p k i y"
  let ?js = "map (callback E) [(c1, ?m1, old1), (c2, ?m2, old2)]"
  let ?b1 = "b\<lparr>report := (report b)(u \<mapsto> state_report x)\<rparr>"
  have ok: "message_ok ?m1" "message_ok ?m2" and len: "length (encode ?m1 @ old1) = 1024" "length (encode ?m2 @ old2) = 1024"
    using assms(2,3) by (simp_all add: arrived_ok_def)
  then have js: "?js ! 0 = message_steps (E c1) (encode ?m1 @ old1) 32 ?m1" "?js ! 1 = message_steps (E c2) (encode ?m2 @ old2) 16 ?m2"
    using message_length [OF ok(1)] message_length [OF ok(2)] by (simp_all add: callback_def)
  have data: "encode ?m1 @ old1 = 0x48 # d @ x @ old1" "encode ?m2 @ old2 = 0x43 # p @ [k, i] @ y @ old2" by simp_all
  have d: "length d = 8" using ok(1) by simp
  obtain w1 r info where w1: "heart_answer r info (localtime_now w) = Some (Some (command_answer cmd))"
      "represents (net_kv (view (ext w1))) ?b1" "localtime_now w1 = localtime_now w"
      "interleaved 4 (?js, w) (?js[0 := followed_by (deleting (E c1) (hex_text d)) (\<lambda>_. heart_reply_steps (r, info))], w1)"
    using service.heart_until_del [OF assms(1) ok(1) data(1) len(1) assms(4,5) js(1)] by auto
  let ?h = "followed_by (deleting (E c1) (hex_text d)) (\<lambda>_. heart_reply_steps (r, info))"
  have "watch ?b1 (number_of p) = Some d" using assms(6) by simp
  then obtain w2 where w2: "run_activity (message_steps (E c2) (encode ?m2 @ old2) 16 ?m2) w1 = Some ((0, None), w2)"
      "represents (net_kv (view (ext w2))) (?b1\<lparr>waiting := (waiting ?b1)(d \<mapsto> new)\<rparr>)" "localtime_now w2 = localtime_now w1"
    using service.phone_command_run [OF w1(2) ok(2) data(2) len(2) _ assms(7)] by blast
  then obtain n2 where n2: "interleaved n2 (?js[0 := ?h], w1) (?js[0 := ?h, 1 := Return (0, None)], w2)"
    using run_alone [OF w2(1), of 1 "?js[0 := ?h]"] js(2) by auto
  obtain w3 where w3: "run_activity ?h w2 = Some ((r, Some (command_answer cmd)), w3)"
      "represents (net_kv (view (ext w3))) (?b1\<lparr>waiting := (waiting ?b1)(d := None)\<rparr>)"
    using service.heart_from_del [OF w2(2) d, of r info] w1(1,3) w2(3) by auto
  then obtain n3 where "interleaved n3 (?js[0 := ?h, 1 := Return (0, None)], w2)
      (?js[0 := ?h, 1 := Return (0, None), 0 := Return (r, Some (command_answer cmd))], w3)"
    using run_alone [OF w3(1), of 0 "?js[0 := ?h, 1 := Return (0, None)]"] by auto
  from interleaved_trans [OF interleaved_trans [OF this n2] w1(4)]
  show ?thesis using w3(2) by (intro exI [of _ "4 + (n2 + n3)"] exI [of _ r] exI [of _ w3]) simp
qed

text \<open>Two heart beats of one device, on two connections, can both be sent the same command.\<close>

lemma command_twice:
  assumes "represents (net_kv (view (ext w))) b" and "arrived_ok (c1, Device_heart d x1, old1)"
    and "arrived_ok (c2, Device_heart d x2, old2)" and "owner b d = Some u" and "waiting b d = Some cmd"
  shows "\<exists>n r1 r2 w'. interleaved n (map (callback E) [(c1, Device_heart d x1, old1), (c2, Device_heart d x2, old2)], w)
    ([Return (r1, Some (command_answer cmd)), Return (r2, Some (command_answer cmd))], w')"
proof -
  let ?m1 = "Device_heart d x1" and ?m2 = "Device_heart d x2"
  let ?js = "map (callback E) [(c1, ?m1, old1), (c2, ?m2, old2)]"
  have ok: "message_ok ?m1" "message_ok ?m2" and len: "length (encode ?m1 @ old1) = 1024" "length (encode ?m2 @ old2) = 1024"
    using assms(2,3) by (simp_all add: arrived_ok_def)
  then have js: "?js ! 0 = message_steps (E c1) (encode ?m1 @ old1) 32 ?m1" "?js ! 1 = message_steps (E c2) (encode ?m2 @ old2) 32 ?m2"
    using message_length [OF ok(1)] message_length [OF ok(2)] by (simp_all add: callback_def)
  have data: "encode ?m1 @ old1 = 0x48 # d @ x1 @ old1" "encode ?m2 @ old2 = 0x48 # d @ x2 @ old2" by simp_all
  have d: "length d = 8" using ok(1) by simp
  let ?h = "\<lambda>c z. followed_by (deleting (E c) (hex_text d)) (\<lambda>_. heart_reply_steps z)"
  obtain w1 r1 i1 where w1: "heart_answer r1 i1 (localtime_now w) = Some (Some (command_answer cmd))"
      "represents (net_kv (view (ext w1))) (b\<lparr>report := (report b)(u \<mapsto> state_report x1)\<rparr>)" "localtime_now w1 = localtime_now w"
      "interleaved 4 (?js, w) (?js[0 := ?h c1 (r1, i1)], w1)"
    using service.heart_until_del [OF assms(1) ok(1) data(1) len(1) assms(4,5) js(1)] by auto
  let ?js1 = "?js[0 := ?h c1 (r1, i1)]"
  have "?js1 ! 1 = message_steps (E c2) (encode ?m2 @ old2) 32 ?m2" "1 < length ?js1" using js(2) by simp_all
  from service.heart_until_del [OF w1(2) ok(2) data(2) len(2) _ _ this, of u cmd] assms(4,5) obtain b2 w2 r2 i2 where
      w2: "heart_answer r2 i2 (localtime_now w1) = Some (Some (command_answer cmd))" "represents (net_kv (view (ext w2))) b2"
      "localtime_now w2 = localtime_now w1" "interleaved 4 (?js1, w1) (?js1[1 := ?h c2 (r2, i2)], w2)"
    by auto
  let ?js2 = "?js1[1 := ?h c2 (r2, i2)]"
  obtain w3 where w3: "run_activity (?h c1 (r1, i1)) w2 = Some ((r1, Some (command_answer cmd)), w3)"
      "represents (net_kv (view (ext w3))) (b2\<lparr>waiting := (waiting b2)(d := None)\<rparr>)" "localtime_now w3 = localtime_now w2"
    using service.heart_from_del [OF w2(2) d, of r1 i1] w1(1,3) w2(3) by auto
  obtain w4 where w4: "run_activity (?h c2 (r2, i2)) w3 = Some ((r2, Some (command_answer cmd)), w4)"
    using service.heart_from_del [OF w3(2) d, of r2 i2] w2(1,3) w3(3) by auto
  obtain n3 where n3: "interleaved n3 (?js2, w2) (?js2[0 := Return (r1, Some (command_answer cmd))], w3)"
    using run_alone [OF w3(1), of 0 ?js2] by auto
  obtain n4 where n4: "interleaved n4 (?js2[0 := Return (r1, Some (command_answer cmd))], w3)
      (?js2[0 := Return (r1, Some (command_answer cmd)), 1 := Return (r2, Some (command_answer cmd))], w4)"
    using run_alone [OF w4, of 1 "?js2[0 := Return (r1, Some (command_answer cmd))]"] by auto
  from interleaved_trans [OF interleaved_trans [OF interleaved_trans [OF n4 n3] w2(4)] w1(4)] show ?thesis by auto
qed

end

section \<open>A command that does not meet another one\<close>

text \<open>The states of the heart beat until it looks for a command, and of the phone until it is done.\<close>

definition before_get ::
    "'w externals \<Rightarrow> byte list \<Rightarrow> byte list \<Rightarrow> byte list \<Rightarrow> nat
      \<Rightarrow> ('w world, int \<times> byte list option) activity \<Rightarrow> bool" where
  "before_get E data d x u a \<longleftrightarrow>
     (let look = followed_by (heart_command_steps E (hex_text d) (replicate 20 0)) heart_reply_steps;
          put = followed_by (storing E (dec (int u)) (state_report x))
            (\<lambda>s. if s = -1 then heart_reply_steps (-2, replicate 20 0) else look)
      in a = message_steps E data 32 (Device_heart d x) \<or> a = followed_by (changing (falldown_thread data)) (\<lambda>_. put)
        \<or> a = put \<or> a = look)"

definition before_set ::
    "'w externals \<Rightarrow> byte list \<Rightarrow> byte list \<Rightarrow> message \<Rightarrow> command
      \<Rightarrow> ('w world, int \<times> byte list option) activity \<Rightarrow> bool" where
  "before_set E data d m c a \<longleftrightarrow> a = message_steps E data 16 m
     \<or> a = followed_by (storing E (hex_text d) (command_text c)) (\<lambda>s. Return (if s = -1 then -2 else 0, None))"

lemma access_result:
  assumes "followed_by a k = Access f" and "a = access g" and "f s = Some (b, s')" and "run_activity a s = Some (x, t)"
  shows "b = k x \<and> s' = t"
  using assms by (auto simp: followed_by_access run_access)

context backend
begin

lemma get_step:
  assumes "followed_by (heart_command_steps E (hex_text d) (replicate 20 0)) heart_reply_steps = Access f"
    and "f s = Some (a, s')" and "represents (kv (ext s)) b" and "length d = 8"
  shows "kv (ext s') = kv (ext s) \<and> localtime_now s' = localtime_now s
    \<and> (waiting b d = None \<and> a = heart_reply_steps (0, replicate 20 0)
       \<or> (\<exists>c r i. waiting b d = Some c \<and> heart_answer r i (localtime_now s) = Some (Some (command_answer c))
            \<and> a = followed_by (deleting E (hex_text d)) (\<lambda>_. heart_reply_steps (r, i))))"
proof (cases "waiting b d")
  case None
  have "kv (ext s) (hex_text d) = None" using represents_reads(2) [OF assms(3,4)] None by simp
  moreover have "length (hex_text d) < 252" using device_key(2) [OF assms(4)] by simp
  ultimately obtain w where w: "run_activity (reading E (hex_text d) (replicate 256 0) 0) s = Some ((-1, replicate 256 0), w)"
      "kv (ext w) = kv (ext s)" "localtime_now w = localtime_now s"
    using read_missing [OF device_key(1) [OF assms(4)], of s "replicate 256 0" 0] by (auto simp: run_accesses)
  from access_result [OF assms(1) [unfolded heart_command_step_list reading_def] HOL.refl assms(2)] w(1)
  show ?thesis using w None by (simp add: reading_def)
next
  case (Some c)
  have c: "command_ok c" using Some represents_ok [OF assms(3)] by (auto simp: broker_ok_def)
  obtain r i where r: "command_result (command_text c) (replicate 20 0) = Some (r, i)"
      "heart_answer r i (localtime_now s) = Some (Some (command_answer c))"
    using command_result_answer [OF c] by blast
  have "cstr (command_text c @ replicate (256 - length (command_text c)) 0) 0 = Some (command_text c)"
    using command_text_ok [OF c] by (auto intro!: cstr_zeros simp: clean_def)
  moreover obtain w where w: "run_activity (reading E (hex_text d) (replicate 256 0) 0) s =
      Some ((int (length (command_text c)), command_text c @ replicate (256 - length (command_text c)) 0), w)"
      "kv (ext w) = kv (ext s)" "localtime_now w = localtime_now s"
    using waiting_found [OF assms(3,4) Some] by blast
  ultimately show ?thesis
    using access_result [OF assms(1) [unfolded heart_command_step_list reading_def] HOL.refl assms(2)] r Some
    by (auto simp: reading_def followed_by_compute)
qed

lemma heart_step:
  assumes "before_get E data d x u h" and "h = Access f" and "f s = Some (a, s')"
    and "represents (kv (ext s)) b" and "owner b d = Some u"
    and ok: "message_ok (Device_heart d x)" and data: "data = 0x48 # d @ x @ old" and len: "length data = 1024"
  shows "localtime_now s' = localtime_now s
    \<and> (before_get E data d x u a \<and> (\<exists>r. represents (kv (ext s')) (b\<lparr>report := r\<rparr>))
       \<or> kv (ext s') = kv (ext s) \<and> (waiting b d = None \<and> a = heart_reply_steps (0, replicate 20 0)
          \<or> (\<exists>c r i. waiting b d = Some c \<and> heart_answer r i (localtime_now s) = Some (Some (command_answer c))
              \<and> a = followed_by (deleting E (hex_text d)) (\<lambda>_. heart_reply_steps (r, i)))))"
proof -
  have d: "length d = 8" and x: "length x = 23" using ok by auto
  have u: "u < 10 ^ 8" using assms(4,5) represents_ok by (auto simp: broker_ok_def)
  have same: "\<exists>r. represents (kv (ext s)) (b\<lparr>report := r\<rparr>)" using assms(4) by (intro exI [of _ "report b"]) simp
  let ?look = "followed_by (heart_command_steps E (hex_text d) (replicate 20 0)) heart_reply_steps"
  let ?k = "\<lambda>s :: int. if s = -1 then heart_reply_steps (-2, replicate 20 0) else ?look"
  let ?put = "followed_by (storing E (dec (int u)) (state_report x)) ?k"
  consider "h = message_steps E data 32 (Device_heart d x)" | "h = followed_by (changing (falldown_thread data)) (\<lambda>_. ?put)"
    | "h = ?put" | "h = ?look"
    using assms(1) by (auto simp: before_get_def Let_def)
  then show ?thesis
  proof cases
    case 1
    let ?u = "dec (int u) @ replicate (256 - length (dec (int u))) 0"
    have user: "cstr ?u 0 = Some (dec (int u))" using length_dec_user [OF u] by (intro cstr_zeros) auto
    obtain w where w: "run_activity (reading E (bytes ''R_'' @ hex_text d) (replicate 256 0) 0) s =
        Some ((int (length (dec (int u))), ?u), w)" "kv (ext w) = kv (ext s)" "localtime_now w = localtime_now s"
      using owner_found [OF assms(4) d assms(5)] by blast
    have "a = followed_by (changing (falldown_thread data)) (\<lambda>_. ?put) \<and> s' = w"
      using access_result [OF 1 [unfolded heart_step_list [OF ok data len] assms(2) reading_def, symmetric] HOL.refl assms(3)] w(1)
      by (simp add: reading_def user followed_by_compute)
    then show ?thesis using w(2,3) same by (simp add: before_get_def Let_def)
  next
    case 2
    obtain w where w: "run_activity (changing (falldown_thread data)) s = Some ((), w)" "ext w = ext s"
        "localtime_now w = localtime_now s"
      using len by (simp add: run_accesses falldown_thread_def pthread_create_def)
    have "a = ?put \<and> s' = w"
      using access_result [OF 2 [unfolded assms(2) changing_def, symmetric] HOL.refl assms(3)] w(1)
      by (simp add: changing_def)
    then show ?thesis using w(2,3) same by (simp add: before_get_def Let_def)
  next
    case 3
    have "clean (state_report x)" "state_report x \<noteq> []" "length (state_report x) \<le> 200"
      using length_heart_info [of data] len clean_heart_info [of data] heart_info_not_Nil [of data]
        device_fields(2) [OF data d x] by simp_all
    then obtain w where w: "run_activity (storing E (dec (int u)) (state_report x)) s = Some (0, w)"
        "represents (kv (ext w)) (b\<lparr>report := (report b)(u \<mapsto> state_report x)\<rparr>)" "localtime_now w = localtime_now s"
      using report_written [OF assms(4) u] by blast
    have "a = ?look \<and> s' = w"
      using access_result [OF 3 [unfolded assms(2) storing_def, symmetric] HOL.refl assms(3)] w(1)
      by (simp add: storing_def)
    then show ?thesis using w(2,3) by (auto simp: before_get_def Let_def)
  next
    case 4
    then show ?thesis using get_step [of d f s a s' b] assms(2-4) d by blast
  qed
qed

lemma del_step:
  assumes "followed_by (deleting E (hex_text d)) (\<lambda>_. z) = Access f" and "f s = Some (a, s')"
    and "represents (kv (ext s)) b" and "length d = 8"
  shows "a = z \<and> localtime_now s' = localtime_now s \<and> represents (kv (ext s')) (b\<lparr>waiting := (waiting b)(d := None)\<rparr>)"
proof -
  have "length (hex_text d) < 252" using device_key(2) [OF assms(4)] by simp
  then obtain w where w: "del_redis_key E (hex_text d) s = Some (0, w)" "kv (ext w) = (kv (ext s))(hex_text d := None)"
      "localtime_now w = localtime_now s"
    using deleted [OF device_key(1) [OF assms(4)]] by blast
  have "a = z \<and> s' = w"
    using access_result [OF assms(1) [unfolded deleting_def] HOL.refl assms(2)] w(1) by (simp add: run_access)
  then show ?thesis using w(2,3) represents_delivered [OF assms(3,4)] by simp
qed

lemma phone_step:
  assumes "before_set E data d (Phone_command p k i y) c j" and "j = Access f" and "f s = Some (a, s')"
    and "represents (kv (ext s)) b" and "watch b (number_of p) = Some d" and "command_of k i (take 8 y) = Some c"
    and ok: "message_ok (Phone_command p k i y)" and data: "data = 0x43 # p @ [k, i] @ y @ old" and len: "length data = 1024"
  shows "localtime_now s' = localtime_now s
    \<and> (before_set E data d (Phone_command p k i y) c a \<and> kv (ext s') = kv (ext s)
       \<or> a = Return (0, None) \<and> represents (kv (ext s')) (b\<lparr>waiting := (waiting b)(d \<mapsto> c)\<rparr>))"
proof -
  have p: "length p = 4" and y: "length y = 9" using ok by auto
  have n: "number_of p < 10 ^ 8" by (rule phone_fields(2) [OF data p])
  have d: "length d = 8" using assms(5) represents_ok [OF assms(4)] by (auto simp: broker_ok_def)
  have c: "command_ok c" using assms(6) y by (auto simp: command_of_def split: if_splits)
  let ?set = "followed_by (storing E (hex_text d) (command_text c)) (\<lambda>s :: int. Return (if s = -1 then -2 else 0 :: int, None))"
  consider "j = message_steps E data 16 (Phone_command p k i y)" | "j = ?set"
    using assms(1) by (auto simp: before_set_def)
  then show ?thesis
  proof cases
    case 1
    have dev: "cstr (hex_text d @ [0]) 0 = Some (hex_text d)"
      using cstr_zeros [of "hex_text d" 17] device_key(2,3) [OF d] by simp
    have key: "plain (bytes ''RP_'' @ dec (int (number_of p)))" "length (bytes ''RP_'' @ dec (int (number_of p))) < 252"
      using phone_key(1,2) [of "int (number_of p)"] n by simp_all
    have "kv (ext s) (bytes ''RP_'' @ dec (int (number_of p))) = Some (hex_text d)"
      using represents_reads(3) [OF assms(4) n] assms(5) by simp
    from read_found [OF key this, of 0 "replicate 17 0"] obtain w where
        w: "run_activity (reading E (bytes ''RP_'' @ dec (int (number_of p))) (replicate 17 0) 0) s =
          Some ((16, hex_text d @ [0]), w)" "kv (ext w) = kv (ext s)" "localtime_now w = localtime_now s"
      using d by (auto simp: run_accesses)
    have "a = ?set \<and> s' = w"
      using access_result [OF 1 [unfolded phone_command_step_list [OF ok data len] assms(2) reading_def, symmetric]
          HOL.refl assms(3)] w(1) assms(6)
      by (simp add: reading_def dev followed_by_compute)
    then show ?thesis using w(2,3) by (simp add: before_set_def)
  next
    case 2
    have "plain (hex_text d)" "plain (command_text c)" "length (hex_text d) + length (command_text c) < 251"
      using device_key [OF d] command_text_ok [OF c] by (simp_all add: plain_clean)
    then obtain w where w: "set_key_toredis E (hex_text d) (command_text c) s = Some (0, w)"
        "kv (ext w) = (kv (ext s))(hex_text d \<mapsto> command_text c)" "localtime_now w = localtime_now s"
      using written by blast
    have "a = Return (0, None) \<and> s' = w"
      using access_result [OF 2 [unfolded assms(2) storing_def, symmetric] HOL.refl assms(3)] w(1)
      by (simp add: run_access)
    then show ?thesis using w(2,3) represents_waiting [OF assms(4) d c] by simp
  qed
qed

end

lemma reply_step:
  assumes "heart_reply_steps (r, i) = Access f" and "f s = Some (a, s')" and "heart_answer r i (localtime_now s) = Some v"
  shows "a = Return (r, v) \<and> s' = s"
  using access_result [OF assms(1) [unfolded heart_reply_steps_def prod.case] HOL.refl assms(2), of "localtime_now s" s] assms(3)
  by (simp add: run_access followed_by_compute)

text \<open>The states two callbacks can be in when no command waited at the start.\<close>

definition kept ::
    "'w externals \<Rightarrow> tm \<Rightarrow> byte list \<Rightarrow> command \<Rightarrow> (('w world, int \<times> byte list option) activity \<Rightarrow> bool)
      \<Rightarrow> (('w world, int \<times> byte list option) activity \<Rightarrow> bool) \<Rightarrow> broker
      \<Rightarrow> ('w world, int \<times> byte list option) activity \<Rightarrow> ('w world, int \<times> byte list option) activity \<Rightarrow> bool" where
  "kept E t d c early pending b h p \<longleftrightarrow>
     (early h \<or> h = heart_reply_steps (0, replicate 20 0) \<or> h = Return (0, Some (time_answer t)))
       \<and> (pending p \<and> waiting b d = None \<or> p = Return (0, None) \<and> waiting b d = Some c)
     \<or> p = Return (0, None) \<and> (\<exists>r i. heart_answer r i t = Some (Some (command_answer c))
       \<and> (waiting b d = Some c \<and> h = followed_by (deleting E (hex_text d)) (\<lambda>_. heart_reply_steps (r, i))
          \<or> waiting b d = None \<and> (h = heart_reply_steps (r, i) \<or> h = Return (r, Some (command_answer c)))))"

context backend
begin

lemma kept_heart:
  assumes "kept E t d c (before_get E data d x u) pending b h p" and "h = Access f" and "f s = Some (a, s')"
    and "represents (kv (ext s)) b" and "owner b d = Some u" and "localtime_now s = t"
    and ok: "message_ok (Device_heart d x)" and data: "data = 0x48 # d @ x @ old" and len: "length data = 1024"
  shows "\<exists>b'. represents (kv (ext s')) b' \<and> owner b' = owner b \<and> watch b' = watch b \<and> localtime_now s' = t
    \<and> kept E t d c (before_get E data d x u) pending b' a p"
proof -
  let ?before = "before_get E data d x u" and ?no = "heart_reply_steps (0, replicate 20 0)"
  have d: "length d = 8" using ok by simp
  consider (early) "?before h" "pending p \<and> waiting b d = None \<or> p = Return (0, None) \<and> waiting b d = Some c"
    | (no) "h = ?no" "pending p \<and> waiting b d = None \<or> p = Return (0, None) \<and> waiting b d = Some c"
    | (del) r i where "p = Return (0, None)" "heart_answer r i t = Some (Some (command_answer c))" "waiting b d = Some c"
        "h = followed_by (deleting E (hex_text d)) (\<lambda>_. heart_reply_steps (r, i))"
    | (reply) r i where "p = Return (0, None)" "heart_answer r i t = Some (Some (command_answer c))" "waiting b d = None"
        "h = heart_reply_steps (r, i)"
    using assms(1,2) by (auto simp: kept_def)
  then show ?thesis
  proof cases
    case early
    from heart_step [OF early(1) assms(2-5) ok data len] show ?thesis
    proof (elim conjE disjE exE)
      fix r
      assume "?before a" "represents (kv (ext s')) (b\<lparr>report := r\<rparr>)" "localtime_now s' = localtime_now s"
      then show ?thesis using early(2) assms(6) by (intro exI [of _ "b\<lparr>report := r\<rparr>"]) (simp add: kept_def)
    next
      assume "waiting b d = None" "a = ?no" "kv (ext s') = kv (ext s)" "localtime_now s' = localtime_now s"
      then show ?thesis using early(2) assms(4,6) by (intro exI [of _ b]) (simp add: kept_def)
    next
      fix c' r i
      assume "waiting b d = Some c'" "heart_answer r i (localtime_now s) = Some (Some (command_answer c'))"
        "a = followed_by (deleting E (hex_text d)) (\<lambda>_. heart_reply_steps (r, i))" "kv (ext s') = kv (ext s)"
        "localtime_now s' = localtime_now s"
      then show ?thesis using early(2) assms(4,6) by (intro exI [of _ b]) (auto simp: kept_def)
    qed
  next
    case no
    have "a = Return (0, Some (time_answer t)) \<and> s' = s"
      using reply_step [OF no(1) [unfolded assms(2), symmetric] assms(3) time_answer_allowed] assms(6) by simp
    then show ?thesis using no(2) assms(4,6) by (intro exI [of _ b]) (simp add: kept_def)
  next
    case del
    have "a = heart_reply_steps (r, i) \<and> localtime_now s' = localtime_now s
        \<and> represents (kv (ext s')) (b\<lparr>waiting := (waiting b)(d := None)\<rparr>)"
      by (rule del_step [OF del(4) [unfolded assms(2), symmetric] assms(3,4) d])
    then show ?thesis
      using del(1,2) assms(6) by (intro exI [of _ "b\<lparr>waiting := (waiting b)(d := None)\<rparr>"]) (auto simp: kept_def)
  next
    case reply
    have "a = Return (r, Some (command_answer c)) \<and> s' = s"
      using reply_step [OF reply(4) [unfolded assms(2), symmetric] assms(3)] reply(2) assms(6) by simp
    then show ?thesis using reply assms(4,6) by (intro exI [of _ b]) (auto simp: kept_def)
  qed
qed

lemma kept_phone:
  assumes "kept E' t d c early (before_set E data d (Phone_command p k i y) c) b h j" and "j = Access f" and "f s = Some (a, s')"
    and "represents (kv (ext s)) b" and "watch b (number_of p) = Some d" and "command_of k i (take 8 y) = Some c"
    and "localtime_now s = t"
    and ok: "message_ok (Phone_command p k i y)" and data: "data = 0x43 # p @ [k, i] @ y @ old" and len: "length data = 1024"
  shows "\<exists>b'. represents (kv (ext s')) b' \<and> owner b' = owner b \<and> watch b' = watch b \<and> localtime_now s' = t
    \<and> kept E' t d c early (before_set E data d (Phone_command p k i y) c) b' h a"
proof -
  have j: "before_set E data d (Phone_command p k i y) c j" and w: "waiting b d = None"
    and h: "early h \<or> h = heart_reply_steps (0, replicate 20 0) \<or> h = Return (0, Some (time_answer t))"
    using assms(1,2) by (auto simp: kept_def)
  from phone_step [OF j assms(2-6) ok data len] show ?thesis
  proof (elim conjE disjE)
    assume "before_set E data d (Phone_command p k i y) c a" "kv (ext s') = kv (ext s)" "localtime_now s' = localtime_now s"
    then show ?thesis using h w assms(4,7) by (intro exI [of _ b]) (simp add: kept_def)
  next
    assume "a = Return (0, None)" "represents (kv (ext s')) (b\<lparr>waiting := (waiting b)(d \<mapsto> c)\<rparr>)"
      "localtime_now s' = localtime_now s"
    then show ?thesis
      using h assms(7) by (intro exI [of _ "b\<lparr>waiting := (waiting b)(d \<mapsto> c)\<rparr>"]) (simp add: kept_def)
  qed
qed

end

context connections
begin

lemma lone_command:
  assumes rep: "represents (net_kv (view (ext w))) b" and x1: "arrived_ok (c1, Device_heart d x, old1)"
    and x2: "arrived_ok (c2, Phone_command p k i y, old2)" and own: "owner b d = Some u" and "waiting b d = None"
    and wat: "watch b (number_of p) = Some d" and cmd: "command_of k i (take 8 y) = Some c"
    and run: "interleaved n (map (callback E) [(c1, Device_heart d x, old1), (c2, Phone_command p k i y, old2)], w)
      ([Return (r, a), Return (r2, a2)], w')"
  shows "r2 = 0 \<and> (\<exists>b'. represents (net_kv (view (ext w'))) b'
    \<and> (a = Some (time_answer (localtime_now w)) \<and> waiting b' d = Some c
       \<or> a = Some (command_answer c) \<and> waiting b' d = None))"
proof -
  let ?m1 = "Device_heart d x" and ?m2 = "Phone_command p k i y" and ?t = "localtime_now w"
  let ?early = "before_get (E c1) (encode ?m1 @ old1) d x u" and ?pending = "before_set (E c2) (encode ?m2 @ old2) d ?m2 c"
  have ok: "message_ok ?m1" "message_ok ?m2" and len: "length (encode ?m1 @ old1) = 1024" "length (encode ?m2 @ old2) = 1024"
    using x1 x2 by (simp_all add: arrived_ok_def)
  have data: "encode ?m1 @ old1 = 0x48 # d @ x @ old1" "encode ?m2 @ old2 = 0x43 # p @ [k, i] @ y @ old2" by simp_all
  let ?I = "\<lambda>js s. \<exists>h j b'. js = [h, j] \<and> represents (net_kv (view (ext s))) b' \<and> owner b' = owner b \<and> watch b' = watch b
    \<and> localtime_now s = ?t \<and> kept (E c1) ?t d c ?early ?pending b' h j"
  have "?I (fst q) (snd q)" if "interleaved m (map (callback E) [(c1, ?m1, old1), (c2, ?m2, old2)], w) q" for m q
    using that
  proof (induction m "(map (callback E) [(c1, ?m1, old1), (c2, ?m2, old2)], w)" q rule: interleaved.induct)
    case start
    have "?early (message_steps (E c1) (encode ?m1 @ old1) 32 ?m1)" by (simp add: before_get_def Let_def)
    moreover have "?pending (message_steps (E c2) (encode ?m2 @ old2) 16 ?m2)" by (simp add: before_set_def)
    ultimately show ?case
      using rep assms(5) message_length [OF ok(1)] message_length [OF ok(2)]
      by (auto simp: callback_def kept_def)
  next
    case (access m js s g f z s')
    obtain h j b' where I: "js = [h, j]" "represents (net_kv (view (ext s))) b'" "owner b' = owner b" "watch b' = watch b"
        "localtime_now s = ?t" "kept (E c1) ?t d c ?early ?pending b' h j"
      using access.hyps(2) by auto
    show ?case
    proof (cases g)
      case 0
      have "h = Access f" using access.hyps(4) I(1) 0 by simp
      from service.kept_heart [OF I(6) this access.hyps(5) I(2) _ I(5) ok(1) data(1) len(1)] own I
      show ?thesis by (auto simp: 0)
    next
      case (Suc l)
      then have l: "l = 0" using access.hyps(3) I(1) by simp
      have "j = Access f" using access.hyps(4) I(1) Suc l by simp
      from service.kept_phone [OF I(6) this access.hyps(5) I(2) _ cmd I(5) ok(2) data(2) len(2)] wat I
      show ?thesis by (auto simp: Suc l)
    qed
  qed
  from this [OF run] obtain b' where b': "represents (net_kv (view (ext w'))) b'"
      "kept (E c1) ?t d c ?early ?pending b' (Return (r, a)) (Return (r2, a2))"
    by auto
  have "\<not> ?early (Return (r, a))"
    unfolding before_get_def service.heart_step_list [OF ok(1) data(1) len(1)] heart_command_step_list
    by (simp add: Let_def reading_def changing_def storing_def followed_by_access)
  moreover have "\<not> ?pending (Return (r2, a2))"
    unfolding before_set_def service.phone_command_step_list [OF ok(2) data(2) len(2)]
    by (simp add: reading_def storing_def followed_by_access)
  moreover have "Return (r, a) \<noteq> heart_reply_steps z"
    and "Return (r, a) \<noteq> followed_by (deleting (E c1) (hex_text d)) (\<lambda>_. heart_reply_steps z)" for z
    by (auto simp: heart_reply_steps_def deleting_def followed_by_access split: prod.splits)
  ultimately show ?thesis using b' by (auto simp: kept_def)
qed

end

section \<open>A case\<close>

text \<open>In the deployment of \<open>Robot_Sessions\<close> an alarm waits for the device.\<close>

definition busy_world :: "ref_net world" where
  "busy_world = net_world\<lparr>ext := (ext net_world)\<lparr>base := (base (ext net_world))\<lparr>ref_kv :=
     (ref_kv (base (ext net_world)))(hex_text demo_dev \<mapsto> command_text (Plain 0x08))\<rparr>\<rparr>\<rparr>"

definition busy_broker :: broker where
  "busy_broker = demo_broker\<lparr>waiting := (waiting demo_broker)(demo_dev \<mapsto> Plain 0x08)\<rparr>"

definition demo_alarm_off :: message where
  "demo_alarm_off = Phone_command [0, 0, 0, 7] 0x09 0 (replicate 9 0)"

lemma busy_represented: "represents (net_kv (net_view (ext busy_world))) busy_broker"
proof -
  have "command_ok (Plain 0x08)" by (simp add: single_def checkPhoneCommand_def)
  from represents_waiting [OF demo_broker_represented demo_lengths(7) this]
  show ?thesis by (simp add: busy_world_def busy_broker_def net_view_def)
qed

lemma busy_simps [simp]:
  "net_idle (net_view (ext busy_world)) = {#1, 2#}" "localtime_now busy_world = demo_tm"
  "owner busy_broker = [demo_dev \<mapsto> 7]" "watch busy_broker = [7 \<mapsto> demo_dev]"
  "waiting busy_broker = [demo_dev \<mapsto> Plain 0x08]" "report busy_broker = Map.empty"
  by (simp_all add: busy_world_def busy_broker_def net_world_def net_view_def demo_state_def)

lemma demo_arrived:
  "arrived_ok (c, demo_beat, replicate 992 0)" "arrived_ok (c, demo_alarm_on, replicate 1008 0)"
  "arrived_ok (c, demo_alarm_off, replicate 1008 0)"
  by (simp_all add: arrived_ok_def demo_beat_def demo_alarm_on_def demo_alarm_off_def)

lemma demo_alarm_off_command: "command_of 0x09 0 num = Some (Plain 0x09)"
  by (simp add: command_of_def numbered_def single_def checkPhoneCommand_def)

lemmas demo_arrived_parts = demo_arrived [unfolded demo_beat_def demo_alarm_on_def demo_alarm_off_def]

lemma busy_case:
  "owner busy_broker demo_dev = Some 7" "waiting busy_broker demo_dev = Some (Plain 0x08)"
  "watch busy_broker (number_of [0, 0, 0, 7]) = Some demo_dev" "command_of 0x09 0 (take 8 (replicate 9 0)) = Some (Plain 0x09)"
  by (simp_all add: demo_messages(3) demo_alarm_off_command)

lemma quiet_case:
  "owner demo_broker demo_dev = Some 7" "waiting demo_broker demo_dev = None"
  "watch demo_broker (number_of [0, 0, 0, 7]) = Some demo_dev" "command_of 0x08 0 (take 8 (replicate 9 0)) = Some (Plain 0x08)"
  by (simp_all add: demo_messages(3) demo_alarm_command)

text \<open>The two callbacks of the case, the device on connection 2 and the phone on connection 1.\<close>

definition busy_callbacks :: "(ref_net world, int \<times> byte list option) activity list" where
  "busy_callbacks = map (callback (net_externals DISK_FILE_SAVE))
     [(2, demo_beat, replicate 992 0), (1, demo_alarm_off, replicate 1008 0)]"

lemma busy_lost:
  "\<exists>n r w'. interleaved n (busy_callbacks, busy_world) ([Return (r, Some (command_answer (Plain 0x08))), Return (0, None)], w')"
  using connections.command_lost [OF ref_net.connections_axioms busy_represented demo_arrived_parts(1) demo_arrived_parts(3)
      busy_case] unfolding busy_callbacks_def demo_beat_def demo_alarm_off_def by blast

end
