(* ===== verification/Robot_Transfers.thy ===== *)
theory Robot_Transfers
  imports Robot_Sessions
begin

text \<open>
  Files over the connections. A device uploads a file in block packets, and every read of the
  server, a callback of its own, finds any stretch of the stream, within a packet or over several; another connection then asks for the
  file. \<open>upload_then_download\<close> says what the second connection is sent.
\<close>

unbundle bit_operations_syntax

section \<open>Callbacks of one connection\<close>

lemma serve_append:
  "serve E arrive (xs @ ys) client w = do {
     (c, w') \<leftarrow> serve E arrive xs client w; serve E arrive ys c w' }"
  by (induction xs arbitrary: client w) (auto split: bind_splits)

lemma serve_all_append:
  "serve_all E arrive (xs @ ys) clients w = do {
     (cs, w') \<leftarrow> serve_all E arrive xs clients w; serve_all E arrive ys cs w' }"
  by (induction xs arbitrary: clients w) (auto split: bind_splits)

lemma serve_all_one:
  "serve_all E arrive (map (Pair c) evs) clients w = do {
     (client', w') \<leftarrow> serve (E c) (arrive c) evs (clients c) w; Some (clients(c := client'), w') }"
proof (induction evs arbitrary: clients w)
  case (Cons ev evs)
  show ?case
    using serve_append [of "E c" "arrive c" "[ev]" evs "clients c" w]
    by (cases "serve (E c) (arrive c) [ev] (clients c) w")
      (auto simp: Cons.IH simp del: serve.simps split: bind_splits prod.splits)
qed simp

text \<open>A packet of the block protocol fits the packet buffer.\<close>

lemma packet_fits: "length dev = 8 \<Longrightarrow> length (packet dev content k) \<le> 1024"
  using length_packet [of dev content k] payload_le [of content k] by simp

lemma packet_length_middle:
  "length dev = 8 \<Longrightarrow> Suc k < n_packets (length content) \<Longrightarrow> length (packet dev content k) = 1024"
  using length_packet [of dev content k] payload_middle(1) [of k content] by simp

section \<open>What is still to come of an upload\<close>

text \<open>The stream from byte \<open>j\<close> of packet \<open>k\<close> on.\<close>

definition rest_of :: "byte list \<Rightarrow> byte list \<Rightarrow> nat \<Rightarrow> nat \<Rightarrow> byte list" where
  "rest_of dev content k j =
     drop j (packet dev content k) @ concat (map (packet dev content) [Suc k..<n_packets (length content)])"

text \<open>The client has taken in the stream but for the bytes \<open>r\<close>.\<close>

definition in_upload :: "byte list \<Rightarrow> byte list \<Rightarrow> byte list \<Rightarrow> byte list \<Rightarrow> client \<Rightarrow> bool" where
  "in_upload dev content blk r client \<longleftrightarrow> (\<exists>k j. k < n_packets (length content) \<and> j < length (packet dev content k)
     \<and> uploading dev content blk k j client (of_nat j) \<and> r = rest_of dev content k j)"

lemma in_upload_start:
  assumes "length dev = 8" and "content \<noteq> []" and "output_buffer client \<noteq> None" and "pBlock client = Some fresh_block"
  shows "in_upload dev content (replicate 32768 0) (concat (packets dev content)) client"
proof -
  have n: "0 < n_packets (length content)"
    using assms(2) n_packets_bound [of content] by (cases "n_packets (length content)") auto
  then have "rest_of dev content 0 0 = concat (packets dev content)"
    by (simp add: rest_of_def packets_def upt_conv_Cons)
  moreover have "0 < length (packet dev content 0)" using length_packet [OF assms(1)] by simp
  ultimately show ?thesis
    using n uploading_start [OF assms(3,4)] unfolding in_upload_def by (intro exI [of _ 0]) simp
qed

lemma in_upload_block:
  assumes "length dev = 8" and "in_upload dev content blk r client"
  obtains pb where "pBlock client = Some pb" and "length (bb_packet pb) = 1024" and "unat (bb_index pb) < 1024"
    and "output_buffer client \<noteq> None" and "r \<noteq> []"
proof -
  obtain k j where kj: "k < n_packets (length content)" "j < length (packet dev content k)"
      "uploading dev content blk k j client (of_nat j)" "r = rest_of dev content k j"
    using assms(2) by (auto simp: in_upload_def)
  have "j < 1024" using kj(2) packet_fits [OF assms(1), of content k] by simp
  then show ?thesis using kj that
    by (auto simp: uploading_def partial_data_def rest_of_def unsigned_of_nat take_bit_nat_eq_self)
qed

text \<open>A read of the loop stops at the end of a packet, so it never takes in more than what is left of it.\<close>

lemma chunk_continues:
  assumes "length dev = 8" and "n_packets (length content) \<le> 32" and "length blk = 32768"
    and "in_upload dev content blk r client" and "pBlock client = Some pb"
    and "take (length zs) r = zs" and ys: "ys = take (1024 - unat (bb_index pb)) zs" "ys \<noteq> []" "ys \<noteq> r"
  shows "\<exists>c1 pb1. upload_chunk E ys client (bb_index pb) v = Some (c1, bb_index pb1, v) \<and> pBlock c1 = Some pb1
    \<and> in_upload dev content blk (drop (length ys) r) c1"
proof -
  let ?p = "packet dev content" and ?n = "n_packets (length content)"
  obtain k j where kj: "k < ?n" "j < length (?p k)" "uploading dev content blk k j client (of_nat j)"
      "r = rest_of dev content k j"
    using assms(4) by (auto simp: in_upload_def)
  have j: "j < 1024" "unat (bb_index pb) = j" "bb_index pb = of_nat j"
    using kj(2,3) packet_fits [OF assms(1), of content k] assms(5)
    by (auto simp: uploading_def unsigned_of_nat take_bit_nat_eq_self)
  have pre: "take (length ys) r = ys" "length ys \<le> length r" "length ys \<le> 1024 - j"
    using ys(1) j(2) arg_cong [OF assms(6), of "take (1024 - j)"] arg_cong [OF assms(6), of length]
    by (simp_all add: min_def split: if_splits)
  have inside: "j + length ys \<le> length (?p k)"
  proof (cases "Suc k < ?n")
    case True
    then show ?thesis using pre(3) j(1) packet_length_middle [OF assms(1)] by simp
  next
    case False
    then show ?thesis using pre(2) kj(1,2,4) by (simp add: rest_of_def)
  qed
  have chunk: "take (length ys) (drop j (?p k)) = ys" using pre(1) inside kj(4) by (simp add: rest_of_def)
  show ?thesis
  proof (cases "j + length ys < length (?p k)")
    case True
    then obtain c1 where c1: "upload_chunk E ys client (of_nat j) v = Some (c1, of_nat (j + length ys), v)"
        "uploading dev content blk k (j + length ys) c1 (of_nat (j + length ys))"
      using chunk_partial [OF assms(1,2) kj(1,3) ys(2) chunk True] by blast
    have "drop (length ys) r = rest_of dev content k (j + length ys)"
      using inside kj(4) by (simp add: rest_of_def add.commute)
    then have "in_upload dev content blk (drop (length ys) r) c1"
      using kj(1) True c1(2) unfolding in_upload_def by blast
    then show ?thesis using c1 j(3) by (auto simp: uploading_def)
  next
    case False
    then have full: "j + length ys = length (?p k)" using inside by simp
    have "Suc k < ?n"
    proof (rule ccontr)
      assume "\<not> Suc k < ?n"
      then have "r = drop j (?p k)" using kj(4) by (simp add: rest_of_def)
      then show False using pre(1) full ys(3) by simp
    qed
    moreover from this obtain c1 where c1: "upload_chunk E ys client (of_nat j) v = Some (c1, 0, v)"
        "uploading dev content blk (Suc k) 0 c1 0"
      using chunk_middle [OF assms(1,2) _ kj(3) assms(3) ys(2) chunk full] by blast
    moreover have "drop (length ys) r = rest_of dev content (Suc k) 0"
      using full kj(2,4) \<open>Suc k < ?n\<close> by (simp add: rest_of_def upt_conv_Cons)
    moreover have "0 < length (?p (Suc k))" using length_packet [OF assms(1)] by simp
    ultimately have "in_upload dev content blk (drop (length ys) r) c1"
      unfolding in_upload_def by (intro exI [of _ "Suc k"] exI [of _ 0]) simp
    then show ?thesis using c1 j(3) by (auto simp: uploading_def)
  qed
qed

lemma chunk_completes:
  assumes "length dev = 8" and "n_packets (length content) \<le> 32" and "length blk = 32768"
    and "in_upload dev content blk r client" and "pBlock client = Some pb"
    and "length r \<le> 1024 - unat (bb_index pb)"
    and "save_type E = DISK_FILE_SAVE" and "creatable v (block_path DISK_FILE_SAVE (hex_text dev))"
  shows "\<exists>c1 w1 m. upload_chunk E r client (bb_index pb) v = Some (c1, of_nat m, w1) \<and> m \<le> 1024
    \<and> (c1, w1) = upload_answer E dev content blk client v \<and> output_buffer client \<noteq> None"
proof -
  let ?p = "packet dev content" and ?n = "n_packets (length content)"
  obtain k j where kj: "k < ?n" "j < length (?p k)" "uploading dev content blk k j client (of_nat j)"
      "r = rest_of dev content k j"
    using assms(4) by (auto simp: in_upload_def)
  have j: "j < 1024" "unat (bb_index pb) = j" "bb_index pb = of_nat j"
    using kj(2,3) packet_fits [OF assms(1), of content k] assms(5)
    by (auto simp: uploading_def unsigned_of_nat take_bit_nat_eq_self)
  have last: "Suc k = ?n"
  proof (rule ccontr)
    assume "Suc k \<noteq> ?n"
    then have "Suc k < ?n" using kj(1) by simp
    moreover from this have "length (?p (Suc k)) \<le> length (concat (map ?p [Suc k..<?n]))"
      by (simp add: upt_conv_Cons)
    moreover have "0 < length (?p (Suc k))" using length_packet [OF assms(1)] by simp
    ultimately have "length (?p k) = 1024" "0 < length (concat (map ?p [Suc k..<?n]))"
      using packet_length_middle [OF assms(1)] by (simp, linarith)
    moreover from this(1) have "length r = 1024 - j + length (concat (map ?p [Suc k..<?n]))"
      using kj(4) by (simp add: rest_of_def)
    ultimately show False using assms(6) unfolding j(2) by linarith
  qed
  have r: "r = drop j (?p k)" using kj(4) last by (simp add: rest_of_def)
  have "r \<noteq> []" "take (length r) (drop j (?p k)) = r" "j + length r = length (?p k)" using r kj(2) by simp_all
  from chunk_last [OF assms(1,2) last kj(3) assms(3) this assms(7,8)] obtain c1 w1 where
      "upload_chunk E r client (of_nat j) v = Some (c1, of_nat (32 + length (payload content k)), w1)"
      "(c1, w1) = upload_answer E dev content blk client v" by blast
  then show ?thesis
    using kj(3) j(3) payload_le [of content k] by (auto simp: uploading_def simp del: of_nat_add)
qed

text \<open>
  What the server does of a file that arrived on connection \<open>c\<close>: it is stored, acknowledged and
  handed to a thread. \<open>v\<close> and \<open>v'\<close> are the views before and after.
\<close>

definition upload_stored :: "'c \<Rightarrow> byte list \<Rightarrow> byte list \<Rightarrow> 'c net \<Rightarrow> 'w world \<Rightarrow> 'c net \<Rightarrow> 'w world \<Rightarrow> bool" where
  "upload_stored c dev content v w v' w' \<longleftrightarrow>
     v' = v\<lparr>sent := (sent v)(c := sent v c @ bytes ''SETOK%'')\<rparr>
     \<and> files w' = (files w)(block_path DISK_FILE_SAVE (hex_text dev) \<mapsto> content)
     \<and> started w' = started w @
         [Start_ApolloSynerAction \<lparr>syn_DeviceId = hex_text dev @ [0, 0], syn_flag = MULTICAST_TYPE_AGPS\<rparr>]"

lemma upload_stored_ext: "upload_stored c dev content v (w\<lparr>ext := e\<rparr>) v' w' = upload_stored c dev content v w v' w'"
  "upload_stored c dev content v w v' (w'\<lparr>ext := e\<rparr>) = upload_stored c dev content v w v' w'"
  by (simp_all add: upload_stored_def)

context connections
begin

section \<open>The read loop on a stretch of the stream\<close>

text \<open>One turn of the read loop.\<close>

lemma loop_turn:
  assumes "pBlock client = Some pb" and "length (bb_packet pb) = 1024" and "unat bi \<le> 1024"
    and xs: "xs = take (1024 - unat bi) (incoming (view (ext w)) c)"
  shows "\<exists>e1. view e1 = (view (ext w))\<lparr>incoming :=
      (incoming (view (ext w)))(c := drop (1024 - unat bi) (incoming (view (ext w)) c))\<rparr>
    \<and> parse_loop (E c) client bi w =
      (if xs = [] then Some (client, w\<lparr>ext := e1\<rparr>)
       else do { (c1, bi1, w1) \<leftarrow> upload_chunk (E c) xs client bi (w\<lparr>ext := e1\<rparr>); parse_loop (E c) c1 bi1 w1 })"
proof -
  obtain ys e1 where rm: "evbuffer_remove (E c) (1024 - unat bi) (ext w) = (ys, e1)" by fastforce
  note got = receive [OF rm]
  have le: "unat bi + length xs \<le> 1024" using assms(3) by (simp add: xs)
  have rd: "read_chunk (E c) client bi w =
      Some (client\<lparr>pBlock := Some (pb\<lparr>bb_packet := take (unat bi) (bb_packet pb) @ xs @ drop (unat bi + length xs) (bb_packet pb)\<rparr>)\<rparr>,
        length xs, w\<lparr>ext := e1\<rparr>)"
    using assms(1,2) rm got le by (simp add: read_chunk_def with_ext_def blit_def xs)
  show ?thesis
  proof (cases "xs = []")
    case True
    have "client\<lparr>pBlock := Some (pb\<lparr>bb_packet := bb_packet pb\<rparr>)\<rparr> = client" using assms(1) by simp
    then show ?thesis using True got rd by (intro exI [of _ e1]) (subst parse_loop.simps, simp)
  next
    case False
    then show ?thesis using got rd assms(1,2) le
      by (intro exI [of _ e1]) (subst parse_loop.simps, simp add: upload_chunk_def blit_def split_def)
  qed
qed

lemma answer_of_upload:
  assumes "(c1, w1) = upload_answer (E c) dev content blk client v" and "output_buffer client \<noteq> None"
    and "save_type (E c) = DISK_FILE_SAVE" and "staged (view (ext v)) c = []"
  shows "upload_stored c dev content (view (ext v)) v (view (ext w1)) w1
    \<and> (\<exists>pb1. pBlock c1 = Some pb1 \<and> bb_packet pb1 = partial_data (packet dev content (n_packets (length content) - 1))
        (32 + length (payload content (n_packets (length content) - 1))))"
proof -
  let ?k = "n_packets (length content) - 1"
  let ?client = "client\<lparr>pBlock := Some \<lparr>bb_buffer = content @ drop (length content) blk,
    bb_packet = partial_data (packet dev content ?k) (32 + length (payload content ?k)),
    bb_index = of_nat (32 + length (payload content ?k))\<rparr>\<rparr>"
  let ?v = "v\<lparr>files := (files v)(block_path DISK_FILE_SAVE (hex_text dev) \<mapsto> content)\<rparr>"
  have "staged (view (ext ?v)) c = []" using assms(4) by simp
  from answer_sent [OF this, of ?client "bytes ''SETOK%''"] obtain e where
      "send_answer (E c) ?client (bytes ''SETOK%'') ?v = (?client, ?v\<lparr>ext := e\<rparr>)"
      "view e = (view (ext v))\<lparr>sent := (sent (view (ext v)))(c := sent (view (ext v)) c @ bytes ''SETOK%'')\<rparr>" by auto
  moreover from this(1) have "c1 = ?client" "ext w1 = e"
    using assms(1,3) unfolding upload_answer_def by (simp_all add: send_answer_def pthread_create_def del: of_nat_add)
  ultimately show ?thesis using upload_answer_world [OF assms(1)] assms(3) by (simp add: upload_stored_def)
qed

text \<open>The loop on the bytes \<open>xs\<close> that wait: it takes all of them in.\<close>

lemma loop_upload:
  assumes "length dev = 8" and "n_packets (length content) \<le> 32" and "length blk = 32768"
    and "in_upload dev content blk r client" and "pBlock client = Some pb"
    and "take (length xs) r = xs" and "view (ext w) = v\<lparr>incoming := (incoming v)(c := xs)\<rparr>"
    and "save_type (E c) = DISK_FILE_SAVE" and "creatable w (block_path DISK_FILE_SAVE (hex_text dev))"
    and "staged v c = []" and "incoming v c = []"
  shows "(xs \<noteq> r \<longrightarrow> (\<exists>c' e. parse_loop (E c) client (bb_index pb) w = Some (c', w\<lparr>ext := e\<rparr>) \<and> view e = v
        \<and> in_upload dev content blk (drop (length xs) r) c'))
    \<and> (xs = r \<longrightarrow> (\<exists>c' w'. parse_loop (E c) client (bb_index pb) w = Some (c', w')
        \<and> upload_stored c dev content v w (view (ext w')) w'))"
  using assms(4-9)
proof (induction "length xs" arbitrary: xs r client pb w rule: less_induct)
  case less
  let ?room = "1024 - unat (bb_index pb)"
  have pb: "length (bb_packet pb) = 1024" "unat (bb_index pb) < 1024" "r \<noteq> []"
    using in_upload_block [OF assms(1) less.prems(1)] less.prems(2) by (metis option.inject)+
  have empty: "(incoming v)(c := []) = incoming v" using assms(11) by auto
  define ys where "ys = take ?room xs"
  have "ys = take ?room (incoming (view (ext w)) c)" by (simp add: ys_def less.prems(4))
  from loop_turn [OF less.prems(2) pb(1) less_imp_le [OF pb(2)] this]
  obtain e1 where e1: "view e1 = v\<lparr>incoming := (incoming v)(c := drop ?room xs)\<rparr>"
      "parse_loop (E c) client (bb_index pb) w = (if ys = [] then Some (client, w\<lparr>ext := e1\<rparr>)
        else do { (c1, bi1, w1) \<leftarrow> upload_chunk (E c) ys client (bb_index pb) (w\<lparr>ext := e1\<rparr>); parse_loop (E c) c1 bi1 w1 })"
    unfolding less.prems(4) by (elim exE conjE) simp
  have len: "length xs \<le> length r" using arg_cong [OF less.prems(3), of length] by (simp add: min_def split: if_splits)
  consider (idle) "xs = []" | (more) "ys \<noteq> []" "ys \<noteq> r" | (full) "ys = r"
    using pb(2) by (cases xs) (auto simp: ys_def)
  then show ?case
  proof cases
    case idle
    then show ?thesis using e1 less.prems(1) pb(3) empty by (auto simp: ys_def)
  next
    case more
    from chunk_continues [OF assms(1-3) less.prems(1-3) ys_def more] obtain c1 pb1 where
        c1: "upload_chunk (E c) ys client (bb_index pb) (w\<lparr>ext := e1\<rparr>) = Some (c1, bb_index pb1, w\<lparr>ext := e1\<rparr>)"
        "pBlock c1 = Some pb1" "in_upload dev content blk (drop (length ys) r) c1" by blast
    let ?xs = "drop ?room xs"
    have d: "?xs = drop (length ys) xs" by (simp add: ys_def min_def)
    have shorter: "length ?xs < length xs" using more(1) pb(2) by (cases xs) (auto simp: ys_def)
    have tk: "take (length ?xs) (drop (length ys) r) = ?xs"
      using arg_cong [OF less.prems(3), of "drop (length ys)"] unfolding d by (simp add: take_drop ys_def min_def)
    have "length ys \<le> length xs" by (simp add: ys_def)
    then have "take (length ys) xs = take (length ys) r"
      using arg_cong [OF less.prems(3), of "take (length ys)"] by (simp add: min_def)
    then have same: "?xs = drop (length ys) r \<longleftrightarrow> xs = r" unfolding d by (metis append_take_drop_id)
    have dd: "drop (length ?xs) (drop (length ys) r) = drop (length xs) r"
      unfolding d by (simp add: ys_def)
    have loop: "parse_loop (E c) client (bb_index pb) w = parse_loop (E c) c1 (bb_index pb1) (w\<lparr>ext := e1\<rparr>)"
      using e1(2) c1(1) more(1) by simp
    have "view (ext (w\<lparr>ext := e1\<rparr>)) = v\<lparr>incoming := (incoming v)(c := ?xs)\<rparr>" "save_type (E c) = DISK_FILE_SAVE"
      "creatable (w\<lparr>ext := e1\<rparr>) (block_path DISK_FILE_SAVE (hex_text dev))" using e1(1) less.prems(5,6) by simp_all
    note ih = less.hyps [OF shorter c1(3,2) tk this]
    show ?thesis unfolding loop using ih unfolding same dd upload_stored_ext by simp
  next
    case full
    have xs: "xs = r" and room: "length r \<le> ?room" "ys = xs" "drop ?room xs = []"
      using full len less.prems(3) unfolding ys_def by (auto simp: min_def split: if_splits)
    have "creatable (w\<lparr>ext := e1\<rparr>) (block_path DISK_FILE_SAVE (hex_text dev))" using less.prems(6) by simp
    from chunk_completes [OF assms(1-3) less.prems(1,2) room(1) less.prems(5) this] obtain c1 w1 m where
        c1: "upload_chunk (E c) r client (bb_index pb) (w\<lparr>ext := e1\<rparr>) = Some (c1, of_nat m, w1)" "m \<le> 1024"
        "(c1, w1) = upload_answer (E c) dev content blk client (w\<lparr>ext := e1\<rparr>)" "output_buffer client \<noteq> None" by blast
    have v: "view e1 = v" using e1(1) room(3) empty by simp
    have "staged (view (ext (w\<lparr>ext := e1\<rparr>))) c = []" using assms(10) v by simp
    note stored = answer_of_upload [OF c1(3,4) less.prems(5) this]
    then obtain pb1 where pb1: "pBlock c1 = Some pb1" "length (bb_packet pb1) = 1024"
      using length_packet [OF assms(1), of content] payload_le [of content] by (auto simp: partial_data_def)
    have m: "unat (of_nat m :: 32 word) \<le> 1024" using c1(2) by (simp add: unsigned_of_nat take_bit_nat_eq_self)
    have "incoming (view (ext w1)) c = []" using stored v assms(11) by (simp add: upload_stored_def)
    then obtain e2 where e2: "view e2 = view (ext w1)" "parse_loop (E c) c1 (of_nat m) w1 = Some (c1, w1\<lparr>ext := e2\<rparr>)"
      using loop_turn [OF pb1 m HOL.refl, of w1 c] by (auto simp: fun_upd_idem)
    have "parse_loop (E c) client (bb_index pb) w = Some (c1, w1\<lparr>ext := e2\<rparr>)"
      using e1(2) c1(1) e2(2) pb(3) xs room(2) by simp
    moreover have "upload_stored c dev content v w (view (ext (w1\<lparr>ext := e2\<rparr>))) (w1\<lparr>ext := e2\<rparr>)"
      using stored v e2(1) by (simp add: upload_stored_ext)
    ultimately show ?thesis using xs by blast
  qed
qed

section \<open>A whole upload\<close>

lemma read_of_upload:
  assumes "length dev = 8" and "n_packets (length content) \<le> 32" and "length blk = 32768"
    and "in_upload dev content blk r client" and "take (length xs) r = xs"
    and "save_type (E c) = DISK_FILE_SAVE" and "creatable w (block_path DISK_FILE_SAVE (hex_text dev))"
    and "incoming (view (ext w)) c = []" and "staged (view (ext w)) c = []"
  shows "(xs \<noteq> r \<longrightarrow> (\<exists>c' e. serve (E c) (arrive c) [Readable xs] client w = Some (c', w\<lparr>ext := e\<rparr>)
        \<and> view e = view (ext w) \<and> in_upload dev content blk (drop (length xs) r) c'))
    \<and> (xs = r \<longrightarrow> (\<exists>c' w'. serve (E c) (arrive c) [Readable xs] client w = Some (c', w')
        \<and> upload_stored c dev content (view (ext w)) w (view (ext w')) w'))"
proof -
  obtain pb where pb: "pBlock client = Some pb" "unat (bb_index pb) < 1024"
    using in_upload_block [OF assms(1,4)] by blast
  let ?w = "w\<lparr>ext := arrive c xs (ext w)\<rparr>"
  have v: "view (ext ?w) = (view (ext w))\<lparr>incoming := (incoming (view (ext w)))(c := xs)\<rparr>"
    using assms(8) by (simp add: arrival)
  have cr: "creatable ?w (block_path DISK_FILE_SAVE (hex_text dev))" using assms(7) by simp
  have "\<not> 1024 < bb_index pb" using pb(2) by (simp add: word_less_nat_alt)
  then have one: "serve (E c) (arrive c) [Readable xs] client w = parse_loop (E c) client (bb_index pb) ?w"
    using pb(1) by (cases "parse_loop (E c) client (bb_index pb) ?w") (auto simp: buffered_on_read_def apolloParsePacket_def)
  show ?thesis
    using loop_upload [OF assms(1-4) pb(1) assms(5) v assms(6) cr assms(9,8)] unfolding one upload_stored_ext by simp
qed

text \<open>The stream of the packets, in any pieces: a piece may lie within a packet or span several.\<close>

lemma upload_served:
  assumes "length dev = 8" and "n_packets (length content) \<le> 32" and "length blk = 32768"
    and "in_upload dev content blk r client" and "concat frs = r" and "[] \<notin> set frs"
    and "save_type (E c) = DISK_FILE_SAVE" and "creatable w (block_path DISK_FILE_SAVE (hex_text dev))"
    and "incoming (view (ext w)) c = []" and "staged (view (ext w)) c = []"
  shows "\<exists>c' w'. serve (E c) (arrive c) (map Readable frs) client w = Some (c', w')
    \<and> upload_stored c dev content (view (ext w)) w (view (ext w')) w'"
  using assms(4-6,8-10)
proof (induction frs arbitrary: r client w)
  case Nil
  then show ?case using in_upload_block [OF assms(1) Nil.prems(1)] by auto
next
  case (Cons xs frs)
  have tk: "take (length xs) r = xs" using Cons.prems(2) by auto
  have last: "xs \<noteq> r \<longleftrightarrow> frs \<noteq> []" using Cons.prems(2,3) by (cases frs) auto
  note first = read_of_upload [OF assms(1-3) Cons.prems(1) tk assms(7) Cons.prems(4-6)]
  show ?case
  proof (cases "frs = []")
    case True
    then show ?thesis using first last by (simp del: serve.simps)
  next
    case False
    obtain c1 e1 where c1: "serve (E c) (arrive c) [Readable xs] client w = Some (c1, w\<lparr>ext := e1\<rparr>)"
        "view e1 = view (ext w)" "in_upload dev content blk (drop (length xs) r) c1"
      using first False unfolding last by blast
    have "concat frs = drop (length xs) r" "[] \<notin> set frs" using Cons.prems(2,3) by auto
    from Cons.IH [OF c1(3) this, of "w\<lparr>ext := e1\<rparr>"] Cons.prems(4-6) c1(2)
    obtain c' w' where "serve (E c) (arrive c) (map Readable frs) c1 (w\<lparr>ext := e1\<rparr>) = Some (c', w')"
      "upload_stored c dev content (view (ext w)) w (view (ext w')) w'" by (auto simp: upload_stored_ext)
    then show ?thesis
      using serve_append [of "E c" "arrive c" "[Readable xs]" "map Readable frs" client w] c1(1)
      by (simp del: serve.simps)
  qed
qed

section \<open>A download\<close>

lemma pieces_sent:
  assumes "staged (view (ext w)) c = []"
  shows "\<exists>e. send_pieces (E c) ps client w = (client, w\<lparr>ext := e\<rparr>)
    \<and> view e = (view (ext w))\<lparr>sent := (sent (view (ext w)))(c := sent (view (ext w)) c @ concat ps)\<rparr>"
  using assms
proof (induction ps arbitrary: w)
  case Nil
  then show ?case by (intro exI [of _ "ext w"]) simp
next
  case (Cons p ps)
  obtain e1 where e1: "send_answer (E c) client p w = (client, w\<lparr>ext := e1\<rparr>)"
      "view e1 = (view (ext w))\<lparr>sent := (sent (view (ext w)))(c := sent (view (ext w)) c @ p)\<rparr>"
    using answer_sent [OF Cons.prems] by blast
  have "staged (view (ext (w\<lparr>ext := e1\<rparr>))) c = []" using Cons.prems e1(2) by simp
  from Cons.IH [OF this] obtain e where "send_pieces (E c) ps client (w\<lparr>ext := e1\<rparr>) = (client, w\<lparr>ext := e1\<rparr>\<lparr>ext := e\<rparr>)"
      "view e = (view (ext (w\<lparr>ext := e1\<rparr>)))\<lparr>sent := (sent (view (ext (w\<lparr>ext := e1\<rparr>))))
        (c := sent (view (ext (w\<lparr>ext := e1\<rparr>))) c @ concat ps)\<rparr>" by blast
  then show ?case using e1 by (intro exI [of _ e]) (simp add: send_answer_def fun_upd_def cong: if_cong)
qed

lemma download_served:
  assumes "ready client" and "pBlock client = Some pb" and "length (bb_buffer pb) = 32768"
    and "length dev = 8" and "length x = 4" and "length y = 2" and req: "req = 0x44 # dev @ x @ kind # y"
    and "files w (download_text (save_type (E c)) kind dev) = Some content" and "block_need content \<le> 32768"
    and "incoming (view (ext w)) c = []" and "staged (view (ext w)) c = []"
  shows "\<exists>c' w'. serve (E c) (arrive c) [Readable req] client w = Some (c', w')
    \<and> files w' = files w \<and> started w' = started w
    \<and> view (ext w') = (view (ext w))\<lparr>sent := (sent (view (ext w)))(c := sent (view (ext w)) c @ concat (packets dev content))\<rparr>"
proof -
  have pb: "length (bb_packet pb) = 1024" "bb_index pb = 0" and out: "output_buffer client \<noteq> None"
    using assms(1,2) by (auto simp: ready_def)
  have n: "length req = 16" "req \<noteq> []" "length req \<le> 1024" using assms(4-7) by auto
  let ?pkt = "req @ drop (length req) (bb_packet pb)"
  define client1 where "client1 = client\<lparr>pBlock := Some (pb\<lparr>bb_packet := ?pkt\<rparr>)\<rparr>"
  have blk: "pBlock client1 = Some (pb\<lparr>bb_packet := ?pkt\<rparr>)" and out1: "output_buffer client1 \<noteq> None"
    using out by (simp_all add: client1_def)
  obtain e1 where e1: "view e1 = view (ext w)"
    and once: "\<And>c1 w1 pb1. dispatch (E c) client1 0 (length req) (w\<lparr>ext := e1\<rparr>) = Some (c1, 0, w1)
        \<Longrightarrow> pBlock c1 = Some pb1 \<Longrightarrow> length (bb_packet pb1) = 1024 \<Longrightarrow> incoming (view (ext w1)) c = []
      \<Longrightarrow> \<exists>e2. serve (E c) (arrive c) [Readable req] client w = Some (c1, w1\<lparr>ext := e2\<rparr>) \<and> view e2 = view (ext w1)"
    using read_once [OF assms(2) pb assms(10) n(2,3)] unfolding client1_def by blast
  let ?w = "w\<lparr>ext := e1\<rparr>" and ?pb = "pb\<lparr>bb_packet := ?pkt\<rparr>"
  have pkt: "length ?pkt = 1024" "dev = take 8 (drop 1 ?pkt)" "?pkt ! 13 = kind" "?pkt ! 0 = 0x44"
    using n(1) pb(1) assms(4-7) by (simp_all add: nth_append)
  have stored: "files ?w (download_text (save_type (E c)) (?pkt ! 13) dev) = Some content"
    using assms(8) pkt(3) by simp
  have all: "take 32768 content = content" using assms(9) by (simp add: block_need_def)
  define client2 where "client2 = client1\<lparr>pBlock := Some (?pb\<lparr>bb_buffer := concat (packets dev content)
    @ drop (block_need content) (bb_buffer pb)\<rparr>)\<rparr>"
  have "staged (view (ext ?w)) c = []" using assms(11) e1 by simp
  from pieces_sent [OF this] obtain e where
      e: "send_pieces (E c) (packets dev content) client2 ?w = (client2, ?w\<lparr>ext := e\<rparr>)"
      "view e = (view e1)\<lparr>sent := (sent (view e1))(c := sent (view e1) c @ concat (packets dev content))\<rparr>" by auto
  have "deviceBlockDataSendPacket (E c) client1 ?pkt 16 ?w = Some (int (block_need content), client2, ?w\<lparr>ext := e\<rparr>)"
    using download_spec [OF pkt(1,2) out1 blk _ stored] assms(3,9) e(1) by (simp add: all client2_def Let_def)
  then have "dispatch (E c) client1 0 (length req) ?w = Some (client2, 0, ?w\<lparr>ext := e\<rparr>)"
    using blk pkt(1,4) n by (simp add: dispatch_def Let_def peek_def del: append_assoc)
  then obtain e2 where "serve (E c) (arrive c) [Readable req] client w = Some (client2, ?w\<lparr>ext := e\<rparr>\<lparr>ext := e2\<rparr>)"
      "view e2 = view e"
    using once [of client2 "?w\<lparr>ext := e\<rparr>"] pkt(1) e(2) e1 assms(10) by (auto simp: client2_def)
  then show ?thesis using e(2) e1 by simp
qed

section \<open>From one connection to another\<close>

lemma upload_then_download:
  assumes "length dev = 8" and "content \<noteq> []" and "block_need content \<le> 32768" and "concat frs = concat (packets dev content)"
    and "[] \<notin> set frs"
    and "output_buffer (clients u) \<noteq> None" and "pBlock (clients u) = Some fresh_block" and "d \<noteq> u"
    and "ready (clients d)" and "pBlock (clients d) = Some pb" and "length (bb_buffer pb) = 32768"
    and "\<forall>c. save_type (E c) = DISK_FILE_SAVE" and "creatable w (block_path DISK_FILE_SAVE (hex_text dev))"
    and "\<forall>c. incoming (view (ext w)) c = [] \<and> staged (view (ext w)) c = []"
    and "length x = 4" and "length y = 2" and "kind \<noteq> 0x61"
  shows "\<exists>clients' w'. serve_all E arrive (map (Pair u) (map Readable frs) @ [(d, Readable (0x44 # dev @ x @ kind # y))])
      clients w = Some (clients', w')
    \<and> files w' = (files w)(block_path DISK_FILE_SAVE (hex_text dev) \<mapsto> content)
    \<and> started w' = started w @
        [Start_ApolloSynerAction \<lparr>syn_DeviceId = hex_text dev @ [0, 0], syn_flag = MULTICAST_TYPE_AGPS\<rparr>]
    \<and> sent (view (ext w')) = (sent (view (ext w)))(u := sent (view (ext w)) u @ bytes ''SETOK%'',
        d := sent (view (ext w)) d @ concat (packets dev content))"
proof -
  have n: "n_packets (length content) \<le> 32" using assms(3) by (auto simp: block_need_def n_packets_def)
  have du: "save_type (E u) = DISK_FILE_SAVE" "incoming (view (ext w)) u = []" "staged (view (ext w)) u = []"
    using assms(12,14) by auto
  obtain cu wu where u: "serve (E u) (arrive u) (map Readable frs) (clients u) w = Some (cu, wu)"
      "view (ext wu) = (view (ext w))\<lparr>sent := (sent (view (ext w)))(u := sent (view (ext w)) u @ bytes ''SETOK%'')\<rparr>"
      "files wu = (files w)(block_path DISK_FILE_SAVE (hex_text dev) \<mapsto> content)"
      "started wu = started w @
        [Start_ApolloSynerAction \<lparr>syn_DeviceId = hex_text dev @ [0, 0], syn_flag = MULTICAST_TYPE_AGPS\<rparr>]"
    using upload_served [OF assms(1) n _ in_upload_start [OF assms(1,2,6,7)] assms(4,5) du(1) assms(13) du(2,3)] by (auto simp: upload_stored_def)
  have "files wu (download_text (save_type (E d)) kind dev) = Some content"
    using u(3) assms(12,17) by (simp add: download_text_def)
  moreover have "incoming (view (ext wu)) d = []" "staged (view (ext wu)) d = []" using u(2) assms(14) by simp_all
  ultimately obtain cd wd where "serve (E d) (arrive d) [Readable (0x44 # dev @ x @ kind # y)] (clients d) wu = Some (cd, wd)"
      "files wd = files wu" "started wd = started wu"
      "view (ext wd) = (view (ext wu))\<lparr>sent := (sent (view (ext wu)))(d := sent (view (ext wu)) d @ concat (packets dev content))\<rparr>"
    using download_served [OF assms(9-11,1,15,16) HOL.refl _ assms(3)] by blast
  then show ?thesis
    using u assms(8) by (simp add: serve_all_append serve_all_one del: serve.simps map_map)
qed

end

end
