(* ===== verification/Robot_Guarantee.thy ===== *)
theory Robot_Guarantee
  imports Robot_Activity
begin

text \<open>
  What a thread guarantees the others, and what it knows of a part of the state that is its own.
  \<open>guarantee\<close> bounds every access of an activity by a relation; an invariant that this relation
  keeps can be added to the common one. \<open>tracks\<close> follows an observation that belongs to the
  thread, such as what its connection was sent: no other thread changes it, so that the thread
  finds it as it left it.
\<close>

lemma followed_by_return [simp]: "followed_by a Return = a"
proof (induction a)
  case (Access f)
  have "map_option (map_prod (\<lambda>g. g Return) id) (map_option (map_prod followed_by id) (f s)) = f s" for s
  proof (cases "f s")
    case (Some p)
    have "followed_by (fst p) Return = fst p"
      by (rule Access.IH [OF rangeI [of f s]]) (auto simp: Some prod_set_defs)
    then show ?thesis using Some by (cases p) simp
  qed simp
  then show ?case by simp
qed simp

section \<open>Guarantees\<close>

primrec guarantee :: "('s \<Rightarrow> 's \<Rightarrow> bool) \<Rightarrow> ('s, 'a) activity \<Rightarrow> bool" where
  "guarantee G (Return x) \<longleftrightarrow> True"
| "guarantee G (Access f) \<longleftrightarrow> (\<forall>s. case map_option (map_prod (guarantee G) id) (f s) of
     None \<Rightarrow> True | Some (g, s') \<Rightarrow> G s s' \<and> g)"

lemma guarantee_access_iff:
  "guarantee G (Access f) \<longleftrightarrow> (\<forall>s b s'. f s = Some (b, s') \<longrightarrow> G s s' \<and> guarantee G b)"
  by (auto split: option.splits prod.splits)

declare guarantee.simps(2) [simp del]

lemma guarantee_compute [simp]: "guarantee G (compute r)"
  by (cases r) (simp_all add: compute_def guarantee_access_iff)

lemma guarantee_access: "(\<And>s x s'. f s = Some (x, s') \<Longrightarrow> G s s') \<Longrightarrow> guarantee G (access f)"
  by (auto simp: access_def guarantee_access_iff)

lemma guarantee_followed_by:
  "guarantee G a \<Longrightarrow> (\<And>x. guarantee G (k x)) \<Longrightarrow> guarantee G (followed_by a k)"
proof (induction a)
  case (Access f)
  have "G s s' \<and> guarantee G b"
    if fk: "map_option (map_prod (\<lambda>g. g k) id) (map_option (map_prod followed_by id) (f s)) = Some (b, s')" for s b s'
  proof -
    obtain a where a: "f s = Some (a, s')" "b = followed_by a k" using fk by (cases "f s") auto
    then have "G s s'" "guarantee G a" using Access.prems(1) by (auto simp: guarantee_access_iff)
    then show ?thesis using Access.IH [OF rangeI [of f s], of "(a, s')" a] a Access.prems(2) by (simp add: prod_set_defs)
  qed
  then show ?case by (simp add: guarantee_access_iff)
qed simp

lemma guarantee_mono: "guarantee G a \<Longrightarrow> (\<And>s s'. G s s' \<Longrightarrow> H s s') \<Longrightarrow> guarantee H a"
proof (induction a)
  case (Access f)
  have "H s s' \<and> guarantee H b" if f: "f s = Some (b, s')" for s b s'
  proof -
    have "G s s'" "guarantee G b" using Access.prems(1) f by (auto simp: guarantee_access_iff)
    then show ?thesis using Access.IH [OF rangeI [of f s], of "(b, s')" b] Access.prems(2) f by (simp add: prod_set_defs)
  qed
  then show ?case by (simp add: guarantee_access_iff)
qed simp

text \<open>A preorder bounds the whole run.\<close>

lemma guarantee_run:
  assumes "guarantee (\<lambda>s s'. obs s' = obs s) a" and "run_activity a s = Some (x, s')"
  shows "obs s' = obs s"
  using assms
proof (induction a arbitrary: s)
  case (Access f)
  obtain b t where b: "f s = Some (b, t)" "run_activity b t = Some (x, s')"
    using Access.prems(2) by (auto split: option.splits)
  then have "obs t = obs s" "guarantee (\<lambda>s s'. obs s' = obs s) b"
    using Access.prems(1) unfolding guarantee_access_iff by blast+
  then show ?case using Access.IH [OF rangeI [of f s], of "(b, t)" b t] b by (simp add: prod_set_defs)
qed simp

text \<open>An invariant that the guarantee keeps joins the common one.\<close>

lemma sound_guarantee:
  assumes "shared_state.sound J stock P n h a" and "guarantee G a" and keep: "\<And>s s'. I s \<Longrightarrow> G s s' \<Longrightarrow> I s'"
  shows "shared_state.sound (\<lambda>s. J s \<and> I s) stock P n h a"
  using assms(1,2)
proof (induction n arbitrary: h a)
  case (Suc n)
  show ?case
  proof (cases a)
    case (Access f)
    have "\<exists>b s' h'. f s = Some (b, s') \<and> (J s' \<and> I s') \<and> stock s' + h' = stock s + h
        \<and> shared_state.sound (\<lambda>s. J s \<and> I s) stock P n h' b"
      if s: "J s \<and> I s" "h = 0 \<longrightarrow> 0 < stock s" for s
    proof -
      obtain b s' h' where b: "f s = Some (b, s')" "J s'" "stock s' + h' = stock s + h" "shared_state.sound J stock P n h' b"
        using Suc.prems(1) s by (auto simp: shared_state.sound.simps Access)
      moreover have "I s'" "guarantee G b" using Suc.prems(2) b(1) s(1) keep by (auto simp: Access guarantee_access_iff)
      ultimately show ?thesis using Suc.IH by blast
    qed
    then show ?thesis using Suc.prems(1) by (simp add: shared_state.sound.simps Access)
  qed (use Suc.prems in \<open>simp add: shared_state.sound.simps\<close>)
qed (simp add: shared_state.sound.simps)

context shared_state
begin

lemma sound_followed_by:
  assumes "sound Q n h a" and "\<And>x. Q x \<Longrightarrow> sound P m 0 (k x)"
  shows "sound P (n + m) h (followed_by a k)"
  using assms(1)
proof (induction n arbitrary: h a)
  case 0
  then show ?case using assms(2) by (auto simp: sound.simps)
next
  case (Suc n)
  show ?case
  proof (cases a)
    case (Return x)
    then show ?thesis using Suc.prems assms(2) sound_weaken [of P m 0 "k x" "Suc n + m"] by auto
  next
    case (Access f)
    show ?thesis using Suc.prems Suc.IH by (fastforce simp: Access sound.simps)
  qed
qed

end

section \<open>A part of the state of one's own\<close>

locale own_part =
  fixes own :: "'i \<Rightarrow> 's \<Rightarrow> 'o"
begin

text \<open>From the observation \<open>v\<close> of \<open>c\<close>, every run of the activity ends with a result and an observation
  in \<open>P\<close>, and on the way it changes no observation but that of \<open>c\<close>.\<close>

primrec tracks :: "('a \<Rightarrow> 'o \<Rightarrow> bool) \<Rightarrow> 'i \<Rightarrow> ('s, 'a) activity \<Rightarrow> 'o \<Rightarrow> bool" where
  "tracks P c (Return x) = P x"
| "tracks P c (Access f) = (\<lambda>v. \<forall>s. own c s = v \<longrightarrow>
     (case map_option (map_prod (tracks P c) id) (f s) of None \<Rightarrow> True
      | Some (g, s') \<Rightarrow> g (own c s') \<and> (\<forall>d. d \<noteq> c \<longrightarrow> own d s' = own d s)))"

lemma tracks_access_iff:
  "tracks P c (Access f) v \<longleftrightarrow> (\<forall>s b s'. own c s = v \<longrightarrow> f s = Some (b, s') \<longrightarrow>
     tracks P c b (own c s') \<and> (\<forall>d. d \<noteq> c \<longrightarrow> own d s' = own d s))"
  by (auto split: option.splits prod.splits)

declare tracks.simps(2) [simp del]

lemma tracks_compute: "(\<And>x. r = Some x \<Longrightarrow> tracks P c (k x) v) \<Longrightarrow> tracks P c (followed_by (compute r) k) v"
  by (cases r) (simp_all add: followed_by_compute followed_by_undefined compute_def tracks_access_iff)

lemma tracks_step:
  assumes "\<And>s x s'. own c s = v \<Longrightarrow> f s = Some (x, s') \<Longrightarrow>
    tracks P c (k x) (own c s') \<and> (\<forall>d. d \<noteq> c \<longrightarrow> own d s' = own d s)"
  shows "tracks P c (followed_by (access f) k) v"
  using assms by (auto simp: followed_by_access tracks_access_iff)

text \<open>An activity that guarantees to leave all observations alone.\<close>

lemma tracks_guarantee:
  assumes "guarantee (\<lambda>s s'. \<forall>d. own d s' = own d s) a" and "\<And>x. tracks P c (k x) v"
  shows "tracks P c (followed_by a k) v"
  using assms(1)
proof (induction a)
  case (Access f)
  have "tracks P c b (own c s') \<and> (\<forall>d. d \<noteq> c \<longrightarrow> own d s' = own d s)"
    if v: "own c s = v" and fk: "map_option (map_prod (\<lambda>g. g k) id) (map_option (map_prod followed_by id) (f s)) = Some (b, s')"
    for s b s'
  proof -
    obtain a where a: "f s = Some (a, s')" "b = followed_by a k" using fk by (cases "f s") auto
    then have "\<forall>d. own d s' = own d s" "guarantee (\<lambda>s s'. \<forall>d. own d s' = own d s) a"
      using Access.prems by (auto simp: guarantee_access_iff)
    then show ?thesis using Access.IH [OF rangeI [of f s], of "(a, s')" a] a v by (simp add: prod_set_defs)
  qed
  then show ?case by (simp add: tracks_access_iff)
qed (simp add: assms(2))

text \<open>Threads with different parts do not disturb each other.\<close>

lemma interleaved_tracks:
  assumes "interleaved n p q" and "distinct cs" and "length cs = length (fst p)"
    and "\<forall>i<length cs. tracks (P i) (cs ! i) (fst p ! i) (own (cs ! i) (snd p))"
  shows "length (fst q) = length cs \<and> (\<forall>i<length cs. tracks (P i) (cs ! i) (fst q ! i) (own (cs ! i) (snd q)))"
  using assms
proof (induction rule: interleaved.induct)
  case (access n p js s i f a s')
  have IH: "length js = length cs" "\<forall>j<length cs. tracks (P j) (cs ! j) (js ! j) (own (cs ! j) s)"
    using access.IH access.prems by simp_all
  then have i: "i < length cs" "tracks (P i) (cs ! i) (Access f) (own (cs ! i) s)"
    using access.hyps(2) access.hyps(3) [symmetric] by simp_all
  then have a: "tracks (P i) (cs ! i) a (own (cs ! i) s')" "\<And>d. d \<noteq> cs ! i \<Longrightarrow> own d s' = own d s"
    using access.hyps(4) unfolding tracks_access_iff by blast+
  have "tracks (P j) (cs ! j) (js[i := a] ! j) (own (cs ! j) s')" if j: "j < length cs" for j
  proof (cases "j = i")
    case False
    then have "cs ! j \<noteq> cs ! i" using access.prems(1) i(1) j by (simp add: nth_eq_iff_index_eq)
    then show ?thesis using IH(2) j False a(2) by simp
  qed (use IH(1) i(1) a(1) in simp)
  then show ?case using IH(1) by simp
qed simp

end

end
