(* ===== verification/Robot_Workers.thy ===== *)
theory Robot_Workers
  imports Robot_Race Robot_Transfers Robot_Guarantee
begin

text \<open>
  Workers that serve whole sessions at once. \<open>session_steps\<close> is what a worker does with one
  connection: for every message it reads the packet, handles it, sends the answer and finds that
  nothing else has arrived. Every one of these is an access, so that the sessions of different
  workers overlap at all of them. Run alone, a session is \<open>serve\<close> (\<open>session_of_steps\<close>).
\<close>

unbundle bit_operations_syntax

section \<open>Sessions as activities\<close>

text \<open>The message arrives with the access that reads it. A second message that arrives before the
  loop looks again is not part of a session.\<close>

definition reading_message ::
    "'w externals \<Rightarrow> (byte list \<Rightarrow> 'w \<Rightarrow> 'w) \<Rightarrow> byte list \<Rightarrow> client \<Rightarrow> ('w world, client \<times> nat) activity" where
  "reading_message E arrive xs client = access (\<lambda>w. do {
     (c, n, w') \<leftarrow> read_chunk E client 0 (w\<lparr>ext := arrive xs (ext w)\<rparr>); Some ((c, n), w') })"

definition reading_nothing :: "'w externals \<Rightarrow> client \<Rightarrow> ('w world, client) activity" where
  "reading_nothing E client = access (\<lambda>w. do {
     (c, n, w') \<leftarrow> read_chunk E client 0 w; if n = 0 then Some (c, w') else None })"

definition sending :: "'w externals \<Rightarrow> client \<Rightarrow> byte list option \<Rightarrow> ('w world, client) activity" where
  "sending E client a = (case a of None \<Rightarrow> Return client | Some x \<Rightarrow> access (\<lambda>w. Some (send_answer E client x w)))"

definition serve_steps ::
    "'w externals \<Rightarrow> (byte list \<Rightarrow> 'w \<Rightarrow> 'w) \<Rightarrow> message \<Rightarrow> client \<Rightarrow> ('w world, client \<times> byte list option) activity" where
  "serve_steps E arrive m client =
     followed_by (reading_message E arrive (encode m) client) (\<lambda>(c1, nbytes).
       followed_by (compute (map_option bb_packet (pBlock c1))) (\<lambda>data.
         followed_by (message_steps E data (int nbytes) m) (\<lambda>(r, a).
           followed_by (sending E c1 a) (\<lambda>c2.
             followed_by (reading_nothing E c2) (\<lambda>c3. Return (c3, a))))))"

primrec session_steps ::
    "'w externals \<Rightarrow> (byte list \<Rightarrow> 'w \<Rightarrow> 'w) \<Rightarrow> message list \<Rightarrow> client
      \<Rightarrow> ('w world, client \<times> byte list option list) activity" where
  "session_steps E arrive [] client = Return (client, [])"
| "session_steps E arrive (m # ms) client =
     followed_by (serve_steps E arrive m client) (\<lambda>(c1, a).
       followed_by (session_steps E arrive ms c1) (\<lambda>(c2, as). Return (c2, a # as)))"

section \<open>What the handlers leave alone\<close>

context library_quiet
begin

lemma guarantee_accesses:
  "guarantee (\<lambda>s s'. obs (ext s') = obs (ext s)) (reading E k v off)"
  "guarantee (\<lambda>s s'. obs (ext s') = obs (ext s)) (storing E k x)"
  "guarantee (\<lambda>s s'. obs (ext s') = obs (ext s)) (deleting E k)"
  by (auto simp: reading_def storing_def deleting_def run_simps dest: get_obs set_obs del_obs intro!: guarantee_access)

lemma guarantee_changing:
  assumes "\<And>w w'. f w = Some w' \<Longrightarrow> obs (ext w') = obs (ext w)"
  shows "guarantee (\<lambda>s s'. obs (ext s') = obs (ext s)) (changing f)"
  using assms by (auto simp: changing_def run_simps intro!: guarantee_access)

lemma guarantee_insert:
  "guarantee (\<lambda>s s'. obs (ext s') = obs (ext s)) (insert_steps E a b c d)"
  unfolding insert_steps_def
  by (auto simp: take_connection_def with_ext_eq run_execute_def give_connection_def close_obs run_simps
      intro!: guarantee_followed_by guarantee_changing guarantee_access dest!: take_obs execute_obs)

lemma guarantee_newest:
  "guarantee (\<lambda>s s'. obs (ext s') = obs (ext s)) (changing (\<lambda>w. do { (v, w') \<leftarrow> selectLocationNewItem E d n w; Some w' }))"
  by (auto simp: run_simps intro!: guarantee_changing dest: newest_obs)

lemma guarantee_threads:
  "guarantee (\<lambda>s s'. obs (ext s') = obs (ext s)) (changing (falldown_thread data))"
  "guarantee (\<lambda>s s'. obs (ext s') = obs (ext s)) (changing (location_thread data d lon lat))"
  "guarantee (\<lambda>s s'. obs (ext s') = obs (ext s)) (changing (\<lambda>w. Some (pthread_create t w)))"
  by (auto simp: falldown_thread_def location_thread_def pthread_create_def run_simps split: if_splits
      intro!: guarantee_changing)

lemmas guarantee_steps = guarantee_followed_by guarantee_accesses guarantee_insert guarantee_newest guarantee_threads

lemma guarantee_heart_command:
  "guarantee (\<lambda>s s'. obs (ext s') = obs (ext s)) (heart_command_steps E d i)"
  unfolding heart_command_steps_def by (auto intro!: guarantee_steps split: prod.splits)

lemma guarantee_message:
  "guarantee (\<lambda>s s'. obs (ext s') = obs (ext s)) (message_steps E data n m)"
proof (cases m)
  case (Device_heart d x)
  then show ?thesis
    by (auto simp: message_steps_def heart_steps_def heart_reply_steps_def
        intro!: guarantee_steps guarantee_heart_command guarantee_access split: prod.splits)
next
  case (Device_location d x)
  then show ?thesis
    by (auto simp: message_steps_def location_steps_def intro!: guarantee_steps split: prod.splits)
next
  case (Phone_heart p x)
  then show ?thesis
    by (auto simp: message_steps_def phone_heart_steps_def intro!: guarantee_steps split: prod.splits)
next
  case (Phone_command p k i x)
  then show ?thesis
    by (auto simp: message_steps_def phone_command_steps_def Let_def intro!: guarantee_steps split: prod.splits)
qed

end

section \<open>Reading and sending\<close>

text \<open>A client that has the packet \<open>data\<close> in its buffer.\<close>

definition holding :: "client \<Rightarrow> byte list \<Rightarrow> client" where
  "holding client data = client\<lparr>pBlock := map_option (\<lambda>pb. pb\<lparr>bb_packet := data\<rparr>) (pBlock client)\<rparr>"

definition left_over :: "client \<Rightarrow> byte list \<Rightarrow> byte list" where
  "left_over client xs = drop (length xs) (bb_packet (the (pBlock client)))"

lemma holding_ready:
  assumes "ready client" and "length data = 1024"
  shows "ready (holding client data)" and "\<exists>pb. pBlock (holding client data) = Some pb \<and> bb_packet pb = data"
  using assms by (auto simp: ready_def holding_def)

lemma left_over_length: "ready client \<Longrightarrow> length xs \<le> 1024 \<Longrightarrow> length (xs @ left_over client xs) = 1024"
  by (auto simp: ready_def left_over_def)

definition quiet_net :: "('w \<Rightarrow> 'c net) \<Rightarrow> 'w world \<Rightarrow> bool" where
  "quiet_net view w \<longleftrightarrow> (\<forall>c. incoming (view (ext w)) c = [] \<and> staged (view (ext w)) c = [])"

text \<open>What belongs to one connection.\<close>

definition net_part :: "('w \<Rightarrow> 'c net) \<Rightarrow> 'c \<Rightarrow> 'w world \<Rightarrow> byte list \<times> byte list \<times> byte list" where
  "net_part view c w = (incoming (view (ext w)) c, staged (view (ext w)) c, sent (view (ext w)) c)"

definition reply :: "byte list option \<Rightarrow> byte list" where
  "reply a = (case a of None \<Rightarrow> [] | Some x \<Rightarrow> x)"

context connections
begin

lemma message_read:
  assumes "ready client" and "incoming (view (ext w)) c = []" and "length xs \<le> 1024"
  shows "\<exists>e. read_chunk (E c) client 0 (w\<lparr>ext := arrive c xs (ext w)\<rparr>) =
      Some (holding client (xs @ left_over client xs), length xs, w\<lparr>ext := e\<rparr>) \<and> view e = view (ext w)"
proof -
  obtain pb where pb: "pBlock client = Some pb" "length (bb_packet pb) = 1024" using assms(1) by (auto simp: ready_def)
  obtain ys e where rm: "evbuffer_remove (E c) 1024 (arrive c xs (ext w)) = (ys, e)" by fastforce
  have "ys = xs" and "view e = view (ext w)"
    using receive [OF rm] assms(2,3) by (auto simp: arrival fun_upd_idem)
  then show ?thesis
    using pb rm assms(3)
    by (intro exI [of _ e]) (simp add: read_chunk_def with_ext_def blit_def holding_def left_over_def)
qed

lemma nothing_read:
  assumes "ready client" and "incoming (view (ext w)) c = []"
  shows "\<exists>e. read_chunk (E c) client 0 w = Some (client, 0, w\<lparr>ext := e\<rparr>) \<and> view e = view (ext w)"
proof -
  obtain pb where pb: "pBlock client = Some pb" "length (bb_packet pb) = 1024" using assms(1) by (auto simp: ready_def)
  obtain ys e where rm: "evbuffer_remove (E c) 1024 (ext w) = (ys, e)" by fastforce
  have "ys = []" and "view e = view (ext w)" using receive [OF rm] assms(2) by (auto simp: fun_upd_idem)
  then show ?thesis
    using pb rm by (intro exI [of _ e]) (simp add: read_chunk_def with_ext_def blit_def)
qed

lemma reply_sent:
  assumes "staged (view (ext w)) c = []"
  shows "\<exists>e. (case a of None \<Rightarrow> (client, w) | Some x \<Rightarrow> send_answer (E c) client x w) = (client, w\<lparr>ext := e\<rparr>)
    \<and> view e = (view (ext w))\<lparr>sent := (sent (view (ext w)))(c := sent (view (ext w)) c @ reply a)\<rparr>"
proof (cases a)
  case None
  then show ?thesis by (intro exI [of _ "ext w"]) (simp add: reply_def)
next
  case (Some x)
  then show ?thesis using answer_sent [OF assms, of client x] by (simp add: reply_def)
qed

lemma run_sending:
  "run_activity (sending (E c) client a) w = Some (case a of None \<Rightarrow> (client, w) | Some x \<Rightarrow> send_answer (E c) client x w)"
  by (simp add: sending_def run_access split: option.splits)

section \<open>A session that runs alone\<close>

lemma steps_quiet:
  assumes "run_activity (message_steps (E c) data n m) w = Some (x, w')"
  shows "\<exists>k i. view (ext w') = (view (ext w))\<lparr>net_kv := k, net_idle := i\<rparr>"
proof -
  have "(incoming (view (ext w')), staged (view (ext w')), sent (view (ext w'))) =
      (incoming (view (ext w)), staged (view (ext w)), sent (view (ext w)))"
    using guarantee_run [OF others.guarantee_message [of c data n m] assms] by simp
  then show ?thesis
    by (intro exI [of _ "net_kv (view (ext w'))"] exI [of _ "net_idle (view (ext w'))"]) simp
qed

lemma serve_of_steps:
  assumes "ready client" and "message_ok m" and "quiet_net view w"
    and run: "run_activity (serve_steps (E c) (arrive c) m client) w = Some ((client', a), w')"
  shows "serve (E c) (arrive c) [Readable (encode m)] client w = Some (client', w') \<and> ready client' \<and> quiet_net view w'"
proof -
  have io: "\<And>d. incoming (view (ext w)) d = []" "\<And>d. staged (view (ext w)) d = []"
    using assms(3) by (simp_all add: quiet_net_def)
  have n: "length (encode m) \<le> 1024" "encode m \<noteq> []" using message_length [OF assms(2)] by (cases m; simp)+
  let ?data = "encode m @ left_over client (encode m)"
  let ?c1 = "holding client ?data"
  note h = holding_ready [OF assms(1) left_over_length [OF assms(1) n(1)]]
  obtain pb1 where pb1: "pBlock ?c1 = Some pb1" "bb_packet pb1 = ?data" using h(2) by blast
  obtain e1 where e1: "read_chunk (E c) client 0 (w\<lparr>ext := arrive c (encode m) (ext w)\<rparr>) =
      Some (?c1, length (encode m), w\<lparr>ext := e1\<rparr>)" "view e1 = view (ext w)"
    using message_read [OF assms(1) io(1) n(1)] by blast
  obtain r b w1 where w1: "run_activity (message_steps (E c) ?data (int (length (encode m))) m) (w\<lparr>ext := e1\<rparr>) = Some ((r, b), w1)"
    and rest: "run_activity (followed_by (sending (E c) ?c1 b) (\<lambda>c2. followed_by (reading_nothing (E c) c2) (\<lambda>c3. Return (c3, b)))) w1
      = Some ((client', a), w')"
    using run e1(1) pb1 unfolding serve_steps_def
    by (auto simp: run_followed_by run_access run_compute reading_message_def run_simps)
  obtain kv1 i1 where v1: "view (ext w1) = (view (ext w))\<lparr>net_kv := kv1, net_idle := i1\<rparr>"
    using steps_quiet [OF w1] e1(2) by auto
  then have io1: "incoming (view (ext w1)) d = []" "staged (view (ext w1)) d = []" for d using io by simp_all
  obtain e2 where e2: "(case b of None \<Rightarrow> (?c1, w1) | Some x \<Rightarrow> send_answer (E c) ?c1 x w1) = (?c1, w1\<lparr>ext := e2\<rparr>)"
      "view e2 = (view (ext w1))\<lparr>sent := (sent (view (ext w1)))(c := sent (view (ext w1)) c @ reply b)\<rparr>"
    using reply_sent [OF io1(2)] by blast
  have "incoming (view (ext (w1\<lparr>ext := e2\<rparr>))) c = []" using e2(2) io1(1) by simp
  from nothing_read [OF h(1) this] obtain e3 where
      e3: "read_chunk (E c) ?c1 0 (w1\<lparr>ext := e2\<rparr>) = Some (?c1, 0, w1\<lparr>ext := e3\<rparr>)" "view e3 = view e2"
    by auto
  have res: "client' = ?c1" "w' = w1\<lparr>ext := e3\<rparr>"
    using rest e3(1) by (simp_all add: run_followed_by run_access run_sending e2(1) reading_nothing_def)
  have "handler_of (E c) ?c1 ?data (length (encode m)) m (w\<lparr>ext := e1\<rparr>) = Some (?c1, w1\<lparr>ext := e2\<rparr>)"
    using h(1) w1 e2(1) by (auto simp: handler_of_steps ready_def split: option.splits)
  then have "dispatch (E c) ?c1 0 (length (encode m)) (w\<lparr>ext := e1\<rparr>) = Some (?c1, 0, w1\<lparr>ext := e2\<rparr>)"
    by (simp add: dispatch_message [OF pb1])
  then have "parse_loop (E c) client 0 (w\<lparr>ext := arrive c (encode m) (ext w)\<rparr>) = Some (?c1, w1\<lparr>ext := e3\<rparr>)"
    using n(2) e1(1) e3(1) by (simp add: parse_loop.simps [of _ client] parse_loop.simps [of _ ?c1])
  moreover have "quiet_net view w'" using e2(2) e3(2) io1 by (simp add: quiet_net_def res)
  ultimately show ?thesis
    using assms(1) h(1) by (auto simp: res ready_def buffered_on_read_def apolloParsePacket_def)
qed

lemma session_of_steps:
  assumes "ready client" and "list_all message_ok ms" and "quiet_net view w"
    and "run_activity (session_steps (E c) (arrive c) ms client) w = Some ((client', as), w')"
  shows "serve (E c) (arrive c) (map (\<lambda>m. Readable (encode m)) ms) client w = Some (client', w')"
  using assms
proof (induction ms arbitrary: client w as)
  case (Cons m ms)
  obtain c1 a w1 as1 where m: "run_activity (serve_steps (E c) (arrive c) m client) w = Some ((c1, a), w1)"
    and ms: "run_activity (session_steps (E c) (arrive c) ms c1) w1 = Some ((client', as1), w')"
    using Cons.prems(4) by (auto simp: run_followed_by run_simps)
  have ok: "message_ok m" "list_all message_ok ms" using Cons.prems(2) by auto
  note one = serve_of_steps [OF Cons.prems(1) ok(1) Cons.prems(3) m]
  have "serve (E c) (arrive c) (map (\<lambda>m. Readable (encode m)) ms) c1 w1 = Some (client', w')"
    using Cons.IH [OF _ ok(2) _ ms] one by blast
  then show ?case using one serve_append [of "E c" "arrive c" "[Readable (encode m)]" _ client w] by simp
qed simp

end

section \<open>Sessions of several workers\<close>

text \<open>Between two accesses nothing is left in the buffers of any connection.\<close>

definition session_ok :: "('w \<Rightarrow> 'c net) \<Rightarrow> nat \<Rightarrow> tm \<Rightarrow> broker \<Rightarrow> message list \<Rightarrow> 'w world \<Rightarrow> bool" where
  "session_ok view width t b ms w \<longleftrightarrow> race_ok (\<lambda>e. net_kv (view e)) width t b ms w \<and> quiet_net view w"

definition spare :: "('w \<Rightarrow> 'c net) \<Rightarrow> 'w world \<Rightarrow> nat" where
  "spare view = pool_size (\<lambda>e. net_idle (view e))"

lemma spare_size: "spare view w = size (net_idle (view (ext w)))"
  by (simp add: spare_def pool_size_def)

interpretation sessions: shared_state "session_ok view width t b ms" "spare view"
  for view :: "'w \<Rightarrow> 'c net" and width t b ms .

interpretation part: own_part "net_part view" for view :: "'w \<Rightarrow> 'c net" .

lemma session_ok_frame:
  assumes "session_ok view width t b ms w"
    and "view e = (view (ext w))\<lparr>sent := x\<rparr>"
  shows "session_ok view width t b ms (w\<lparr>ext := e\<rparr>)" and "spare view (w\<lparr>ext := e\<rparr>) = spare view w"
  using assms race_ok_frame [of "\<lambda>e. net_kv (view e)" width t b ms w "w\<lparr>ext := e\<rparr>"]
  by (simp_all add: session_ok_def spare_def quiet_net_def pool_size_def)

context connections
begin

abbreviation session_sound ::
    "tm \<Rightarrow> broker \<Rightarrow> message list \<Rightarrow> ('a \<Rightarrow> bool) \<Rightarrow> nat \<Rightarrow> nat \<Rightarrow> ('w world, 'a) activity \<Rightarrow> bool" where
  "session_sound t b ms \<equiv> shared_state.sound (session_ok view width t b ms) (spare view)"

lemma reading_nothing_sound:
  assumes "ready client" and "P (client, a)"
  shows "session_sound t b ms P 1 0 (followed_by (reading_nothing (E c) client) (\<lambda>c3. Return (c3, a)))"
  unfolding reading_nothing_def One_nat_def
proof (rule sessions.sound_quiet_step)
  fix w
  assume I: "session_ok view width t b ms w"
  then have "incoming (view (ext w)) c = []" by (simp add: session_ok_def quiet_net_def)
  from nothing_read [OF assms(1) this] obtain e where
      e: "read_chunk (E c) client 0 w = Some (client, 0, w\<lparr>ext := e\<rparr>)" "view e = view (ext w)" by blast
  have "view e = (view (ext w))\<lparr>sent := sent (view (ext w))\<rparr>" using e(2) by simp
  note I' = session_ok_frame [OF I this]
  show "\<exists>x s'. (do { (c, n, w') \<leftarrow> read_chunk (E c) client 0 w; if n = 0 then Some (c, w') else None }) = Some (x, s')
      \<and> session_ok view width t b ms s'
      \<and> spare view s' = spare view w
      \<and> session_sound t b ms P 0 0 (Return (x, a))"
    using e(1) I' assms(2) by (intro exI [of _ client] exI [of _ "w\<lparr>ext := e\<rparr>"]) simp
qed

lemma sending_sound:
  assumes "session_sound t b ms P n 0 (k client)"
  shows "session_sound t b ms P (Suc n) 0 (followed_by (sending (E c) client a) k)"
proof (cases a)
  case None
  then show ?thesis using assms sessions.sound_weaken [of view width t b ms P n 0 "k client" "Suc n"] by (simp add: sending_def)
next
  case (Some x)
  have "session_sound t b ms P (Suc n) 0 (followed_by (access (\<lambda>w. Some (send_answer (E c) client x w))) k)"
  proof (rule sessions.sound_quiet_step)
    fix w
    assume I: "session_ok view width t b ms w"
    then have "staged (view (ext w)) c = []" by (simp add: session_ok_def quiet_net_def)
    from answer_sent [OF this, of client x] obtain e where e: "send_answer (E c) client x w = (client, w\<lparr>ext := e\<rparr>)"
        "view e = (view (ext w))\<lparr>sent := (sent (view (ext w)))(c := sent (view (ext w)) c @ x)\<rparr>" by blast
    show "\<exists>y s'. Some (send_answer (E c) client x w) = Some (y, s')
        \<and> session_ok view width t b ms s'
        \<and> spare view s' = spare view w
        \<and> session_sound t b ms P n 0 (k y)"
      using e(1) session_ok_frame [OF I e(2)] assms by (intro exI [of _ client] exI [of _ "w\<lparr>ext := e\<rparr>"]) simp
  qed
  then show ?thesis by (simp add: sending_def Some)
qed

lemma serve_steps_sound:
  assumes "ready client" and "message_ok m" and "m \<in> set ms"
  shows "session_sound t b ms (\<lambda>(c', a). ready c' \<and> answer_allowed width t b ms m a) 9 0
    (serve_steps (E c) (arrive c) m client)"
proof -
  let ?P = "\<lambda>(c', a). ready c' \<and> answer_allowed width t b ms m a"
  have n: "length (encode m) \<le> 1024" using message_length [OF assms(2)] by (cases m; simp)
  let ?data = "encode m @ left_over client (encode m)"
  let ?c1 = "holding client ?data"
  have len: "length ?data = 1024" by (rule left_over_length [OF assms(1) n])
  note h = holding_ready [OF assms(1) len]
  have "race.sound (\<lambda>e. net_kv (view e)) width t b ms (\<lambda>e. net_idle (view e)) (\<lambda>(r, a). answer_allowed width t b ms m a) 6 0
      (message_steps (E c) ?data (int (length (encode m))) m)"
    using provider.message_sound [where b = b, OF assms(2) len assms(3) widths width_of_long] .
  then have msg: "session_sound t b ms (\<lambda>(r, a). answer_allowed width t b ms m a) 6 0
      (message_steps (E c) ?data (int (length (encode m))) m)"
    unfolding session_ok_def spare_def
    by (rule sound_guarantee [OF _ others.guarantee_message]) (simp add: quiet_net_def)
  have handled: "session_sound t b ms ?P (6 + 2) 0
      (followed_by (message_steps (E c) ?data (int (length (encode m))) m) (\<lambda>(r, a).
        followed_by (sending (E c) ?c1 a) (\<lambda>c2. followed_by (reading_nothing (E c) c2) (\<lambda>c3. Return (c3, a)))))"
  proof (rule sessions.sound_followed_by [OF msg])
    fix ra
    assume "(\<lambda>(r :: int, a). answer_allowed width t b ms m a) ra"
    then obtain r a where ra: "ra = (r, a)" "answer_allowed width t b ms m a" by (cases ra) auto
    have "session_sound t b ms ?P 1 0 (followed_by (reading_nothing (E c) ?c1) (\<lambda>c3. Return (c3, a)))"
      using h(1) ra(2) by (intro reading_nothing_sound) simp_all
    from sending_sound [where k = "\<lambda>c2. followed_by (reading_nothing (E c) c2) (\<lambda>c3. Return (c3, a))", OF this]
    show "session_sound t b ms ?P 2 0 (case ra of (r, a) \<Rightarrow>
        followed_by (sending (E c) ?c1 a) (\<lambda>c2. followed_by (reading_nothing (E c) c2) (\<lambda>c3. Return (c3, a))))"
      by (simp add: ra(1) numeral_2_eq_2)
  qed
  have "session_sound t b ms ?P (Suc (6 + 2)) 0 (serve_steps (E c) (arrive c) m client)"
    unfolding serve_steps_def reading_message_def
  proof (rule sessions.sound_quiet_step)
    fix w
    assume I: "session_ok view width t b ms w"
    then have "incoming (view (ext w)) c = []" by (simp add: session_ok_def quiet_net_def)
    from message_read [OF assms(1) this n] obtain e where
        e: "read_chunk (E c) client 0 (w\<lparr>ext := arrive c (encode m) (ext w)\<rparr>) = Some (?c1, length (encode m), w\<lparr>ext := e\<rparr>)"
          "view e = view (ext w)" by blast
    have "view e = (view (ext w))\<lparr>sent := sent (view (ext w))\<rparr>" using e(2) by simp
    note I' = session_ok_frame [OF I this]
    show "\<exists>x s'. (do { (c, n, w') \<leftarrow> read_chunk (E c) client 0 (w\<lparr>ext := arrive c (encode m) (ext w)\<rparr>); Some ((c, n), w') })
          = Some (x, s')
        \<and> session_ok view width t b ms s'
        \<and> spare view s' = spare view w
        \<and> session_sound t b ms ?P (6 + 2) 0 (case x of (c1, nbytes) \<Rightarrow>
            followed_by (compute (map_option bb_packet (pBlock c1))) (\<lambda>data.
              followed_by (message_steps (E c) data (int nbytes) m) (\<lambda>(r, a).
                followed_by (sending (E c) c1 a) (\<lambda>c2. followed_by (reading_nothing (E c) c2) (\<lambda>c3. Return (c3, a))))))"
      using e(1) I' handled h(2)
      by (intro exI [of _ "(?c1, length (encode m))"] exI [of _ "w\<lparr>ext := e\<rparr>"]) (auto simp: followed_by_compute)
  qed
  then show ?thesis by simp
qed

lemma session_steps_sound:
  assumes "ready client" and "list_all message_ok xs" and "set xs \<subseteq> set ms"
  shows "session_sound t b ms (\<lambda>(c', as). list_all2 (answer_allowed width t b ms) xs as) (9 * length xs) 0
    (session_steps (E c) (arrive c) xs client)"
  using assms
proof (induction xs arbitrary: client)
  case (Cons m xs)
  have m: "message_ok m" "m \<in> set ms" and xs: "list_all message_ok xs" "set xs \<subseteq> set ms" using Cons.prems by auto
  have "session_sound t b ms (\<lambda>(c', as). list_all2 (answer_allowed width t b ms) (m # xs) as)
      (9 + (9 * length xs + 0)) 0 (session_steps (E c) (arrive c) (m # xs) client)"
    unfolding session_steps.simps
  proof (rule sessions.sound_followed_by [OF serve_steps_sound [OF Cons.prems(1) m]], clarify)
    fix c1 a
    assume c1: "ready c1" "answer_allowed width t b ms m a"
    show "session_sound t b ms (\<lambda>(c', as). list_all2 (answer_allowed width t b ms) (m # xs) as) (9 * length xs + 0) 0
        (followed_by (session_steps (E c) (arrive c) xs c1) (\<lambda>(c2, as). Return (c2, a # as)))"
      using c1(2) by (intro sessions.sound_followed_by [OF Cons.IH [OF c1(1) xs]]) auto
  qed
  then show ?case by (simp add: algebra_simps)
qed simp

text \<open>What a session does to its own connection.\<close>

lemma tracks_reading:
  assumes "ready client" and "length xs \<le> 1024"
    and "part.tracks view P c (k (holding client (xs @ left_over client xs), length xs)) ([], [], out)"
  shows "part.tracks view P c (followed_by (reading_message (E c) (arrive c) xs client) k) ([], [], out)"
  unfolding reading_message_def
proof (rule part.tracks_step)
  fix w x w'
  assume own: "net_part view c w = ([], [], out)"
    and rd: "(do { (c, n, w') \<leftarrow> read_chunk (E c) client 0 (w\<lparr>ext := arrive c xs (ext w)\<rparr>); Some ((c, n), w') }) = Some (x, w')"
  have "incoming (view (ext w)) c = []" using own by (simp add: net_part_def)
  from message_read [OF assms(1) this assms(2)] obtain e where
      "read_chunk (E c) client 0 (w\<lparr>ext := arrive c xs (ext w)\<rparr>) =
        Some (holding client (xs @ left_over client xs), length xs, w\<lparr>ext := e\<rparr>)" "view e = view (ext w)" by blast
  then have "x = (holding client (xs @ left_over client xs), length xs)" "\<And>d. net_part view d w' = net_part view d w"
    using rd by (auto simp: net_part_def)
  then show "part.tracks view P c (k x) (net_part view c w') \<and> (\<forall>d. d \<noteq> c \<longrightarrow> net_part view d w' = net_part view d w)"
    using assms(3) own by simp
qed

lemma tracks_nothing:
  assumes "ready client" and "part.tracks view P c (k client) ([], [], out)"
  shows "part.tracks view P c (followed_by (reading_nothing (E c) client) k) ([], [], out)"
  unfolding reading_nothing_def
proof (rule part.tracks_step)
  fix w x w'
  assume own: "net_part view c w = ([], [], out)"
    and rd: "(do { (c, n, w') \<leftarrow> read_chunk (E c) client 0 w; if n = 0 then Some (c, w') else None }) = Some (x, w')"
  have "incoming (view (ext w)) c = []" using own by (simp add: net_part_def)
  from nothing_read [OF assms(1) this] obtain e where
      "read_chunk (E c) client 0 w = Some (client, 0, w\<lparr>ext := e\<rparr>)" "view e = view (ext w)" by blast
  then have "x = client" "\<And>d. net_part view d w' = net_part view d w" using rd by (auto simp: net_part_def)
  then show "part.tracks view P c (k x) (net_part view c w') \<and> (\<forall>d. d \<noteq> c \<longrightarrow> net_part view d w' = net_part view d w)"
    using assms(2) own by simp
qed

lemma tracks_sending:
  assumes "part.tracks view P c (k client) ([], [], out @ reply a)"
  shows "part.tracks view P c (followed_by (sending (E c) client a) k) ([], [], out)"
proof (cases a)
  case None
  then show ?thesis using assms by (simp add: sending_def reply_def)
next
  case (Some y)
  have "part.tracks view P c (followed_by (access (\<lambda>w. Some (send_answer (E c) client y w))) k) ([], [], out)"
  proof (rule part.tracks_step)
    fix w x w'
    assume own: "net_part view c w = ([], [], out)" and snd: "Some (send_answer (E c) client y w) = Some (x, w')"
    have "staged (view (ext w)) c = []" using own by (simp add: net_part_def)
    from answer_sent [OF this, of client y] obtain e where "send_answer (E c) client y w = (client, w\<lparr>ext := e\<rparr>)"
        "view e = (view (ext w))\<lparr>sent := (sent (view (ext w)))(c := sent (view (ext w)) c @ y)\<rparr>" by blast
    then have "x = client" "net_part view c w' = ([], [], out @ y)" "\<And>d. d \<noteq> c \<Longrightarrow> net_part view d w' = net_part view d w"
      using snd own by (auto simp: net_part_def)
    then show "part.tracks view P c (k x) (net_part view c w') \<and> (\<forall>d. d \<noteq> c \<longrightarrow> net_part view d w' = net_part view d w)"
      using assms by (simp add: Some reply_def)
  qed
  then show ?thesis by (simp add: sending_def Some)
qed

lemma tracks_message:
  assumes "\<And>x. part.tracks view P c (k x) v"
  shows "part.tracks view P c (followed_by (message_steps (E c) data n m) k) v"
  using guarantee_mono [OF others.guarantee_message [of c data n m]]
  by (intro part.tracks_guarantee assms) (simp add: net_part_def)

lemma serve_steps_track:
  assumes "ready client" and "message_ok m"
    and "\<And>c' a. ready c' \<Longrightarrow> part.tracks view P c (k (c', a)) ([], [], out @ reply a)"
  shows "part.tracks view P c (followed_by (serve_steps (E c) (arrive c) m client) k) ([], [], out)"
proof -
  have n: "length (encode m) \<le> 1024" using message_length [OF assms(2)] by (cases m; simp)
  let ?data = "encode m @ left_over client (encode m)"
  note h = holding_ready [OF assms(1) left_over_length [OF assms(1) n]]
  have "part.tracks view P c (followed_by (sending (E c) (holding client ?data) a) (\<lambda>c2.
      followed_by (reading_nothing (E c) c2) (\<lambda>c3. k (c3, a)))) ([], [], out)" for a
    using h(1) assms(3) by (intro tracks_sending tracks_nothing)
  then have "part.tracks view P c (followed_by (message_steps (E c) ?data (int (length (encode m))) m) (\<lambda>(r, a).
      followed_by (sending (E c) (holding client ?data) a) (\<lambda>c2.
        followed_by (reading_nothing (E c) c2) (\<lambda>c3. k (c3, a))))) ([], [], out)"
    by (intro tracks_message) (auto split: prod.splits)
  then show ?thesis
    using h(2) unfolding serve_steps_def followed_by_assoc
    by (intro tracks_reading assms(1) n) (auto simp: followed_by_compute followed_by_assoc case_prod_beta')
qed

lemma session_steps_track:
  assumes "ready client" and "list_all message_ok ms"
    and "\<And>c' as. part.tracks view P c (k (c', as)) ([], [], out @ concat (map reply as))"
  shows "part.tracks view P c (followed_by (session_steps (E c) (arrive c) ms client) k) ([], [], out)"
  using assms
proof (induction ms arbitrary: client k out)
  case Nil
  from Nil.prems(3) [of client "[]"] show ?case by simp
next
  case (Cons m ms)
  have ok: "message_ok m" "list_all message_ok ms" using Cons.prems(2) by auto
  have "part.tracks view P c (followed_by (session_steps (E c) (arrive c) ms c1) (\<lambda>(c2, as). k (c2, a # as)))
      ([], [], out @ reply a)" if "ready c1" for c1 a
    using Cons.prems(3) [of _ "a # _"] by (intro Cons.IH [OF that ok(2)]) simp
  then show ?case
    unfolding session_steps.simps followed_by_assoc
    by (intro serve_steps_track Cons.prems(1) ok(1)) (simp add: followed_by_assoc case_prod_beta')
qed

lemma session_steps_sends:
  assumes "ready client" and "list_all message_ok ms"
  shows "part.tracks view (\<lambda>(c', as) v. v = ([], [], out @ concat (map reply as))) c
    (session_steps (E c) (arrive c) ms client) ([], [], out)"
  using session_steps_track [OF assms, where k = Return] by (simp add: followed_by_return)

section \<open>All of them at once\<close>

lemma overlapping_sessions:
  assumes rep: "represents (net_kv (view (ext w))) b" and quiet: "quiet_net view w"
    and rd: "\<forall>c. ready (clients c)" and ok: "list_all (\<lambda>x. list_all message_ok (snd x)) ss" and "distinct (map fst ss)"
    and pool: "length ss \<le> size (net_idle (view (ext w)))"
    and run: "interleaved n (map (\<lambda>(c, ms). session_steps (E c) (arrive c) ms (clients c)) ss, w) (js, w')"
  shows "n \<le> 9 * length (concat (map snd ss))" and "\<not> stuck_thread (js, w') i"
    and "\<exists>l q. interleaved l (js, w') q \<and> all_done (fst q)"
    and "\<exists>b'. represents (net_kv (view (ext w'))) b' \<and> reachable_broker width b (concat (map snd ss)) b'"
    and "length js = length ss"
    and "i < length ss \<Longrightarrow> ss ! i = (c, ms) \<Longrightarrow> js ! i = Return (client', as)
      \<Longrightarrow> list_all2 (answer_allowed width (localtime_now w) b (concat (map snd ss))) ms as
        \<and> sent (view (ext w')) c = sent (view (ext w)) c @ concat (map reply as)"
proof -
  let ?all = "concat (map snd ss)" and ?t = "localtime_now w"
  let ?start = "map (\<lambda>(c, ms). session_steps (E c) (arrive c) ms (clients c)) ss"
  let ?P = "\<lambda>i (c' :: client, as). list_all2 (answer_allowed width ?t b ?all) (snd (ss ! i)) as"
  have one: "list_all message_ok (snd (ss ! i))" "set (snd (ss ! i)) \<subseteq> set ?all" if "i < length ss" for i
    using ok nth_mem [OF that] by (auto simp: list_all_iff)
  have "session_ok view width ?t b ?all w"
    using race_ok_start [where kv = "\<lambda>e. net_kv (view e)", OF rep] quiet by (simp add: session_ok_def)
  moreover have "session_sound ?t b ?all (?P i) (9 * length (snd (ss ! i))) 0 (?start ! i)" if i: "i < length ss" for i
    using session_steps_sound [OF _ one [OF i], of _ ?t b "fst (ss ! i)"] rd i by (auto simp: case_prod_beta')
  ultimately have s0: "shared_state.sound_threads (session_ok view width ?t b ?all) (spare view) ?P (\<lambda>i. 9 * length (snd (ss ! i))) (\<lambda>_. 0) (?start, w)"
    using pool by (simp add: sessions.sound_threads_def spare_size)
  from sessions.interleaved_sound [OF run this] obtain m h where
      s: "shared_state.sound_threads (session_ok view width ?t b ?all) (spare view) ?P m h (js, w')" and len: "length js = length ss"
      and n: "n + (\<Sum>i<length ss. m i) = (\<Sum>i<length ss. 9 * length (snd (ss ! i)))" by auto
  have "(\<Sum>i<length ss. 9 * length (snd (ss ! i))) = 9 * length ?all"
    by (simp add: length_concat sum_list_sum_nth atLeast0LessThan sum_distrib_left)
  then show "n \<le> 9 * length ?all" using n by linarith
  show "\<not> stuck_thread (js, w') i" using s by (rule sessions.sound_not_stuck)
  show "\<exists>l q. interleaved l (js, w') q \<and> all_done (fst q)" using s by (rule sessions.sound_completes)
  show "\<exists>b'. represents (net_kv (view (ext w'))) b' \<and> reachable_broker width b ?all b'"
    using sessions.sound_inv [OF s] by (auto simp: session_ok_def race_ok_def)
  show "length js = length ss" by (rule len)
  assume i: "i < length ss" "ss ! i = (c, ms)" "js ! i = Return (client', as)"
  have "list_all2 (answer_allowed width ?t b ?all) ms as"
    using sessions.sound_result [OF s, of i "(client', as)"] i len by simp
  let ?Q = "\<lambda>i (c' :: client, as) v. v = ([], [], sent (view (ext w)) (fst (ss ! i)) @ concat (map reply as))"
  have "part.tracks view (?Q i) (map fst ss ! i) (?start ! i) (net_part view (map fst ss ! i) w)" if j: "i < length ss" for i
    using session_steps_sends [OF _ one(1) [OF j]] rd quiet j by (simp add: case_prod_beta' net_part_def quiet_net_def)
  then have "part.tracks view (?Q i) (map fst ss ! i) (js ! i) (net_part view (map fst ss ! i) w')"
    using part.interleaved_tracks [OF run assms(5), of view ?Q] i(1) by simp
  then have "sent (view (ext w')) c = sent (view (ext w)) c @ concat (map reply as)"
    using i by (simp add: net_part_def)
  with \<open>list_all2 (answer_allowed width ?t b ?all) ms as\<close>
  show "list_all2 (answer_allowed width ?t b ?all) ms as \<and> sent (view (ext w')) c = sent (view (ext w)) c @ concat (map reply as)"
    by blast
qed

end

end
