(* ===== verification/Robot_Exhaustion.thy ===== *)
theory Robot_Exhaustion
  imports Robot_Overtaking
begin

text \<open>
  The pool of database connections is smaller than the number of workers. A location report takes
  a connection; when as many reports as there are connections are between taking theirs and
  giving it back, the pool is empty and the next report gets a null pointer, which the statement
  dereferences (\<open>reports_run_out\<close>). The number of workers is \<^const>\<open>NUM_THREADS\<close>, and
  \<open>ConnectionPoolInstanceInit\<close> leaves the size of the pool at its default.
\<close>

unbundle bit_operations_syntax

section \<open>The two halves of a location report\<close>

text \<open>
  What is left of the callback of the packet \<open>data\<close>, once \<open>insertDeviceGps\<close> holds the connection
  \<open>con\<close>: the insertion, the return of the connection, the publication for the user \<open>u\<close> and the
  answer.
\<close>

definition report_holding ::
    "'w externals \<Rightarrow> nat \<Rightarrow> byte list \<Rightarrow> message \<Rightarrow> nat \<Rightarrow> nat \<Rightarrow> ('w world, int \<times> byte list option) activity" where
  "report_holding E width data m u con = (case m of
     Device_location d x \<Rightarrow>
       followed_by (changing (run_execute E con SQL_INSERT_DEVICE_GPS
           [longitude_of data, latitude_of data, dec (signed_le (take 4 (drop 24 data))), hex_text d])) (\<lambda>_.
         followed_by (changing (\<lambda>w. Some (give_connection E con w))) (\<lambda>_.
           followed_by (storing E (dec (int u)) (place_report width x))
             (\<lambda>s. Return (if s = -1 then -2 else 0, Some (bytes ''RETOK%'')))))
   | _ \<Rightarrow> Return (0, None))"

text \<open>A callback that holds a connection, and one whose next access takes one.\<close>

definition holds_connection ::
    "('c \<Rightarrow> 'w externals) \<Rightarrow> nat \<Rightarrow> broker \<Rightarrow> 'c arrived \<Rightarrow> nat \<Rightarrow> ('w world, int \<times> byte list option) activity \<Rightarrow> bool" where
  "holds_connection E width b x con t \<longleftrightarrow> (case x of (c, m, old) \<Rightarrow>
     (case m of
        Device_location d y \<Rightarrow> (case owner b d of
          Some u \<Rightarrow> t = report_holding (E c) width (encode m @ old) m u con
        | None \<Rightarrow> False)
      | _ \<Rightarrow> False))"

definition takes_connection ::
    "('c \<Rightarrow> 'w externals) \<Rightarrow> nat \<Rightarrow> broker \<Rightarrow> 'c arrived \<Rightarrow> ('w world, int \<times> byte list option) activity \<Rightarrow> bool" where
  "takes_connection E width b x t \<longleftrightarrow> (case x of (c, m, old) \<Rightarrow>
     (case m of
        Device_location d y \<Rightarrow> (case owner b d of
          Some u \<Rightarrow> t = followed_by (access (take_connection (E c))) (report_holding (E c) width (encode m @ old) m u)
        | None \<Rightarrow> False)
      | _ \<Rightarrow> False))"

section \<open>A location report up to the point where it takes a connection\<close>

context generous
begin

lemma location_until_take:
  assumes "represents (kv (ext w)) b" and "message_ok (Device_location d x)" and data: "data = 0x47 # d @ x @ old"
    and len: "length data = 1024" and width: "sizeof_long E = width" "width = 4 \<or> width = 8" and "owner b d = Some u"
    and js: "js ! i = message_steps E data 32 (Device_location d x)" "i < length js"
  shows "\<exists>w1. kv (ext w1) = kv (ext w) \<and> idle (ext w1) = idle (ext w)
    \<and> interleaved 2 (js, w)
        (js[i := followed_by (access (take_connection E)) (report_holding E width data (Device_location d x) u)], w1)"
proof -
  have d: "length d = 8" and x: "length x = 23" using assms(2) by auto
  have u: "u < 10 ^ 8" using assms(7) represents_ok [OF assms(1)] by (auto simp: broker_ok_def)
  have l: "length (longitude_of data) = 11" "length (latitude_of data) = 11"
    using len by (simp_all add: longitude_of_def latitude_of_def length_coord_text)
  let ?u = "dec (int u) @ replicate (256 - length (dec (int u))) 0"
  have user: "cstr ?u 0 = Some (dec (int u))"
    using length_dec_user [OF u] by (intro cstr_zeros) auto
  obtain w1 where w1: "run_activity (reading E (bytes ''R_'' @ hex_text d) (replicate 256 0) 0) w =
      Some ((int (length (dec (int u))), ?u), w1)" "kv (ext w1) = kv (ext w)" "idle (ext w1) = idle (ext w)"
    using owner_found [OF assms(1) d assms(7)] by blast
  have "\<exists>w2. location_thread data (hex_text d) (longitude_of data) (latitude_of data) w1 = Some w2 \<and> ext w2 = ext w1"
    using len l device_key(2) [OF d] by (auto simp: location_thread_def sprintf_at_def blit_def pthread_create_def)
  then obtain w2 where "location_thread data (hex_text d) (longitude_of data) (latitude_of data) w1 = Some w2"
      "ext w2 = ext w1" by blast
  then have w2: "run_activity (changing (location_thread data (hex_text d) (longitude_of data) (latitude_of data))) w1 = Some ((), w2)"
      "ext w2 = ext w1" by (simp_all add: run_accesses)
  let ?k = "report_holding E width data (Device_location d x) u"
  have k: "?k = (\<lambda>con. followed_by (changing (run_execute E con SQL_INSERT_DEVICE_GPS
      [longitude_of data, latitude_of data, dec (signed_le (take 4 (drop 24 data))), hex_text d])) (\<lambda>_.
    followed_by (changing (\<lambda>w. Some (give_connection E con w))) (\<lambda>_.
      followed_by (storing E (dec (int u)) (place_report width x))
        (\<lambda>s. Return (if s = -1 then -2 else 0, Some (bytes ''RETOK%''))))))"
    by (simp add: report_holding_def fun_eq_iff)
  let ?h = "followed_by (access (take_connection E)) ?k"
  let ?h1 = "followed_by (changing (location_thread data (hex_text d) (longitude_of data) (latitude_of data))) (\<lambda>_. ?h)"
  have s1: "interleaved (Suc 0) (js[i := ?h1], w1) (js[i := ?h], w2)"
    using js(2) by (intro interleaved_run [where k = "\<lambda>_. ?h" and i = i, OF _ _ w2(1)])
      (simp_all add: changing_def interleaved.start)
  have "interleaved (Suc (Suc 0)) (js, w) (js[i := ?h], w2)"
    using js(2) s1 user
    by (intro interleaved_run [OF js(1) [unfolded location_step_list [OF assms(2) data len width]] _ w1(1)])
      (simp_all add: reading_def followed_by_compute insert_steps_def followed_by_assoc k)
  then show ?thesis
    using w1(2,3) w2(2) by (intro exI [of _ w2]) (simp add: numeral_2_eq_2)
qed

lemma take_first:
  assumes "idle (ext w) \<noteq> {#}" and "i < length js"
  shows "\<exists>con w1. kv (ext w1) = kv (ext w) \<and> idle (ext w) = add_mset con (idle (ext w1))
    \<and> interleaved 1 (js[i := followed_by (access (take_connection E)) k], w) (js[i := k con], w1)"
proof -
  obtain con e where e: "ConnectionPool_getConnection E (ext w) = (Some con, e)"
    using gives [OF assms(1)] by (metis not_None_eq prod.collapse)
  then have t: "take_connection E w = Some (con, w\<lparr>ext := e\<rparr>)" by (simp add: take_connection_def with_ext_def)
  have "interleaved (Suc 0) (js[i := followed_by (access (take_connection E)) k], w) (js[i := k con], w\<lparr>ext := e\<rparr>)"
    using assms(2)
    by (intro interleaved_next [where f = "take_connection E" and k = k and i = i, OF _ _ _ t]) (simp_all add: interleaved.start)
  then show ?thesis using pool_take [OF e] by (intro exI [of _ con] exI [of _ "w\<lparr>ext := e\<rparr>"]) simp
qed

end

section \<open>One report too many\<close>

context connections
begin

lemma reports_run_out:
  assumes empty: "\<forall>c e. net_idle (view e) = {#} \<longrightarrow> fst (ConnectionPool_getConnection (E c) e) = None"
    and bound: "list_all (\<lambda>x. arrived_ok x \<and> (\<exists>c d y old u. x = (c, Device_location d y, old) \<and> owner b d = Some u)) xs"
    and "represents (net_kv (view (ext w))) b" and "size (net_idle (view (ext w))) = m" and "length js = j + Suc m"
    and "length xs = length js" and "\<forall>i. j \<le> i \<and> i < length js \<longrightarrow> js ! i = callback E (xs ! i)"
  shows "\<exists>n js' w' cons. interleaved n (js, w) (js', w') \<and> net_idle (view (ext w')) = {#}
    \<and> length js' = length js \<and> mset cons = net_idle (view (ext w)) \<and> (\<forall>i < j. js' ! i = js ! i)
    \<and> (\<forall>i < m. holds_connection E width b (xs ! (j + i)) (cons ! i) (js' ! (j + i)))
    \<and> takes_connection E width b (xs ! (j + m)) (js' ! (j + m)) \<and> stuck_thread (js', w') (j + m)"
  using assms(3-7)
proof (induction m arbitrary: j js w)
  have start: "\<exists>w1 k. net_kv (view (ext w1)) = net_kv (view (ext w)) \<and> net_idle (view (ext w1)) = net_idle (view (ext w))
      \<and> interleaved 2 (js, w) (js[j := followed_by (access (take_connection (E (fst (xs ! j))))) k], w1)
      \<and> takes_connection E width b (xs ! j) (followed_by (access (take_connection (E (fst (xs ! j))))) k)
      \<and> (\<forall>con. holds_connection E width b (xs ! j) con (k con))"
    if r: "represents (net_kv (view (ext w))) b" and len: "length xs = length js" "j < length js"
      and j: "js ! j = callback E (xs ! j)" for js j and w :: "'w world"
  proof -
    obtain c d y old u where x: "arrived_ok (xs ! j)" "xs ! j = (c, Device_location d y, old)" "owner b d = Some u"
      using bound len by (auto simp: list_all_length)
    have ok: "message_ok (Device_location d y)" and l: "length (0x47 # d @ y @ old) = 1024"
      using x(1) by (simp_all add: x(2) arrived_ok_def)
    have "js ! j = message_steps (E c) (0x47 # d @ y @ old) 32 (Device_location d y)"
      using message_length [OF ok] by (simp add: j x(2) callback_def)
    from provider.location_until_take [OF r ok HOL.refl l widths width_of_long x(3) this len(2)] obtain w1 where
      "net_kv (view (ext w1)) = net_kv (view (ext w))" "net_idle (view (ext w1)) = net_idle (view (ext w))"
      "interleaved 2 (js, w) (js[j := followed_by (access (take_connection (E c)))
        (report_holding (E c) width (0x47 # d @ y @ old) (Device_location d y) u)], w1)" by (elim exE conjE)
    then show ?thesis using x(3)
      by (intro exI [of _ w1] exI [of _ "report_holding (E c) width (0x47 # d @ y @ old) (Device_location d y) u"])
        (simp add: x(2) takes_connection_def holds_connection_def)
  qed
  {
    case 0
    have j: "j < length js" "js ! j = callback E (xs ! j)" using "0.prems" by simp_all
    obtain w1 k where w1: "net_idle (view (ext w1)) = net_idle (view (ext w))"
        "interleaved 2 (js, w) (js[j := followed_by (access (take_connection (E (fst (xs ! j))))) k], w1)"
        "takes_connection E width b (xs ! j) (followed_by (access (take_connection (E (fst (xs ! j))))) k)"
      using start [OF "0.prems"(1,4) j] by (elim exE conjE)
    have e: "net_idle (view (ext w1)) = {#}" using "0.prems"(2) w1(1) by simp
    from empty [rule_format, OF this, of "fst (xs ! j)"] have "take_connection (E (fst (xs ! j))) w1 = None"
      by (cases "ConnectionPool_getConnection (E (fst (xs ! j))) (ext w1)") (simp add: take_connection_def with_ext_def)
    then have "stuck_thread (js[j := followed_by (access (take_connection (E (fst (xs ! j))))) k], w1) j"
      using j(1) by (simp add: stuck_thread_def followed_by_access)
    then show ?case using w1(2,3) e j(1) "0.prems"(2)
      by (intro exI [of _ 2] exI [of _ "js[j := followed_by (access (take_connection (E (fst (xs ! j))))) k]"]
          exI [of _ w1] exI [of _ "[]"]) simp
  next
    case (Suc m)
    have j: "j < length js" "js ! j = callback E (xs ! j)" using Suc.prems by simp_all
    obtain w1 k where w1: "net_kv (view (ext w1)) = net_kv (view (ext w))" "net_idle (view (ext w1)) = net_idle (view (ext w))"
        "interleaved 2 (js, w) (js[j := followed_by (access (take_connection (E (fst (xs ! j))))) k], w1)"
        "\<forall>con. holds_connection E width b (xs ! j) con (k con)"
      using start [OF Suc.prems(1,4) j] by (elim exE conjE)
    have "net_idle (view (ext w1)) \<noteq> {#}" using Suc.prems(2) w1(2) by auto
    from provider.take_first [OF this j(1), of "fst (xs ! j)" k] obtain con w2 where w2: "net_kv (view (ext w2)) = net_kv (view (ext w1))"
        "net_idle (view (ext w1)) = add_mset con (net_idle (view (ext w2)))"
        "interleaved 1 (js[j := followed_by (access (take_connection (E (fst (xs ! j))))) k], w1) (js[j := k con], w2)"
      by (elim exE conjE)
    have "size (net_idle (view (ext w1))) = Suc (size (net_idle (view (ext w2))))" by (simp add: w2(2))
    then have "size (net_idle (view (ext w2))) = m" using Suc.prems(2) by (simp add: w1(2))
    then have "\<exists>n js' w' cons. interleaved n (js[j := k con], w2) (js', w') \<and> net_idle (view (ext w')) = {#}
        \<and> length js' = length (js[j := k con]) \<and> mset cons = net_idle (view (ext w2))
        \<and> (\<forall>i < Suc j. js' ! i = js[j := k con] ! i)
        \<and> (\<forall>i < m. holds_connection E width b (xs ! (Suc j + i)) (cons ! i) (js' ! (Suc j + i)))
        \<and> takes_connection E width b (xs ! (Suc j + m)) (js' ! (Suc j + m)) \<and> stuck_thread (js', w') (Suc j + m)"
      using Suc.prems(1,3-5) w1(1) w2(1) by (intro Suc.IH [of w2 _ "Suc j"]) (auto simp: nth_list_update)
    then obtain n js' w' cons where r: "interleaved n (js[j := k con], w2) (js', w')" "net_idle (view (ext w')) = {#}"
        "length js' = length js" "mset cons = net_idle (view (ext w2))" "\<forall>i < Suc j. js' ! i = js[j := k con] ! i"
        "\<forall>i < m. holds_connection E width b (xs ! (Suc j + i)) (cons ! i) (js' ! (Suc j + i))"
        "takes_connection E width b (xs ! (Suc j + m)) (js' ! (Suc j + m))" "stuck_thread (js', w') (Suc j + m)"
      unfolding length_list_update by (elim exE conjE)
    have "js' ! j = k con" using r(5) j(1) by simp
    then have "holds_connection E width b (xs ! (j + i)) ((con # cons) ! i) (js' ! (j + i))" if "i < Suc m" for i
      using that r(6) w1(4) by (cases i) simp_all
    moreover have "interleaved (2 + (1 + n)) (js, w) (js', w')"
      using interleaved_trans [OF interleaved_trans [OF r(1) w2(3)] w1(3)] by (simp add: add.commute)
    moreover have "\<forall>i < j. js' ! i = js ! i" using r(5) by simp
    ultimately show ?case using r(2-4,7,8) w1(2) w2(2)
      by (intro exI [of _ "2 + (1 + n)"] exI [of _ js'] exI [of _ w'] exI [of _ "con # cons"]) simp
  }
qed

end

section \<open>A case\<close>

definition demo_place :: message where
  "demo_place = Device_location demo_dev (replicate 23 0)"

lemma demo_place_arrived: "arrived_ok (c, demo_place, replicate 992 0)"
  by (simp add: arrived_ok_def demo_place_def)

end
