(* ===== verification/Syner_Receiver.thy ===== *)
theory Syner_Receiver
  imports Apollo_Syner
begin

text \<open>
  The multicast receiver and whatever else arrives on its port. First, exactly which datagrams
  make a turn of \<open>ApolloSyner\<close> write or read outside its buffers: the header fields of an accepted
  datagram are used as they are. Second, what does not disturb a transfer: errors, datagrams that
  are no block packets, and later packets of other devices.
\<close>

section \<open>The memory of a turn\<close>

definition datagram :: "byte list option \<Rightarrow> byte list" where
  "datagram r = (case r of None \<Rightarrow> replicate 1048 0
     | Some d \<Rightarrow> take 1024 d @ replicate (1048 - min (length d) 1024) 0)"

definition received_bytes :: "byte list option \<Rightarrow> nat" where
  "received_bytes r = (case r of None \<Rightarrow> 2 ^ 32 - 1 | Some d \<Rightarrow> min (length d) 1024)"

definition fields_of :: "byte list \<Rightarrow> block_fields" where
  "fields_of data = \<lparr>dataLength = sint (data ! 30) * 256 + uint (data ! 31), pktIndex = sint (data ! 13),
     pktTotal = sint (data ! 29)\<rparr>"

lemma length_datagram [simp]: "length (datagram r) = 1048"
  by (simp add: datagram_def split: option.splits)

lemma read_fields_datagram [simp]: "read_fields (datagram r) = Some (fields_of (datagram r))"
  by (simp add: read_fields_def fields_of_def)

text \<open>A turn works on the datagram only if it is a block packet of the transfer under way, or the first of one.\<close>

definition addressed :: "syner \<Rightarrow> byte list option \<Rightarrow> bool" where
  "addressed st r \<longleftrightarrow> datagram r ! 0 = 0x56
     \<and> (pktIndex (fields_of (datagram r)) = 0 \<or> take 8 (drop 1 (datagram r)) = u8DevId st)"

lemma step_datagram:
  assumes "syner_wf st"
  shows "ApolloSyner_step save st r w = (if \<not> addressed st r then Some (st, w)
    else syner_accept save (take 8 (drop 1 (datagram r))) (u8SynerBlockData st) (received_bytes r) (datagram r)
      (fields_of (datagram r)) w)"
proof -
  let ?data = "datagram r" and ?f = "fields_of (datagram r)" and ?d = "u8DevId st"
  have data: "(case r of None \<Rightarrow> Some (replicate 1048 0) | Some d \<Rightarrow> blit (replicate 1048 0) 0 (take 1024 d)) = Some ?data"
    by (auto simp: datagram_def blit_def min_def split: option.splits)
  have l: "length ?d = 8" using assms by (simp add: syner_wf_def)
  have dev: "syner_device ?d ?data ?f = Some (if pktIndex ?f = 0 then take 8 (drop 1 ?data) else ?d)"
    using l by (simp add: syner_device_def fetch_def blit_def)
  have cmp: "apollo_strcmp d 0 ?data 1 8 = Some (if d = take 8 (drop 1 ?data) then 1 else 0)" if "length d = 8" for d
    using that by (simp add: apollo_strcmp_iff)
  have "ApolloSyner_step save st r w = (if ?data ! 0 \<noteq> 0x56 then Some (st, w)
      else do {
        devId \<leftarrow> syner_device ?d ?data ?f;
        same \<leftarrow> apollo_strcmp devId 0 ?data 1 8;
        if same = 0 then Some (st\<lparr>u8DevId := devId\<rparr>, w)
        else syner_accept save devId (u8SynerBlockData st) (received_bytes r) ?data ?f w })"
    by (simp add: ApolloSyner_step_def data received_bytes_def [symmetric] Let_def)
  then show ?thesis using dev cmp l by (auto simp: addressed_def)
qed

section \<open>Which datagrams leave the buffers\<close>

lemma copy_loop_defined:
  "copy_loop d i s j n = None \<longleftrightarrow> 0 < n \<and> \<not> (i + n \<le> length d \<and> j + n \<le> length s)"
  by (induction n arbitrary: d i j) (auto simp: peek_def poke_def split: bind_splits if_splits)

text \<open>The payload fits where it comes from and where it goes to.\<close>

definition payload_fits :: "block_fields \<Rightarrow> bool" where
  "payload_fits f \<longleftrightarrow> dataLength f \<le> 0
     \<or> 0 \<le> pktIndex f \<and> pktIndex f * 992 + dataLength f \<le> 32768 \<and> dataLength f \<le> 1016"

lemma store_block_defined:
  assumes "length buffer = 32768" and "length data = 1048"
  shows "store_block buffer (pktIndex f * 992) data 32 (dataLength f) = None \<longleftrightarrow> \<not> payload_fits f"
  using assms
  by (auto simp: store_block_def payload_fits_def to_index_def copy_loop_defined split: bind_splits)

definition syner_name :: "data_save_type \<Rightarrow> byte list \<Rightarrow> byte list" where
  "syner_name save data = (if data ! 20 = MULTICAST_TYPE_AGPS \<and> data ! 20 \<noteq> MULTICAST_TYPE_BLOCK
     then agps_path save (hex_text (take 8 (drop 1 data))) else block_path save (hex_text (take 8 (drop 1 data))))"

definition turn_fits :: "data_save_type \<Rightarrow> byte list option \<Rightarrow> 'w world \<Rightarrow> bool" where
  "turn_fits save r w \<longleftrightarrow> (let f = fields_of (datagram r); len = pktIndex f * 992 + dataLength f in
     if pktIndex f + 1 = pktTotal f
     then payload_fits f \<and> 0 \<le> len \<and> len \<le> 32768 \<and> creatable w (syner_name save (datagram r))
     else received_bytes r = 1024 \<longrightarrow> payload_fits f)"

lemma syner_path_name:
  assumes "length data = 1048"
  shows "\<exists>buf. syner_path save (data ! 20) (hex_text (take 8 (drop 1 data)) @ [0]) = Some buf
    \<and> cstr buf 0 = Some (syner_name save data)"
proof -
  let ?h = "hex_text (take 8 (drop 1 data))"
  have h: "cstr (?h @ [0]) 0 = Some ?h" "length ?h = 16" "0 \<notin> set ?h"
    using cstr_hex_buffer [of "take 8 (drop 1 data)" 1] assms by simp_all
  have "length (block_path save ?h) < 64" "length (agps_path save ?h) < 64"
    using h(2) by (cases save; simp add: block_path_def agps_path_def bytes_def)+
  then obtain b c where b: "sprintf_at (replicate 64 0) 0 (block_path save ?h) = Some b" "cstr b 0 = Some (block_path save ?h)"
    and c: "sprintf_at (replicate 64 0) 0 (agps_path save ?h) = Some c" "cstr c 0 = Some (agps_path save ?h)"
    using sprintf_ok [of "block_path save ?h" 0 "replicate 64 0"] sprintf_ok [of "agps_path save ?h" 0 "replicate 64 0"]
      block_path_no_nul [OF h(3)] agps_path_no_nul [OF h(3)] by auto
  then show ?thesis
    using h(1) by (auto simp: syner_path_def genBlockFilePathName_def genAgpsFilePathName_def syner_name_def)
qed

lemma write_dat_defined:
  assumes "cstr filename 0 = Some path" and "length data = 32768"
  shows "write_dat filename data len w = None \<longleftrightarrow> \<not> (0 \<le> len \<and> len \<le> 32768 \<and> creatable w path)"
  using assms by (auto simp: write_dat_def to_index_def fetch_def split: bind_splits)

lemma accept_defined:
  assumes "length block = 32768" and "length data = 1048" and "f = fields_of data"
  shows "syner_accept save devId block n data f w = None \<longleftrightarrow>
    \<not> (if pktIndex f + 1 = pktTotal f
       then payload_fits f \<and> 0 \<le> pktIndex f * 992 + dataLength f \<and> pktIndex f * 992 + dataLength f \<le> 32768
         \<and> creatable w (syner_name save data)
       else n = 1024 \<longrightarrow> payload_fits f)"
proof (cases "pktIndex f + 1 = pktTotal f")
  case False
  then show ?thesis using store_block_defined [OF assms(1,2), of f]
    by (auto simp: syner_accept_def split: bind_splits)
next
  case True
  obtain buf where buf: "syner_path save (data ! 20) (hex_text (take 8 (drop 1 data)) @ [0]) = Some buf"
      "cstr buf 0 = Some (syner_name save data)"
    using syner_path_name [OF assms(2)] by blast
  have hex: "hextostring (replicate 17 0) 0 data 1 8 = Some (hex_text (take 8 (drop 1 data)) @ [0])"
    using assms(2) by (simp add: hextostring_into_zeros)
  have w: "write_dat buf b2 len w = None \<longleftrightarrow> \<not> (0 \<le> len \<and> len \<le> 32768 \<and> creatable w (syner_name save data))"
    if "store_block block (pktIndex f * 992) data 32 (dataLength f) = Some b2" for b2 len
    using write_dat_defined [OF buf(2), of b2] store_block_length [OF that] assms(1) by simp
  show ?thesis
  proof (cases "store_block block (pktIndex f * 992) data 32 (dataLength f)")
    case None
    then show ?thesis using store_block_defined [OF assms(1,2), of f] True by (simp add: syner_accept_def)
  next
    case (Some b2)
    then have "payload_fits f" using store_block_defined [OF assms(1,2), of f] by simp
    then show ?thesis
      using True Some w [OF Some, of "pktIndex f * 992 + dataLength f"] buf(1) hex assms(2)
      by (cases "write_dat buf b2 (pktIndex f * 992 + dataLength f) w") (auto simp: syner_accept_def)
  qed
qed

lemma step_defined:
  assumes "syner_wf st"
  shows "ApolloSyner_step save st r w = None \<longleftrightarrow> addressed st r \<and> \<not> turn_fits save r w"
  using accept_defined [of "u8SynerBlockData st" "datagram r" "fields_of (datagram r)" save "take 8 (drop 1 (datagram r))"
      "received_bytes r" w] assms
  by (simp add: step_datagram [OF assms] turn_fits_def Let_def syner_wf_def)

lemma accept_creatable: "syner_accept save devId block n data f w = Some (st', w') \<Longrightarrow> creatable w' = creatable w"
  by (auto simp: syner_accept_def write_dat_def bind_eq_Some_conv split: if_splits)

lemma step_creatable: "syner_wf st \<Longrightarrow> ApolloSyner_step save st r w = Some (st', w') \<Longrightarrow> creatable w' = creatable w"
  by (auto simp: step_datagram dest: accept_creatable split: if_splits)

lemma turn_fits_cong: "creatable w1 = creatable w \<Longrightarrow> turn_fits save r w1 = turn_fits save r w"
  by (simp add: turn_fits_def)

lemma run_defined:
  assumes "syner_wf st" and "list_all (\<lambda>r. turn_fits save r w) rs"
  shows "\<exists>st' w'. syner_run save st rs w = Some (st', w') \<and> syner_wf st'"
  using assms
proof (induction rs arbitrary: st w)
  case (Cons r rs)
  obtain st1 w1 where s: "ApolloSyner_step save st r w = Some (st1, w1)"
    using step_defined [OF Cons.prems(1), of save r w] Cons.prems(2) by (cases "ApolloSyner_step save st r w") auto
  have "list_all (\<lambda>r. turn_fits save r w1) rs"
    using Cons.prems(2) turn_fits_cong [OF step_creatable [OF Cons.prems(1) s]] by simp
  then show ?case using Cons.IH [OF syner_step_wf [OF Cons.prems(1) s]] s by simp
qed simp

section \<open>Strangers\<close>

text \<open>What arrives during a transfer for \<open>dev\<close> and has nothing to do with it.\<close>

definition stranger :: "byte list \<Rightarrow> byte list option \<Rightarrow> bool" where
  "stranger dev r \<longleftrightarrow> datagram r ! 0 \<noteq> 0x56 \<or> datagram r ! 13 \<noteq> 0 \<and> take 8 (drop 1 (datagram r)) \<noteq> dev"

lemma stranger_step:
  assumes "syner_wf st" and "u8DevId st = dev" and "stranger dev r"
  shows "ApolloSyner_step save st r w = Some (st, w)"
proof -
  have "sint (datagram r ! 13) = 0 \<longleftrightarrow> datagram r ! 13 = 0" by (metis signed_0 signed_word_eqI)
  then have "\<not> addressed st r" using assms(2,3) by (auto simp: addressed_def stranger_def fields_of_def)
  then show ?thesis by (simp add: step_datagram [OF assms(1)])
qed

lemma accept_device: "syner_accept save devId block n data f w = Some (st', w') \<Longrightarrow> u8DevId st' = devId"
  by (auto simp: syner_accept_def bind_eq_Some_conv split: if_splits)

text \<open>A packet for \<open>dev\<close> leaves the receiver with that device.\<close>

lemma own_step:
  assumes "syner_wf st" and "u8DevId st = dev" and "ApolloSyner_step save st r w = Some (st', w')"
    and "take 8 (drop 1 (datagram r)) = dev"
  shows "u8DevId st' = dev"
  using assms by (auto simp: step_datagram [OF assms(1)] split: if_splits dest!: accept_device)

lemma strangers_skipped:
  assumes "syner_wf st" and "u8DevId st = dev" and "\<forall>r \<in> set rs. stranger dev r \<or> take 8 (drop 1 (datagram r)) = dev"
  shows "syner_run save st rs w = syner_run save st (filter (\<lambda>r. \<not> stranger dev r) rs) w"
  using assms
proof (induction rs arbitrary: st w)
  case (Cons r rs)
  show ?case
  proof (cases "stranger dev r")
    case True
    then show ?thesis using Cons.IH [OF Cons.prems(1,2)] Cons.prems(3) by (simp add: stranger_step [OF Cons.prems(1,2) True])
  next
    case False
    then have own: "take 8 (drop 1 (datagram r)) = dev" using Cons.prems(3) by auto
    show ?thesis
      using False Cons.IH [OF syner_step_wf [OF Cons.prems(1)] own_step [OF Cons.prems(1,2) _ own]] Cons.prems(3)
      by (cases "ApolloSyner_step save st r w") auto
  qed
qed simp

lemma packet_datagram:
  assumes "length dev = 8" and "n_packets (length content) \<le> 32" and "i < n_packets (length content)"
  shows "datagram (Some (flagged f (packet dev content i))) = recv_data f dev content i"
    and "take 8 (drop 1 (datagram (Some (flagged f (packet dev content i))))) = dev"
    and "\<not> stranger dev (Some (flagged f (packet dev content i)))"
proof -
  note facts = recv_data_facts [OF assms, of f]
  show d: "datagram (Some (flagged f (packet dev content i))) = recv_data f dev content i"
    using facts(1) by (simp add: datagram_def blit_def min_def split: if_splits)
  show t: "take 8 (drop 1 (datagram (Some (flagged f (packet dev content i))))) = dev"
    using facts(4) by (simp add: d fetch_def split: if_splits)
  then show "\<not> stranger dev (Some (flagged f (packet dev content i)))"
    using facts(3) by (simp add: stranger_def d)
qed

text \<open>
  The datagrams of a file arrive in order, the first of them first, and strangers anywhere behind
  it: the file is stored as if they had not been there.
\<close>

lemma transfer_undisturbed:
  assumes "length dev = 8" and "n_packets (length content) \<le> 32" and "content \<noteq> []" and "syner_wf st"
    and "creatable w (agps_path save (hex_text dev))" and "rs \<noteq> []" and "\<not> stranger dev (hd rs)"
    and "filter (\<lambda>r. \<not> stranger dev r) rs = map Some (map (flagged MULTICAST_TYPE_AGPS) (packets dev content))"
  shows "syner_run save st rs w = Some (\<lparr>u8DevId = dev, u8SynerBlockData = replicate 32768 0\<rparr>,
    w\<lparr>files := (files w)(agps_path save (hex_text dev) \<mapsto> content)\<rparr>)"
proof -
  let ?n = "n_packets (length content)" and ?p = "\<lambda>i. Some (flagged MULTICAST_TYPE_AGPS (packet dev content i))"
  have "0 < ?n" using assms(3) n_packets_bound [of content] by (cases ?n) auto
  then have up: "[0..<?n] = 0 # [1..<?n]" by (simp add: upt_rec)
  obtain r rs' where rs: "rs = r # rs'" using assms(6) by (cases rs) auto
  have f: "r # filter (\<lambda>r. \<not> stranger dev r) rs' = map ?p [0..<?n]"
    using assms(7,8) by (simp add: rs packets_def comp_def)
  then have r: "r = ?p 0" and tl: "filter (\<lambda>r. \<not> stranger dev r) rs' = map ?p [1..<?n]" by (simp_all add: up)
  note own = packet_datagram [OF assms(1,2), of _ MULTICAST_TYPE_AGPS]
  have known: "stranger dev x \<or> take 8 (drop 1 (datagram x)) = dev" if "x \<in> set rs'" for x
  proof (cases "stranger dev x")
    case False
    then have "x \<in> set (map ?p [1..<?n])" unfolding tl [symmetric] using that by simp
    then show ?thesis using own(2) by auto
  qed simp
  have skip: "syner_run save st1 rs' w1 = syner_run save st1 (filter (\<lambda>r. \<not> stranger dev r) rs') w1"
    if "syner_wf st1" "u8DevId st1 = dev" for st1 and w1 :: "'b world"
    using strangers_skipped [OF that] known by blast
  have "syner_run save st rs w = syner_run save st (r # filter (\<lambda>r. \<not> stranger dev r) rs') w"
  proof (cases "ApolloSyner_step save st r w")
    case (Some y)
    obtain st1 w1 where y: "y = (st1, w1)" by fastforce
    have "addressed st r" using own(1,3) [OF \<open>0 < ?n\<close>] own(2) [OF \<open>0 < ?n\<close>] recv_data_facts(2) [OF assms(1,2) \<open>0 < ?n\<close>, of MULTICAST_TYPE_AGPS]
      recv_data_facts(3) [OF assms(1,2) \<open>0 < ?n\<close>, of MULTICAST_TYPE_AGPS] recv_data_facts(6) [OF assms(1,2) \<open>0 < ?n\<close>, of MULTICAST_TYPE_AGPS]
      by (simp add: addressed_def r fields_of_def read_fields_def)
    then have "u8DevId st1 = dev"
      using Some y own(2) [OF \<open>0 < ?n\<close>]
      by (auto simp: step_datagram [OF assms(4)] r dest!: accept_device)
    moreover have "syner_wf st1" using syner_step_wf [OF assms(4)] Some y by simp
    ultimately show ?thesis using skip Some y by (simp add: rs)
  qed (simp add: rs)
  also have "\<dots> = syner_run save st (map Some (map (flagged MULTICAST_TYPE_AGPS) (packets dev content))) w"
    unfolding f by (simp add: packets_def comp_def)
  finally show ?thesis using syner_receives_file [OF assms(1-5)] by simp
qed

end
