(* ===== verification/Curl_Match.thy ===== *)
theory Curl_Match
  imports Apollo_Sql
begin

text \<open>
  The text matching of \<open>curljson.c\<close>: \<open>compute_prefix\<close> and \<open>kmp_matcher\<close>, whose loops never
  start, and \<open>get_key_index\<close> and \<open>get_key\<close>, with which \<open>handle_data\<close> reads the answer of the
  location service.
\<close>

section \<open>The matcher\<close>

text \<open>
  The \<open>while\<close> loops may run for ever; they are partial functions whose value \<open>None\<close> stands for
  an access out of range or an endless loop. \<open>k\<close> and \<open>q\<close> are never negative: the array holds
  unsigned characters.
\<close>

partial_function (option) prefix_while ::
    "byte list \<Rightarrow> nat \<Rightarrow> nat \<Rightarrow> byte list \<Rightarrow> (nat \<times> byte list) option" where
  "prefix_while pattern q k array =
     (if k = 0 then Some (k, array)
      else Option.bind (peek pattern (k + 1)) (\<lambda>c. Option.bind (peek pattern q) (\<lambda>d.
        if c = d then Some (k, array)
        else Option.bind (peek array k) (\<lambda>a. Option.bind (peek pattern (unat a + 1)) (\<lambda>e.
          Option.bind (poke array q (of_nat (if e = d then unat a + 1 else unat a))) (\<lambda>array'.
            prefix_while pattern q (if e = d then unat a + 1 else unat a) array'))))))"

primrec prefix_loop :: "byte list \<Rightarrow> nat \<Rightarrow> nat \<Rightarrow> nat \<Rightarrow> byte list \<Rightarrow> byte list option" where
  "prefix_loop pattern q 0 k array = Some array"
| "prefix_loop pattern q (Suc m) k array = do {
     (k', array') \<leftarrow> prefix_while pattern q k array;
     prefix_loop pattern (Suc q) m k' array' }"

definition compute_prefix :: "byte list \<Rightarrow> byte list \<Rightarrow> int \<Rightarrow> byte list option" where
  "compute_prefix pattern array len = do {
     array1 \<leftarrow> poke array 0 0;
     prefix_loop pattern 1 (nat (len - 1)) 0 array1 }"

text \<open>The inner loop of the matcher either returns the position (\<open>Inl\<close>) or goes on with \<open>q\<close>.\<close>

partial_function (option) kmp_while ::
    "byte list \<Rightarrow> byte list \<Rightarrow> byte list \<Rightarrow> int \<Rightarrow> nat \<Rightarrow> nat \<Rightarrow> (nat + nat) option" where
  "kmp_while t pattern array pattern_length i q =
     (if q = 0 then Some (Inr q)
      else Option.bind (peek pattern (q + 1)) (\<lambda>c. Option.bind (peek t i) (\<lambda>d.
        if c = d then Some (Inr q)
        else Option.bind (peek array q) (\<lambda>a. Option.bind (peek pattern (unat a + 1)) (\<lambda>e.
          if int (if e = d then unat a + 1 else unat a) = pattern_length then Some (Inl i)
          else kmp_while t pattern array pattern_length i (if e = d then unat a + 1 else unat a))))))"

primrec kmp_loop :: "byte list \<Rightarrow> byte list \<Rightarrow> byte list \<Rightarrow> int \<Rightarrow> nat \<Rightarrow> nat \<Rightarrow> nat \<Rightarrow> int option" where
  "kmp_loop t pattern array pattern_length i 0 q = Some (-1)"
| "kmp_loop t pattern array pattern_length i (Suc m) q = do {
     r \<leftarrow> kmp_while t pattern array pattern_length i q;
     (case r of Inl p \<Rightarrow> Some (int p)
      | Inr q' \<Rightarrow> kmp_loop t pattern array pattern_length (Suc i) m q') }"

definition kmp_matcher :: "byte list \<Rightarrow> byte list \<Rightarrow> int \<Rightarrow> int \<Rightarrow> int option" where
  "kmp_matcher t pattern t_length pattern_length = do {
     array \<leftarrow> compute_prefix pattern (replicate 16 0) pattern_length;
     kmp_loop t pattern array pattern_length 0 (nat t_length) 0 }"

text \<open>\<open>k\<close> and \<open>q\<close> start at zero and only the loop bodies, which need them positive, change them.\<close>

lemma prefix_loop_zero: "prefix_loop pattern q m 0 array = Some array"
  by (induction m arbitrary: q) (simp_all add: prefix_while.simps)

lemma kmp_loop_zero: "kmp_loop t pattern array pattern_length i m 0 = Some (-1)"
  by (induction m arbitrary: i) (simp_all add: kmp_while.simps)

lemma compute_prefix_zeros: "array \<noteq> [] \<Longrightarrow> compute_prefix pattern array len = Some (array[0 := 0])"
  by (simp add: compute_prefix_def prefix_loop_zero)

lemma kmp_matcher_no_match: "kmp_matcher t pattern t_length pattern_length = Some (-1)"
  by (simp add: kmp_matcher_def compute_prefix_zeros kmp_loop_zero)

section \<open>Looking for a key\<close>

text \<open>The inner loop of \<open>get_key_index\<close>: the value of \<open>j\<close> when it stops.\<close>

primrec compare_run :: "byte list \<Rightarrow> nat \<Rightarrow> byte list \<Rightarrow> nat \<Rightarrow> nat \<Rightarrow> nat option" where
  "compare_run buffer i key j 0 = Some j"
| "compare_run buffer i key j (Suc m) = do {
     b \<leftarrow> peek buffer (i + j);
     k \<leftarrow> peek key j;
     if b \<noteq> k then Some j else compare_run buffer i key (Suc j) m }"

primrec key_loop :: "byte list \<Rightarrow> byte list \<Rightarrow> nat \<Rightarrow> nat \<Rightarrow> int option" where
  "key_loop buffer key i 0 = Some (-1)"
| "key_loop buffer key i (Suc m) = do {
     j \<leftarrow> compare_run buffer i key 0 (length key);
     if j = length key then Some (int (i + j)) else key_loop buffer key (Suc i) m }"

text \<open>\<open>buffer\<close> and \<open>key\<close> are the characters of the two strings, whose lengths \<open>strlen\<close> computes.\<close>

definition get_key_index :: "byte list \<Rightarrow> byte list \<Rightarrow> int option" where
  "get_key_index buffer key = key_loop buffer key 0 (nat (int (length buffer) - int (length key)))"

text \<open>\<open>get_key\<close> copies up to the next comma of the memory at \<open>buffer\<close>, unbounded on both sides.\<close>

fun get_key_loop :: "byte list \<Rightarrow> byte list \<Rightarrow> nat \<Rightarrow> byte list option" where
  "get_key_loop [] val i = None"
| "get_key_loop (c # mem) val i =
     (if c = 44 then Some val
      else do { val' \<leftarrow> poke val i c; get_key_loop mem val' (Suc i) })"

definition get_key :: "byte list \<Rightarrow> int \<Rightarrow> byte list \<Rightarrow> byte list option" where
  "get_key mem off val = do {
     n \<leftarrow> to_index off;
     if n \<le> length mem then get_key_loop (drop n mem) val 0 else None }"

section \<open>What they compute\<close>

definition occurs_at :: "byte list \<Rightarrow> byte list \<Rightarrow> nat \<Rightarrow> bool" where
  "occurs_at s key i \<longleftrightarrow> i + length key \<le> length s \<and> take (length key) (drop i s) = key"

lemma compare_run_full:
  assumes "i + j + m \<le> length s" and "j + m = length key"
  shows "\<exists>r. compare_run s i key j m = Some r
    \<and> (r = length key \<longleftrightarrow> take m (drop (i + j) s) = drop j key)"
  using assms
proof (induction m arbitrary: j)
  case 0
  then show ?case by simp
next
  case (Suc m)
  have s: "drop (i + j) s = s ! (i + j) # drop (i + Suc j) s"
    using Suc.prems(1) by (simp add: Cons_nth_drop_Suc)
  have k: "drop j key = key ! j # drop (Suc j) key"
    using Suc.prems(2) by (simp add: Cons_nth_drop_Suc)
  show ?case
  proof (cases "s ! (i + j) = key ! j")
    case True
    moreover obtain r where "compare_run s i key (Suc j) m = Some r"
        "r = length key \<longleftrightarrow> take m (drop (i + Suc j) s) = drop (Suc j) key"
      using Suc.IH [of "Suc j"] Suc.prems by auto
    ultimately show ?thesis using Suc.prems by (simp add: s k)
  next
    case False
    then show ?thesis using Suc.prems by (simp add: s k)
  qed
qed

lemma compare_run_occurs:
  assumes "i + length key \<le> length s"
  shows "\<exists>r. compare_run s i key 0 (length key) = Some r \<and> (r = length key \<longleftrightarrow> occurs_at s key i)"
  using compare_run_full [of i 0 "length key" s key] assms by (simp add: occurs_at_def)

text \<open>The first occurrence that does not end at the end of the text, as a search from the left.\<close>

definition first_inside :: "byte list \<Rightarrow> byte list \<Rightarrow> nat option" where
  "first_inside s key = List.find (occurs_at s key) [0..<length s - length key]"

lemma key_loop_find:
  assumes "i + m + length key \<le> length s"
  shows "key_loop s key i m =
    (case List.find (occurs_at s key) [i..<i + m] of
       None \<Rightarrow> Some (-1) | Some p \<Rightarrow> Some (int (p + length key)))"
  using assms
proof (induction m arbitrary: i)
  case 0
  then show ?case by simp
next
  case (Suc m)
  obtain r where r: "compare_run s i key 0 (length key) = Some r" "r = length key \<longleftrightarrow> occurs_at s key i"
    using compare_run_occurs [of i key s] Suc.prems by auto
  have up: "[i..<i + Suc m] = i # [Suc i..<Suc i + m]" by (simp add: upt_rec)
  show ?case unfolding up using r Suc.IH [of "Suc i"] Suc.prems by auto
qed

lemma get_key_index_find:
  "get_key_index s key = (case first_inside s key of
     None \<Rightarrow> Some (-1) | Some p \<Rightarrow> Some (int (p + length key)))"
proof (cases "length key \<le> length s")
  case True
  then have "nat (int (length s) - int (length key)) = length s - length key" by simp
  then show ?thesis
    using key_loop_find [of 0 "length s - length key" key s] True
    by (simp add: get_key_index_def first_inside_def)
qed (simp add: get_key_index_def first_inside_def)

lemma first_inside_Some:
  "first_inside s key = Some p \<longleftrightarrow> occurs_at s key p \<and> p + length key < length s
    \<and> (\<forall>i < p. \<not> occurs_at s key i)"
proof -
  have "first_inside s key = Some p \<longleftrightarrow>
      (\<exists>i < length s - length key. occurs_at s key ([0..<length s - length key] ! i)
        \<and> p = [0..<length s - length key] ! i \<and> (\<forall>j < i. \<not> occurs_at s key ([0..<length s - length key] ! j)))"
    by (simp add: first_inside_def find_Some_iff)
  also have "\<dots> \<longleftrightarrow> p < length s - length key \<and> occurs_at s key p \<and> (\<forall>i < p. \<not> occurs_at s key i)"
    by auto
  finally show ?thesis by auto
qed

lemma first_inside_take:
  "first_inside s key = Some p \<longleftrightarrow> take (length key) (drop p s) = key \<and> p + length key < length s
    \<and> (\<forall>i < p. take (length key) (drop i s) \<noteq> key)"
  by (auto simp: first_inside_Some occurs_at_def)

lemma first_inside_None:
  "first_inside s key = None \<longleftrightarrow> (\<forall>p < length s - length key. take (length key) (drop p s) \<noteq> key)"
  by (auto simp: first_inside_def find_None_iff occurs_at_def)

text \<open>A key at the very end of the text is not found.\<close>

lemma key_at_end_missed:
  assumes "\<forall>i < length pre. \<not> occurs_at (pre @ key) key i"
  shows "get_key_index (pre @ key) key = Some (-1)"
proof -
  have "first_inside (pre @ key) key = None"
    using assms by (auto simp: first_inside_def find_None_iff)
  then show ?thesis by (simp add: get_key_index_find)
qed

lemma get_key_loop_spec:
  assumes "44 \<notin> set xs"
  shows "get_key_loop (xs @ 44 # r) val i = write_run poke val i xs"
  using assms by (induction xs arbitrary: val i) auto

lemma get_key_loop_no_comma: "44 \<notin> set mem \<Longrightarrow> get_key_loop mem val i = None"
  by (induction mem arbitrary: val i) (auto split: bind_splits)

lemma get_key_comma:
  assumes "drop off mem = xs @ 44 # r" and "44 \<notin> set xs"
  shows "get_key mem (int off) val = (if length xs \<le> length val then blit val 0 xs else None)"
proof -
  have "off \<le> length mem"
    using assms(1) by (metis drop_all list.distinct(1) append_is_Nil_conv nle_le)
  then have "get_key mem (int off) val = write_run poke val 0 xs"
    using assms by (simp add: get_key_def get_key_loop_spec)
  then show ?thesis
    using write_run_blit [of 0 xs val] buf.run_overflow [of val 0 xs] by (cases "xs = []") auto
qed

end
