(* ===== verification/Curl_Location.thy ===== *)
theory Curl_Location
  imports Curl_Match Apollo_Handlers
begin

text \<open>
  The answer of the location service (\<open>curljson.c\<close>): \<open>handle_data\<close> reads two coordinates from the
  text, writes them into the \<open>LocationInfo\<close> of the request, stores them in the database and
  publishes them under the user of the device.
\<close>

section \<open>The location record\<close>

text \<open>
  \<open>LocationInfo\<close> consists of character arrays only, so its members lie one behind the other
  without padding; an index beyond a member reaches the next one. The object is its 49 bytes.
\<close>

definition li_DeviceId :: nat where [simp]: "li_DeviceId = 0"
definition li_Longitude :: nat where [simp]: "li_Longitude = 18"
definition li_Latitude :: nat where [simp]: "li_Latitude = 30"
definition li_TimeStamp :: nat where [simp]: "li_TimeStamp = 42"
definition li_UbloxFlag :: nat where [simp]: "li_UbloxFlag = 48"
definition sizeof_LocationInfo :: nat where [simp]: "sizeof_LocationInfo = 49"

section \<open>handle_data\<close>

text \<open>The texts that mean that the service found nothing.\<close>

definition no_location :: "byte list \<Rightarrow> bool" where
  "no_location s \<longleftrightarrow> s = bytes ''null'' \<or> s = bytes ''location'' \<or> s = bytes ''\"location\":null''"

primrec coordinate_loop :: "byte list \<Rightarrow> byte list \<Rightarrow> byte list \<Rightarrow> nat \<Rightarrow> nat \<Rightarrow> byte list option" where
  "coordinate_loop log lat li i 0 = Some li"
| "coordinate_loop log lat li i (Suc m) = do {
     a \<leftarrow> peek log (i - 1);
     li1 \<leftarrow> poke li (li_Longitude + i) a;
     b \<leftarrow> peek lat (i - 1);
     li2 \<leftarrow> poke li1 (li_Latitude + i + 1) b;
     coordinate_loop log lat li2 (Suc i) m }"

definition store_coordinates :: "byte list \<Rightarrow> byte list \<Rightarrow> byte list \<Rightarrow> byte list option" where
  "store_coordinates log lat li = do {
     a \<leftarrow> fill li li_Longitude (2 * LEN_LONGITUDE_DATA + 2) 0;
     b \<leftarrow> fill a li_Latitude (2 * LEN_LONGITUDE_DATA + 2) 0;
     c \<leftarrow> poke b li_Longitude (of_char CHR ''E'');
     d \<leftarrow> poke c li_Latitude (of_char CHR ''N'');
     e \<leftarrow> poke d (li_Latitude + 1) (of_char CHR ''0'');
     f \<leftarrow> coordinate_loop log lat e 1 10;
     g \<leftarrow> poke f (li_Longitude + 11) 0;
     poke g (li_Latitude + 12) 0 }"

definition gps_text :: "byte list \<Rightarrow> byte list \<Rightarrow> byte list \<Rightarrow> int \<Rightarrow> byte list" where
  "gps_text lon lat high stamp = bytes ''G_'' @ lon @ bytes ''_'' @ lat @ bytes ''_'' @ high
     @ bytes ''_1_'' @ dec stamp"

text \<open>
  \<open>buffer\<close> is the memory at the pointer that libcurl passes, \<open>nbytes\<close> is \<open>size * nmemb\<close>. The result
  \<open>-1\<close> or \<open>-2\<close> stands for its conversion to \<open>size_t\<close>.
\<close>

definition handle_data ::
    "'w externals \<Rightarrow> byte list \<Rightarrow> int \<Rightarrow> byte list \<Rightarrow> 'w world \<Rightarrow> (int \<times> byte list \<times> 'w world) option" where
  "handle_data E buffer nbytes li w = do {
     s \<leftarrow> cstr buffer 0;
     ix1 \<leftarrow> get_key_index s (bytes ''longitude'');
     log \<leftarrow> get_key buffer (ix1 + 2) (replicate 16 0);
     ix2 \<leftarrow> get_key_index s (bytes ''latitude'');
     lat \<leftarrow> get_key buffer (ix2 + 2) (replicate 16 0);
     logText \<leftarrow> cstr log 0;
     latText \<leftarrow> cstr lat 0;
     if no_location logText \<or> no_location latText then Some (nbytes, li, w)
     else do {
       li1 \<leftarrow> store_coordinates log lat li;
       dev \<leftarrow> cstr li1 li_DeviceId;
       u8RelationShipDevice \<leftarrow> relationship_key dev;
       (r, userBuf, w1) \<leftarrow> get_value_fromredis E u8RelationShipDevice (replicate REDIS_COMMAND_LENGTH 0) 0 w;
       if r = -1 then Some (-1, li1, w1)
       else do {
         flag \<leftarrow> peek li1 li_UbloxFlag;
         lonStr \<leftarrow> cstr li1 li_Longitude;
         latStr \<leftarrow> cstr li1 li_Latitude;
         let w2 = (if flag \<noteq> 0 then pthread_create (Start_ubloxDownloadApgs dev lonStr latStr) w1 else w1);
         highBuf \<leftarrow> sprintf_at (replicate 6 0) 0 (dec 0);
         u8High \<leftarrow> cstr highBuf 0;
         (ins, w3) \<leftarrow> insertDeviceGps E lonStr latStr u8High dev w2;
         stamp \<leftarrow> int_at li1 li_TimeStamp (sizeof_long E);
         gb \<leftarrow> sprintf_at (replicate REDIS_COMMAND_LENGTH 0) 0 (gps_text lonStr latStr u8High stamp);
         u8RedisDeviceGpsInfo \<leftarrow> cstr gb 0;
         u8RedisUserValue \<leftarrow> cstr userBuf 0;
         (q, w4) \<leftarrow> set_key_toredis E u8RedisUserValue u8RedisDeviceGpsInfo w3;
         Some (if q = -1 then -2 else nbytes, li1, w4) } } }"

section \<open>The stored coordinates\<close>

lemma coordinate_loop_nth:
  assumes "length li = 49" and "1 \<le> i" and "i + m \<le> 11" and "length log = 16" and "length lat = 16"
  shows "\<exists>li'. coordinate_loop log lat li i m = Some li' \<and> length li' = 49
    \<and> (\<forall>j < 49. li' ! j = (if 18 + i \<le> j \<and> j < 18 + i + m then log ! (j - 19)
        else if 31 + i \<le> j \<and> j < 31 + i + m then lat ! (j - 32) else li ! j))"
  using assms
proof (induction m arbitrary: li i)
  case 0
  then show ?case by auto
next
  case (Suc m)
  let ?li = "li[18 + i := log ! (i - 1), 31 + i := lat ! (i - 1)]"
  obtain li' where li': "coordinate_loop log lat ?li (Suc i) m = Some li'" "length li' = 49"
      "\<forall>j < 49. li' ! j = (if 18 + Suc i \<le> j \<and> j < 18 + Suc i + m then log ! (j - 19)
        else if 31 + Suc i \<le> j \<and> j < 31 + Suc i + m then lat ! (j - 32) else ?li ! j)"
    using Suc.IH [of ?li "Suc i"] Suc.prems by auto
  have "coordinate_loop log lat li i (Suc m) = Some li'"
    using Suc.prems li'(1) by (simp add: add.commute)
  moreover have "\<forall>j < 49. li' ! j = (if 18 + i \<le> j \<and> j < 18 + i + Suc m then log ! (j - 19)
        else if 31 + i \<le> j \<and> j < 31 + i + Suc m then lat ! (j - 32) else li ! j)"
  proof (intro allI impI)
    fix j :: nat assume j: "j < 49"
    have e: "i - 1 = 18 + i - 19" "i - 1 = 31 + i - 32" by simp_all
    show "li' ! j = (if 18 + i \<le> j \<and> j < 18 + i + Suc m then log ! (j - 19)
        else if 31 + i \<le> j \<and> j < 31 + i + Suc m then lat ! (j - 32) else li ! j)"
      using li'(3) [rule_format, OF j] Suc.prems(1-3) j
      by (cases "j = 18 + i"; cases "j = 31 + i") (auto simp: e nth_list_update)
  qed
  ultimately show ?case using li'(2) by blast
qed

text \<open>
  Behind the ten digits of the latitude its terminating NUL lies in the first byte of the time
  stamp.
\<close>

lemma store_coordinates_eq:
  assumes "length li = 49" and "length log = 16" and "length lat = 16"
  shows "store_coordinates log lat li =
    Some (take 18 li @ [69] @ take 10 log @ [0, 78, 48] @ take 10 lat @ [0] @ drop 43 li)"
proof -
  define e where "e = take 18 li @ [69] @ replicate 11 0 @ [78, 48] @ replicate 10 0 @ drop 42 li"
  have len: "length e = 49" using assms(1) by (simp add: e_def)
  obtain f where f: "coordinate_loop log lat e 1 10 = Some f" "length f = 49"
      "\<forall>j < 49. f ! j = (if 19 \<le> j \<and> j < 29 then log ! (j - 19)
        else if 32 \<le> j \<and> j < 42 then lat ! (j - 32) else e ! j)"
    using coordinate_loop_nth [OF len, of 1 10 log lat] assms(2,3) by auto
  have "do { a \<leftarrow> fill li 18 12 0; b \<leftarrow> fill a 30 12 0; c \<leftarrow> poke b 18 69; d \<leftarrow> poke c 30 78; poke d 31 48 }
      = Some e"
    using assms(1)
    by (simp add: fill_def blit_def e_def list_update_append min_def numeral_eq_Suc)
  then have "store_coordinates log lat li = do { g \<leftarrow> poke f 29 0; poke g 42 0 }"
    using f(1) by (auto simp: store_coordinates_def bind_eq_Some_conv)
  also have "\<dots> = Some (f[29 := 0, 42 := 0])" using f(2) by simp
  also have "f[29 := 0, 42 := 0] =
      take 18 li @ [69] @ take 10 log @ [0, 78, 48] @ take 10 lat @ [0] @ drop 43 li" (is "_ = ?r")
  proof (rule nth_equalityI)
    show "length (f[29 := 0, 42 := 0]) = length ?r" using assms f(2) by simp
    fix j assume "j < length (f[29 := 0, 42 := 0])"
    then have j: "j < 49" using f(2) by simp
    then show "f[29 := 0, 42 := 0] ! j = ?r ! j"
      using f(3) [rule_format, OF j] assms f(2)
      by (auto simp: nth_list_update nth_append nth_Cons' e_def)
  qed
  finally show ?thesis .
qed

section \<open>A published answer\<close>

text \<open>
  The location that an answer names: ten characters of each coordinate, the latitude behind
  \<open>N0\<close>, height 0, and the time stamp of the request without its lowest byte.
\<close>

definition answer_info :: "byte list \<Rightarrow> byte list \<Rightarrow> byte list \<Rightarrow> byte list" where
  "answer_info lon lat stamp = gps_text (69 # take 10 lon) (78 # 48 # take 10 lat) (dec 0) (signed_le (0 # stamp))"

text \<open>An answer names a text behind a key: the first key that is not at the end, two characters on.\<close>

definition names :: "byte list \<Rightarrow> byte list \<Rightarrow> byte list \<Rightarrow> bool" where
  "names buffer key v \<longleftrightarrow> (\<exists>s p r. cstr buffer 0 = Some s \<and> first_inside s key = Some p
     \<and> drop (p + length key + 2) buffer = v @ 44 # r) \<and> 44 \<notin> set v \<and> 0 \<notin> set v \<and> length v < 16"

lemma names_get_key:
  assumes "names buffer key v" and "cstr buffer 0 = Some s"
  shows "\<exists>ix. get_key_index s key = Some ix
    \<and> get_key buffer (ix + 2) (replicate 16 0) = Some (v @ replicate (16 - length v) 0)"
proof -
  obtain p r where p: "first_inside s key = Some p" "drop (p + length key + 2) buffer = v @ 44 # r"
    using assms by (auto simp: names_def)
  have "get_key buffer (int (p + length key + 2)) (replicate 16 0) = blit (replicate 16 0) 0 v"
    using get_key_comma [OF p(2)] assms(1) by (simp add: names_def)
  also have "\<dots> = Some (v @ replicate (16 - length v) 0)"
    using assms(1) by (intro cstr_blit_zeros) (auto simp: names_def)
  finally show ?thesis using p(1) by (simp add: get_key_index_find add.commute)
qed

lemma cstr_cut:
  assumes "0 \<notin> set v" and "length v < 16" and "0 \<notin> set xs" and "n = length pre"
  shows "cstr (pre @ xs @ take 10 (v @ replicate (16 - length v) 0) @ 0 # r) n = Some (xs @ take 10 v)"
proof -
  have "\<exists>rest. take 10 (v @ replicate (16 - length v) 0) @ 0 # r = take 10 v @ 0 # rest"
  proof (cases "10 \<le> length v")
    case False
    then have "replicate (10 - length v) (0 :: byte) = 0 # replicate (9 - length v) 0"
      by (simp add: replicate_Suc [symmetric] Suc_diff_le [symmetric] del: replicate_Suc)
    then show ?thesis using False by auto
  qed auto
  then obtain rest where "take 10 (v @ replicate (16 - length v) 0) @ 0 # r = take 10 v @ 0 # rest" by blast
  moreover have "0 \<notin> set (xs @ take 10 v)" using assms(1,3) by (auto dest: in_set_takeD)
  then have "cstr (pre @ (xs @ take 10 v) @ 0 # rest) n = Some (xs @ take 10 v)"
    using cstr_stored [of "xs @ take 10 v" n pre rest] assms(4) by simp
  ultimately show ?thesis by simp
qed

text \<open>The members of the record after the coordinates were stored.\<close>

lemma stored_texts:
  assumes "li = dev @ [0, 0] @ rest" and "length dev = 16" and "0 \<notin> set dev" and "length rest = 31"
    and "0 \<notin> set lon" and "length lon < 16" and "0 \<notin> set lat" and "length lat < 16"
    and "store_coordinates (lon @ replicate (16 - length lon) 0) (lat @ replicate (16 - length lat) 0) li = Some li1"
  shows "cstr li1 0 = Some dev" and "cstr li1 18 = Some (69 # take 10 lon)"
    and "cstr li1 30 = Some (78 # 48 # take 10 lat)"
    and "li1 ! 48 = rest ! 30" and "length li1 = 49" and "int_at li1 42 4 = Some (signed_le (0 # take 3 (drop 25 rest)))"
proof -
  let ?lon = "take 10 (lon @ replicate (16 - length lon) 0)" and ?lat = "take 10 (lat @ replicate (16 - length lat) 0)"
  have li1: "li1 = (dev @ [0, 0]) @ [69] @ ?lon @ 0 # 78 # 48 # ?lat @ 0 # drop 25 rest"
    using store_coordinates_eq [of li "lon @ replicate (16 - length lon) 0" "lat @ replicate (16 - length lat) 0"] assms
    by simp
  have l: "length ?lon = 10" "length ?lat = 10" using assms(6,8) by simp_all
  show "cstr li1 0 = Some dev" unfolding li1 using cstr_prefix [OF assms(3)] by simp
  show "cstr li1 18 = Some (69 # take 10 lon)"
    unfolding li1 using cstr_cut [OF assms(5,6), of "[69]" 18 "dev @ [0, 0]"] assms(2) by simp
  have "li1 = ((dev @ [0, 0]) @ [69] @ ?lon @ [0]) @ [78, 48] @ ?lat @ 0 # drop 25 rest" by (simp add: li1)
  then show "cstr li1 30 = Some (78 # 48 # take 10 lat)"
    using cstr_cut [OF assms(7,8), of "[78, 48]" 30 "(dev @ [0, 0]) @ [69] @ ?lon @ [0]" "drop 25 rest"] assms(2) l(1)
    by simp
  show "length li1 = 49" using assms(2,4) l by (simp add: li1)
  have fr: "li1 = ((dev @ [0, 0]) @ [69] @ ?lon @ 0 # 78 # 48 # ?lat) @ 0 # drop 25 rest" by (simp add: li1)
  have pre: "length ((dev @ [0, 0]) @ [69] @ ?lon @ 0 # 78 # 48 # ?lat) = 42" using assms(2) l by simp
  have d: "drop 42 li1 = 0 # drop 25 rest" using fr pre by (metis append_eq_conv_conj)
  then show "int_at li1 42 4 = Some (signed_le (0 # take 3 (drop 25 rest)))"
    using \<open>length li1 = 49\<close> by (simp add: int_at_def fetch_def)
  have "li1 ! 48 = drop 42 li1 ! 6" using \<open>length li1 = 49\<close> by simp
  then show "li1 ! 48 = rest ! 30" using assms(4) by (simp add: d)
qed

text \<open>What the database was told: a journal of the statements that were executed.\<close>

locale journal = backend +
  fixes statements :: "'a \<Rightarrow> (byte list \<times> byte list list) list"
  assumes journal_execute: "Connection_execute E c s a e = Some e' \<Longrightarrow> statements e' = statements e @ [(s, a)]"
    and journal_take: "ConnectionPool_getConnection E e = (k, e') \<Longrightarrow> statements e' = statements e"
    and journal_close: "statements (Connection_close E c e) = statements e"
    and journal_redis: "redisCommand E cmd e = (rep, e') \<Longrightarrow> statements e' = statements e"
begin

lemma insert_journal: "insertDeviceGps E lon lat high dev w = Some (r, w') \<Longrightarrow>
    statements (ext w') = statements (ext w) @ [(SQL_INSERT_DEVICE_GPS, [lon, lat, high, dev])]"
  by (auto simp: insertDeviceGps_def take_connection_def with_ext_eq run_execute_def give_connection_def run_simps
      journal_close dest!: journal_execute journal_take)

lemma set_journal: "set_key_toredis E k v w = Some (r, w') \<Longrightarrow> statements (ext w') = statements (ext w)"
  by (auto simp: set_key_toredis_def with_ext_eq run_simps dest: journal_redis split: if_splits)

lemma get_journal: "get_value_fromredis E k b i w = Some (r, b', w') \<Longrightarrow> statements (ext w') = statements (ext w)"
  by (auto simp: get_value_fromredis_def with_ext_eq run_simps dest: journal_redis split: if_splits)

text \<open>An answer that names two coordinates, up to the insertion into the database.\<close>

lemma answer_inserted:
  assumes "names buffer (bytes ''longitude'') lon" and "names buffer (bytes ''latitude'') lat"
    and "\<not> no_location lon" and "\<not> no_location lat"
    and li: "li = dev @ [0, 0] @ rest" "length dev = 16" "clean dev" "length rest = 31"
    and "kv (ext w) (bytes ''R_'' @ dev) = Some user" and "plain user" and "length user < 190"
    and "\<forall>e. idle e = idle (ext w) \<longrightarrow> fst (ConnectionPool_getConnection E e) \<noteq> None"
    and "\<forall>c s a e. Connection_execute E c s a e \<noteq> None"
  shows "\<exists>li1 w3. handle_data E buffer nbytes li w = do {
         stamp \<leftarrow> int_at li1 li_TimeStamp (sizeof_long E);
         gb \<leftarrow> sprintf_at (replicate REDIS_COMMAND_LENGTH 0) 0
           (gps_text (69 # take 10 lon) (78 # 48 # take 10 lat) (dec 0) stamp);
         info \<leftarrow> cstr gb 0;
         (q, w4) \<leftarrow> set_key_toredis E user info w3;
         Some (if q = -1 then -2 else nbytes, li1, w4) }
    \<and> length li1 = 49 \<and> int_at li1 42 4 = Some (signed_le (0 # take 3 (drop 25 rest)))
    \<and> kv (ext w3) = kv (ext w) \<and> idle (ext w3) = idle (ext w)
    \<and> statements (ext w3) = statements (ext w)
        @ [(SQL_INSERT_DEVICE_GPS, [69 # take 10 lon, 78 # 48 # take 10 lat, dec 0, dev])]
    \<and> started w3 = started w @ (if rest ! 30 \<noteq> 0
        then [Start_ubloxDownloadApgs dev (69 # take 10 lon) (78 # 48 # take 10 lat)] else [])"
proof -
  let ?lon = "69 # take 10 lon" and ?lat = "78 # 48 # take 10 lat"
  let ?lb = "lon @ replicate (16 - length lon) 0" and ?tb = "lat @ replicate (16 - length lat) 0"
  have n: "0 \<notin> set lon" "length lon < 16" "0 \<notin> set lat" "length lat < 16"
    using assms(1,2) by (auto simp: names_def)
  obtain s where s: "cstr buffer 0 = Some s" using assms(1) by (auto simp: names_def)
  obtain ix1 where ix1: "get_key_index s (bytes ''longitude'') = Some ix1" "get_key buffer (ix1 + 2) (replicate 16 0) = Some ?lb"
    using names_get_key [OF assms(1) s] by blast
  obtain ix2 where ix2: "get_key_index s (bytes ''latitude'') = Some ix2" "get_key buffer (ix2 + 2) (replicate 16 0) = Some ?tb"
    using names_get_key [OF assms(2) s] by blast
  have tx: "cstr ?lb 0 = Some lon" "cstr ?tb 0 = Some lat" using n by (auto intro: cstr_zeros)
  obtain li1 where li1: "store_coordinates ?lb ?tb li = Some li1"
    using store_coordinates_eq [of li ?lb ?tb] li n by simp
  have "0 \<notin> set dev" using li(3) by (simp add: clean_def)
  note st = stored_texts [OF li(1,2) this li(4) n li1]
  have k: "plain (bytes ''R_'' @ dev)" "length (bytes ''R_'' @ dev) < 252"
    using li(2,3) by (simp_all add: plain_clean bytes_def)
  obtain w1 where w1: "get_value_fromredis E (bytes ''R_'' @ dev) (replicate 256 0) 0 w =
      Some (int (length user), user @ replicate (256 - length user) 0, w1)"
      "cstr (user @ replicate (256 - length user) 0) 0 = Some user"
      "kv (ext w1) = kv (ext w)" "idle (ext w1) = idle (ext w)" "same_but_ext w w1"
    using user_read [OF k assms(9,10)] assms(11) by auto
  define w2 where "w2 = (if rest ! 30 \<noteq> 0 then pthread_create (Start_ubloxDownloadApgs dev ?lon ?lat) w1 else w1)"
  have e2: "ext w2 = ext w1" by (simp add: w2_def pthread_create_def)
  then obtain w3 where w3: "insertDeviceGps E ?lon ?lat (dec 0) dev w2 = Some (0, w3)"
      "kv (ext w3) = kv (ext w)" "idle (ext w3) = idle (ext w)" "same_but_ext w2 w3"
    using gps_inserted [of w2 ?lon ?lat "dec 0" dev] assms(12,13) w1(3,4) by auto
  have l0: "length (dec 0) = 1" by (simp add: dec_def dec_nat.simps)
  obtain hb where hb: "sprintf_at (replicate 6 0) 0 (dec 0) = Some hb" "cstr hb 0 = Some (dec 0)"
    using sprintf_ok [of "dec 0" 0 "replicate 6 0"] l0 by auto
  have "peek li1 48 = Some (rest ! 30)" using st(4,5) by simp
  then have "handle_data E buffer nbytes li w = do {
         stamp \<leftarrow> int_at li1 li_TimeStamp (sizeof_long E);
         gb \<leftarrow> sprintf_at (replicate REDIS_COMMAND_LENGTH 0) 0 (gps_text ?lon ?lat (dec 0) stamp);
         info \<leftarrow> cstr gb 0;
         (q, w4) \<leftarrow> set_key_toredis E user info w3;
         Some (if q = -1 then -2 else nbytes, li1, w4) }"
    using s ix1 ix2 tx assms(3,4) li1 st(1-3) relationship_key_eq [of dev] \<open>0 \<notin> set dev\<close> li(2) w1(1,2) w3(1) hb
    by (simp add: handle_data_def w2_def Let_def)
  moreover have "statements (ext w3) = statements (ext w) @ [(SQL_INSERT_DEVICE_GPS, [?lon, ?lat, dec 0, dev])]"
    using insert_journal [OF w3(1)] get_journal [OF w1(1)] e2 by simp
  moreover have "started w3 = started w @ (if rest ! 30 \<noteq> 0 then [Start_ubloxDownloadApgs dev ?lon ?lat] else [])"
    using same_but_ext_fields [OF w3(4)] same_but_ext_fields [OF w1(5)] by (simp add: w2_def pthread_create_def)
  ultimately show ?thesis using st(5,6) w3(2,3) by blast
qed

lemma answer_published:
  assumes "names buffer (bytes ''longitude'') lon" and "names buffer (bytes ''latitude'') lat"
    and "\<not> no_location lon" and "\<not> no_location lat" and "clean lon" and "clean lat"
    and li: "li = dev @ [0, 0] @ rest" "length dev = 16" "clean dev" "length rest = 31"
    and "sizeof_long E = 4" and "kv (ext w) (bytes ''R_'' @ dev) = Some user" and "plain user" and "length user < 190"
    and "\<forall>e. idle e = idle (ext w) \<longrightarrow> fst (ConnectionPool_getConnection E e) \<noteq> None"
    and "\<forall>c s a e. Connection_execute E c s a e \<noteq> None"
  shows "\<exists>li' w'. handle_data E buffer nbytes li w = Some (nbytes, li', w')
    \<and> kv (ext w') = (kv (ext w))(user \<mapsto> answer_info lon lat (take 3 (drop 25 rest)))
    \<and> idle (ext w') = idle (ext w)
    \<and> statements (ext w') = statements (ext w)
        @ [(SQL_INSERT_DEVICE_GPS, [69 # take 10 lon, 78 # 48 # take 10 lat, dec 0, dev])]
    \<and> started w' = started w @ (if rest ! 30 \<noteq> 0
        then [Start_ubloxDownloadApgs dev (69 # take 10 lon) (78 # 48 # take 10 lat)] else [])"
proof -
  let ?stamp = "signed_le (0 # take 3 (drop 25 rest))" and ?info = "answer_info lon lat (take 3 (drop 25 rest))"
  obtain li1 w3 where h: "handle_data E buffer nbytes li w = do {
         stamp \<leftarrow> int_at li1 li_TimeStamp (sizeof_long E);
         gb \<leftarrow> sprintf_at (replicate REDIS_COMMAND_LENGTH 0) 0
           (gps_text (69 # take 10 lon) (78 # 48 # take 10 lat) (dec 0) stamp);
         info \<leftarrow> cstr gb 0;
         (q, w4) \<leftarrow> set_key_toredis E user info w3;
         Some (if q = -1 then -2 else nbytes, li1, w4) }"
      "int_at li1 42 4 = Some ?stamp" "kv (ext w3) = kv (ext w)" "idle (ext w3) = idle (ext w)"
      "statements (ext w3) = statements (ext w)
        @ [(SQL_INSERT_DEVICE_GPS, [69 # take 10 lon, 78 # 48 # take 10 lat, dec 0, dev])]"
      "started w3 = started w @ (if rest ! 30 \<noteq> 0
        then [Start_ubloxDownloadApgs dev (69 # take 10 lon) (78 # 48 # take 10 lat)] else [])"
    using answer_inserted [OF assms(1-4) li assms(12-16), of nbytes] by (elim exE conjE)
  have cl: "clean (take 10 lon)" "clean (take 10 lat)" using assms(5,6) by (auto simp: clean_def dest: in_set_takeD)
  have "length (dec ?stamp) \<le> 20" using li(4) by (intro signed_le_long) simp
  moreover have "length (dec 0) = 1" by (simp add: dec_def dec_nat.simps)
  ultimately have fits: "length ?info \<le> 60" "plain ?info"
    using cl by (auto simp: answer_info_def gps_text_def bytes_def plain_clean)
  obtain w4 where w4: "set_key_toredis E user ?info w3 = Some (0, w4)"
      "kv (ext w4) = (kv (ext w))(user \<mapsto> ?info)" "same_but_ext w3 w4"
    using set_ok [OF assms(13) fits(2), of w3] fits(1) assms(14) h(3) by auto
  obtain gb where "sprintf_at (replicate 256 0) 0 ?info = Some gb" "cstr gb 0 = Some ?info"
    using sprintf_ok [of ?info 0 "replicate 256 0"] fits by (auto simp: plain_def)
  then have "handle_data E buffer nbytes li w = Some (nbytes, li1, w4)"
    using h(1,2) w4(1) assms(11) by (simp add: answer_info_def)
  then show ?thesis
    using w4(2) h(4-6) set_key_idle [OF w4(1)] set_journal [OF w4(1)] same_but_ext_fields [OF w4(3)]
    by (intro exI [of _ li1] exI [of _ w4]) simp
qed

text \<open>With a \<open>long\<close> of eight bytes the time stamp is read over the end of the record.\<close>

lemma answer_overreads:
  assumes "names buffer (bytes ''longitude'') lon" and "names buffer (bytes ''latitude'') lat"
    and "\<not> no_location lon" and "\<not> no_location lat"
    and li: "li = dev @ [0, 0] @ rest" "length dev = 16" "clean dev" "length rest = 31"
    and "sizeof_long E = 8" and "kv (ext w) (bytes ''R_'' @ dev) = Some user" and "plain user" and "length user < 190"
    and "\<forall>e. idle e = idle (ext w) \<longrightarrow> fst (ConnectionPool_getConnection E e) \<noteq> None"
    and "\<forall>c s a e. Connection_execute E c s a e \<noteq> None"
  shows "handle_data E buffer nbytes li w = None"
proof -
  have over: "int_at li1 42 8 = None" if "length li1 = 49" for li1 using that by (simp add: int_at_def fetch_def)
  from answer_inserted [OF assms(1-4) li assms(10-14), of nbytes] assms(9) show ?thesis
    by (elim exE conjE) (simp add: over)
qed

end

interpretation ref_journal: journal "ref_externals st" ref_kv "\<lambda>e. mset (ref_free e)" ref_log
  by unfold_locales (auto simp: ref_externals_def split: list.splits prod.splits)

end
