(* ===== verification/Curl_Request.thy ===== *)
theory Curl_Request
  imports Curl_Location
begin

unbundle bit_operations_syntax

text \<open>
  The requests of \<open>curljson.c\<close>: the stations of a base-station packet (\<open>parser_Lbs\<close>), the texts
  of the two HTTP requests, and the thread functions \<open>http_device_falldown\<close> and \<open>http_post\<close>.
  libcurl is the outcomes of its calls and the chunks of the answer it delivers.
\<close>

section \<open>Stations\<close>

record Lbs =
  mcc :: "16 word"
  mnc :: "16 word"
  lac :: "16 word"
  cid :: "16 word"
  signal :: byte

definition LBS_COUNT :: nat where [simp]: "LBS_COUNT = 6"
definition WIFI_COUNT :: nat where [simp]: "WIFI_COUNT = 4"
definition LBS_MCC_MNC_INDEX :: nat where [simp]: "LBS_MCC_MNC_INDEX = 10"
definition LBS_STATION_INFO :: nat where [simp]: "LBS_STATION_INFO = 14"
definition POST_DATA_LENGTH :: nat where [simp]: "POST_DATA_LENGTH = 1024"

definition u16_at :: "byte list \<Rightarrow> nat \<Rightarrow> 16 word option" where
  "u16_at buffer i = do {
     a \<leftarrow> peek buffer i;
     b \<leftarrow> peek buffer (i + 1);
     Some (ucast a * 256 + ucast b) }"

definition no_station :: Lbs where
  "no_station = \<lparr>mcc = 0, mnc = 0, lac = 0, cid = 0, signal = 0\<rparr>"

text \<open>
  One turn for station \<open>i\<close>, whose element of the uninitialised array is \<open>l\<close>. \<open>signal\<close> is a signed
  character and never equals \<open>0xFF\<close>; an early \<open>continue\<close> leaves it as it was.
\<close>

definition parse_station :: "byte list \<Rightarrow> nat \<Rightarrow> Lbs \<Rightarrow> Lbs option" where
  "parse_station buffer i l = do {
     a \<leftarrow> u16_at buffer LBS_MCC_MNC_INDEX;
     b \<leftarrow> u16_at buffer (LBS_MCC_MNC_INDEX + 2);
     c \<leftarrow> u16_at buffer (LBS_STATION_INFO + 5 * i);
     d \<leftarrow> u16_at buffer (LBS_STATION_INFO + 5 * i + 2);
     let l1 = l\<lparr>mcc := a, mnc := b, lac := c, cid := d\<rparr>;
     if d = 0xFFFF \<or> c = 0xFFFF then Some l1
     else do {
       s \<leftarrow> peek buffer (LBS_STATION_INFO + 5 * i + 4);
       if c = 0 \<or> c = 0xFF \<or> d = 0 \<or> d = 0xFF \<or> s = 0 \<or> sint s = 0xFF then Some no_station
       else Some (l1\<lparr>signal := s\<rparr>) } }"

primrec lbs_loop :: "byte list \<Rightarrow> nat \<Rightarrow> nat \<Rightarrow> Lbs list \<Rightarrow> Lbs list option" where
  "lbs_loop buffer i 0 lbs = Some lbs"
| "lbs_loop buffer i (Suc m) lbs = do {
     l \<leftarrow> peek lbs i;
     l' \<leftarrow> parse_station buffer i l;
     lbs' \<leftarrow> poke lbs i l';
     lbs_loop buffer (Suc i) m lbs' }"

definition parser_Lbs :: "byte list \<Rightarrow> Lbs list \<Rightarrow> Lbs list option" where
  "parser_Lbs buffer lbs = lbs_loop buffer 0 LBS_COUNT lbs"

definition IsLbs :: "Lbs \<Rightarrow> bool" where
  "IsLbs l = (\<not> (mcc l = 0 \<and> mnc l = 0 \<and> cid l = 0 \<and> lac l = 0 \<and> signal l = 0))"

primrec wifi_loop :: "byte list \<Rightarrow> nat \<Rightarrow> nat \<Rightarrow> bool option" where
  "wifi_loop wifi i 0 = Some False"
| "wifi_loop wifi i (Suc m) = do {
     x \<leftarrow> peek wifi i;
     if x \<noteq> 0 then Some True else wifi_loop wifi (Suc i) m }"

definition lsWifi :: "byte list \<Rightarrow> nat \<Rightarrow> bool option" where
  "lsWifi wifi off = wifi_loop wifi off 7"

section \<open>Texts\<close>

definition lbs_item :: "nat \<Rightarrow> Lbs \<Rightarrow> byte list" where
  "lbs_item i l = (if i = 0 then [] else bytes '','') @ bytes ''{\"cell_id\":\"'' @ dec (uint (cid l))
     @ bytes ''\",\"lac\":\"'' @ dec (uint (lac l)) @ bytes ''\",\"mcc\":\"'' @ dec (uint (mcc l))
     @ bytes ''\",\"mnc\":\"'' @ dec (uint (mnc l)) @ bytes ''\",\"signalstrength\":\"-'' @ dec (sint (signal l))
     @ bytes ''\"}''"

primrec encode_lbs_loop :: "Lbs list \<Rightarrow> nat \<Rightarrow> nat \<Rightarrow> nat \<Rightarrow> byte list \<Rightarrow> (nat \<times> byte list) option" where
  "encode_lbs_loop lbs i 0 ix buffer = Some (ix, buffer)"
| "encode_lbs_loop lbs i (Suc m) ix buffer = do {
     l \<leftarrow> peek lbs i;
     if \<not> IsLbs l then encode_lbs_loop lbs (Suc i) m ix buffer
     else do {
       b \<leftarrow> sprintf_at (replicate 128 0) 0 (lbs_item i l);
       item \<leftarrow> cstr b 0;
       buffer' \<leftarrow> sprintf_at buffer ix item;
       encode_lbs_loop lbs (Suc i) m (ix + length item) buffer' } }"

definition encode_lbs :: "byte list \<Rightarrow> Lbs list \<Rightarrow> (nat \<times> byte list) option" where
  "encode_lbs buffer lbs = encode_lbs_loop lbs 0 LBS_COUNT 0 buffer"

text \<open>\<open>%2x\<close> pads with a blank, not with a zero.\<close>

definition hex_lower :: "byte \<Rightarrow> byte" where
  "hex_lower v = (if v \<le> 9 then 48 + v else 87 + v)"

definition print_2x :: "byte \<Rightarrow> byte list" where
  "print_2x c = [if c < 16 then 32 else hex_lower (drop_bit 4 c), hex_lower (c AND 0x0F)]"

definition wifi_item :: "nat \<Rightarrow> byte list \<Rightarrow> byte list option" where
  "wifi_item i wifi = do {
     a \<leftarrow> fetch wifi (7 * i) 6;
     s \<leftarrow> peek wifi (7 * i + 6);
     Some ((if i = 0 then [] else bytes '','') @ bytes ''{\"macaddress\":\"''
       @ join_with 58 (map print_2x a) @ bytes ''\",\"time\":\"0\",\"singalstrength\":\"''
       @ dec (uint s) @ bytes ''\"}'') }"

primrec encode_wifi_loop :: "byte list \<Rightarrow> nat \<Rightarrow> nat \<Rightarrow> nat \<Rightarrow> byte list \<Rightarrow> byte list option" where
  "encode_wifi_loop wifi i 0 ix buffer = Some buffer"
| "encode_wifi_loop wifi i (Suc m) ix buffer = do {
     ok \<leftarrow> lsWifi wifi (7 * i);
     if \<not> ok then encode_wifi_loop wifi (Suc i) m ix buffer
     else do {
       t \<leftarrow> wifi_item i wifi;
       b \<leftarrow> sprintf_at (replicate 128 0) 0 t;
       item \<leftarrow> cstr b 0;
       buffer' \<leftarrow> sprintf_at buffer ix item;
       encode_wifi_loop wifi (Suc i) m (ix + length item) buffer' } }"

text \<open>\<open>encode_wifi\<close> has no return statement; the model yields the buffer only.\<close>

definition encode_wifi :: "byte list \<Rightarrow> byte list \<Rightarrow> byte list option" where
  "encode_wifi buffer wifi = encode_wifi_loop wifi 0 WIFI_COUNT 0 buffer"

definition post_text :: "byte list \<Rightarrow> byte list" where
  "post_text lbs_buffer = bytes ''requestdata={\"celltowers\":['' @ lbs_buffer
     @ bytes ''],\"mnctype\":\"gsm\"}&type=0&key=ade0044a7a6b49adbbf1e490bf8f0e9c''"

text \<open>The local array of stations is uninitialised: \<open>lbs\<close> is what it held. No value is returned.\<close>

definition encode_post_data :: "Lbs list \<Rightarrow> byte list \<Rightarrow> byte list \<Rightarrow> byte list option" where
  "encode_post_data lbs buffer data = do {
     lbs' \<leftarrow> parser_Lbs data lbs;
     (n, b) \<leftarrow> encode_lbs (replicate POST_DATA_LENGTH 0) lbs';
     lbs_buffer \<leftarrow> cstr b 0;
     sprintf_at buffer 0 (post_text lbs_buffer) }"

definition POSTURL_FALLDOWN :: "byte list" where
  "POSTURL_FALLDOWN = bytes ''http://familycareapi.aliapp.com/api''"

definition encode_post_falldown_data :: "byte list \<Rightarrow> byte list \<Rightarrow> (nat \<times> byte list) option" where
  "encode_post_falldown_data buffer data = do {
     b \<leftarrow> hextostring (replicate 20 0) 0 data IDX_DEVICE_ID LEN_DEVICE_ID;
     deviceId \<leftarrow> cstr b 0;
     buffer' \<leftarrow> sprintf_at buffer 0 (POSTURL_FALLDOWN @ bytes ''?m=health&a=falldown&deviceid='' @ deviceId);
     s \<leftarrow> cstr buffer' 0;
     Some (length s, buffer') }"

definition handle_falldown_result :: "byte list \<Rightarrow> int \<Rightarrow> int option" where
  "handle_falldown_result buffer nbytes = do { s \<leftarrow> cstr buffer 0; Some nbytes }"

section \<open>The two threads\<close>

text \<open>The outcomes of the calls of libcurl.\<close>

record curl_outcome =
  curl_global_ok :: bool
  curl_easy_ok :: bool
  curl_perform_ok :: bool

text \<open>
  The request that is sent, if any, and the number of curl handles that are never cleaned up:
  a failed transfer returns before the clean-up.
\<close>

definition http_device_falldown :: "curl_outcome \<Rightarrow> byte list \<Rightarrow> (byte list option \<times> nat) option" where
  "http_device_falldown o' data =
     (if \<not> curl_global_ok o' then Some (None, 0)
      else if \<not> curl_easy_ok o' then Some (None, 0)
      else do {
        (n, buffer) \<leftarrow> encode_post_falldown_data (replicate POST_DATA_LENGTH 0) data;
        url \<leftarrow> cstr buffer 0;
        Some (Some url, if curl_perform_ok o' then 0 else 1) })"

text \<open>The chunks of an answer; libcurl stops when the callback does not return their size.\<close>

primrec deliver ::
    "'w externals \<Rightarrow> (byte list \<times> int) list \<Rightarrow> byte list \<Rightarrow> 'w world \<Rightarrow> (byte list \<times> 'w world) option" where
  "deliver E [] li w = Some (li, w)"
| "deliver E (c # cs) li w = do {
     (r, li', w') \<leftarrow> handle_data E (fst c) (snd c) li w;
     if r = snd c then deliver E cs li' w' else Some (li', w') }"

definition request_info :: "byte list \<Rightarrow> byte list option" where
  "request_info data = do {
     t \<leftarrow> peek data IDX_DEVICE_LOCATIONTYPE;
     li1 \<leftarrow> poke (replicate sizeof_LocationInfo 0) li_UbloxFlag (t AND 0xF0);
     li2 \<leftarrow> hextostring li1 li_DeviceId data IDX_DEVICE_ID LEN_DEVICE_ID;
     ts \<leftarrow> fetch data 44 4;
     blit li2 li_TimeStamp ts }"

text \<open>\<open>buf\<close> and \<open>lbs\<close> are the uninitialised locals of \<open>http_post\<close> and \<open>encode_post_data\<close>.\<close>

definition http_post ::
    "'w externals \<Rightarrow> curl_outcome \<Rightarrow> (byte list \<times> int) list \<Rightarrow> byte list \<Rightarrow> Lbs list \<Rightarrow> byte list \<Rightarrow> 'w world
      \<Rightarrow> (byte list option \<times> nat \<times> 'w world) option" where
  "http_post E o' chunks buf lbs data w =
     (if \<not> curl_easy_ok o' then Some (None, 0, w)
      else do {
        li \<leftarrow> request_info data;
        dev \<leftarrow> cstr li li_DeviceId;
        b \<leftarrow> encode_post_data lbs buf data;
        body \<leftarrow> cstr b 0;
        (li', w') \<leftarrow> deliver E chunks li w;
        Some (Some body, if curl_perform_ok o' then 0 else 1, w') })"

section \<open>The texts are total and within their buffers\<close>

lemma sprintf_at_chain:
  assumes "sprintf_at b i s = Some b1"
  shows "sprintf_at b1 (i + length s) t = sprintf_at b i (s @ t)"
proof (cases "i + length s + length t < length b")
  case True
  then show ?thesis using assms
    by (auto simp: sprintf_at_def blit_def min_def ac_simps split: if_splits)
next
  case False
  moreover have "length b1 = length b" using assms unfolding sprintf_at_def by (rule blit_length)
  ultimately show ?thesis by (simp add: sprintf_overflow)
qed

lemma length_dec_u16: "length (dec (uint (x :: 16 word))) \<le> 5"
proof (rule dec_nonneg_length)
  show "uint x < 10 ^ 5" using uint_lt2p [of x] by simp
qed simp_all

lemma lbs_item_bounds:
  shows "length (lbs_item i l) \<le> 92" and "0 \<notin> set (lbs_item i l)" and "lbs_item i l \<noteq> []"
  using length_dec_u16 [of "cid l"] length_dec_u16 [of "lac l"] length_dec_u16 [of "mcc l"]
    length_dec_u16 [of "mnc l"] length_sint [of "signal l"]
  by (auto simp: lbs_item_def bytes_def)

text \<open>The text of a list of stations: each that is present, with its own leading comma.\<close>

definition lbs_text :: "Lbs list \<Rightarrow> nat \<Rightarrow> nat \<Rightarrow> byte list" where
  "lbs_text lbs i m = concat (map (\<lambda>k. if IsLbs (lbs ! k) then lbs_item k (lbs ! k) else []) [i..<i + m])"

lemma lbs_text_Suc: "lbs_text lbs i (Suc m) =
    (if IsLbs (lbs ! i) then lbs_item i (lbs ! i) else []) @ lbs_text lbs (Suc i) m"
proof -
  have "[i..<i + Suc m] = i # [Suc i..<Suc i + m]" by (simp add: upt_rec)
  then show ?thesis by (simp add: lbs_text_def)
qed

lemma lbs_text_bounds: "length (lbs_text lbs i m) \<le> 92 * m \<and> 0 \<notin> set (lbs_text lbs i m)"
proof (induction m arbitrary: i)
  case 0
  then show ?case by (simp add: lbs_text_def)
next
  case (Suc m)
  show ?case using lbs_item_bounds [of i "lbs ! i"] Suc.IH [of "Suc i"] by (auto simp: lbs_text_Suc)
qed

text \<open>The loop appends to the text \<open>s\<close> written so far; before the first item nothing is written.\<close>

lemma encode_lbs_loop_text:
  assumes "i + m \<le> length lbs" and "length s + 92 * m < length b0"
    and "s = [] \<and> b = b0 \<or> sprintf_at b0 0 s = Some b"
  shows "encode_lbs_loop lbs i m (length s) b =
    Some (length s + length (lbs_text lbs i m),
      if s @ lbs_text lbs i m = [] then b else the (sprintf_at b0 0 (s @ lbs_text lbs i m)))"
  using assms
proof (induction m arbitrary: i s b)
  case 0
  then show ?case by (auto simp: lbs_text_def)
next
  case (Suc m)
  show ?case
  proof (cases "IsLbs (lbs ! i)")
    case False
    then show ?thesis using Suc by (simp add: lbs_text_Suc)
  next
    case True
    let ?it = "lbs_item i (lbs ! i)"
    note it = lbs_item_bounds [of i "lbs ! i"]
    obtain ib where ib: "sprintf_at (replicate 128 0) 0 ?it = Some ib" "cstr ib 0 = Some ?it"
      using sprintf_ok [of ?it 0 "replicate 128 0"] it(1,2) by auto
    have "sprintf_at b (length s) ?it = sprintf_at b0 0 (s @ ?it)"
      using Suc.prems(3) sprintf_at_chain [of b0 0 s b ?it] by auto
    moreover obtain b' where b': "sprintf_at b0 0 (s @ ?it) = Some b'"
      using Suc.prems(2) it(1) by (simp add: sprintf_at_def blit_def)
    moreover have "length (s @ ?it) + 92 * m < length b0" using Suc.prems(2) it(1) by simp
    ultimately show ?thesis
      using Suc.IH [of "Suc i" "s @ ?it" b'] Suc.prems(1) True ib it(3) by (simp add: lbs_text_Suc)
  qed
qed

lemma encode_lbs_text:
  assumes "length lbs = 6"
  shows "\<exists>b. encode_lbs (replicate 1024 0) lbs = Some (length (lbs_text lbs 0 6), b)
    \<and> cstr b 0 = Some (lbs_text lbs 0 6)"
proof -
  let ?t = "lbs_text lbs 0 6"
  have t: "length ?t < 1024" "0 \<notin> set ?t" using lbs_text_bounds [of lbs 0 6] by auto
  obtain b where "sprintf_at (replicate 1024 0) 0 ?t = Some b" "cstr b 0 = Some ?t"
    using sprintf_ok [of ?t 0 "replicate 1024 0"] t by auto
  moreover have "cstr (replicate 1024 0) 0 = Some []" by (simp add: cstr_def numeral_eq_Suc)
  ultimately show ?thesis
    using encode_lbs_loop_text [of 0 6 lbs "[]" "replicate 1024 0" "replicate 1024 0"] assms
    by (auto simp: encode_lbs_def)
qed

lemma u16_at_defined: "i + 1 < length buffer \<Longrightarrow> \<exists>x. u16_at buffer i = Some x"
  by (simp add: u16_at_def)

lemma parse_station_defined:
  assumes "44 \<le> length buffer" and "i < 6"
  shows "\<exists>l'. parse_station buffer i l = Some l'"
  using assms u16_at_defined [of 10 buffer] u16_at_defined [of 12 buffer]
    u16_at_defined [of "14 + 5 * i" buffer] u16_at_defined [of "14 + 5 * i + 2" buffer]
  by (auto simp: parse_station_def Let_def)

lemma lbs_loop_defined:
  assumes "44 \<le> length buffer" and "i + m \<le> 6" and "length lbs = 6"
  shows "\<exists>lbs'. lbs_loop buffer i m lbs = Some lbs' \<and> length lbs' = 6
    \<and> (\<forall>k < 6. if i \<le> k \<and> k < i + m then parse_station buffer k (lbs ! k) = Some (lbs' ! k) else lbs' ! k = lbs ! k)"
  using assms
proof (induction m arbitrary: i lbs)
  case 0
  then show ?case by auto
next
  case (Suc m)
  obtain l' where l': "parse_station buffer i (lbs ! i) = Some l'"
    using parse_station_defined [of buffer i "lbs ! i"] Suc.prems by auto
  obtain lbs' where lbs': "lbs_loop buffer (Suc i) m (lbs[i := l']) = Some lbs'" "length lbs' = 6"
      "\<forall>k < 6. if Suc i \<le> k \<and> k < Suc i + m then parse_station buffer k (lbs[i := l'] ! k) = Some (lbs' ! k)
        else lbs' ! k = lbs[i := l'] ! k"
    using Suc.IH [of "Suc i" "lbs[i := l']"] Suc.prems by auto
  have "\<forall>k < 6. if i \<le> k \<and> k < i + Suc m then parse_station buffer k (lbs ! k) = Some (lbs' ! k) else lbs' ! k = lbs ! k"
  proof (intro allI impI)
    fix k :: nat assume "k < 6"
    then show "if i \<le> k \<and> k < i + Suc m then parse_station buffer k (lbs ! k) = Some (lbs' ! k) else lbs' ! k = lbs ! k"
      using lbs'(3) [rule_format, of k] l' Suc.prems by (cases "k = i") (auto split: if_splits)
  qed
  then show ?case using lbs'(1,2) l' Suc.prems by auto
qed

lemma parser_Lbs_stations:
  assumes "44 \<le> length buffer" and "length lbs = 6"
  shows "\<exists>lbs'. parser_Lbs buffer lbs = Some lbs' \<and> length lbs' = 6
    \<and> (\<forall>k < 6. parse_station buffer k (lbs ! k) = Some (lbs' ! k))"
  using lbs_loop_defined [of buffer 0 6 lbs] assms by (auto simp: parser_Lbs_def)

lemma encode_post_data_text:
  assumes "44 \<le> length data" and "length lbs = 6" and "length buf = 1024"
  shows "\<exists>lbs' b. parser_Lbs data lbs = Some lbs' \<and> length lbs' = 6 \<and> encode_post_data lbs buf data = Some b
    \<and> cstr b 0 = Some (post_text (lbs_text lbs' 0 6))"
proof -
  obtain lbs' where lbs': "parser_Lbs data lbs = Some lbs'" "length lbs' = 6"
    using parser_Lbs_stations [OF assms(1,2)] by blast
  let ?t = "lbs_text lbs' 0 6"
  obtain c where c: "encode_lbs (replicate 1024 0) lbs' = Some (length ?t, c)" "cstr c 0 = Some ?t"
    using encode_lbs_text [OF lbs'(2)] by blast
  have "length ?t \<le> 552" "0 \<notin> set (post_text ?t)"
    using lbs_text_bounds [of lbs' 0 6] by (auto simp: post_text_def bytes_def)
  then obtain b where "sprintf_at buf 0 (post_text ?t) = Some b" "cstr b 0 = Some (post_text ?t)"
    using sprintf_ok [of "post_text ?t" 0 buf] assms(3) by (auto simp: post_text_def)
  then show ?thesis using lbs' c by (auto simp: encode_post_data_def)
qed

section \<open>The list of stations as JSON\<close>

text \<open>
  A separated list puts commas between its items. The loop puts one before every item but that
  of station 0, so the list starts with a comma exactly when station 0 is missing.
\<close>

definition present :: "Lbs list \<Rightarrow> nat list" where
  "present lbs = filter (\<lambda>k. IsLbs (lbs ! k)) [0..<6]"

definition station_json :: "Lbs list \<Rightarrow> byte list" where
  "station_json lbs = join_with 44 (map (\<lambda>k. lbs_item 0 (lbs ! k)) (present lbs))"

lemma lbs_item_comma: "0 < i \<Longrightarrow> lbs_item i l = 44 # lbs_item 0 l"
  by (simp add: lbs_item_def bytes_def)

lemma join_with_Cons: "join_with c (p # ps) = p @ concat (map (\<lambda>q. c # q) ps)"
  by (induction ps arbitrary: p) auto

lemma concat_if_filter: "concat (map (\<lambda>k. if P k then f k else []) ks) = concat (map f (filter P ks))"
  by (induction ks) auto

lemma lbs_text_present: "lbs_text lbs 0 6 = concat (map (\<lambda>k. lbs_item k (lbs ! k)) (present lbs))"
  unfolding lbs_text_def present_def concat_if_filter by simp

lemma lbs_text_json:
  "lbs_text lbs 0 6 = (if IsLbs (lbs ! 0) \<or> present lbs = [] then station_json lbs else 44 # station_json lbs)"
proof (cases "present lbs")
  case Nil
  then show ?thesis by (simp add: lbs_text_present station_json_def)
next
  case (Cons k ks)
  have up: "[0..<6] = 0 # [Suc 0..<6]" by (simp add: upt_rec)
  have "distinct (present lbs)" "\<forall>j \<in> set (present lbs). IsLbs (lbs ! j)" "sorted (present lbs)"
    by (simp_all add: present_def sorted_wrt_filter)
  then have ks: "\<forall>j \<in> set ks. 0 < j" using Cons by (metis distinct.simps(2) gr0I list.set_intros(1)
    sorted_simps(2) le_zero_eq)
  then have "map (\<lambda>j. lbs_item j (lbs ! j)) ks = map (\<lambda>j. 44 # lbs_item 0 (lbs ! j)) ks"
    by (simp add: lbs_item_comma)
  then have "concat (map (\<lambda>j. lbs_item j (lbs ! j)) ks) = concat (map (\<lambda>j. 44 # lbs_item 0 (lbs ! j)) ks)"
    by (simp only:)
  then have t: "lbs_text lbs 0 6 = lbs_item k (lbs ! k) @ concat (map (\<lambda>j. 44 # lbs_item 0 (lbs ! j)) ks)"
    by (simp add: lbs_text_present Cons)
  have j: "station_json lbs = lbs_item 0 (lbs ! k) @ concat (map (\<lambda>j. 44 # lbs_item 0 (lbs ! j)) ks)"
    by (simp add: station_json_def Cons join_with_Cons comp_def)
  have "IsLbs (lbs ! k)" using Cons by (metis list.set_intros(1) mem_Collect_eq set_filter present_def)
  moreover have "IsLbs (lbs ! 0) \<Longrightarrow> k = 0" using Cons by (simp add: present_def up)
  ultimately have "IsLbs (lbs ! 0) \<longleftrightarrow> k = 0" by blast
  then show ?thesis using t j Cons by (cases "k = 0") (simp_all add: lbs_item_comma)
qed

section \<open>A base-station packet\<close>

text \<open>The location record of a request: the device, no coordinates, time stamp and flag.\<close>

lemma request_info_eq:
  assumes "48 \<le> length data"
  shows "request_info data = Some (dev_id data @ [0, 0] @ replicate 24 0 @ take 4 (drop 44 data) @ [0, 0]
    @ [data ! 9 AND 0xF0])"
proof -
  let ?d = "dev_id data"
  have l: "length ?d = 16" using assms by simp
  have h: "hextostring ((replicate 49 0)[48 := data ! 9 AND 0xF0]) 0 data 1 8 =
      blit ((replicate 49 0)[48 := data ! 9 AND 0xF0]) 0 ?d"
    unfolding dev_id_def using assms by (intro hextostring_blit) auto
  have r: "(replicate 49 (0 :: byte))[48 := x] = replicate 48 0 @ [x]" for x
    by (simp add: list_update_append replicate_app_Cons_same numeral_eq_Suc)
  have "request_info data = do {
      li2 \<leftarrow> blit (replicate 48 0 @ [data ! 9 AND 0xF0]) 0 ?d;
      blit li2 42 (take 4 (drop 44 data)) }"
    using assms h r by (simp add: request_info_def fetch_def)
  moreover have "replicate 26 (0 :: byte) = [0, 0] @ replicate 24 0" "replicate 2 (0 :: byte) = [0, 0]"
    by (simp_all add: numeral_eq_Suc)
  ultimately show ?thesis using l assms by (simp add: blit_def)
qed

context journal
begin

lemma station_located:
  assumes "48 \<le> length data" and "length lbs = 6" and "length buf = 1024" and "curl_easy_ok o'" and "curl_perform_ok o'"
    and "names answer (bytes ''longitude'') lon" and "names answer (bytes ''latitude'') lat"
    and "\<not> no_location lon" and "\<not> no_location lat" and "clean lon" and "clean lat"
    and "kv (ext w) (bytes ''R_'' @ dev_id data) = Some user" and "plain user" and "length user < 190"
    and "\<forall>e. idle e = idle (ext w) \<longrightarrow> fst (ConnectionPool_getConnection E e) \<noteq> None"
    and "\<forall>c s a e. Connection_execute E c s a e \<noteq> None"
  shows "sizeof_long E = 4 \<Longrightarrow> \<exists>lbs' w'. parser_Lbs data lbs = Some lbs'
      \<and> http_post E o' [(answer, n)] buf lbs data w = Some (Some (post_text (lbs_text lbs' 0 6)), 0, w')
      \<and> statements (ext w') = statements (ext w)
          @ [(SQL_INSERT_DEVICE_GPS, [69 # take 10 lon, 78 # 48 # take 10 lat, dec 0, dev_id data])]
      \<and> kv (ext w') = (kv (ext w))(user \<mapsto> answer_info lon lat (take 3 (drop 45 data)))
      \<and> idle (ext w') = idle (ext w)"
    and "sizeof_long E = 8 \<Longrightarrow> http_post E o' [(answer, n)] buf lbs data w = None"
proof -
  let ?rest = "replicate 24 0 @ take 4 (drop 44 data) @ [0, 0] @ [data ! 9 AND 0xF0]"
  have l: "length (dev_id data) = 16" "length ?rest = 31" using assms(1) by simp_all
  obtain lbs' b where b: "parser_Lbs data lbs = Some lbs'" "encode_post_data lbs buf data = Some b"
      "cstr b 0 = Some (post_text (lbs_text lbs' 0 6))"
    using encode_post_data_text [of data lbs buf] assms(1-3) by auto
  have rest: "take 3 (drop 25 ?rest) = take 3 (drop 45 data)" using assms(1) by (simp add: drop_take min_def; arith)
  have dev: "cstr (dev_id data @ [0, 0] @ ?rest) 0 = Some (dev_id data)"
    using cstr_prefix [OF dev_id_no_nul] by simp
  show "\<exists>lbs' w'. parser_Lbs data lbs = Some lbs'
      \<and> http_post E o' [(answer, n)] buf lbs data w = Some (Some (post_text (lbs_text lbs' 0 6)), 0, w')
      \<and> statements (ext w') = statements (ext w)
          @ [(SQL_INSERT_DEVICE_GPS, [69 # take 10 lon, 78 # 48 # take 10 lat, dec 0, dev_id data])]
      \<and> kv (ext w') = (kv (ext w))(user \<mapsto> answer_info lon lat (take 3 (drop 45 data)))
      \<and> idle (ext w') = idle (ext w)" if four: "sizeof_long E = 4"
  proof -
    obtain li' w' where w': "handle_data E answer n (dev_id data @ [0, 0] @ ?rest) w = Some (n, li', w')"
        "kv (ext w') = (kv (ext w))(user \<mapsto> answer_info lon lat (take 3 (drop 25 ?rest)))" "idle (ext w') = idle (ext w)"
        "statements (ext w') = statements (ext w)
          @ [(SQL_INSERT_DEVICE_GPS, [69 # take 10 lon, 78 # 48 # take 10 lat, dec 0, dev_id data])]"
      using answer_published [OF assms(6-11) HOL.refl l(1) clean_dev_id l(2) four assms(12-16), of n] by (elim exE conjE)
    then have "http_post E o' [(answer, n)] buf lbs data w = Some (Some (post_text (lbs_text lbs' 0 6)), 0, w')"
      using request_info_eq [OF assms(1)] assms(4,5) b(2,3) dev by (simp add: http_post_def)
    then show ?thesis using b(1) w'(2-4) unfolding rest by blast
  qed
  show "http_post E o' [(answer, n)] buf lbs data w = None" if "sizeof_long E = 8"
    using answer_overreads [OF assms(6-9) HOL.refl l(1) clean_dev_id l(2) that assms(12-16), of n]
      request_info_eq [OF assms(1)] assms(4,5) b(2,3) dev by (simp add: http_post_def)
qed

end

end
