(* ===== verification/Curl_Json.thy ===== *)
theory Curl_Json
  imports Curl_Request
begin

text \<open>
  What a JSON text is, and the stations of a request as such a text. \<open>json_val\<close> relates the
  texts of the grammar of RFC 8259 to their values, independently of the code that prints them;
  \<open>station_object\<close> is the value a station stands for.
\<close>

section \<open>The grammar\<close>

text \<open>
  A string stands for the text between its quotes, with its escapes, and a number for its text.
  Bytes above 127 are accepted as they are.
\<close>

datatype json_value =
    JNull
  | JBool bool
  | JNumber "byte list"
  | JString "byte list"
  | JArray "json_value list"
  | JObject "(byte list \<times> json_value) list"

definition blanks :: "byte list \<Rightarrow> bool" where
  "blanks t \<longleftrightarrow> list_all (\<lambda>c. c = 9 \<or> c = 10 \<or> c = 13 \<or> c = 32) t"

definition is_hex :: "byte \<Rightarrow> bool" where
  "is_hex c \<longleftrightarrow> isdigit c \<or> 65 \<le> c \<and> c \<le> 70 \<or> 97 \<le> c \<and> c \<le> 102"

inductive string_text :: "byte list \<Rightarrow> bool" where
  empty: "string_text []"
| char: "32 \<le> c \<Longrightarrow> c \<noteq> 34 \<Longrightarrow> c \<noteq> 92 \<Longrightarrow> string_text s \<Longrightarrow> string_text (c # s)"
| escape: "c \<in> set (bytes ''bfnrt/'') \<or> c = 34 \<or> c = 92 \<Longrightarrow> string_text s \<Longrightarrow> string_text (92 # c # s)"
| unicode: "list_all is_hex [a, b, c, d] \<Longrightarrow> string_text s \<Longrightarrow> string_text (92 # 117 # a # b # c # d # s)"

definition digits :: "byte list \<Rightarrow> bool" where
  "digits t \<longleftrightarrow> t \<noteq> [] \<and> list_all isdigit t"

inductive number_text :: "byte list \<Rightarrow> bool" where
  "sg = [] \<or> sg = [45] \<Longrightarrow> digits i \<Longrightarrow> hd i = 48 \<longrightarrow> i = [48] \<Longrightarrow>
    f = [] \<or> (\<exists>ds. f = 46 # ds \<and> digits ds) \<Longrightarrow>
    x = [] \<or> (\<exists>e s ds. x = e # s @ ds \<and> (e = 69 \<or> e = 101) \<and> (s = [] \<or> s = [43] \<or> s = [45]) \<and> digits ds) \<Longrightarrow>
    number_text (sg @ i @ f @ x)"

text \<open>A value without blanks around it, the elements of an array, and the members of an object.\<close>

inductive json_val :: "byte list \<Rightarrow> json_value \<Rightarrow> bool"
  and json_elements :: "byte list \<Rightarrow> json_value list \<Rightarrow> bool"
  and json_members :: "byte list \<Rightarrow> (byte list \<times> json_value) list \<Rightarrow> bool" where
  null: "json_val (bytes ''null'') JNull"
| true: "json_val (bytes ''true'') (JBool True)"
| false: "json_val (bytes ''false'') (JBool False)"
| number: "number_text t \<Longrightarrow> json_val t (JNumber t)"
| string: "string_text s \<Longrightarrow> json_val (34 # s @ [34]) (JString s)"
| no_array: "blanks a \<Longrightarrow> json_val (91 # a @ [93]) (JArray [])"
| array: "json_elements t vs \<Longrightarrow> json_val (91 # t @ [93]) (JArray vs)"
| no_object: "blanks a \<Longrightarrow> json_val (123 # a @ [125]) (JObject [])"
| object: "json_members t ms \<Longrightarrow> json_val (123 # t @ [125]) (JObject ms)"
| last_element: "blanks a \<Longrightarrow> json_val t v \<Longrightarrow> blanks b \<Longrightarrow> json_elements (a @ t @ b) [v]"
| element: "blanks a \<Longrightarrow> json_val t v \<Longrightarrow> blanks b \<Longrightarrow> json_elements u vs \<Longrightarrow>
    json_elements (a @ t @ b @ 44 # u) (v # vs)"
| last_member: "blanks a \<Longrightarrow> string_text k \<Longrightarrow> blanks b \<Longrightarrow> blanks c \<Longrightarrow> json_val t v \<Longrightarrow> blanks d \<Longrightarrow>
    json_members (a @ 34 # k @ 34 # b @ 58 # c @ t @ d) [(k, v)]"
| member: "blanks a \<Longrightarrow> string_text k \<Longrightarrow> blanks b \<Longrightarrow> blanks c \<Longrightarrow> json_val t v \<Longrightarrow> blanks d \<Longrightarrow>
    json_members u ms \<Longrightarrow> json_members (a @ 34 # k @ 34 # b @ 58 # c @ t @ d @ 44 # u) ((k, v) # ms)"

definition json_document :: "byte list \<Rightarrow> json_value \<Rightarrow> bool" where
  "json_document t v \<longleftrightarrow> (\<exists>a u b. t = a @ u @ b \<and> blanks a \<and> json_val u v \<and> blanks b)"

lemma json_document_val: "json_val t v \<Longrightarrow> json_document t v"
  unfolding json_document_def by (intro exI [of _ "[]"] exI [of _ t]) (simp add: blanks_def)

section \<open>Texts without blanks\<close>

lemma string_text_plain: "list_all (\<lambda>c. 32 \<le> c \<and> c \<noteq> 34 \<and> c \<noteq> 92) s \<Longrightarrow> string_text s"
  by (induction s) (auto intro: string_text.intros)

lemma blanks_Nil [simp]: "blanks []"
  by (simp add: blanks_def)

lemma elements_joined: "list_all2 json_val ts vs \<Longrightarrow> ts \<noteq> [] \<Longrightarrow> json_elements (join_with 44 ts) vs"
proof (induction ts vs rule: list_all2_induct)
  case (Cons t ts v vs)
  then show ?case
    using last_element [of "[]" t v "[]"] element [of "[]" t v "[]" "join_with 44 ts" vs]
    by (cases ts) (auto simp: list_all2_Cons1)
qed simp

lemma array_joined: "list_all2 json_val ts vs \<Longrightarrow> json_val (91 # join_with 44 ts @ [93]) (JArray vs)"
  using elements_joined array no_array [of "[]"] by (cases "ts = []") auto

definition member_text :: "byte list \<times> byte list \<Rightarrow> byte list" where
  "member_text m = 34 # fst m @ 34 # 58 # snd m"

lemma members_joined:
  "list_all2 (\<lambda>m n. string_text (fst m) \<and> fst n = fst m \<and> json_val (snd m) (snd n)) ms ns \<Longrightarrow> ms \<noteq> [] \<Longrightarrow>
    json_members (join_with 44 (map member_text ms)) ns"
proof (induction ms ns rule: list_all2_induct)
  case (Cons m ms n ns)
  note hyp = Cons.hyps(1) and ih = Cons.IH
  have n: "n = (fst m, snd n)" using hyp by (metis prod.collapse)
  show ?case
  proof (cases ms)
    case Nil
    then have "ns = []" using Cons.hyps(2) by simp
    then show ?thesis
      using last_member [of "[]" "fst m" "[]" "[]" "snd m" "snd n" "[]"] Cons.hyps(1) n Nil by (simp add: member_text_def)
  next
    case (Cons m2 ms2)
    have "join_with 44 (map member_text (m # ms)) =
        34 # fst m @ 34 # 58 # snd m @ 44 # join_with 44 (map member_text ms)"
      by (simp add: Cons member_text_def [of m])
    moreover have "json_members (join_with 44 (map member_text ms)) ns" using ih Cons by simp
    ultimately show ?thesis
      using member [of "[]" "fst m" "[]" "[]" "snd m" "snd n" "[]" "join_with 44 (map member_text ms)" ns]
        hyp n by simp
  qed
qed simp

section \<open>What no text starts with\<close>

lemma number_text_head: "number_text t \<Longrightarrow> \<exists>c r. t = c # r \<and> c \<noteq> 44 \<and> c \<noteq> 91"
proof (induction rule: number_text.induct)
  case (1 sg i f x)
  then obtain c r where "i = c # r" "isdigit c" by (cases i) (auto simp: digits_def)
  then show ?case using 1(1) by (auto simp: isdigit_def)
qed

lemma json_val_head: "json_val t v \<Longrightarrow> \<exists>c r. t = c # r \<and> c \<noteq> 44"
  by (erule json_val.cases) (auto simp: bytes_def dest: number_text_head)

lemma blanks_head: "blanks (c # a) \<Longrightarrow> c \<noteq> 44 \<and> c \<noteq> 91 \<and> c \<noteq> 93"
  by (auto simp: blanks_def)

lemma elements_head:
  assumes "json_elements t vs"
  shows "\<exists>c r. t = c # r \<and> c \<noteq> 44"
  using assms
proof cases
  case (last_element a u v b)
  then show ?thesis using json_val_head [of u v] blanks_head by (cases a) auto
next
  case (element a u v b u' vs')
  then show ?thesis using json_val_head [of u v] blanks_head by (cases a) auto
qed

lemma no_leading_comma: "\<not> json_document (91 # 44 # t) v"
proof
  assume "json_document (91 # 44 # t) v"
  then obtain a u b where t: "91 # 44 # t = a @ u @ b" "blanks a" "json_val u v"
    by (auto simp: json_document_def)
  have "a = []" using t(1,2) blanks_head by (cases a) auto
  then have u: "91 # 44 # t = u @ b" using t(1) by simp
  from t(3) show False
  proof cases
    case number
    then show ?thesis using u number_text_head by force
  next
    case (no_array a')
    then show ?thesis using u blanks_head by (cases a') auto
  next
    case (array t' vs)
    then show ?thesis using u elements_head by force
  qed (use u in \<open>auto simp: bytes_def\<close>)
qed

section \<open>The stations\<close>

definition station_object :: "Lbs \<Rightarrow> json_value" where
  "station_object l = JObject [
     (bytes ''cell_id'', JString (dec (uint (cid l)))),
     (bytes ''lac'', JString (dec (uint (lac l)))),
     (bytes ''mcc'', JString (dec (uint (mcc l)))),
     (bytes ''mnc'', JString (dec (uint (mnc l)))),
     (bytes ''signalstrength'', JString (45 # dec (sint (signal l))))]"

lemma dec_string: "string_text (dec i)" "string_text (45 # dec i)"
proof -
  have "list_all (\<lambda>c. 32 \<le> c \<and> c \<noteq> 34 \<and> c \<noteq> 92) (dec_nat n)" for n
    using dec_nat_digits [of _ n] unfolding list_all_iff isdigit_def
    by (auto intro: order_trans [of 32 48]) fastforce+
  then show "string_text (dec i)" "string_text (45 # dec i)"
    by (auto simp: dec_def intro!: string_text_plain)
qed

lemma lbs_item_json: "json_val (lbs_item 0 l) (station_object l)"
proof -
  let ?q = "\<lambda>v. 34 # v @ [34]"
  let ?ms = "[(bytes ''cell_id'', ?q (dec (uint (cid l)))), (bytes ''lac'', ?q (dec (uint (lac l)))),
    (bytes ''mcc'', ?q (dec (uint (mcc l)))), (bytes ''mnc'', ?q (dec (uint (mnc l)))),
    (bytes ''signalstrength'', ?q (45 # dec (sint (signal l))))]"
  have t: "lbs_item 0 l = 123 # join_with 44 (map member_text ?ms) @ [125]"
    by (simp add: lbs_item_def member_text_def bytes_def)
  have k: "string_text (bytes ''cell_id'')" "string_text (bytes ''lac'')" "string_text (bytes ''mcc'')"
    "string_text (bytes ''mnc'')" "string_text (bytes ''signalstrength'')"
    by (rule string_text_plain, code_simp)+
  have "json_members (join_with 44 (map member_text ?ms))
    [(bytes ''cell_id'', JString (dec (uint (cid l)))), (bytes ''lac'', JString (dec (uint (lac l)))),
     (bytes ''mcc'', JString (dec (uint (mcc l)))), (bytes ''mnc'', JString (dec (uint (mnc l)))),
     (bytes ''signalstrength'', JString (45 # dec (sint (signal l))))]"
    by (rule members_joined) (simp_all add: k string dec_string string [of "45 # _", simplified])
  then show ?thesis unfolding t station_object_def by (rule object)
qed

lemma stations_json: "json_val (91 # station_json lbs @ [93]) (JArray (map (\<lambda>k. station_object (lbs ! k)) (present lbs)))"
  unfolding station_json_def
  by (rule array_joined) (simp add: list_all2_map1 list_all2_map2 list_all2_same lbs_item_json)

lemma present_stations: "length lbs = 6 \<Longrightarrow> map (\<lambda>k. f (lbs ! k)) (present lbs) = map f (filter IsLbs lbs)"
proof -
  assume "length lbs = 6"
  then have "map ((!) lbs) [0..<6] = lbs" using map_nth [of lbs] by simp
  moreover have "filter IsLbs (map ((!) lbs) [0..<6]) = map ((!) lbs) (present lbs)"
    by (simp only: filter_map present_def comp_def)
  ultimately show ?thesis by simp
qed

lemma present_none: "present lbs = [] \<longleftrightarrow> (\<forall>k < 6. \<not> IsLbs (lbs ! k))"
  by (auto simp: present_def filter_empty_conv)

text \<open>The stations of a request are JSON exactly when station 0 is there or no station is.\<close>

lemma lbs_text_is_json:
  "if IsLbs (lbs ! 0) \<or> present lbs = []
   then json_val (91 # lbs_text lbs 0 6 @ [93]) (JArray (map (\<lambda>k. station_object (lbs ! k)) (present lbs)))
   else \<forall>v. \<not> json_document (91 # lbs_text lbs 0 6 @ [93]) v"
  using stations_json [of lbs] no_leading_comma by (simp add: lbs_text_json)

text \<open>The whole request is then an object with the stations as its towers.\<close>

lemma request_json:
  assumes "json_val (91 # t @ [93]) (JArray vs)"
  shows "\<exists>u. post_text t = bytes ''requestdata='' @ u @ bytes ''&type=0&key=ade0044a7a6b49adbbf1e490bf8f0e9c''
    \<and> json_val u (JObject [(bytes ''celltowers'', JArray vs), (bytes ''mnctype'', JString (bytes ''gsm''))])"
proof -
  let ?ms = "[(bytes ''celltowers'', 91 # t @ [93]), (bytes ''mnctype'', 34 # bytes ''gsm'' @ [34])]"
  have k: "string_text (bytes ''celltowers'')" "string_text (bytes ''mnctype'')" "string_text (bytes ''gsm'')"
    by (rule string_text_plain, code_simp)+
  have "json_members (join_with 44 (map member_text ?ms))
      [(bytes ''celltowers'', JArray vs), (bytes ''mnctype'', JString (bytes ''gsm''))]"
    by (rule members_joined) (simp_all add: k assms string [OF k(3), simplified])
  from object [OF this] show ?thesis
    by (intro exI [of _ "123 # join_with 44 (map member_text ?ms) @ [125]"])
      (simp add: post_text_def member_text_def bytes_def)
qed

end
