(* ===== verification/Spec2Isabelle.thy ===== *)
theory Spec2Isabelle
  imports Robot_Sessions
    Robot_Main
    Sync_Redis
    Syner_Tool
    Sql_Pool
    Design_Observer
    Design_Chain
    Apollo_Log
    Agps_Download
    Robot_Overtaking
    Robot_Workers
    Robot_Exhaustion
    Syner_Receiver
    Curl_Json
begin

text \<open>
  RobotServer: a model of the server and its tools, and what holds of them.

  The program. Devices (alarm watches) and phones talk to one TCP server (\<open>server.c\<close>) in fixed-length
  packets (\<open>ApolloProtocol.h\<close>). libevent delivers the bytes of a connection to a job of a worker pool
  (\<open>workqueue.c\<close>); the job parses packets and calls one handler per kind (\<open>ApolloProtocol.c\<close>). Handlers
  leave state and commands in Redis (\<open>ApolloRedis.c\<close>) and rows in MySQL (\<open>ApolloSqlOperator.c\<close>), store
  and send files in blocks (\<open>ApolloUtil.c\<close>), start threads that replicate files by multicast
  (\<open>ApolloSyner.c\<close>), ask a web service for the place of base stations (\<open>curljson.c\<close>) and download
  satellite data (\<open>anolclient_china.c\<close>). \<open>SyncDataToRedis.c\<close> and \<open>ApolloSynerAction.c\<close> are programs of
  their own; \<open>DesignPattern/\<close> holds two studies in object-oriented C.

  Conventions. A C function is a definition of the same name. Its value is an \<open>option\<close>: \<^const>\<open>None\<close> is
  undefined behaviour (an access outside an object, a null pointer, an unterminated string, an
  unrepresentable conversion) or a loop that does not end. A C array is a list of bytes of its size,
  read by \<^const>\<open>peek\<close> and \<^const>\<open>fetch\<close> and written by \<^const>\<open>poke\<close>, \<^const>\<open>blit\<close> and \<^const>\<open>sprintf_at\<close>, all
  checked. Integers whose width matters are words. Effects go through the record \<open>'w world\<close> (files, time,
  threads started, descriptors closed, and the state \<open>'w\<close> of the libraries); return codes are kept.

  Libraries are parameters. hiredis, libzdb and libevent are the operations of the record
  \<open>'w externals\<close>; libmysqlclient, json-c, libcurl and the network of the download are parameters of
  the components that use them. What the code relies on is stated in the locales \<open>redis_server\<close>,
  \<open>backend\<close>, \<open>journal\<close>, \<open>connections\<close> and \<open>json_library\<close>, each interpreted on a reference service (\<open>ref_externals\<close>,
  \<open>net_externals\<close>, \<open>ref_json\<close>) that the witnesses run on. The width of \<open>long\<close> and the save directory are parameters.

  The theories, in the order of the code:
    \<open>Robot_Prelude\<close>, \<open>Robot_Numbers\<close>: bytes, checked buffers (locale \<open>checked_buffer\<close>, interpreted on
      lists), C strings, \<open>"%d"\<close> and \<open>atoi\<close>, little-endian integers.
    \<open>Apollo_Hex\<close>, \<open>Apollo_Text\<close>: the text and hexadecimal functions of \<open>ApolloUtil.c\<close>, file names, time.
    \<open>Apollo_World\<close>, \<open>Apollo_Constants\<close>: the world, \<open>write_dat\<close> and \<open>read_dat\<close>; the macros of the protocol.
    \<open>Apollo_Log\<close>: \<open>dbg_printf\<close>, the log of a build without \<open>DEBUG\<close>.
    \<open>Apollo_Blocks\<close>, \<open>Apollo_Syner\<close>: cutting a file into packets; the multicast sender and receiver.
      \<open>Syner_Receiver\<close>: the receiver on datagrams of any content and sender.
    \<open>Apollo_Redis\<close>, \<open>Apollo_Sql\<close>: the three Redis operations (a \<open>kv_store\<close>); the database operations
      over libzdb, the committed configuration. \<open>Sql_Pool\<close>: the other configuration of the same file,
      a pool of fifty connections of its own, with outcomes that tell waiting from undefined behaviour.
    \<open>Apollo_Client\<close>, \<open>Apollo_Handlers\<close>, \<open>Apollo_Dispatch\<close>, \<open>Apollo_Upload\<close>: the client record, the handlers,
      accounts and block transfer, \<open>apolloParsePacket\<close>, and what it does to a fragmented upload.
    \<open>Work_Queue\<close>: the linked lists on a heap, the operations of the queue, and the threads as a step
      relation \<open>pool_step\<close> (a worker's steps are \<open>worker_step\<close>) whose steps are the accesses between two
      points of interleaving; a sleeping worker needs a signal to wake.
    \<open>Robot_Server\<close>, \<open>Robot_Scenario\<close>: resources of a connection, accepting, serving, start and stop; a
      concrete deployment for the witnesses.
    \<open>Robot_Broker\<close>: the specification of the server as a broker between devices and phones (owners,
      watched devices, one waiting command per device, the last report per user), its messages and
      answers (\<open>respond\<close>, \<open>converse_with\<close>), and how Redis represents it.
    \<open>Robot_Protocol\<close>: each handler refines the broker; observations that library calls keep (locales
      \<open>redis_quiet\<close> and \<open>library_quiet\<close>).
    \<open>Robot_Startup\<close>, \<open>Robot_Main\<close>: what the database leaves in Redis at the start; the table of handlers,
      \<open>main\<close>, the signal handler, \<open>test.c\<close>.
    \<open>Robot_Sessions\<close>: any number of connections over one store (locale \<open>connections\<close>), served event by
      event, refine the broker; messages that share a read.
    \<open>Robot_Transfers\<close>: an upload on one connection, cut into reads in any way, and a download on another.
    \<open>Robot_Activity\<close>, \<open>Robot_Steps\<close>: programs cut at their accesses to a shared state, their interleavings
      and a rule for them (locale \<open>shared_state\<close>: a common invariant and a stock of things the threads
      borrow); the callbacks of the messages as such programs, each equal to its handler when it runs alone.
    \<open>Robot_Race\<close>, \<open>Robot_Overtaking\<close>: what every interleaving of callbacks keeps (locale \<open>generous\<close>: a pool
      that gives a connection as long as one is idle), and the race between a heart beat and a command.
    \<open>Robot_Exhaustion\<close>: one location report more than there are database connections.
    \<open>Robot_Guarantee\<close>, \<open>Robot_Workers\<close>: what an activity guarantees the others, and a part of the state
      of its own (locale \<open>own_part\<close>); the sessions of several workers, with their reads and writes.
    \<open>Curl_Match\<close>, \<open>Curl_Location\<close>, \<open>Curl_Request\<close>: text search, the answer with the coordinates, the requests
      (locale \<open>journal\<close>: a database that records its statements). \<open>Curl_Json\<close>: the grammar of JSON texts, and
      the stations of a request as one.
    \<open>Agps_Download\<close>: the reply loop of the download, its checks and the thread; a serial port.
    \<open>Sync_Redis\<close>, \<open>Syner_Tool\<close>: the two tools.
    \<open>Design_Observer\<close>, \<open>Design_Chain\<close>: the two patterns on a heap of objects, classes as records of functions
      (locale \<open>publisher\<close>).

  What is shown. The whole server: from what the database holds at the start (\<open>main_prepares_server\<close>),
  serving any sequence of well formed messages on any number of connections is a run of the broker,
  answer by answer (\<open>sessions_refine_broker\<close>). In such a
  run each callback is handled to its end. Workers overlap, though: whole sessions of different
  connections, no more than there are idle database connections, interleaved at every access to the network, Redis, the database and the clock, reach no
  undefined behaviour, do not exhaust the pool, end after at most nine accesses per message, send
  answers the messages can explain and leave a broker in Redis after every access
  (\<open>overlapping_sessions_are_safe\<close>); but callbacks are not atomic: a command that arrives
  between the GET and the DEL of a heart beat is lost (\<open>command_between_get_and_del_is_lost\<close>), unless none
  waited before (\<open>lone_command_is_not_lost\<close>), and with more location reports than idle database
  connections some interleaving lets the others hold them all, so that the last dereferences a null
  pointer (\<open>reports_exhaust_pool\<close>). A message of a session arrives
  in one read; \<open>coalesced_messages_are_lost\<close> says what happens to two that share one, and an upload may be cut anywhere. End to end: a command of a phone, the state and the place of a device, an upload, a
  download, a multicast and satellite data reach the other side (the theorems named \<open>_reaches_\<close>,
  \<open>uploaded_file_is_downloaded\<close>, \<open>download_sends_packets\<close>, \<open>multicast_replicates_file\<close>,
  \<open>download_is_announced\<close>), each composed of the lemmas of its components. Concurrency: workers exclude each
  other, jobs are conserved, no wake-up is lost and every job gets done before a shutdown, and a worker that leaves keeps the mutex. Resources:
  a connection frees what it took, database connections are balanced, and in the other configuration
  they run out. Refinements: the server is a broker, Redis is a finite map, the job list a stack, the gearman worker agrees with the
  start-up loader. Bounds, errors and the flaws that follow from them are stated as the code behaves.

  Bounds and fuel. \<open>workqueue_shutdown\<close> walks a list that the heap could make cyclic: its fuel is the
  number of steps, and its lemma holds for every fuel that is at least the length of the list. The loops that may run for ever (\<open>apolloParsePacket\<close>, the removal and iteration of the
  observer list, the chain of handles) are partial functions whose value
  \<^const>\<open>None\<close> is non-termination, and a property that they return is proved as \<open>= Some\<close>. The wait for a
  connection of the own pool is watched for a number of turns, and its properties hold for every number. Every other loop is
  total; the one over the network reads at most 8192 times.

  Not modelled. \<open>ubx.h\<close> is a generated header of message layouts of which the server uses one type name,
  and \<open>AbstractFactory.c\<close> is empty. A call through the table of handlers is modelled as a call of the
  function \<open>initApolloProtocol\<close> stores there (\<open>table_dispatches\<close>). The request for a real-time location is
  modelled but is no message of the broker, because its effect depends on rows of the database; among
  overlapping callbacks it is one access. The threads that a callback starts take no part in the
  interleavings. Output
  to the terminal is left out, the shell command of the download thread beyond its command line, short
  writes to files, and the formatting of floating point numbers, which is a parameter of the request
  text.
\<close>

unbundle bit_operations_syntax

section \<open>Sessions with many connections\<close>

text \<open>C1. The server refines the broker: over any number of connections and any sequence of well
  formed messages, each arriving in one piece, serving always ends, every connection is sent
  exactly the answers of the broker in order, and the store in Redis keeps representing the broker
  (owners, watched devices, waiting commands, reports).\<close>
theorem sessions_refine_broker:
  assumes "connections E view arrive width" and "\<forall>c. ready (clients c)"
    and "represents (net_kv (view (ext w))) b" and "list_all (\<lambda>e. message_ok (snd e)) es"
    and "net_idle (view (ext w)) \<noteq> {#}"
    and "\<forall>c. incoming (view (ext w)) c = [] \<and> staged (view (ext w)) c = []"
    and "converse_with width (localtime_now w) es b = (as, b')"
  shows "\<exists>clients' w'. serve_all E arrive (map deliver_message es) clients w = Some (clients', w')
    \<and> (\<forall>c. ready (clients' c)) \<and> represents (net_kv (view (ext w'))) b'
    \<and> (\<forall>c. sent (view (ext w')) c = sent (view (ext w)) c @ answers_to c as)
    \<and> (\<forall>c. incoming (view (ext w')) c = [] \<and> staged (view (ext w')) c = [])"
  by (rule connections.session_served [OF assms])

theorem sessions_refine_broker_witness:
  "\<exists>clients' w'. serve_all (net_externals DISK_FILE_SAVE) net_arrive
        (map deliver_message [(1, demo_alarm_on), (2, demo_beat)]) (\<lambda>_. demo_client) net_world = Some (clients', w')
    \<and> represents (net_kv (net_view (ext w'))) (demo_broker\<lparr>report := [7 \<mapsto> state_report (replicate 23 0)]\<rparr>)
    \<and> sent (net_view (ext w')) 2 = bytes ''CET'' @ [0x08] @ bytes ''K%''"
proof -
  let ?es = "[(1 :: nat, demo_alarm_on), (2, demo_beat)]"
  have spec: "converse_with 4 (localtime_now net_world) ?es demo_broker =
      ([(1, []), (2, command_answer (Plain 0x08))],
       demo_broker\<lparr>report := [7 \<mapsto> state_report (replicate 23 0)], waiting := Map.empty\<rparr>)"
    by (simp add: demo_alarm_on_def demo_beat_def demo_messages(3) demo_alarm_command Let_def)
  have same: "demo_broker\<lparr>report := r, waiting := Map.empty\<rparr> = demo_broker\<lparr>report := r\<rparr>" for r
    by (simp add: demo_broker_def no_broker_def bind_pair_def)
  have ok: "list_all (\<lambda>e. message_ok (snd e)) ?es" by (simp add: demo_messages)
  obtain clients' w' where s: "serve_all (net_externals DISK_FILE_SAVE) net_arrive (map deliver_message ?es)
        (\<lambda>_. demo_client) net_world = Some (clients', w')"
      "represents (net_kv (net_view (ext w'))) (demo_broker\<lparr>report := [7 \<mapsto> state_report (replicate 23 0)]\<rparr>)"
      "\<forall>c. sent (net_view (ext w')) c = sent (net_view (ext net_world)) c
        @ answers_to c [(1, []), (2, command_answer (Plain 0x08))]"
    using sessions_refine_broker [OF ref_net.connections_axioms _ demo_broker_represented ok _ _ spec [unfolded same],
        of "\<lambda>_. demo_client" DISK_FILE_SAVE] demo_ready by (auto simp del: list.map)
  then show ?thesis by (intro exI [of _ clients'] exI [of _ w']) (simp del: list.map)
qed

text \<open>C2. The start of the server: when \<open>main\<close> begins to accept connections, the table of handlers is
  filled, the connection pool exists, the broker that Redis represents has exactly the
  relationships of the database added to what was there, and every database connection is back
  in the pool.\<close>
theorem main_prepares_server:
  assumes "backend E kv idle" and "represents (kv (ext w)) b" and "idle (ext w) \<noteq> {#}"
    and "\<And>e. idle e \<noteq> {#} \<Longrightarrow> fst (ConnectionPool_getConnection E e) \<noteq> None"
    and "\<And>c e. \<exists>e'. Connection_executeQuery E c SQL_SELECT_USERINFO_LIST [] e = Some (Some users, e')"
    and "\<And>c e. \<exists>e'. Connection_executeQuery E c SQL_SELECT_RELATIONSHIP_LIST [] e = Some (Some (map pair_row rel), e')"
    and "\<forall>r \<in> set users. user_row_ok r" and "list_all pair_ok rel"
  shows "\<exists>p' w'. main_process E new_pool p w = Some (p', w')
    \<and> ApolloProtocolInstance p' = Some (initApolloProtocol E) \<and> ConnectionPool_Instance p' \<noteq> None
    \<and> represents (kv (ext w')) (foldl bind_pair b rel) \<and> idle (ext w') = idle (ext w)"
  by (rule backend.main_ready [OF assms])

definition table_externals :: "ref_state externals" where
  "table_externals = demo_E\<lparr>Connection_executeQuery := (\<lambda>c stmt args e. Some (Some
     (if stmt = SQL_SELECT_RELATIONSHIP_LIST then map pair_row [(7, demo_dev)] else []), e))\<rparr>"

lemma table_backend: "backend table_externals ref_kv (\<lambda>e. mset (ref_free e))"
proof -
  have redis: "redisCommand table_externals = redisCommand demo_E" by (simp add: table_externals_def)
  have sql: "SQL_SELECT_USERINFO_LIST \<noteq> SQL_SELECT_RELATIONSHIP_LIST"
    by (simp add: SQL_SELECT_USERINFO_LIST_def SQL_SELECT_RELATIONSHIP_LIST_def bytes_def)
  show ?thesis
    by unfold_locales (auto simp: redis ref.redis_set ref.redis_get_some ref.redis_get_none ref.redis_del,
      auto simp: table_externals_def ref_externals_def split: list.splits prod.splits)
qed

theorem main_prepares_server_witness:
  "\<exists>p' w'. main_process table_externals 9 \<lparr>ApolloProtocolInstance = None, ConnectionPool_Instance = None\<rparr>
        (demo_world\<lparr>ext := demo_state\<lparr>ref_kv := Map.empty\<rparr>\<rparr>) = Some (p', w')
    \<and> ApolloProtocolInstance p' = Some (initApolloProtocol table_externals)
    \<and> represents (ref_kv (ext w')) demo_broker"
proof -
  let ?w = "demo_world\<lparr>ext := demo_state\<lparr>ref_kv := Map.empty\<rparr>\<rparr>"
  let ?p = "\<lparr>ApolloProtocolInstance = None, ConnectionPool_Instance = None\<rparr> :: ref_state process"
  have "\<exists>p' w'. main_process table_externals 9 ?p ?w = Some (p', w')
      \<and> ApolloProtocolInstance p' = Some (initApolloProtocol table_externals) \<and> ConnectionPool_Instance p' \<noteq> None
      \<and> represents (ref_kv (ext w')) (foldl bind_pair no_broker [(7, demo_dev)])
      \<and> mset (ref_free (ext w')) = mset (ref_free (ext ?w))"
  proof (rule main_prepares_server [OF table_backend, where users = "[]"])
    show "\<exists>e'. Connection_executeQuery table_externals c SQL_SELECT_USERINFO_LIST [] e = Some (Some [], e')" for c e
      by (simp add: table_externals_def SQL_SELECT_USERINFO_LIST_def SQL_SELECT_RELATIONSHIP_LIST_def bytes_def)
    show "\<exists>e'. Connection_executeQuery table_externals c SQL_SELECT_RELATIONSHIP_LIST [] e =
        Some (Some (map pair_row [(7, demo_dev)]), e')" for c e
      by (simp add: table_externals_def)
    show "fst (ConnectionPool_getConnection table_externals e) \<noteq> None" if "mset (ref_free e) \<noteq> {#}" for e
      using that by (auto simp: table_externals_def ref_externals_def split: list.splits)
  qed (simp_all add: represents_empty pair_ok_def)
  then show ?thesis by (auto simp: demo_broker_def)
qed

text \<open>C3. The command box of a device holds one command: of two commands a phone sends for the device
  it watches, the next heart beat of the device delivers the later one and the heart beat after it
  none; the phone is answered nothing.\<close>
theorem newest_command_wins:
  assumes "connections E view arrive width" and "\<forall>c. ready (clients c)"
    and "represents (net_kv (view (ext w))) b" and "net_idle (view (ext w)) \<noteq> {#}"
    and "\<forall>c. incoming (view (ext w)) c = [] \<and> staged (view (ext w)) c = []"
    and "message_ok (Phone_command p k1 i1 x1)" and "message_ok (Phone_command p k2 i2 x2)"
    and "length d = 8" and "length y = 23" and "cp \<noteq> cd"
    and "watch b (number_of p) = Some d" and "owner b d = Some u" and "command_of k2 i2 (take 8 x2) = Some cmd"
  shows "\<exists>clients' w'. serve_all E arrive (map deliver_message [(cp, Phone_command p k1 i1 x1),
        (cp, Phone_command p k2 i2 x2), (cd, Device_heart d y), (cd, Device_heart d y)]) clients w = Some (clients', w')
    \<and> sent (view (ext w')) cd = sent (view (ext w)) cd @ command_answer cmd @ time_answer (localtime_now w)
    \<and> sent (view (ext w')) cp = sent (view (ext w)) cp"
proof -
  let ?es = "[(cp, Phone_command p k1 i1 x1), (cp, Phone_command p k2 i2 x2), (cd, Device_heart d y), (cd, Device_heart d y)]"
  have ok: "list_all (\<lambda>e. message_ok (snd e)) ?es" using assms(6-9) by simp
  obtain b' where spec: "converse_with width (localtime_now w) ?es b =
      ([(cp, []), (cp, []), (cd, command_answer cmd), (cd, time_answer (localtime_now w))], b')"
    using assms(11-13) by (cases "command_of k1 i1 (take 8 x1)") (simp_all add: Let_def)
  show ?thesis
    using connections.session_served [OF assms(1-3) ok assms(4,5) spec] assms(10)
    by (auto simp del: list.map)
qed

theorem newest_command_wins_witness:
  "\<exists>clients' w'. serve_all (net_externals DISK_FILE_SAVE) net_arrive
        (map deliver_message [(1, demo_alarm_on), (1, Phone_command [0, 0, 0, 7] 0x44 5 (replicate 9 0)),
          (2, demo_beat), (2, demo_beat)]) (\<lambda>_. demo_client) net_world = Some (clients', w')
    \<and> sent (net_view (ext w')) 2 = bytes ''C'' @ [0, 0, 0x44, 5] @ replicate 15 0 @ time_answer demo_tm"
proof -
  have c: "command_of 0x44 5 (take 8 (replicate 9 0)) = Some (Indexed 5)"
    by (simp add: command_of_def numbered_def)
  have ok: "message_ok (Phone_command [0, 0, 0, 7] 0x44 5 (replicate 9 0))" by simp
  show ?thesis
    using newest_command_wins [OF ref_net.connections_axioms, of "\<lambda>_. demo_client" net_world demo_broker
        "[0, 0, 0, 7]" "0x08" 0 "replicate 9 0" "0x44" 5 "replicate 9 0" demo_dev "replicate 23 0" 1 2 7
        "Indexed 5" DISK_FILE_SAVE]
      c ok demo_broker_represented demo_ready demo_messages
    by (auto simp: demo_alarm_on_def demo_beat_def simp del: list.map)
qed

text \<open>C4. A callback takes what it reads for one packet. Of two messages that arrive in one read
  neither takes effect: the store and the files are unchanged and nothing is sent, except that a
  location is still acknowledged although it was not stored. A location and a phone command in one
  read have the length of a base-station packet: if the device has an owner, a location query
  is started for it, and no other read of two messages starts a thread.\<close>
theorem coalesced_messages_are_lost:
  assumes "connections E view arrive width" and "ready client" and "represents (net_kv (view (ext w))) b"
    and "message_ok m" and "message_ok m2"
    and "incoming (view (ext w)) c = []" and "staged (view (ext w)) c = []"
  shows "\<exists>client' w'. serve (E c) (arrive c) [Readable (encode m @ encode m2)] client w = Some (client', w')
    \<and> ready client' \<and> view (ext w') = (view (ext w))\<lparr>sent := (sent (view (ext w)))(c := sent (view (ext w)) c
        @ (case m of Device_location d x \<Rightarrow> bytes ''RETOK%'' | _ \<Rightarrow> []))\<rparr>
    \<and> files w' = files w
    \<and> started w' = started w @ (case (m, m2) of
        (Device_location d x, Phone_command p k i y) \<Rightarrow> if owner b d = None then [] else [Start_http_post]
      | _ \<Rightarrow> [])"
  using connections.coalesced_lost [OF assms] unfolding coalesced_threads_def .

theorem coalesced_messages_are_lost_witness:
  "(\<exists>client' w'. serve (net_externals DISK_FILE_SAVE 1) (net_arrive 1)
        [Readable (encode demo_alarm_on @ encode demo_alarm_on)] demo_client net_world = Some (client', w')
      \<and> net_kv (net_view (ext w')) = net_kv (net_view (ext net_world)) \<and> sent (net_view (ext w')) 1 = []
      \<and> started w' = [])
    \<and> (\<exists>client' w'. serve (net_externals DISK_FILE_SAVE 1) (net_arrive 1)
        [Readable (encode (Device_location demo_dev (replicate 23 0)) @ encode demo_alarm_on)] demo_client net_world = Some (client', w')
      \<and> net_kv (net_view (ext w')) = net_kv (net_view (ext net_world)) \<and> started w' = [Start_http_post])"
proof (rule conjI)
  note lost = coalesced_messages_are_lost [OF ref_net.connections_axioms demo_ready demo_broker_represented _ demo_messages(1), of _ 1 DISK_FILE_SAVE]
  have idle: "incoming (net_view (ext net_world)) 1 = []" "staged (net_view (ext net_world)) 1 = []" "started net_world = []"
    by (simp_all add: net_world_def net_view_def demo_world_def)
  show "\<exists>client' w'. serve (net_externals DISK_FILE_SAVE 1) (net_arrive 1)
        [Readable (encode demo_alarm_on @ encode demo_alarm_on)] demo_client net_world = Some (client', w')
      \<and> net_kv (net_view (ext w')) = net_kv (net_view (ext net_world)) \<and> sent (net_view (ext w')) 1 = []
      \<and> started w' = []"
    using lost [of demo_alarm_on] idle demo_messages by (auto simp: demo_alarm_on_def)
  have "message_ok (Device_location demo_dev (replicate 23 0))" by simp
  from lost [OF this idle(1,2)] show "\<exists>client' w'. serve (net_externals DISK_FILE_SAVE 1) (net_arrive 1)
        [Readable (encode (Device_location demo_dev (replicate 23 0)) @ encode demo_alarm_on)] demo_client net_world = Some (client', w')
      \<and> net_kv (net_view (ext w')) = net_kv (net_view (ext net_world)) \<and> started w' = [Start_http_post]"
    using idle(3) by (auto simp: demo_alarm_on_def)
qed

section \<open>Overlapping callbacks\<close>

text \<open>C5. Workers that serve different connections at the same time, each a whole session of messages,
  overtake each other at every read, every command of Redis, every use of the pool of database
  connections, every look at the clock and every write. As long as there are no more sessions than
  idle database connections, no interleaving reaches undefined behaviour or runs out of
  connections; every run ends, after at most nine accesses per message; Redis represents, after
  every access, a broker with the same bindings whose commands and reports stem from the messages;
  and a session that is done has given every message an answer that the messages can explain (a
  device gets the time or a command that waited or was sent for it, a phone a report of its user),
  and its connection was sent exactly these answers, in order.\<close>
theorem overlapping_sessions_are_safe:
  assumes "connections E view arrive width" and "represents (net_kv (view (ext w))) b" and "quiet_net view w"
    and "\<forall>c. ready (clients c)" and "list_all (\<lambda>x. list_all message_ok (snd x)) ss" and "distinct (map fst ss)"
    and "length ss \<le> size (net_idle (view (ext w)))"
    and "interleaved n (map (\<lambda>(c, ms). session_steps (E c) (arrive c) ms (clients c)) ss, w) (js, w')"
  shows "n \<le> 9 * length (concat (map snd ss)) \<and> (\<forall>i. \<not> stuck_thread (js, w') i)
    \<and> (\<exists>l q. interleaved l (js, w') q \<and> all_done (fst q))
    \<and> (\<exists>b'. represents (net_kv (view (ext w'))) b' \<and> reachable_broker width b (concat (map snd ss)) b')
    \<and> length js = length ss
    \<and> (\<forall>i c ms client' as. i < length ss \<longrightarrow> ss ! i = (c, ms) \<longrightarrow> js ! i = Return (client', as) \<longrightarrow>
        list_all2 (answer_allowed width (localtime_now w) b (concat (map snd ss))) ms as
        \<and> sent (view (ext w')) c = sent (view (ext w)) c @ concat (map reply as))"
proof -
  note all = connections.overlapping_sessions [OF assms]
  show ?thesis by (intro conjI allI impI all(1-5)) (rule all(6) [THEN conjunct1] all(6) [THEN conjunct2]; assumption)+
qed

theorem overlapping_sessions_are_safe_witness:
  "\<exists>n js w'. interleaved n (map (\<lambda>(c, ms). session_steps (net_externals DISK_FILE_SAVE c) (net_arrive c) ms demo_client)
        [(2, [demo_beat]), (1, [demo_alarm_on])], net_world) (js, w')
    \<and> all_done js \<and> n \<le> 18 \<and> sent (net_view (ext w')) 1 = []
    \<and> sent (net_view (ext w')) 2 \<in> {time_answer demo_tm, command_answer (Plain 0x08)}"
proof -
  let ?ss = "[(2 :: nat, [demo_beat]), (1, [demo_alarm_on])]"
  let ?js = "map (\<lambda>(c, ms). session_steps (net_externals DISK_FILE_SAVE c) (net_arrive c) ms demo_client) ?ss"
  have ok: "list_all (\<lambda>x. list_all message_ok (snd x)) ?ss" "distinct (map fst ?ss)"
    "length ?ss \<le> size (net_idle (net_view (ext net_world)))"
    using demo_messages by (simp_all add: net_world_def net_view_def demo_state_def)
  have quiet: "quiet_net net_view net_world" by (simp add: quiet_net_def)
  note safe = overlapping_sessions_are_safe [OF ref_net.connections_axioms [of DISK_FILE_SAVE] demo_broker_represented quiet allI [OF demo_ready] ok]
  obtain n q where "interleaved n (?js, net_world) q" "all_done (fst q)"
    using safe [OF interleaved.start, THEN conjunct2, THEN conjunct2, THEN conjunct1] by (elim exE conjE)
  moreover obtain js w' where "q = (js, w')" by (rule prod.exhaust)
  ultimately have run: "interleaved n (?js, net_world) (js, w')" "all_done js" by (simp_all only: fst_conv)
  note facts = safe [OF run(1)]
  note s = facts [THEN conjunct1] facts [THEN conjunct2, THEN conjunct2, THEN conjunct2, THEN conjunct2, THEN conjunct1]
  have served: "list_all2 (answer_allowed 4 demo_tm demo_broker [demo_beat, demo_alarm_on]) ms as
        \<and> sent (net_view (ext w')) c = concat (map reply as)"
    if "i < length ?ss" "?ss ! i = (c, ms)" "js ! i = Return (client', as)" for i c ms client' as
    using facts [THEN conjunct2, THEN conjunct2, THEN conjunct2, THEN conjunct2, THEN conjunct2, rule_format, OF that]
    by simp
  obtain c0 as0 c1 as1 where js: "js = [Return (c0, as0), Return (c1, as1)]"
    using s(2) run(2) by (auto simp: length_Suc_conv)
  have p: "as1 = [None]" "sent (net_view (ext w')) 1 = []"
    using served [of 1 1 "[demo_alarm_on]" c1 as1]
    by (auto simp: js demo_alarm_on_def answer_allowed_def list_all2_Cons1 reply_def)
  have d: "sent (net_view (ext w')) 2 \<in> {time_answer demo_tm, command_answer (Plain 0x08)}"
    using served [of 0 2 "[demo_beat]" c0 as0]
    by (auto simp: js demo_beat_def demo_alarm_on_def answer_allowed_def list_all2_Cons1 reply_def possible_commands_def
        commands_for_def demo_messages(3) demo_alarm_command)
  show ?thesis
    using run s(1) p(2) d by (intro exI [of _ n] exI [of _ js] exI [of _ w']) simp
qed

text \<open>C6. A heart beat reads the waiting command with GET and removes it with DEL, and a command that a
  phone stores between the two is lost: the phone's handler reports success, the device is sent
  the older command, and no command waits any more.\<close>
theorem command_between_get_and_del_is_lost:
  assumes "connections E view arrive width" and "represents (net_kv (view (ext w))) b"
    and "arrived_ok (c1, Device_heart d x, old1)" and "arrived_ok (c2, Phone_command p k i y, old2)"
    and "owner b d = Some u" and "waiting b d = Some older" and "watch b (number_of p) = Some d"
    and "command_of k i (take 8 y) = Some newer"
  shows "\<exists>n r w'. interleaved n (map (callback E) [(c1, Device_heart d x, old1), (c2, Phone_command p k i y, old2)], w)
      ([Return (r, Some (command_answer older)), Return (0, None)], w')
    \<and> represents (net_kv (view (ext w')))
        (b\<lparr>report := (report b)(u \<mapsto> state_report x), waiting := (waiting b)(d := None)\<rparr>)"
  by (rule connections.command_lost [OF assms])

theorem command_between_get_and_del_is_lost_witness:
  "\<exists>n r w'. interleaved n (busy_callbacks, busy_world)
      ([Return (r, Some (bytes ''CET'' @ [0x08] @ bytes ''K%'')), Return (0, None)], w')
    \<and> net_kv (net_view (ext w')) (hex_text demo_dev) = None"
proof -
  obtain n r w' where run: "interleaved n (busy_callbacks, busy_world)
      ([Return (r, Some (command_answer (Plain 0x08))), Return (0, None)], w')"
    and rep: "represents (net_kv (net_view (ext w')))
      (busy_broker\<lparr>report := (report busy_broker)(7 \<mapsto> state_report (replicate 23 0)),
        waiting := (waiting busy_broker)(demo_dev := None)\<rparr>)"
    using command_between_get_and_del_is_lost [OF ref_net.connections_axioms busy_represented demo_arrived_parts(1)
        demo_arrived_parts(3) busy_case] unfolding busy_callbacks_def demo_beat_def demo_alarm_off_def by blast
  moreover have "net_kv (net_view (ext w')) (hex_text demo_dev) = None"
    using represents_reads(2) [OF rep, of demo_dev] by simp
  ultimately show ?thesis by auto
qed

text \<open>C7. When no command waits for a device, a command is not lost however its callback and a heart
  beat of the device overtake each other: when both are done, either the device was sent the time
  and the command waits, or the device was sent the command and none waits.\<close>
theorem lone_command_is_not_lost:
  assumes "connections E view arrive width" and "represents (net_kv (view (ext w))) b"
    and "arrived_ok (c1, Device_heart d x, old1)" and "arrived_ok (c2, Phone_command p k i y, old2)"
    and "owner b d = Some u" and "waiting b d = None" and "watch b (number_of p) = Some d"
    and "command_of k i (take 8 y) = Some c"
    and "interleaved n (map (callback E) [(c1, Device_heart d x, old1), (c2, Phone_command p k i y, old2)], w)
      ([Return (r, a), Return (r2, a2)], w')"
  shows "r2 = 0 \<and> (\<exists>b'. represents (net_kv (view (ext w'))) b'
    \<and> (a = Some (time_answer (localtime_now w)) \<and> waiting b' d = Some c
       \<or> a = Some (command_answer c) \<and> waiting b' d = None))"
  by (rule connections.lone_command [OF assms])

theorem lone_command_is_not_lost_witness:
  "\<exists>n r a w' b'. interleaved n (map (callback (net_externals DISK_FILE_SAVE))
        [(2, demo_beat, replicate 992 0), (1, demo_alarm_on, replicate 1008 0)], net_world)
      ([Return (r, a), Return (0, None)], w')
    \<and> represents (net_kv (net_view (ext w'))) b'
    \<and> (a = Some (time_answer demo_tm) \<and> waiting b' demo_dev = Some (Plain 0x08)
       \<or> a = Some (command_answer (Plain 0x08)) \<and> waiting b' demo_dev = None)"
proof -
  let ?E = "net_externals DISK_FILE_SAVE"
  let ?xs = "[(2 :: nat, demo_beat, replicate 992 0), (1, demo_alarm_on, replicate 1008 0)]"
  have ok: "list_all arrived_ok ?xs" by (simp add: demo_arrived)
  have two: "length ?xs \<le> size (net_idle (net_view (ext net_world)))"
    by (simp add: net_world_def net_view_def demo_state_def)
  note safe = connections.callbacks_interleaved [OF ref_net.connections_axioms demo_broker_represented ok two]
  obtain n js w' where q: "interleaved n (map (callback ?E) ?xs, net_world) (js, w')" "all_done js"
    using safe(3) [OF interleaved.start] by (metis fst_conv surj_pair)
  have "list_all2 (answered_well 4 demo_tm demo_broker (map arrived_message ?xs)) ?xs js"
    using safe(4) [OF q(1)] by simp
  then obtain j0 j1 where js: "js = [j0, j1]"
    and j1: "answered_well 4 demo_tm demo_broker (map arrived_message ?xs) (1 :: nat, demo_alarm_on, replicate 1008 0) j1"
    by (auto simp: list_all2_Cons1)
  obtain r a r2 a2 where j: "j0 = Return (r, a)" "j1 = Return (r2, a2)"
    using q(2) unfolding js by auto
  have a2: "a2 = None"
    using j1 by (simp add: j answered_well_def answer_allowed_def arrived_message_def demo_alarm_on_def)
  have kept: "r2 = 0 \<and> (\<exists>b'. represents (net_kv (net_view (ext w'))) b'
      \<and> (a = Some (time_answer (localtime_now net_world)) \<and> waiting b' demo_dev = Some (Plain 0x08)
         \<or> a = Some (command_answer (Plain 0x08)) \<and> waiting b' demo_dev = None))"
    by (rule lone_command_is_not_lost [OF ref_net.connections_axioms demo_broker_represented demo_arrived_parts(1)
        demo_arrived_parts(2) quiet_case q(1) [unfolded js j demo_beat_def demo_alarm_on_def]])
  then have "r2 = 0" by (rule conjunct1)
  from kept [THEN conjunct2] obtain b' where b': "represents (net_kv (net_view (ext w'))) b'"
      "a = Some (time_answer (localtime_now net_world)) \<and> waiting b' demo_dev = Some (Plain 0x08)
         \<or> a = Some (command_answer (Plain 0x08)) \<and> waiting b' demo_dev = None"
    by (elim exE conjE)
  have t: "localtime_now net_world = demo_tm" by (simp add: net_world_def)
  show ?thesis
    by (intro exI [of _ n] exI [of _ r] exI [of _ a] exI [of _ w'] exI [of _ b'] conjI
        q(1) [unfolded js j a2 \<open>r2 = 0\<close>] b'(1) b'(2) [unfolded t])
qed

text \<open>C8. The pool of database connections can run out: when one location report more than there are idle
  connections is being handled, some interleaving lets the other reports hold all connections,
  each between taking its connection and giving it back, so that the pool is empty; the last one
  then gets a null pointer from the pool and works on it. (The server has
  \<^const>\<open>NUM_THREADS\<close> workers and leaves the size of the pool at its default, which is smaller.)\<close>
theorem reports_exhaust_pool:
  assumes "connections E view arrive width"
    and "\<forall>c e. net_idle (view e) = {#} \<longrightarrow> fst (ConnectionPool_getConnection (E c) e) = None"
    and "represents (net_kv (view (ext w))) b"
    and "list_all (\<lambda>x. arrived_ok x \<and> (\<exists>c d y old u. x = (c, Device_location d y, old) \<and> owner b d = Some u)) xs"
    and "length xs = Suc m" and "m = size (net_idle (view (ext w)))"
  shows "\<exists>n js w' cons. interleaved n (map (callback E) xs, w) (js, w') \<and> length js = Suc m
    \<and> mset cons = net_idle (view (ext w)) \<and> (\<forall>i < m. holds_connection E width b (xs ! i) (cons ! i) (js ! i))
    \<and> net_idle (view (ext w')) = {#}
    \<and> takes_connection E width b (xs ! m) (js ! m)
    \<and> fst (ConnectionPool_getConnection (E (fst (xs ! m))) (ext w')) = None \<and> stuck_thread (js, w') m"
proof -
  have "length (map (callback E) xs) = 0 + Suc m" "length xs = length (map (callback E) xs)"
    "\<forall>i. 0 \<le> i \<and> i < length (map (callback E) xs) \<longrightarrow> map (callback E) xs ! i = callback E (xs ! i)"
    using assms(5) by simp_all
  from connections.reports_run_out [OF assms(1,2,4,3) assms(6) [symmetric] this]
  obtain n js w' cons where r: "interleaved n (map (callback E) xs, w) (js, w')" "net_idle (view (ext w')) = {#}"
      "length js = Suc m" "mset cons = net_idle (view (ext w))"
      "\<forall>i < m. holds_connection E width b (xs ! i) (cons ! i) (js ! i)"
      "takes_connection E width b (xs ! m) (js ! m)" "stuck_thread (js, w') m"
    unfolding length_map assms(5) add_0 by (elim exE conjE)
  then show ?thesis using assms(2)
    by (intro exI [of _ n] exI [of _ js] exI [of _ w'] exI [of _ cons]) simp
qed

theorem reports_exhaust_pool_witness:
  "\<exists>n t1 t2 t3 w' a c. interleaved n (map (callback (net_externals DISK_FILE_SAVE))
      [(1, demo_place, replicate 992 0), (2, demo_place, replicate 992 0), (3, demo_place, replicate 992 0)], net_world)
      ([t1, t2, t3], w')
    \<and> {#a, c#} = {#1, 2#} \<and> net_idle (net_view (ext w')) = {#}
    \<and> t1 = report_holding (net_externals DISK_FILE_SAVE 1) 4 (encode demo_place @ replicate 992 0) demo_place 7 a
    \<and> t2 = report_holding (net_externals DISK_FILE_SAVE 2) 4 (encode demo_place @ replicate 992 0) demo_place 7 c
    \<and> stuck_thread ([t1, t2, t3], w') 2"
proof -
  let ?E = "net_externals DISK_FILE_SAVE"
  let ?xs = "[(1 :: nat, demo_place, replicate 992 0), (2, demo_place, replicate 992 0), (3, demo_place, replicate 992 0)]"
  have none: "\<forall>c e. net_idle (net_view e) = {#}
      \<longrightarrow> fst (ConnectionPool_getConnection (net_externals DISK_FILE_SAVE c) e) = None"
    by (auto simp: net_view_def net_externals_def on_base_def ref_externals_def)
  have o: "owner demo_broker demo_dev = Some 7" by (rule quiet_case)
  have ok: "list_all (\<lambda>x. arrived_ok x \<and> (\<exists>c d y old u. x = (c, Device_location d y, old) \<and> owner demo_broker d = Some u)) ?xs"
    by (simp add: demo_place_arrived [unfolded demo_place_def] demo_place_def)
  have two: "length ?xs = Suc 2" "2 = size (net_idle (net_view (ext net_world)))"
    and id: "net_idle (net_view (ext net_world)) = {#1, 2#}"
    by (simp_all add: net_world_def net_view_def demo_state_def)
  obtain n js w' cons where r: "interleaved n (map (callback ?E) ?xs, net_world) (js, w')" "length js = Suc 2"
      "mset cons = net_idle (net_view (ext net_world))"
      "\<forall>i < 2. holds_connection ?E 4 demo_broker (?xs ! i) (cons ! i) (js ! i)"
      "net_idle (net_view (ext w')) = {#}" "stuck_thread (js, w') 2"
    using reports_exhaust_pool [OF ref_net.connections_axioms none demo_broker_represented ok two] by (elim exE conjE)
  have m: "mset cons = {#1, 2#}" using r(3) id by simp
  then have "length cons = 2" by (metis size_mset size_add_mset size_empty numeral_2_eq_2)
  then obtain a c where cons: "cons = [a, c]" by (auto simp: numeral_2_eq_2 length_Suc_conv)
  obtain t1 t2 t3 where js: "js = [t1, t2, t3]" using r(2) by (auto simp: length_Suc_conv numeral_2_eq_2)
  have "\<forall>i < 2. holds_connection ?E 4 demo_broker (?xs ! i) ([a, c] ! i) ([t1, t2, t3] ! i)"
    using r(4) by (simp only: js cons)
  from this [rule_format, of 0] this [rule_format, of 1]
  have "t1 = report_holding (?E 1) 4 (encode demo_place @ replicate 992 0) demo_place 7 a"
    "t2 = report_holding (?E 2) 4 (encode demo_place @ replicate 992 0) demo_place 7 c"
    by (simp_all add: holds_connection_def demo_place_def o)
  moreover have "{#a, c#} = {#1, 2#}" using m cons by simp
  ultimately show ?thesis using r(1,5,6) unfolding js
    by (intro exI [of _ n] exI [of _ t1] exI [of _ t2] exI [of _ t3] exI [of _ w'] exI [of _ a] exI [of _ c] conjI)
qed
section \<open>Commands and device states through Redis\<close>

text \<open>C9. A family, contact or phone book number that a phone sends for its device is stored for
  the device, and the next heart beat of the device returns exactly the command, the index and
  the number, removes the command and publishes the state of the device under its user.\<close>
theorem numbered_command_reaches_device:
  assumes "redis_server E kv" and "bound (kv (ext w)) pp hp user" and "numbered (pp ! 5)"
    and "list_all bcd (take 8 (drop 7 pp))" and "length info = 20"
  shows "\<exists>w1 w2. phoneCommandPacket E pp 16 w = Some (0, w1)
    \<and> deviceHeartPacket E hp 32 info w1 =
        Some (64, take 3 info @ [pp ! 5, pp ! 6] @ take 8 (drop 7 pp) @ drop 13 info, w2)
    \<and> kv (ext w2) = (kv (ext w))(dev_id hp := None, user \<mapsto> heart_info hp)"
  by (rule redis_server.deliver_numbered [OF assms])

theorem numbered_command_reaches_device_witness:
  "\<exists>w1 w2. phoneCommandPacket demo_E demo_family 16 demo_world = Some (0, w1)
    \<and> deviceHeartPacket demo_E demo_heart 32 (replicate 20 0) w1 =
        Some (64, [0, 0, 0, 0x41, 0x01, 0x00, 0x86, 0x18, 0x87, 0x41, 0x87, 0x42, 0x90, 0, 0, 0, 0, 0, 0, 0], w2)
    \<and> ref_kv (ext w2) = demo_kv(bytes ''2016010500000007'' := None, bytes ''7'' \<mapsto> heart_info demo_heart)"
proof -
  have "list_all bcd (take 8 (drop 7 demo_family))" and "numbered (demo_family ! 5)" by code_simp+
  moreover have "take 3 (replicate 20 0) @ [demo_family ! 5, demo_family ! 6] @ take 8 (drop 7 demo_family)
      @ drop 13 (replicate 20 0) =
    ([0, 0, 0, 0x41, 0x01, 0x00, 0x86, 0x18, 0x87, 0x41, 0x87, 0x42, 0x90, 0, 0, 0, 0, 0, 0, 0] :: byte list)"
    by code_simp
  ultimately show ?thesis
    using numbered_command_reaches_device [OF ref.redis_server_axioms, of demo_world demo_family demo_heart
      "bytes ''7''" "replicate 20 0" DISK_FILE_SAVE] demo_bound(1)
    by (simp add: demo_id)
qed

text \<open>C10. A location packet of a bound device publishes the
  coordinates, the height and the time stamp under the user of the device, gives back the
  database connection it took, and starts the satellite download thread exactly when the upper
  half of the location type byte is set.\<close>
theorem location_reaches_user:
  assumes "backend E kv idle" and "length pkt = 1024" and "sizeof_long E = 4 \<or> sizeof_long E = 8"
    and "kv (ext w) (bytes ''R_'' @ dev_id pkt) = Some user" and "plain user" and "length user < 190"
    and "\<And>e. idle e = idle (ext w) \<Longrightarrow> fst (ConnectionPool_getConnection E e) \<noteq> None"
    and "\<And>c s a e. Connection_execute E c s a e \<noteq> None"
  shows "\<exists>w'. deviceLocationPacket E pkt 32 w = Some (0, w')
    \<and> kv (ext w') = (kv (ext w))(user \<mapsto> location_info (sizeof_long E) pkt)
    \<and> idle (ext w') = idle (ext w)
    \<and> started w' = started w @ (if pkt ! 9 AND 0xF0 \<noteq> 0
        then [Start_ubloxDownloadApgs (dev_id pkt) (longitude_of pkt) (latitude_of pkt)] else [])"
  by (rule backend.location_published [OF assms])

theorem location_reaches_user_witness:
  "\<exists>w'. deviceLocationPacket demo_E demo_location 32 demo_world = Some (0, w')
    \<and> ref_kv (ext w') = demo_kv(bytes ''7'' \<mapsto> location_info 4 demo_location)
    \<and> mset (ref_free (ext w')) = {#1, 2#} \<and> started w' = []"
proof -
  have free: "fst (ConnectionPool_getConnection demo_E e) \<noteq> None" if "mset (ref_free e) = {#1, 2#}" for e
    using that by (auto simp: ref_externals_def split: list.splits)
  have ex: "Connection_execute demo_E c s a e \<noteq> None" for c s a e
    by (simp add: ref_externals_def)
  have nine: "demo_location ! 9 AND 0xF0 = 0" by code_simp
  have kv: "ref_kv (ext demo_world) (bytes ''R_'' @ dev_id demo_location) = Some (bytes ''7'')"
    unfolding demo_id demo_texts by (simp add: demo_kv_def bytes_def)
  show ?thesis
    using location_reaches_user [OF ref_backend.backend_axioms demo_lengths(6) _ kv, of DISK_FILE_SAVE]
      free ex nine by (simp add: plain_def bytes_def)
qed

text \<open>C11. A nonempty file whose block packets fit 32 KiB, uploaded by a device on one connection, is stored byte
  for byte under the name of the device, acknowledged once and handed to one multicast thread,
  however the stream of its packets is cut into reads: a callback may find a part of a packet, the
  end of one and the start of the next, or all packets at once. What another connection is then
  sent when it asks for the file of the device (not for its satellite data) is exactly its block
  packets. (Files go to the relative directory, whose paths fit the name buffer.)\<close>
theorem uploaded_file_is_downloaded:
  assumes "connections E view arrive width"
    and "length dev = 8" and "content \<noteq> []" and "block_need content \<le> 32768"
    and "concat reads = concat (packets dev content)" and "[] \<notin> set reads"
    and "output_buffer (clients u) \<noteq> None" and "pBlock (clients u) = Some fresh_block" and "d \<noteq> u"
    and "ready (clients d)" and "pBlock (clients d) = Some pb" and "length (bb_buffer pb) = 32768"
    and "\<forall>c. save_type (E c) = DISK_FILE_SAVE" and "creatable w (block_path DISK_FILE_SAVE (hex_text dev))"
    and "\<forall>c. incoming (view (ext w)) c = [] \<and> staged (view (ext w)) c = []"
    and "length x = 4" and "length y = 2" and "kind \<noteq> 0x61"
  shows "\<exists>clients' w'. serve_all E arrive (map (Pair u) (map Readable reads) @ [(d, Readable (0x44 # dev @ x @ kind # y))])
      clients w = Some (clients', w')
    \<and> files w' = (files w)(block_path DISK_FILE_SAVE (hex_text dev) \<mapsto> content)
    \<and> started w' = started w @
        [Start_ApolloSynerAction \<lparr>syn_DeviceId = hex_text dev @ [0, 0], syn_flag = MULTICAST_TYPE_AGPS\<rparr>]
    \<and> sent (view (ext w')) = (sent (view (ext w)))(u := sent (view (ext w)) u @ bytes ''SETOK%'',
        d := sent (view (ext w)) d @ concat (packets dev content))"
  by (rule connections.upload_then_download [OF assms])

theorem uploaded_file_is_downloaded_witness:
  "let ps = concat (packets demo_dev (replicate 1000 7)) in
    \<exists>clients' w'. serve_all (net_externals DISK_FILE_SAVE) net_arrive
      [(1, Readable (take 10 ps)), (1, Readable (drop 10 ps)),
       (2, Readable (0x44 # demo_dev @ [0, 0, 0, 0] @ 0x60 # [0, 0]))] (\<lambda>_. demo_client) net_world = Some (clients', w')
    \<and> files w' (block_path DISK_FILE_SAVE (hex_text demo_dev)) = Some (replicate 1000 7)
    \<and> sent (net_view (ext w')) 2 = ps \<and> length ps = 1064"
proof -
  let ?ps = "concat (packets demo_dev (replicate 1000 7))"
  have need: "block_need (replicate 1000 (7 :: byte)) = 1064" by (simp add: block_need_def n_packets_def)
  have l: "length ?ps = 1064" by (simp add: length_packets n_packets_def)
  have "length (take 10 ?ps) = 10" "length (drop 10 ?ps) = 1054" using l by simp_all
  then have ne: "[] \<noteq> take 10 ?ps" "[] \<noteq> drop 10 ?ps" by (metis list.size(3) zero_neq_numeral)+
  have cut: "concat [take 10 ?ps, drop 10 ?ps] = ?ps" "[] \<notin> set [take 10 ?ps, drop 10 ?ps]"
    by (simp, use ne in \<open>simp only: list.set insert_iff empty_iff simp_thms\<close>)
  have out: "output_buffer demo_client \<noteq> None" "pBlock demo_client = Some fresh_block"
    "length (bb_buffer fresh_block) = 32768"
    by (simp_all add: demo_client_def fresh_block_def)
  have net: "\<forall>c. save_type (net_externals DISK_FILE_SAVE c) = DISK_FILE_SAVE"
    "creatable net_world (block_path DISK_FILE_SAVE (hex_text demo_dev))"
    "\<forall>c. incoming (net_view (ext net_world)) c = [] \<and> staged (net_view (ext net_world)) c = []"
    by (simp_all add: net_externals_def net_world_def net_view_def)
  have le: "block_need (replicate 1000 (7 :: byte)) \<le> 32768" using need by simp
  from uploaded_file_is_downloaded [OF ref_net.connections_axioms demo_lengths(7) _ le cut out(1,2) _ demo_ready
      out(2,3) net, of 2 1 "[0, 0, 0, 0]" "[0, 0]" "0x60"] l
  show ?thesis unfolding Let_def by (auto simp: net_world_def net_view_def simp del: serve_all.simps)
qed

text \<open>C12. A download request is answered with exactly the block packets of the first 32768 bytes of
  the requested file, in order, queued one by one on the connection; it is undefined behaviour when
  the packets exceed the 32 KiB block buffer, and when there is no such file.\<close>
theorem download_sends_packets:
  assumes "length pkt = 1024" and "dev = take 8 (drop 1 pkt)" and "output_buffer client \<noteq> None"
    and "pBlock client = Some pb" and "length (bb_buffer pb) = 32768"
  shows "deviceBlockDataSendPacket E client pkt 16 w =
    (case files w (download_text (save_type E) (pkt ! 13) dev) of
       None \<Rightarrow> None
     | Some file \<Rightarrow>
         (let content = take 32768 file in
          if block_need content \<le> 32768 then
            (case send_pieces E (packets dev content)
               (client\<lparr>pBlock := Some (pb\<lparr>bb_buffer := concat (packets dev content)
                  @ drop (block_need content) (bb_buffer pb)\<rparr>)\<rparr>) w of
             (c, w') \<Rightarrow> Some (int (block_need content), c, w'))
          else None))"
proof (cases "files w (download_text (save_type E) (pkt ! 13) dev)")
  case None
  then show ?thesis using download_missing [OF assms(1,4)] assms(2) by simp
next
  case (Some content)
  then show ?thesis using download_spec [OF assms Some] by simp
qed

theorem download_sends_packets_witness:
  "\<exists>c w'. deviceBlockDataSendPacket demo_E demo_client (in_buffer ([0x44] @ demo_dev @ [0, 0, 0, 0, 0x60])) 16
      (demo_file (download_text DISK_FILE_SAVE 0x60 demo_dev)) = Some (2096, c, w')"
proof -
  let ?pkt = "in_buffer ([0x44] @ demo_dev @ [0, 0, 0, 0, 0x60])"
  have pkt: "length ?pkt = 1024" "take 8 (drop 1 ?pkt) = demo_dev" "?pkt ! 13 = 0x60"
    by (simp_all add: in_buffer_def demo_dev_def)
  have need: "block_need (take 32768 (replicate 2000 (7 :: byte))) = 2096"
    by (simp add: block_need_def n_packets_def)
  show ?thesis
    using download_sends_packets [of ?pkt demo_dev demo_client fresh_block
        demo_E "demo_file (download_text DISK_FILE_SAVE 0x60 demo_dev)"] pkt need
    by (simp add: demo_client_def fresh_block_def Let_def split: prod.splits)
qed

text \<open>C13. What one server multicasts of a satellite data file is what another server stores, when the id of
  the device consists of decimal digits and the packets of the file fit 32 KiB: the datagrams of
  \<open>ApolloSynerAction\<close>, received in order by \<open>ApolloSyner\<close>, leave the same file under the same
  name, and the receiver is ready for the next file. Receive errors, datagrams that are no block
  packets, and later packets of other devices change nothing, wherever they arrive behind the
  first packet.\<close>
theorem multicast_replicates_file:
  assumes "length dev = 8" and "list_all bcd dev" and "content \<noteq> []" and "block_need content \<le> 32768"
    and "files wa (agps_path save (hex_text dev)) = Some content"
    and "creatable wb (agps_path save (hex_text dev))" and "syner_wf st"
  shows "\<exists>ds. ApolloSynerAction save True True
        \<lparr>syn_DeviceId = hex_text dev @ [0, 0], syn_flag = MULTICAST_TYPE_AGPS\<rparr> wa = Some ds
    \<and> syner_run save st (map Some ds) wb =
        Some (\<lparr>u8DevId = dev, u8SynerBlockData = replicate 32768 0\<rparr>,
          wb\<lparr>files := (files wb)(agps_path save (hex_text dev) \<mapsto> content)\<rparr>)
    \<and> (\<forall>rs. rs \<noteq> [] \<and> \<not> stranger dev (hd rs) \<and> filter (\<lambda>r. \<not> stranger dev r) rs = map Some ds \<longrightarrow>
        syner_run save st rs wb = syner_run save st (map Some ds) wb)"
proof -
  have n: "n_packets (length content) \<le> 32"
    using assms(4) by (auto simp: block_need_def n_packets_def)
  note run = syner_receives_file [OF assms(1) n assms(3,7,6)]
  show ?thesis
    using ApolloSynerAction_sends [OF assms(1,2) _ assms(5,4)] run
      transfer_undisturbed [OF assms(1) n assms(3,7,6)] by simp
qed

theorem multicast_replicates_file_witness:
  "\<exists>ds. ApolloSynerAction DISK_FILE_SAVE True True
        \<lparr>syn_DeviceId = hex_text demo_dev @ [0, 0], syn_flag = MULTICAST_TYPE_AGPS\<rparr>
        (demo_file (agps_path DISK_FILE_SAVE (hex_text demo_dev))) = Some ds
    \<and> syner_run DISK_FILE_SAVE syner_init (map Some ds) demo_world =
        Some (\<lparr>u8DevId = demo_dev, u8SynerBlockData = replicate 32768 0\<rparr>,
          demo_world\<lparr>files := [agps_path DISK_FILE_SAVE (hex_text demo_dev) \<mapsto> replicate 2000 7]\<rparr>)"
  using multicast_replicates_file [OF demo_lengths(7) demo_dev_bcd, of "replicate 2000 7"
      "demo_file (agps_path DISK_FILE_SAVE (hex_text demo_dev))" DISK_FILE_SAVE demo_world syner_init]
  by (auto simp: block_need_def n_packets_def syner_wf_init)

section \<open>The worker pool\<close>

text \<open>C14. At most one worker is inside the critical section of the work queue, whatever the
  interleaving of workers, job submissions and shutdown.\<close>
theorem workers_exclude_each_other:
  assumes "pool_reach n s" and "inside (pc s i)" and "inside (pc s k)"
  shows "i = k"
  by (rule pool_exclusive [OF assms])

theorem workers_exclude_each_other_witness:
  "\<exists>s. pool_reach 2 s \<and> inside (pc s 1) \<and> \<not> inside (pc s 0)"
proof -
  let ?s = "pool_init\<lparr>mutex := Some 1, pc := (pc pool_init)(1 := Test)\<rparr>"
  have r: "pool_reach 2 ?s"
    by (rule pool_reach.step [OF pool_reach.start]) (rule pool_step.worker [OF worker_step.lock], simp_all add: pool_init_def)
  have i: "inside (pc ?s 1)" by simp
  have "\<not> inside (pc ?s 0)" using workers_exclude_each_other [OF r i, of 0] by auto
  with r i show ?thesis by blast
qed

text \<open>C15. Every job that was added is, at every moment, waiting, running on exactly one worker, done
  or dropped by a shutdown, counted with multiplicity: no job is lost and none runs twice.\<close>
theorem jobs_are_conserved:
  assumes "pool_reach n s"
  shows "mset (added s) = mset (jobs s) + running n (pc s) + mset (done_jobs s) + mset (dropped s)"
  using conserved_reach [OF assms] by (simp add: conserved_def)

theorem jobs_are_conserved_witness:
  "\<exists>s. pool_reach 2 s \<and> added s = [4] \<and>
    mset (added s) = mset (jobs s) + running 2 (pc s) + mset (done_jobs s) + mset (dropped s)"
proof -
  let ?s = "pool_init\<lparr>jobs := 4 # jobs pool_init, added := added pool_init @ [4]\<rparr>"
  have r: "pool_reach 2 ?s"
    by (rule pool_reach.step [OF pool_reach.start]) (rule pool_step.add, simp_all add: pool_init_def)
  then show ?thesis
    using jobs_are_conserved [OF r] by (intro exI [of _ ?s]) (auto simp: pool_init_def)
qed

text \<open>C16. When accepting a connection fails at any of its calls, everything taken so far is released;
  when it succeeds, serving any sequence of reads, writes and errors and leaving the job function
  releases every descriptor, buffer, event base, block and job the connection took.\<close>
theorem connection_releases_resources:
  assumes "on_accept a r = (co, r1)"
  shows "case co of None \<Rightarrow> r1 = r
    | Some c \<Rightarrow> (\<forall>evs w w' r2. server_job_function E arrive evs c w r1 = Some (w', r2) \<longrightarrow> r2 = r)"
proof (cases co)
  case None
  then show ?thesis using on_accept_failed assms by simp
next
  case (Some c)
  then show ?thesis using serve_releases [of a r c r1] assms by auto
qed

theorem connection_releases_resources_witness:
  "\<exists>c r1 w' r2. on_accept \<lparr>client_fd = 5, getfl = 0, setfl = 0, client_ok = True, output_buffer_new = Some 1,
        event_base_new = Some 2, block_ok = True, bufferevent_new = Some 3, job_ok = True\<rparr>
      \<lparr>open_fds = [4], n_clients = 1, n_output_buffers = 1, n_event_bases = 1, n_blocks = 1,
       n_bufferevents = 1, n_jobs = 1\<rparr> = (Some c, r1)
    \<and> server_job_function demo_E (\<lambda>xs e. e) [Writable, Failed] c demo_world r1 = Some (w', r2)
    \<and> r2 = \<lparr>open_fds = [4], n_clients = 1, n_output_buffers = 1, n_event_bases = 1, n_blocks = 1,
       n_bufferevents = 1, n_jobs = 1\<rparr> \<and> closed_fds w' = [5]"
proof -
  let ?a = "\<lparr>client_fd = 5, getfl = 0, setfl = 0, client_ok = True, output_buffer_new = Some 1,
        event_base_new = Some 2, block_ok = True, bufferevent_new = Some 3, job_ok = True\<rparr>"
  let ?r = "\<lparr>open_fds = [4], n_clients = 1, n_output_buffers = 1, n_event_bases = 1, n_blocks = 1,
       n_bufferevents = 1, n_jobs = 1\<rparr>"
  obtain c r1 where a: "on_accept ?a ?r = (Some c, r1)"
    by (simp add: on_accept_def setnonblock_def Let_def)
  then have "fd c = 5" using on_accept_client(6) by fastforce
  then obtain w' r2 where s: "server_job_function demo_E (\<lambda>xs e. e) [Writable, Failed] c demo_world r1 = Some (w', r2)"
      "closed_fds w' = [5]"
    by (auto simp: server_job_function_def buffered_on_write_def buffered_on_error_def closeClient_def
      demo_world_def Let_def)
  show ?thesis
    using a s connection_releases_resources [OF a, of demo_E "\<lambda>xs e. e"] by auto
qed

text \<open>C17. A worker that is told to terminate leaves with the queue's mutex locked: from then on, in
  every continuation, no job is added or taken, no second worker leaves, and a shutdown that has
  not yet emptied the queue never does.\<close>
theorem leaving_worker_blocks_queue:
  assumes "pool_reach n s" and "pc s i = Gone" and "pool_steps n s t"
  shows "mutex t = Some i \<and> jobs t = jobs s \<and> added t = added s \<and> (\<forall>k. pc t k = Gone \<longrightarrow> k = i)
    \<and> (shutdown s \<noteq> Finished \<longrightarrow> shutdown t \<noteq> Finished)"
  using leave_blocks [OF assms] by blast

theorem leaving_worker_blocks_queue_witness:
  "pool_steps 1 gone_pool (gone_pool\<lparr>shutdown := Freed\<rparr>)
    \<and> mutex (gone_pool\<lparr>shutdown := Freed\<rparr>) = Some 0 \<and> jobs (gone_pool\<lparr>shutdown := Freed\<rparr>) = jobs gone_pool"
proof -
  have s: "pool_steps 1 gone_pool (gone_pool\<lparr>shutdown := Freed\<rparr>)" using walk_reads_freed by (meson pool_steps.intros)
  have "pc gone_pool 0 = Gone" by (simp add: gone_pool_def)
  from leaving_worker_blocks_queue [OF gone_pool_reach this s] s show ?thesis by blast
qed

text \<open>C18. Before a shutdown no wake-up is lost: from every reachable state, whatever the order in which
  the workers move, without another job and without a spurious wake-up, their run ends after at
  most five steps per waiting job and per worker, and when none of them can move any more the
  queue is empty, every job ever added is done, and all workers sleep.\<close>
theorem waiting_jobs_get_done:
  assumes "pool_reach n s" and "shutdown s = NotCalled" and "0 < n" and "worker_run n k s t"
  shows "k \<le> 5 * length (jobs s) + 5 * n
    \<and> ((\<forall>i u. \<not> worker_step n i t u) \<longrightarrow>
        jobs t = [] \<and> mset (done_jobs t) = mset (added s) \<and> (\<forall>i < n. pc t i = Asleep))"
  using jobs_get_done [OF assms] by blast

theorem waiting_jobs_get_done_witness:
  "\<exists>s k t. pool_reach 2 s \<and> jobs s = [4] \<and> worker_run 2 k s t \<and> k \<le> 15 \<and> done_jobs t = [4] \<and> jobs t = []"
proof -
  let ?s = "pool_init\<lparr>jobs := [4], added := [4]\<rparr>"
  have "pool_step 2 pool_init (pool_init\<lparr>jobs := 4 # jobs pool_init, added := added pool_init @ [4]\<rparr>)"
    by (rule pool_step.add) (simp_all add: pool_init_def)
  then have r: "pool_reach 2 ?s"
    using pool_reach.step [OF pool_reach.start] by (simp add: pool_init_def)
  obtain k t where t: "worker_run 2 k ?s t" "\<forall>i u. \<not> worker_step 2 i t u" using maximal_run [OF r] by blast
  have "shutdown ?s = NotCalled" by (simp add: pool_init_def)
  from waiting_jobs_get_done [OF r this _ t(1)] t(2)
  have "k \<le> 15 \<and> jobs t = [] \<and> mset (done_jobs t) = {#4#}" by simp
  then show ?thesis using r t(1)
    by (intro exI [of _ ?s] exI [of _ k] exI [of _ t]) (simp add: mset_single_iff)
qed

text \<open>C19. The work queue, a doubly linked list kept by macros, refines a stack: jobs that are added
  one after the other are taken in the opposite order, the newest connection first.\<close>
theorem newest_job_first:
  assumes "queue_abs q []" and "\<forall>j \<in> set js. job_heap q j \<noteq> None" and "distinct js"
  shows "\<exists>q1 q2. push_all workqueue_add_job js q = Some q1
    \<and> pop_n take_job (length js) q1 = Some (map Some (rev js), q2) \<and> queue_abs q2 []"
  by (rule jobs.last_in_first_out [OF assms])

definition two_jobs :: "(bool, unit) workqueue" where
  "two_jobs = \<lparr>workers = None, waiting_jobs = None, worker_heap = Map.empty,
     job_heap = (\<lambda>_. Some \<lparr>ll_prev = None, ll_next = None, ll_data = ()\<rparr>)\<rparr>"

theorem newest_job_first_witness:
  "\<exists>q1 q2. push_all workqueue_add_job [3, 8] two_jobs = Some q1
    \<and> pop_n take_job (length [3, 8 :: nat]) q1 = Some (map Some (rev [3, 8]), q2) \<and> queue_abs q2 []"
  by (rule newest_job_first) (simp_all add: two_jobs_def queue_abs_def)

text \<open>C20. \<open>LL_ADD\<close> never sets the \<open>prev\<close> link of the element behind the new one, so in a list built with
  it \<open>LL_REMOVE\<close> of any element but the newest keeps that element in the list and cuts off
  everything that was added before it.\<close>
theorem remove_behind_head_cuts:
  assumes "distinct (ys @ a # xs @ [x])" and "\<forall>b \<in> set (ys @ a # xs @ [x]). h b \<noteq> None"
  shows "\<exists>h1 p h2. add_all (ys @ a # xs @ [x]) h None = Some (h1, p)
    \<and> leads_to h1 p (x # rev xs @ a # rev ys)
    \<and> LL_REMOVE a h1 p = Some (h2, p) \<and> leads_to h2 p (x # rev xs @ [a])"
  by (rule remove_after_adds [OF assms])

definition three_nodes :: "unit heap" where
  "three_nodes = (\<lambda>_. Some \<lparr>ll_prev = None, ll_next = None, ll_data = ()\<rparr>)"

theorem remove_behind_head_cuts_witness:
  "\<exists>h1 p h2. add_all [3, 2, 1] three_nodes None = Some (h1, p) \<and> leads_to h1 p [1, 2, 3]
    \<and> LL_REMOVE 2 h1 p = Some (h2, p) \<and> leads_to h2 p [1, 2]"
  using remove_behind_head_cuts [of "[3]" 2 "[]" 1 three_nodes] by (simp add: three_nodes_def)

section \<open>Satellite data\<close>

text \<open>C21. A satellite download whose reply arrives in any pieces, into an array of zeros, stores the time header, one byte of
  uninitialised memory and the payload at the start of the file of the device (what the file held
  behind them stays), starts its multicast, and the next heart beat of the device returns the
  download command.\<close>
theorem download_is_announced:
  assumes "redis_server E kv" and "online net lon lat" and "good_reply H P"
    and "find_sub (bytes ''Content-Type: application/ubx'') H \<noteq> None"
    and "delivers net ps" and "concat ps = H @ header_end @ P" and "length buffer0 = 8192"
    and "length hp = 1024" and "kv (ext w) (bytes ''R_'' @ dev_id hp) = Some user" and "plain user"
    and "length user < 200" and "user \<noteq> dev_id hp" and "creatable w (agps_path (save_type E) (dev_id hp))"
  shows "\<exists>w1 w2. ubloxDownloadApgs E net (replicate 8192 0) buffer0 (dev_id hp) lon lat w = Some (w1, True)
    \<and> files w1 = (files w)(agps_path (save_type E) (dev_id hp) \<mapsto> time_bytes (localtime_now w) @ [buffer0 ! 7] @ P
        @ drop (8 + length P) (case files w (agps_path (save_type E) (dev_id hp)) of Some c \<Rightarrow> c | None \<Rightarrow> []))
    \<and> started w1 = started w @ [agps_announcement (dev_id hp)]
    \<and> deviceHeartPacket E hp 32 info w1 = Some (43, info, w2)"
proof -
  let ?c = "single_command CMD_PHONE_DEVICE_AGPS_DOWNLOAD" and ?d = "dev_id hp"
  have dev: "plain ?d" "length ?d = 16" using assms(8) plain_dev_id [of hp] by simp_all
  have l: "length buffer0 = BUFFER_SIZE" "P \<noteq> []" using assms(3,7) by (simp_all add: good_reply_def)
  note a = agps_answer_good [OF assms(2-6) l(1)]
  obtain w1 where w1: "ubloxDownloadApgs E net (replicate BUFFER_SIZE 0) buffer0 ?d lon lat w = Some (w1, True)"
      "kv (ext w1) = (kv (ext w))(?d \<mapsto> ?c)" "started w1 = started w @ [agps_announcement ?d]"
      "files w1 = (files w)(agps_path (save_type E) ?d \<mapsto> stored_data (localtime_now w) (int (length P))
         (take 8 buffer0 @ P @ drop (8 + length P) buffer0) (files w (agps_path (save_type E) ?d)))"
    using redis_server.thread_announces [OF assms(1) a(1) _ dev assms(13)] a(2) l(1) by auto
  have rel: "?d \<noteq> bytes ''R_'' @ ?d" by (metis append_self_conv2 bytes_Cons list.distinct(1))
  then have "kv (ext w1) (bytes ''R_'' @ ?d) = Some user" using w1(2) assms(9) by simp
  then obtain w' where w': "deviceHeartPacket E hp 32 info w1 = heart_command E ?d info w'"
      "kv (ext w') = (kv (ext w1))(user \<mapsto> heart_info hp)"
    using redis_server.heart_bound [OF assms(1,8) _ assms(10,11)] by blast
  have "kv (ext w') ?d = Some ?c" using w'(2) w1(2) assms(12) by simp
  then obtain w2 where "heart_command E ?d info w' = Some (43, info, w2)"
    using redis_server.heart_command_single [OF assms(1) dev(1), of w' "0x2B" info] dev(2) by auto
  then show ?thesis using w1 w'(1) stored_data_good [OF l] by auto
qed

text \<open>A reply of three bytes in two pieces, from a network where everything works but, perhaps, the resolver.\<close>

definition demo_header :: "byte list" where
  "demo_header = bytes ''HTTP/1.0 200 OK'' @ [13, 10] @ bytes ''Content-Length: 3'' @ [13, 10]
     @ bytes ''Content-Type: application/ubx''"

definition demo_pieces :: "byte list list" where
  "demo_pieces = [take 40 (demo_header @ header_end @ [1, 0, 2]), drop 40 (demo_header @ header_end @ [1, 0, 2])]"

definition demo_net :: "bool \<Rightarrow> agps_net" where
  "demo_net resolves = \<lparr>net_lookup = (\<lambda>h. resolves), net_socket = (\<lambda>p. True), net_connect = (\<lambda>h p. True), net_timeout = True,
     net_write = (\<lambda>r. True), net_read = (\<lambda>k c. if k < 2 then Got (demo_pieces ! k) else Nothing_read),
     print_4f = (\<lambda>s. bytes ''23.0744'')\<rparr>"

lemma demo_download:
  "good_reply demo_header [1, 0, 2]" "find_sub (bytes ''Content-Type: application/ubx'') demo_header \<noteq> None"
  "delivers (demo_net True) demo_pieces" "concat demo_pieces = demo_header @ header_end @ [1, 0, 2]"
  "online (demo_net True) lon lat"
proof -
  have "drop 17 demo_header = length_line (length [1 :: byte, 0, 2]) @ drop 34 demo_header" "digit_end (drop 34 demo_header)"
      "find_sub (bytes ''Content-Length'') demo_header = Some 17"
      "find_sub header_end (demo_header @ header_end) = Some (length demo_header)" "0 \<notin> set demo_header"
      "length demo_header = 65"
    by code_simp+
  then show "good_reply demo_header [1, 0, 2]" unfolding good_reply_def by auto
  have "find_sub (bytes ''Content-Type: application/ubx'') demo_header = Some 36" by code_simp
  then show "find_sub (bytes ''Content-Type: application/ubx'') demo_header \<noteq> None" by simp
  have ne: "[] \<notin> set demo_pieces" by code_simp
  have "length demo_pieces = 2" by (simp add: demo_pieces_def)
  then show "delivers (demo_net True) demo_pieces" using ne by (simp add: delivers_def demo_net_def)
  show "concat demo_pieces = demo_header @ header_end @ [1, 0, 2]" by (simp add: demo_pieces_def del: take_append drop_append)
  show "online (demo_net True) lon lat" by (simp add: online_def demo_net_def bytes_def)
qed

theorem download_is_announced_witness:
  "\<exists>w1 w2. ubloxDownloadApgs demo_E (demo_net True) (replicate 8192 0) (replicate 8192 0) (bytes ''2016010500000007'') [] []
      demo_world = Some (w1, True)
    \<and> deviceHeartPacket demo_E demo_heart 32 [1, 2] w1 = Some (43, [1, 2], w2)"
proof -
  have "kv_state (bytes ''R_'' @ bytes ''2016010500000007'') = Some (bytes ''7'')" if "kv_state = demo_kv" for kv_state
    using that by (simp add: demo_kv_def demo_texts bytes_def)
  moreover have "plain (bytes ''7'')" "length (bytes ''7'') < 200" "bytes ''7'' \<noteq> bytes ''2016010500000007''"
    by (simp_all add: plain_def bytes_def)
  ultimately show ?thesis
    using download_is_announced [OF ref.redis_server_axioms, of "demo_net True" "[]" "[]" demo_header "[1, 0, 2]"
      demo_pieces "replicate 8192 0" demo_heart demo_world "bytes ''7''" DISK_FILE_SAVE "[1, 2]"] demo_download
    by (auto simp: demo_id)
qed

text \<open>C22. Into an array that starts with zeros, no reply of any server makes the checks copy outside the
  buffer, although they are given its full length and start behind its first eight bytes: what
  they return leaves the first eight bytes and the size as they were. The one undefined outcome
  is an error message that is printed without an end.\<close>
theorem download_stays_in_buffer:
  assumes "reply_loop net 0 (reply_start (replicate 8192 0)) = Some (Inr st)" and "length buffer = 8192"
  shows "(\<exists>r buffer'. check_reply st buffer 8 8192 = Some (r, buffer') \<and> length buffer' = 8192
      \<and> take 8 buffer' = take 8 buffer \<and> r + 33 \<le> 8192)
    \<or> check_reply st buffer 8 8192 = None \<and> (\<exists>p. rp_pPayload st = Some p \<and> cstr (rp_reply st) p = None)"
  using check_reply_bounded [OF reply_loop_inv, of "reply_start (replicate BUFFER_SIZE 0)" net 0 st buffer]
    reply_start_inv assms by simp

theorem download_stays_in_buffer_witness:
  "\<exists>st r buffer'. reply_loop (demo_net True) 0 (reply_start (replicate 8192 0)) = Some (Inr st)
    \<and> check_reply st (replicate 8192 0) 8 8192 = Some (r, buffer') \<and> r + 33 \<le> 8192"
proof -
  let ?v = "reply_view demo_header [1, 0, 2]"
  have "?v 0 = reply_start (replicate 8192 0)" by (simp add: reply_start_def reply_view_def)
  then have l: "reply_loop (demo_net True) 0 (reply_start (replicate 8192 0)) =
      Some (Inr (?v (length (demo_header @ header_end @ [1, 0, 2]))))"
    using reply_loop_good [OF demo_download(1), of 0 demo_pieces "demo_net True" 0] demo_download(3,4)
    by (simp add: delivers_def)
  moreover have "check_reply (?v (length (demo_header @ header_end @ [1, 0, 2]))) (replicate 8192 0) 8 8192 \<noteq> None"
    using check_reply_good [OF demo_download(1,2), of 8192 8 "replicate 8192 0"] by simp
  ultimately show ?thesis using download_stays_in_buffer [OF l, of "replicate 8192 0"] by fastforce
qed

text \<open>C23. Reading the reply ends, however the server cuts it: a chain of turns from the start is at most as
  long as the array, and the outcome depends on so many reads only.\<close>
theorem download_terminates:
  shows "((\<forall>i < n. wants_more (f i) \<and> reply_turn net i (f i) = Some (Inr (f (Suc i)))) \<and> f 0 = reply_start reply0
      \<longrightarrow> n \<le> 8192)
    \<and> ((\<forall>i < 8192. net_read net i = net_read net' i)
      \<longrightarrow> reply_loop net 0 (reply_start reply0) = reply_loop net' 0 (reply_start reply0))"
proof (intro conjI impI)
  assume t: "(\<forall>i < n. wants_more (f i) \<and> reply_turn net i (f i) = Some (Inr (f (Suc i)))) \<and> f 0 = reply_start reply0"
  then have "rp_total (f 0) = 0" by (simp add: reply_start_def)
  then show "n \<le> 8192" using turns_bounded [of n f net] t by simp
qed (use reply_loop_agree [of net net' 0 "reply_start reply0"] in simp)

theorem download_terminates_witness:
  "reply_loop ((demo_net True)\<lparr>net_read := (\<lambda>k c. Got [65])\<rparr>) 0 (reply_start (replicate 8192 0)) =
    reply_loop ((demo_net True)\<lparr>net_read := (\<lambda>k c. if k < 8192 then Got [65] else Read_failed)\<rparr>) 0
      (reply_start (replicate 8192 0))"
  using download_terminates [of 0 "\<lambda>i. undefined" "(demo_net True)\<lparr>net_read := (\<lambda>k c. Got [65])\<rparr>" "replicate 8192 0"
    "(demo_net True)\<lparr>net_read := (\<lambda>k c. if k < 8192 then Got [65] else Read_failed)\<rparr>"]
  by simp

text \<open>C24. A download that fails is announced all the same: the file is created empty or left as it was,
  the device is told to fetch it and the multicast starts.\<close>
theorem failed_download_is_announced:
  assumes "redis_server E kv" and "agps_answer net reply0 buffer0 lon lat = Some (len, buffer, left)" and "len \<le> 0"
    and "plain dev" and "length dev = 16" and "creatable w (agps_path (save_type E) dev)"
  shows "\<exists>w'. ubloxDownloadApgs E net reply0 buffer0 dev lon lat w = Some (w', True)
    \<and> kv (ext w') = (kv (ext w))(dev \<mapsto> single_command CMD_PHONE_DEVICE_AGPS_DOWNLOAD)
    \<and> files w' = (files w)(agps_path (save_type E) dev \<mapsto>
        (case files w (agps_path (save_type E) dev) of Some c \<Rightarrow> c | None \<Rightarrow> []))
    \<and> started w' = started w @ [agps_announcement dev]"
  using redis_server.thread_announces [OF assms(1,2) _ assms(4-6)] assms(3) by (simp add: stored_data_def Let_def)

theorem failed_download_is_announced_witness:
  "\<exists>w'. ubloxDownloadApgs demo_E (demo_net False) (replicate 8192 0) (replicate 8192 0) (bytes ''2016010500000007'') [] []
      demo_world = Some (w', True)
    \<and> files w' = [agps_path DISK_FILE_SAVE (bytes ''2016010500000007'') \<mapsto> []]"
proof -
  have "agps_answer (demo_net False) (replicate 8192 0) (replicate 8192 0) [] [] = Some (0, replicate 8192 0, False)"
    by (simp add: agps_answer_def getAssistNowOnlineData_def host_port_agps demo_net_def)
  moreover have "plain (bytes ''2016010500000007'')" "length (bytes ''2016010500000007'') = 16"
    by (simp_all add: plain_def bytes_def)
  ultimately show ?thesis
    using failed_download_is_announced [OF ref.redis_server_axioms, of "demo_net False" "replicate 8192 0" "replicate 8192 0"
      "[]" "[]" 0 "replicate 8192 0" False "bytes ''2016010500000007''" demo_world DISK_FILE_SAVE]
    by (auto simp: ref_externals_simps)
qed

section \<open>More of the packet protocol\<close>

text \<open>C25. What a device reports in a heart beat is what the phone of its user reads: with no command
  waiting, the heart beat returns 0, and the phone's next heart beat fetches exactly the state
  text, into the buffer behind the four bytes of the answer header.\<close>
theorem device_state_reaches_phone:
  assumes "redis_server E kv" and "length hp = 1024" and "length pp = 1024"
    and "kv (ext w) (bytes ''R_'' @ dev_id hp) = Some (dec (phone_number pp))"
    and "kv (ext w) (dev_id hp) = None" and "dec (phone_number pp) \<noteq> dev_id hp"
  shows "\<exists>w1 w2. deviceHeartPacket E hp 32 info w = Some (0, info, w1)
    \<and> phoneHeaderPacket E pp 8 (replicate 260 0) 4 w1 = Some (int (length (heart_info hp)),
        replicate 4 0 @ heart_info hp @ replicate (256 - length (heart_info hp)) 0, w2)"
proof -
  let ?u = "dec (phone_number pp)"
  have u: "plain ?u" "length ?u < 200"
    using length_phone_dec [of pp] assms(3) by (auto simp: plain_clean)
  obtain w' where w': "deviceHeartPacket E hp 32 info w = heart_command E (dev_id hp) info w'"
      "kv (ext w') = (kv (ext w))(?u \<mapsto> heart_info hp)"
    using redis_server.heart_bound [OF assms(1,2,4) u] by blast
  have "plain (dev_id hp)" "length (dev_id hp) < 252" "kv (ext w') (dev_id hp) = None"
    using assms(2,5,6) plain_dev_id [of hp] w'(2) by auto
  then obtain w1 where w1: "heart_command E (dev_id hp) info w' = Some (0, info, w1)" "kv (ext w1) = kv (ext w')"
    using redis_server.heart_command_none [OF assms(1)] by blast
  have "kv (ext w1) ?u = Some (heart_info hp)" by (simp add: w1(2) w'(2))
  then obtain w2 where "phoneHeaderPacket E pp 8 (replicate 260 0) 4 w1 = Some (int (length (heart_info hp)),
      replicate 4 0 @ heart_info hp @ replicate (256 - length (heart_info hp)) 0, w2)"
    using redis_server.phone_reads [OF assms(1,3), of w1 "heart_info hp"] length_heart_info [of hp] assms(2)
    by auto
  then show ?thesis using w'(1) w1(1) by auto
qed

theorem device_state_reaches_phone_witness:
  "\<exists>w1 w2. deviceHeartPacket demo_E demo_heart 32 [1, 2] demo_world = Some (0, [1, 2], w1)
    \<and> phoneHeaderPacket demo_E demo_phone 8 (replicate 260 0) 4 w1 = Some (int (length (heart_info demo_heart)),
        replicate 4 0 @ heart_info demo_heart @ replicate (256 - length (heart_info demo_heart)) 0, w2)"
  by (rule device_state_reaches_phone [OF ref.redis_server_axioms])
    (simp_all only: demo_lengths demo_world_simps demo_number demo_id demo_texts,
     simp_all add: demo_kv_def bytes_def)

section \<open>Database and Redis\<close>

text \<open>C26. Every operation on the database that returns gives back the connection it took, on every
  path: the idle connections of the pool are the same multiset before and after.\<close>
theorem database_connections_balanced:
  assumes "backend E kv idle"
  shows "(insertDeviceGps E a b c d w = Some (r, w') \<longrightarrow> idle (ext w') = idle (ext w))
    \<and> (insertUser E a b w = Some (r, w') \<longrightarrow> idle (ext w') = idle (ext w))
    \<and> (selectUserId E a b u w = Some (r, v, w') \<longrightarrow> idle (ext w') = idle (ext w))
    \<and> (updatePassword E a b w = Some (r, w') \<longrightarrow> idle (ext w') = idle (ext w))
    \<and> (selectLocationNewItem E d n w = Some (s, w') \<longrightarrow> idle (ext w') = idle (ext w))
    \<and> (initUserInfoList E w = Some w' \<longrightarrow> idle (ext w') = idle (ext w))
    \<and> (initUserAndDeviceRelationshipList E w = Some w' \<longrightarrow> idle (ext w') = idle (ext w))"
  by (auto dest: backend.insertDeviceGps_balanced [OF assms] backend.insertUser_balanced [OF assms]
    backend.selectUserId_balanced [OF assms] backend.updatePassword_balanced [OF assms]
    backend.selectLocationNewItem_balanced [OF assms] backend.initUserInfoList_balanced [OF assms]
    backend.initRelationship_balanced [OF assms])

theorem database_connections_balanced_witness:
  "\<exists>w'. insertUser demo_E (bytes ''ann'') (bytes ''pw'') demo_world = Some (OK, w')
    \<and> mset (ref_free (ext w')) = {#1, 2#}"
proof -
  obtain w' where w': "insertUser demo_E (bytes ''ann'') (bytes ''pw'') demo_world = Some (OK, w')"
    by (simp add: insertUser_def take_connection_def run_execute_def give_connection_def with_ext_def
      ref_externals_def demo_state_def)
  moreover from this have "mset (ref_free (ext w')) = mset (ref_free (ext demo_world))"
    using database_connections_balanced [OF ref_backend.backend_axioms] by blast
  ultimately show ?thesis by (intro exI [of _ w']) simp
qed

text \<open>C27. On keys and values that pass through a command unchanged the three Redis operations are a
  map: what is stored is read back, other keys keep their value, a deleted key is gone.\<close>
theorem redis_is_a_map:
  assumes "redis_server E kv" and "redis_key_ok k" and "redis_val_ok k v" and "redis_key_ok j" and "j \<noteq> k"
    and "\<And>u. kv (ext w) j = Some u \<Longrightarrow> redis_val_ok j u"
  shows "(\<exists>t. do { s \<leftarrow> redis_store E k v w; redis_lookup E k s } = Some (Some v, t))
    \<and> (\<exists>t. do { s \<leftarrow> redis_store E k v w; redis_lookup E j s } = Some (kv (ext w) j, t))
    \<and> (\<exists>t. do { s \<leftarrow> redis_remove E k w; redis_lookup E k s } = Some (None, t))"
  using redis_server.store_read [OF assms(1-3)] redis_server.remove_read [OF assms(1,2)]
    redis_server.store_read_other [OF assms(1-5), of w] assms(6) by blast

theorem redis_is_a_map_witness:
  "(\<exists>t. do { s \<leftarrow> redis_store demo_E (bytes ''RP_9'') (bytes ''17'') demo_world;
       redis_lookup demo_E (bytes ''RP_9'') s } = Some (Some (bytes ''17''), t))
    \<and> (\<exists>t. do { s \<leftarrow> redis_store demo_E (bytes ''RP_9'') (bytes ''17'') demo_world;
       redis_lookup demo_E (bytes ''R_2016010500000007'') s } = Some (Some (bytes ''7''), t))"
proof -
  have "redis_key_ok (bytes ''RP_9'')" "redis_val_ok (bytes ''RP_9'') (bytes ''17'')"
    "redis_key_ok (bytes ''R_2016010500000007'')" "bytes ''R_2016010500000007'' \<noteq> bytes ''RP_9''"
    "ref_kv (ext demo_world) (bytes ''R_2016010500000007'') = Some (bytes ''7'')"
    "redis_val_ok (bytes ''R_2016010500000007'') (bytes ''7'')"
    by (simp_all add: redis_key_ok_def redis_val_ok_def plain_def bytes_def demo_kv_def)
  then show ?thesis
    using redis_is_a_map [OF ref.redis_server_axioms, of "bytes ''RP_9''" "bytes ''17''"
      "bytes ''R_2016010500000007''" demo_world DISK_FILE_SAVE] by auto
qed

section \<open>The location service\<close>

definition demo_station :: "byte list" where
  "demo_station = in_buffer ([0x42] @ demo_dev @ [0x01, 0x01, 0xCC, 0x00, 0x00, 0x25, 0x0B, 0x10, 0x01, 0x50])"

definition demo_answer :: "byte list" where
  "demo_answer = bytes ''{\"longitude\":113.912345,\"latitude\":22.5123456,\"error\":0}'' @ [0]"

lemma demo_names:
  "names demo_answer (bytes ''longitude'') (bytes ''113.912345'')"
  "names demo_answer (bytes ''latitude'') (bytes ''22.5123456'')"
proof -
  have s: "cstr demo_answer 0 = Some (butlast demo_answer)" by code_simp
  have "first_inside (butlast demo_answer) (bytes ''longitude'') = Some 2"
    "first_inside (butlast demo_answer) (bytes ''latitude'') = Some 25" by code_simp+
  moreover have "drop (2 + length (bytes ''longitude'') + 2) demo_answer =
      bytes ''113.912345'' @ 44 # drop 24 demo_answer"
    "drop (25 + length (bytes ''latitude'') + 2) demo_answer =
      bytes ''22.5123456'' @ 44 # drop 46 demo_answer" by (simp_all add: demo_answer_def bytes_def)
  ultimately show "names demo_answer (bytes ''longitude'') (bytes ''113.912345'')"
    "names demo_answer (bytes ''latitude'') (bytes ''22.5123456'')"
    unfolding names_def using s by (auto simp: bytes_def)
qed

text \<open>C28. A base-station packet is turned into a request that carries the text of its stations. Where
  \<open>long\<close> has four bytes, an answer of the location service that names both coordinates of a device with a user makes the
  server execute exactly one statement, the insertion of these coordinates for the device, publish
  them under the user of the device and give the connection back; where it has eight, the
  time stamp is read over the end of the record and the behaviour is undefined.\<close>
theorem station_query_publishes_location:
  assumes "journal E kv idle statements" and "48 \<le> length data" and "length lbs = 6" and "length buf = 1024"
    and "curl_easy_ok o'" and "curl_perform_ok o'"
    and "names answer (bytes ''longitude'') lon" and "names answer (bytes ''latitude'') lat"
    and "\<not> no_location lon" and "\<not> no_location lat" and "clean lon" and "clean lat"
    and "kv (ext w) (bytes ''R_'' @ dev_id data) = Some user" and "plain user" and "length user < 190"
    and "\<And>e. idle e = idle (ext w) \<Longrightarrow> fst (ConnectionPool_getConnection E e) \<noteq> None"
    and "\<And>c s a e. Connection_execute E c s a e \<noteq> None"
  shows "(sizeof_long E = 4 \<longrightarrow> (\<exists>lbs' w'. parser_Lbs data lbs = Some lbs'
      \<and> http_post E o' [(answer, n)] buf lbs data w = Some (Some (post_text (lbs_text lbs' 0 6)), 0, w')
      \<and> statements (ext w') = statements (ext w)
          @ [(SQL_INSERT_DEVICE_GPS, [69 # take 10 lon, 78 # 48 # take 10 lat, dec 0, dev_id data])]
      \<and> kv (ext w') = (kv (ext w))(user \<mapsto> answer_info lon lat (take 3 (drop 45 data)))
      \<and> idle (ext w') = idle (ext w)))
    \<and> (sizeof_long E = 8 \<longrightarrow> http_post E o' [(answer, n)] buf lbs data w = None)"
proof -
  have "\<forall>e. idle e = idle (ext w) \<longrightarrow> fst (ConnectionPool_getConnection E e) \<noteq> None"
    "\<forall>c s a e. Connection_execute E c s a e \<noteq> None" using assms(16,17) by blast+
  note located = journal.station_located [OF assms(1-15) this]
  show ?thesis using located(1) located(2) by (intro conjI impI)
qed

theorem station_query_publishes_location_witness:
  "\<exists>body w'. http_post demo_E \<lparr>curl_global_ok = True, curl_easy_ok = True, curl_perform_ok = True\<rparr>
        [(demo_answer, 56)] (replicate 1024 0) (replicate 6 no_station) demo_station demo_world = Some (Some body, 0, w')
    \<and> ref_log (ext w') = ref_log (ext demo_world) @ [(SQL_INSERT_DEVICE_GPS,
        [bytes ''E113.912345'', bytes ''N022.5123456'', bytes ''0'', bytes ''2016010500000007''])]
    \<and> ref_kv (ext w') = demo_kv(bytes ''7'' \<mapsto> bytes ''G_E113.912345_N022.5123456_0_1_0'')"
proof -
  let ?o = "\<lparr>curl_global_ok = True, curl_easy_ok = True, curl_perform_ok = True\<rparr>"
  have free: "fst (ConnectionPool_getConnection demo_E e) \<noteq> None" if "mset (ref_free e) = {#1, 2#}" for e
    using that by (auto simp: ref_externals_def split: list.splits)
  have ex: "Connection_execute demo_E c s a e \<noteq> None" for c s a e
    by (simp add: ref_externals_def)
  have id: "dev_id demo_station = bytes ''2016010500000007''" by code_simp
  have kv: "ref_kv (ext demo_world) (bytes ''R_'' @ dev_id demo_station) = Some (bytes ''7'')"
    unfolding id demo_texts by (simp add: demo_kv_def bytes_def)
  have info: "answer_info (bytes ''113.912345'') (bytes ''22.5123456'') (take 3 (drop 45 demo_station)) =
      bytes ''G_E113.912345_N022.5123456_0_1_0''" by code_simp
  have cut: "69 # take 10 (bytes ''113.912345'') = bytes ''E113.912345''"
    "78 # 48 # take 10 (bytes ''22.5123456'') = bytes ''N022.5123456''" "dec 0 = bytes ''0''" by code_simp+
  have l: "length demo_station = 1024"
    by (simp add: demo_station_def length_in_buffer)
  have c: "clean (bytes ''113.912345'')" "clean (bytes ''22.5123456'')"
    "\<not> no_location (bytes ''113.912345'')" "\<not> no_location (bytes ''22.5123456'')" by code_simp+
  obtain lbs' w' where "http_post demo_E ?o [(demo_answer, 56)] (replicate 1024 0) (replicate 6 no_station)
        demo_station demo_world = Some (Some (post_text (lbs_text lbs' 0 6)), 0, w')"
    "ref_log (ext w') = ref_log (ext demo_world) @ [(SQL_INSERT_DEVICE_GPS,
        [bytes ''E113.912345'', bytes ''N022.5123456'', bytes ''0'', bytes ''2016010500000007''])]"
    "ref_kv (ext w') = demo_kv(bytes ''7'' \<mapsto> bytes ''G_E113.912345_N022.5123456_0_1_0'')"
    using station_query_publishes_location [OF ref_journal.journal_axioms [of DISK_FILE_SAVE], of demo_station
        "replicate 6 no_station" "replicate 1024 0" ?o demo_answer "bytes ''113.912345''" "bytes ''22.5123456''"
        demo_world "bytes ''7''" 56] l demo_names c kv free ex info cut id
    by (auto simp: plain_def bytes_def)
  then show ?thesis by blast
qed

text \<open>C29. The key search returns the position behind the leftmost occurrence of the key that does not
  end the text, and -1 when there is none; it never reads out of range, whatever the lengths.\<close>
theorem key_search_finds_first:
  "get_key_index s key = Some r \<longleftrightarrow>
    (\<exists>p. r = int (p + length key) \<and> take (length key) (drop p s) = key \<and> p + length key < length s
       \<and> (\<forall>i < p. take (length key) (drop i s) \<noteq> key))
    \<or> r = -1 \<and> (\<forall>p < length s - length key. take (length key) (drop p s) \<noteq> key)"
  by (cases "first_inside s key")
    (auto simp: get_key_index_find first_inside_take [symmetric] first_inside_None [symmetric])

theorem key_search_finds_first_witness:
  "get_key_index (bytes ''\"ab\":1,'') (bytes ''ab'') = Some 3 \<and> get_key_index (bytes ''1ab'') (bytes ''ab'') = Some (-1)"
  unfolding key_search_finds_first by (auto simp: bytes_def intro!: exI [of _ 1])

text \<open>C30. The stations of a packet are encoded without overrunning the buffers, for every content of
  the uninitialised array. When station 0 is there or no station is, the list is a JSON array: of
  one object for each station that is there, with its cell, area, country and network in decimal
  and the negated signal strength, all as strings; otherwise it is no JSON text at all, because it starts
  with a comma.\<close>
theorem station_list_is_json:
  assumes "44 \<le> length data" and "length lbs = 6"
  shows "\<exists>lbs' n b t. parser_Lbs data lbs = Some lbs' \<and> encode_lbs (replicate 1024 0) lbs' = Some (n, b)
    \<and> cstr b 0 = Some t \<and> n = length t \<and> n \<le> 552
    \<and> (if IsLbs (lbs' ! 0) \<or> (\<forall>k < 6. \<not> IsLbs (lbs' ! k))
       then json_val (91 # t @ [93]) (JArray (map station_object (filter IsLbs lbs')))
       else \<forall>v. \<not> json_document (91 # t @ [93]) v)"
proof -
  obtain lbs' where lbs': "parser_Lbs data lbs = Some lbs'" "length lbs' = 6"
    using parser_Lbs_stations [OF assms] by blast
  obtain b where "encode_lbs (replicate 1024 0) lbs' = Some (length (lbs_text lbs' 0 6), b)"
      "cstr b 0 = Some (lbs_text lbs' 0 6)"
    using encode_lbs_text [OF lbs'(2)] by blast
  then show ?thesis
    using lbs'(1) lbs_text_bounds [of lbs' 0 6] lbs_text_is_json [of lbs', unfolded present_stations [OF lbs'(2), of station_object] present_none]
    by - (rule exI [of _ lbs'], rule exI [of _ "length (lbs_text lbs' 0 6)"], rule exI [of _ b],
        rule exI [of _ "lbs_text lbs' 0 6"], simp)
qed

theorem station_list_is_json_witness:
  "\<exists>lbs' n b t. parser_Lbs demo_station (replicate 6 no_station) = Some lbs'
    \<and> encode_lbs (replicate 1024 0) lbs' = Some (n, b) \<and> cstr b 0 = Some t \<and> n = length t \<and> n \<le> 552
    \<and> (if IsLbs (lbs' ! 0) \<or> filter IsLbs lbs' = []
       then json_val (91 # t @ [93]) (JArray (map station_object (filter IsLbs lbs')))
       else json_document (91 # t @ [93]) = (\<lambda>v. False))"
proof -
  have "44 \<le> length demo_station" by (simp add: demo_station_def length_in_buffer)
  from station_list_is_json [OF this, of "replicate 6 no_station"] obtain lbs' n b t where
      "parser_Lbs demo_station (replicate 6 no_station) = Some lbs'" "length lbs' = 6"
      "encode_lbs (replicate 1024 0) lbs' = Some (n, b)" "cstr b 0 = Some t" "n = length t" "n \<le> 552"
      "if IsLbs (lbs' ! 0) \<or> (\<forall>k < 6. \<not> IsLbs (lbs' ! k))
       then json_val (91 # t @ [93]) (JArray (map station_object (filter IsLbs lbs')))
       else \<forall>v. \<not> json_document (91 # t @ [93]) v"
    using parser_Lbs_stations [of demo_station "replicate 6 no_station"] by (auto simp: demo_station_def length_in_buffer)
  moreover from this(2) have "(\<forall>k < 6. \<not> IsLbs (lbs' ! k)) \<longleftrightarrow> filter IsLbs lbs' = []"
    by (simp add: filter_empty_conv all_set_conv_all_nth)
  ultimately show ?thesis by (auto simp: fun_eq_iff)
qed

section \<open>Receiving and cutting files\<close>

text \<open>C31. \<open>takeDataPacket\<close> turns a file into exactly the block packets of its first 32 KiB, or, when
  those with their headers exceed the output buffer, writes beyond it (undefined behaviour), as
  it does when the file does not exist.\<close>
theorem file_is_cut_into_packets:
  assumes "cstr filename 0 = Some p" and "length pkt = n + 8"
  shows "takeDataPacket filename data pkt n w =
    (case files w p of
       None \<Rightarrow> None
     | Some file \<Rightarrow>
         let content = take 32768 file in
         if block_need content \<le> length data
         then Some (block_need content,
           concat (packets (drop n pkt) content) @ drop (block_need content) data)
         else None)"
proof (cases "files w p")
  case None
  then show ?thesis using takeDataPacket_no_file [OF assms(1)] by simp
next
  case (Some fc)
  then show ?thesis
    using takeDataPacket_spec [OF assms(1) Some _ HOL.refl HOL.refl, of n pkt data]
      takeDataPacket_overflow [OF assms(1) Some _ HOL.refl, of n pkt data] assms(2)
    by (auto simp: Let_def not_le)
qed

theorem file_is_cut_into_packets_witness:
  "takeDataPacket (bytes ''a'' @ [0]) (replicate 3000 0) demo_dev 0 (demo_file (bytes ''a'')) =
      Some (2096, concat (packets demo_dev (replicate 2000 7)) @ replicate 904 0)
    \<and> takeDataPacket (bytes ''a'' @ [0]) (replicate 2095 0) demo_dev 0 (demo_file (bytes ''a'')) = None
    \<and> takeDataPacket (bytes ''a'' @ [0]) (replicate 3000 0) demo_dev 0 demo_world = None"
proof -
  have "cstr (bytes ''a'' @ [0]) 0 = Some (bytes ''a'')" by (simp add: cstr_def bytes_def)
  note cut = file_is_cut_into_packets [OF this, of demo_dev 0, simplified]
  show ?thesis by (simp add: cut block_need_def n_packets_def Let_def)
qed




text \<open>C33. With absolute paths (the committed configuration) the same uploads never succeed: the path
  of the file does not fit the 32-byte name buffer, and the last piece writes beyond it.\<close>
theorem upload_overflows_name_buffer:
  assumes "length dev = 8" and "n_packets (length content) \<le> 32" and "content \<noteq> []"
    and "output_buffer client \<noteq> None" and "pBlock client = Some fresh_block"
    and "fragments frs (packets dev content)" and "save_type E = DISTRBUTE_SAVE"
  shows "upload_chunks E (concat frs) client 0 w = None"
  by (rule upload_overflows [OF assms])

theorem upload_overflows_name_buffer_witness:
  "upload_chunks (ref_externals DISTRBUTE_SAVE) (concat [[packet demo_dev [1, 2, 3] 0]]) demo_client 0 demo_world = None"
proof -
  have p: "packets demo_dev [1, 2, 3] = [packet demo_dev [1, 2, 3] 0]" by (simp add: packets_def n_packets_def)
  have "length (packet demo_dev [1, 2, 3] 0) = 35" by (simp add: length_packet payload_def)
  then have "fragments [[packet demo_dev [1, 2, 3] 0]] (packets demo_dev [1, 2, 3])"
    by (auto simp: fragments_def p)
  then show ?thesis
    by (intro upload_overflows_name_buffer [where dev = demo_dev and content = "[1, 2, 3]"])
      (simp_all add: demo_client_def n_packets_def)
qed

section \<open>Accounts\<close>

text \<open>C34. Signing in answers \<open>RETOK:\<close> with user id 0 whatever rows the query found: any name and
  password are accepted as soon as the query returns a result set.\<close>
theorem sign_in_accepts_everyone:
  assumes "length pkt = 1024" and "pkt ! 5 = CMD_PHONE_SIGNIN_USER" and "output_buffer client \<noteq> None"
    and "name = takeWhile (\<lambda>x. x \<noteq> 0) (take 16 (drop 6 pkt))"
    and "pwd = takeWhile (\<lambda>x. x \<noteq> 0) (take 8 (drop 23 pkt))"
    and "ConnectionPool_getConnection E (ext w) = (Some c, e1)"
    and "Connection_executeQuery E c SQL_SELECT_USERID [name, pwd] e1 = Some (Some rows, e2)"
    and "bufferevent_write_buffer E (evbuffer_add E (bytes ''RETOK:'' @ replicate 6 0) (Connection_close E c e2))
      = (False, e3)"
  shows "phoneOperatorUserInfo E client pkt n w = Some (0, client, w\<lparr>ext := e3\<rparr>)"
proof -
  have "bufferevent_write_buffer E (evbuffer_add E retOK (Connection_close E c e2)) = (False, e3)"
    using assms(8) by (simp add: retOK_def)
  then have "signin_user E client name pwd w = Some (client, w\<lparr>ext := e3\<rparr>)"
    by (rule signin_user_any [OF assms(3,6,7)])
  then show ?thesis
    using phoneOperatorUserInfo_account [OF assms(1) _ assms(4,5), of E client n w] assms(2) by simp
qed

definition demo_signin :: "byte list" where
  "demo_signin = in_buffer ([0x55, 0, 0, 0, 0, 0x72] @ bytes ''mallory'')"

theorem sign_in_accepts_everyone_witness:
  "\<exists>w'. phoneOperatorUserInfo demo_E demo_client demo_signin 64 (demo_world\<lparr>ext := demo_state\<lparr>ref_rows := []\<rparr>\<rparr>) =
      Some (0, demo_client, w')
    \<and> ref_output (ext w') = bytes ''RETOK:'' @ replicate 6 0"
proof -
  have len: "length demo_signin = 1024" "demo_signin ! 5 = CMD_PHONE_SIGNIN_USER"
    by (simp_all add: demo_signin_def in_buffer_def bytes_def)
  let ?w = "demo_world\<lparr>ext := demo_state\<lparr>ref_rows := []\<rparr>\<rparr>"
  let ?name = "takeWhile (\<lambda>x. x \<noteq> 0) (take 16 (drop 6 demo_signin))"
  let ?pwd = "takeWhile (\<lambda>x. x \<noteq> 0) (take 8 (drop 23 demo_signin))"
  let ?e1 = "demo_state\<lparr>ref_rows := [], ref_free := [2]\<rparr>"
  let ?e2 = "?e1\<lparr>ref_log := [(SQL_SELECT_USERID, [?name, ?pwd])]\<rparr>"
  let ?e3 = "evbuffer_add demo_E (bytes ''RETOK:'' @ replicate 6 0) (Connection_close demo_E 1 ?e2)"
  have a: "ConnectionPool_getConnection demo_E (ext ?w) = (Some 1, ?e1)"
    by (simp add: ref_externals_def demo_state_def)
  have b: "Connection_executeQuery demo_E 1 SQL_SELECT_USERID [?name, ?pwd] ?e1 = Some (Some [], ?e2)"
    by (simp add: ref_externals_def demo_state_def)
  have c: "bufferevent_write_buffer demo_E ?e3 = (False, ?e3)" by (simp add: ref_externals_def)
  have out: "ref_output ?e3 = bytes ''RETOK:'' @ replicate 6 0"
    by (simp add: ref_externals_def demo_state_def)
  have buf: "output_buffer demo_client \<noteq> None" by (simp add: demo_client_def)
  from sign_in_accepts_everyone [OF len buf HOL.refl HOL.refl a b c, of 64] out show ?thesis by auto
qed

text \<open>C35. The password update exchanges its arguments: the statement receives the user name as the
  new password and the password as the name of the row to change, and the client is told that
  it succeeded.\<close>
theorem password_update_swaps_arguments:
  assumes "length pkt = 1024" and "pkt ! 5 = CMD_PHONE_UPDATE_PWD" and "output_buffer client \<noteq> None"
    and "name = takeWhile (\<lambda>x. x \<noteq> 0) (take 16 (drop 6 pkt))"
    and "pwd = takeWhile (\<lambda>x. x \<noteq> 0) (take 8 (drop 23 pkt))"
    and "ConnectionPool_getConnection E (ext w) = (Some c, e1)"
    and "Connection_execute E c (bytes ''UPDATE TBL_USER SET U_PWD = '' @ [39] @ bytes ''%s'' @ [39]
      @ bytes '' WHERE U_NAME='' @ [39] @ bytes ''%s'' @ [39]) [name, pwd] e1 = Some e2"
    and "bufferevent_write_buffer E (evbuffer_add E (bytes ''RETOK:'' @ replicate 6 0) (Connection_close E c e2))
      = (False, e3)"
  shows "phoneOperatorUserInfo E client pkt n w = Some (0, client, w\<lparr>ext := e3\<rparr>)"
proof -
  have q: "SQL_SELECT_UPDATE_PASSWORD = bytes ''UPDATE TBL_USER SET U_PWD = '' @ [39] @ bytes ''%s'' @ [39]
      @ bytes '' WHERE U_NAME='' @ [39] @ bytes ''%s'' @ [39]"
    by (simp add: SQL_SELECT_UPDATE_PASSWORD_def bytes_def)
  have "bufferevent_write_buffer E (evbuffer_add E retOK (Connection_close E c e2)) = (False, e3)"
    using assms(8) by (simp add: retOK_def)
  then have "update_pwd E client name pwd w = Some (client, w\<lparr>ext := e3\<rparr>)"
    by (rule update_pwd_swaps [OF assms(3,6) assms(7) [folded q]])
  then show ?thesis
    using phoneOperatorUserInfo_account [OF assms(1) _ assms(4,5), of E client n w] assms(2) by simp
qed

definition demo_update :: "byte list" where
  "demo_update = in_buffer ([0x55, 0, 0, 0, 0, 0x73] @ bytes ''alice'' @ replicate 12 0 @ bytes ''secret'')"

theorem password_update_swaps_arguments_witness:
  "\<exists>w' stmt. phoneOperatorUserInfo demo_E demo_client demo_update 64 demo_world = Some (0, demo_client, w')
    \<and> ref_log (ext w') = [(stmt, [bytes ''alice'', bytes ''secret''])]"
proof -
  have len: "length demo_update = 1024" "demo_update ! 5 = CMD_PHONE_UPDATE_PWD"
    "bytes ''alice'' = takeWhile (\<lambda>x. x \<noteq> 0) (take 16 (drop 6 demo_update))"
    "bytes ''secret'' = takeWhile (\<lambda>x. x \<noteq> 0) (take 8 (drop 23 demo_update))"
    by (simp_all add: demo_update_def in_buffer_def bytes_def)
  let ?q = "bytes ''UPDATE TBL_USER SET U_PWD = '' @ [39] @ bytes ''%s'' @ [39]
      @ bytes '' WHERE U_NAME='' @ [39] @ bytes ''%s'' @ [39]"
  let ?e1 = "demo_state\<lparr>ref_free := [2]\<rparr>"
  let ?e2 = "?e1\<lparr>ref_log := [(?q, [bytes ''alice'', bytes ''secret''])]\<rparr>"
  let ?e3 = "evbuffer_add demo_E (bytes ''RETOK:'' @ replicate 6 0) (Connection_close demo_E 1 ?e2)"
  have a: "ConnectionPool_getConnection demo_E (ext demo_world) = (Some 1, ?e1)"
    by (simp add: ref_externals_def)
  have b: "Connection_execute demo_E 1 ?q [bytes ''alice'', bytes ''secret''] ?e1 = Some ?e2"
    by (simp add: ref_externals_def demo_state_def)
  have c: "bufferevent_write_buffer demo_E ?e3 = (False, ?e3)" by (simp add: ref_externals_def)
  have out: "ref_log ?e3 = [(?q, [bytes ''alice'', bytes ''secret''])]"
    by (simp add: ref_externals_def)
  have buf: "output_buffer demo_client \<noteq> None" by (simp add: demo_client_def)
  from password_update_swaps_arguments [OF len(1,2) buf len(3,4) a b c, of 64] out show ?thesis by auto
qed

section \<open>Texts and bounds\<close>


section \<open>The tools and the other connection pool\<close>

text \<open>C36. A run of the synchronisation worker over relationship jobs leaves Redis exactly as the loader
  of the server leaves it for the same rows of the database, when the number of every user is
  written in decimal without leading zeros, in at most 16 digits, and every device id consists of
  at most 17 letters and digits.\<close>
theorem worker_agrees_with_loader:
  assumes "backend E kv idle" and "json_library J"
    and "\<forall>(u, d) \<in> set rows. json_row u d \<and> length u < 17 \<and> length d < 18"
    and "ConnectionPool_getConnection E (ext w) = (Some c, e1)"
    and "Connection_executeQuery E c SQL_SELECT_RELATIONSHIP_LIST [] e1 =
      Some (Some (map (\<lambda>(u, d). [Some u, Some d]) rows), e2)"
  shows "\<exists>w1 w2. sync_main J E (map relationship_call rows) w = Some w1
    \<and> initUserAndDeviceRelationshipList E w = Some w2 \<and> kv (ext w1) = kv (ext w2)"
proof -
  have "\<forall>r \<in> set (map (\<lambda>(u, d). [Some u, Some d]) rows). relationship_row_ok r"
    using assms(3) json_row_plain by (fastforce simp: relationship_row_ok_def)
  from backend.initRelationship_loads [OF assms(1,4,5) this]
    json_library.worker_loads_relationships [OF assms(2) backend.axioms(1) [OF assms(1)] assms(3), of w]
  show ?thesis by auto
qed

theorem worker_agrees_with_loader_witness:
  "\<exists>w1 w2. sync_main ref_json demo_E (map relationship_call [(bytes ''7'', bytes ''2016010500000007'')]) demo_world = Some w1
    \<and> initUserAndDeviceRelationshipList demo_E demo_world = Some w2 \<and> ref_kv (ext w1) = ref_kv (ext w2)"
proof -
  have "list_all alnum (bytes ''2016010500000007'')" by code_simp
  then have "json_row (dec (int 7)) (bytes ''2016010500000007'')" by (intro json_row_small) (simp_all add: bytes_def)
  moreover have "dec (int 7) = bytes ''7''" by code_simp
  ultimately have row: "json_row (bytes ''7'') (bytes ''2016010500000007'')" by simp
  have a: "ConnectionPool_getConnection demo_E (ext demo_world) = (Some 1, demo_state\<lparr>ref_free := [2]\<rparr>)"
    by (simp add: ref_externals_def)
  have b: "Connection_executeQuery demo_E 1 SQL_SELECT_RELATIONSHIP_LIST [] (demo_state\<lparr>ref_free := [2]\<rparr>) =
      Some (Some (map (\<lambda>(u, d). [Some u, Some d]) [(bytes ''7'', bytes ''2016010500000007'')]),
        demo_state\<lparr>ref_free := [2], ref_log := [(SQL_SELECT_RELATIONSHIP_LIST, [])]\<rparr>)"
    by (simp add: ref_externals_def demo_state_def)
  show ?thesis
    using worker_agrees_with_loader [OF ref_backend.backend_axioms ref_json.json_library_axioms _ a b] row by simp
qed

text \<open>C37. In the configuration with the own pool of MySQL connections each of the five operations
  that returns keeps the connection it took, whatever it reports: from a fresh pool at most fifty
  operations return, and when fifty have, the next one whose statement fits its buffer is still
  waiting for a connection after any number of turns of its loop, so that it never returns and no
  operation behind it is reached.\<close>
theorem own_pool_is_exhausted:
  assumes "init_mysql_pool M malloc_ok None e = Some (r, p, e')"
    and "run_ops n M E ops p w = Returns (rs, p', w')"
  shows "in_use p' = length ops \<and> length ops \<le> 50
    \<and> (length ops = 50 \<longrightarrow> (\<forall>x more k. op_statement x \<noteq> None \<longrightarrow>
        run_op k M E x p' w' = Waiting \<and> run_ops n M E (ops @ x # more) p w = Waiting))"
proof -
  have p: "pool_ok p" "in_use p = 0" using init_pool_ok [OF assms(1)] by auto
  note keep = run_ops_keep [OF assms(2) p(1)]
  have "run_op k M E x p' w' = Waiting" if "length ops = 50" "op_statement x \<noteq> None" for k x
    using keep p(2) that by (intro run_op_waits) simp_all
  then show ?thesis
    using keep p run_ops_at_most [OF assms(2) p(1)] run_ops_go_on [OF assms(2)] by simp
qed

text \<open>A library whose calls succeed: handles are numbers, and the state counts them.\<close>

definition demo_mysql :: "nat mysql" where
  "demo_mysql = \<lparr>mysql_init = (\<lambda>e. (Some e, e + 1)), mysql_real_connect = (\<lambda>h e. (True, e)),
     thread_id = (\<lambda>h e. h), mysql_query = (\<lambda>h s e. (0, e)), mysql_store_result = (\<lambda>h e. (Some [], e))\<rparr>"

theorem own_pool_is_exhausted_witness:
  "\<forall>E w. \<exists>p e' rs p' w'. init_mysql_pool demo_mysql True None 0 = Some (0, p, e')
    \<and> run_ops 1 demo_mysql E (replicate 50 (Insert_user (bytes ''ann'') (bytes ''pw''))) p w = Returns (rs, p', w')
    \<and> run_op 1000 demo_mysql E (Update_password (bytes ''ann'') (bytes ''pw'')) p' w' = Waiting"
proof (intro allI)
  fix E and w :: "nat world"
  let ?close = "\<lparr>Conn = None, Status = CONNECT_CLOSE\<rparr>" and ?ops = "replicate 50 (Insert_user (bytes ''ann'') (bytes ''pw''))"
  have all: "all_open (fst (init_items demo_mysql (replicate k ?close) e))" for k e
    by (induction k arbitrary: e) (auto simp: all_open_def demo_mysql_def connect_slot_def split_def Let_def)
  obtain its e' where its: "init_items demo_mysql (replicate 50 ?close) 0 = (its, e')" by (metis surj_pair)
  then have i: "init_mysql_pool demo_mysql True None 0 = Some (0, \<lparr>ConnQueue = its, PoolLock = False\<rparr>, e')"
    by (simp add: init_mysql_pool_def getMySqlConnectionPool_Instance_def)
  have fit: "pool_statement SQL_INSERT_USER [bytes ''ann'', bytes ''pw''] \<noteq> None"
    "op_statement (Update_password (bytes ''ann'') (bytes ''pw'')) \<noteq> None" by code_simp+
  have "all_open its" using all [of 50 0] by (simp add: its)
  then obtain rs p' w' where r: "run_ops 1 demo_mysql E ?ops \<lparr>ConnQueue = its, PoolLock = False\<rparr> w = Returns (rs, p', w')"
    using inserts_return [where n = 0 and k = 50 and p = "\<lparr>ConnQueue = its, PoolLock = False\<rparr>"] init_pool_ok [OF i] fit(1) by fastforce
  from own_pool_is_exhausted [OF i r] fit(2) i r
  show "\<exists>p e' rs p' w'. init_mysql_pool demo_mysql True None 0 = Some (0, p, e')
    \<and> run_ops 1 demo_mysql E ?ops p w = Returns (rs, p', w')
    \<and> run_op 1000 demo_mysql E (Update_password (bytes ''ann'') (bytes ''pw'')) p' w' = Waiting"
    by auto
qed



section \<open>The two patterns\<close>

text \<open>C39. Observers attached one after another to a subject are notified newest first, each showing the
  state of the subject under the name of its own class.\<close>
theorem newest_observer_first:
  assumes "subject_view s h []" and "\<forall>x \<in> set xs. can_update h x"
  shows "\<exists>h'. do { h1 \<leftarrow> attach_all s xs h; Notify (Some s) h1 } = Some h'
    \<and> out h' = out h @ map (shown_by s h) (rev xs)"
  using last_attached_first [OF assms(1), of xs] assms(2) by (simp add: attach_all_put notify_all_def [abs_def])

definition demo_subject :: obs_heap where
  "demo_subject = empty_heap\<lparr>subjects := [0 \<mapsto> \<lparr>obvs = Some 1, sub_st = Some ''new''\<rparr>], single_lists := [1 \<mapsto> Some 2],
     nodes := [2 \<mapsto> \<lparr>nd_data = None, nd_next = None\<rparr>], next_addr := 5,
     observers := [3 \<mapsto> \<lparr>obs_of = ChatObserver, obs_st = None, obs_sub = Some 0\<rparr>,
       4 \<mapsto> \<lparr>obs_of = SheetObserver, obs_st = None, obs_sub = Some 0\<rparr>]\<rparr>"

theorem newest_observer_first_witness:
  "\<exists>h'. do { h1 \<leftarrow> attach_all 0 [3, 4] demo_subject; Notify (Some 0) h1 } = Some h'
    \<and> out h' = [(''sheetObserver'', ''new''), (''ChatObserver'', ''new'')]"
proof -
  have "subject_view 0 demo_subject []"
    by (auto simp: subject_view_def attached_def obs_wf_def demo_subject_def empty_heap_def)
  moreover have "\<forall>x \<in> set [3, 4]. can_update demo_subject x"
    by (simp add: can_update_def demo_subject_def observer_class_def)
  ultimately show ?thesis
    using newest_observer_first [of 0 demo_subject "[3, 4]"]
    by (simp add: shown_by_def class_label_def demo_subject_def empty_heap_def)
qed

text \<open>C40. A request at the head of a chain of handles is dealt with by the first handle whose class has it in
  its range, or by none; in the chain of the three classes every request that is not negative is
  dealt with.\<close>
theorem first_class_deals:
  assumes "chain h (Some a) cs"
  shows "HandleRequest (Some a) r h = Some [deal (map snd cs) r]
    \<and> (map snd cs = [ConcreteHandleA, ConcreteHandleB, ConcreteHandleC] \<and> 0 \<le> r \<longrightarrow>
        (\<exists>c. HandleRequest (Some a) r h = Some [Deal_with c r] \<and> in_range c r))"
  using chain_deals [OF assms, of r] by (simp add: HandleRequest_def deal_in_range in_range_def)

definition demo_chain :: handle_heap where
  "demo_chain = \<lparr>handles = [0 \<mapsto> \<lparr>class_ptr = ConcreteHandleA, succ = Some 1\<rparr>,
     1 \<mapsto> \<lparr>class_ptr = ConcreteHandleB, succ = Some 2\<rparr>, 2 \<mapsto> \<lparr>class_ptr = ConcreteHandleC, succ = None\<rparr>], next_handle = 3\<rparr>"

theorem first_class_deals_witness:
  "HandleRequest (Some 0) 800 demo_chain = Some [Deal_with ConcreteHandleB 800]"
  using first_class_deals [of demo_chain 0 "[(0, ConcreteHandleA), (1, ConcreteHandleB), (2, ConcreteHandleC)]" 800]
  by (simp add: demo_chain_def deal_in_range)

end
